(* ===== verification/Recovery_Prelude.thy ===== *)
theory Recovery_Prelude
  imports Main "HOL-Library.Word" "HOL-Library.Char_ord" "HOL-Library.List_Lexorder"
begin

text \<open>
  Shared vocabulary of the development: the machine types of the ILP32 target the recovery
  image is built for, C strings and the parts of libc the sources rely on (\<open>strcmp\<close>,
  \<open>strstr\<close>, \<open>strtol\<close>, decimal printing), and generic lemmas on lists and words.

  A C string is the list of its characters without the terminating NUL. Undefined behaviour
  (a read outside an array, for instance) is the value \<open>None\<close> of an \<open>option\<close> result, so
  that a statement that a function does not return \<open>None\<close> says it performs none.
\<close>

section \<open>Collections of facts\<close>

named_theorems run_simps \<open>rewriting of the outcome of a stateful computation\<close>
named_theorems codec_simps \<open>encoders and decoders of fixed-width integers\<close>

section \<open>Machine types\<close>

type_synonym byte = "8 word"
type_synonym u16 = "16 word"
type_synonym u32 = "32 word"
type_synonym u64 = "64 word"

definition PATH_MAX :: nat where
  "PATH_MAX = 4096"

definition LONG_MAX :: int where
  "LONG_MAX = 2147483647"

definition LONG_MIN :: int where
  "LONG_MIN = - 2147483648"

text \<open>The value a 32-bit signed object holds after an arithmetic result \<open>x\<close> is stored in it.\<close>

definition int32 :: "int \<Rightarrow> int" where
  "int32 x = signed_take_bit 31 x"

lemma int32_id: "LONG_MIN \<le> x \<Longrightarrow> x \<le> LONG_MAX \<Longrightarrow> int32 x = x"
  by (simp add: int32_def LONG_MIN_def LONG_MAX_def signed_take_bit_int_eq_self)

lemma int32_range: "LONG_MIN \<le> int32 x \<and> int32 x \<le> LONG_MAX"
  using signed_take_bit_int_greater_eq_minus_exp [of 31 x]
    signed_take_bit_int_less_exp [of 31 x]
  by (simp add: int32_def LONG_MIN_def LONG_MAX_def)

text \<open>The return codes of \<open>zlib\<close> the sources test for.\<close>

definition Z_OK :: int where "Z_OK = 0"
definition Z_STREAM_END :: int where "Z_STREAM_END = 1"

lemma Z_codes_differ [simp]: "Z_OK \<noteq> Z_STREAM_END" "Z_STREAM_END \<noteq> Z_OK"
  by (simp_all add: Z_OK_def Z_STREAM_END_def)

section \<open>Computations that may be undefined\<close>

text \<open>
  A call returns \<open>Some (result, state)\<close>, or \<open>None\<close> where its behaviour is undefined.
  \<open>then_run\<close> is the sequencing \<^verbatim>\<open>x = f(); ...\<close> of the sources.
\<close>

type_synonym ('a, 's) run = "'s \<Rightarrow> ('a \<times> 's) option"

definition then_run :: "('a \<times> 's) option \<Rightarrow> ('a \<Rightarrow> 's \<Rightarrow> ('b \<times> 's) option) \<Rightarrow> ('b \<times> 's) option" where
  "then_run m f = (case m of None \<Rightarrow> None | Some (x, s) \<Rightarrow> f x s)"

lemma then_run_None [simp, run_simps]: "then_run None f = None"
  by (simp add: then_run_def)

lemma then_run_Some [simp, run_simps]: "then_run (Some (x, s)) f = f x s"
  by (simp add: then_run_def)

lemma then_run_eq_Some_iff:
  "then_run m f = Some r \<longleftrightarrow> (\<exists>x s. m = Some (x, s) \<and> f x s = Some r)"
  by (cases m) auto

lemma then_run_not_None:
  "m \<noteq> None \<Longrightarrow> (\<And>x s. m = Some (x, s) \<Longrightarrow> f x s \<noteq> None) \<Longrightarrow> then_run m f \<noteq> None"
  by (cases m) auto

section \<open>C strings\<close>

text \<open>\<open>strcmp\<close>: only the sign of the result is specified; characters compare as unsigned.\<close>

fun strcmp :: "string \<Rightarrow> string \<Rightarrow> int" where
  "strcmp [] [] = 0"
| "strcmp [] (d # ds) = - 1"
| "strcmp (c # cs) [] = 1"
| "strcmp (c # cs) (d # ds) = (if c = d then strcmp cs ds else if c < d then - 1 else 1)"

lemma strcmp_eq_0 [simp]: "strcmp a b = 0 \<longleftrightarrow> a = b"
  by (induction a b rule: strcmp.induct) auto

lemma strcmp_less_0 [simp]: "strcmp a b < 0 \<longleftrightarrow> a < b"
  by (induction a b rule: strcmp.induct) auto

lemma strcmp_greater_0 [simp]: "0 < strcmp a b \<longleftrightarrow> b < a"
  by (induction a b rule: strcmp.induct) auto

text \<open>\<open>strstr haystack needle \<noteq> NULL\<close>.\<close>

fun strstr :: "string \<Rightarrow> string \<Rightarrow> bool" where
  "strstr [] n = (n = [])"
| "strstr (c # cs) n = (take (length n) (c # cs) = n \<or> strstr cs n)"

lemma strstr_iff: "strstr h n \<longleftrightarrow> (\<exists>p s. h = p @ n @ s)"
proof (induction h)
  case Nil
  then show ?case by simp
next
  case (Cons c cs)
  show ?case
  proof
    assume "strstr (c # cs) n"
    then consider "take (length n) (c # cs) = n" | "strstr cs n" by auto
    then show "\<exists>p s. c # cs = p @ n @ s"
    proof cases
      case 1
      then have "c # cs = [] @ n @ drop (length n) (c # cs)"
        by (metis append_Nil append_take_drop_id)
      then show ?thesis by blast
    next
      case 2
      with Cons.IH obtain p s where "cs = p @ n @ s" by blast
      then have "c # cs = (c # p) @ n @ s" by simp
      then show ?thesis by blast
    qed
  next
    assume "\<exists>p s. c # cs = p @ n @ s"
    then obtain p s where eq: "c # cs = p @ n @ s" by blast
    show "strstr (c # cs) n"
    proof (cases p)
      case Nil
      with eq have "take (length n) (c # cs) = n" by simp
      then show ?thesis by simp
    next
      case (Cons d ds)
      with eq have "cs = ds @ n @ s" by simp
      with Cons.IH show ?thesis by auto
    qed
  qed
qed

definition isspace :: "char \<Rightarrow> bool" where
  "isspace c \<longleftrightarrow> c = CHR '' '' \<or> (9 \<le> (of_char c :: nat) \<and> (of_char c :: nat) \<le> 13)"

definition isdigit :: "char \<Rightarrow> bool" where
  "isdigit c \<longleftrightarrow> 48 \<le> (of_char c :: nat) \<and> (of_char c :: nat) \<le> 57"

definition digit_val :: "char \<Rightarrow> int" where
  "digit_val c = of_char c - 48"

definition dec_val :: "string \<Rightarrow> int" where
  "dec_val ds = foldl (\<lambda>a d. 10 * a + digit_val d) 0 ds"

text \<open>
  \<open>strtol(s, &end, 10)\<close> with a 32-bit \<open>long\<close>: the value, saturated at the limits of the
  type, and the rest of the string \<open>end\<close> points to (the whole string when there are no
  digits).
\<close>

definition strtol_sign :: "string \<Rightarrow> bool \<times> string" where
  "strtol_sign r = (case r of [] \<Rightarrow> (False, r)
     | c # cs \<Rightarrow> if c = CHR ''-'' then (True, cs)
                 else if c = CHR ''+'' then (False, cs) else (False, r))"

definition strtol :: "string \<Rightarrow> int \<times> string" where
  "strtol s = (let (neg, r) = strtol_sign (dropWhile isspace s);
                   ds = takeWhile isdigit r;
                   v = (if neg then - dec_val ds else dec_val ds)
               in if ds = [] then (0, s)
                  else (max LONG_MIN (min LONG_MAX v), dropWhile isdigit r))"

text \<open>Decimal output of \<open>%d\<close>.\<close>

fun show_nat :: "nat \<Rightarrow> string" where
  "show_nat n = (if n < 10 then [char_of (48 + n)] else show_nat (n div 10) @ [char_of (48 + n mod 10)])"

declare show_nat.simps [simp del]

definition show_int :: "int \<Rightarrow> string" where
  "show_int x = (if x < 0 then CHR ''-'' # show_nat (nat (- x)) else show_nat (nat x))"

lemma of_char_digit: "d < 10 \<Longrightarrow> of_char (char_of (48 + d) :: char) = (48 + d :: nat)"
  by (simp add: take_bit_nat_eq_self)

lemma isdigit_char_of [simp]: "d < 10 \<Longrightarrow> isdigit (char_of (48 + d :: nat))"
  by (simp add: isdigit_def of_char_digit)

lemma digit_val_char_of [simp]: "d < 10 \<Longrightarrow> digit_val (char_of (48 + d :: nat)) = int d"
proof -
  assume d: "d < 10"
  have "(of_char c :: int) = int (of_char c)" for c
    by (cases c) simp
  with of_char_digit [OF d] show ?thesis by (simp add: digit_val_def)
qed

lemma dec_val_snoc: "dec_val (ds @ [d]) = 10 * dec_val ds + digit_val d"
  by (simp add: dec_val_def)

lemma show_nat_nonempty: "show_nat n \<noteq> []"
  by (subst show_nat.simps) simp

lemma show_nat_digits: "\<forall>c \<in> set (show_nat n). isdigit c"
proof (induction n rule: show_nat.induct)
  case (1 n)
  then show ?case by (cases "n < 10") (auto simp: show_nat.simps [of n])
qed

lemma dec_val_show_nat: "dec_val (show_nat n) = int n"
proof (induction n rule: show_nat.induct)
  case (1 n)
  show ?case
  proof (cases "n < 10")
    case True
    then show ?thesis by (simp add: show_nat.simps [of n] dec_val_def)
  next
    case False
    have "10 * int (n div 10) + int (n mod 10) = int n" by presburger
    with False "1.IH" show ?thesis by (simp add: show_nat.simps [of n] dec_val_snoc)
  qed
qed

lemma isdigit_not_sign_space: "isdigit c \<Longrightarrow> \<not> isspace c \<and> c \<noteq> CHR ''-'' \<and> c \<noteq> CHR ''+''"
  by (auto simp: isdigit_def isspace_def)

text \<open>Reading back what \<open>%d\<close> printed.\<close>

lemma strtol_show_nat:
  assumes "int n \<le> LONG_MAX"
  shows "strtol (show_nat n) = (int n, [])"
proof -
  obtain c cs where s: "show_nat n = c # cs"
    using show_nat_nonempty by (cases "show_nat n") auto
  have dig: "\<forall>x \<in> set (show_nat n). isdigit x" by (rule show_nat_digits)
  with s have c: "\<not> isspace c" "c \<noteq> CHR ''-''" "c \<noteq> CHR ''+''"
    using isdigit_not_sign_space by auto
  from dig have t: "takeWhile isdigit (show_nat n) = show_nat n"
    and d: "dropWhile isdigit (show_nat n) = []"
    by (auto simp: takeWhile_eq_all_conv dropWhile_eq_Nil_conv)
  have "strtol_sign (dropWhile isspace (show_nat n)) = (False, show_nat n)"
    using s c by (simp add: strtol_sign_def)
  then show ?thesis using assms
    by (simp add: strtol_def Let_def t d show_nat_nonempty dec_val_show_nat LONG_MIN_def)
qed

section \<open>Lists\<close>

text \<open>The slice \<open>[i, i + n)\<close> of an array, as a \<open>memcpy\<close> out of it reads.\<close>

definition slice :: "nat \<Rightarrow> nat \<Rightarrow> 'a list \<Rightarrow> 'a list" where
  "slice i n xs = take n (drop i xs)"

lemma length_slice [simp]: "length (slice i n xs) = min n (length xs - i)"
  by (simp add: slice_def)

lemma slice_append_left: "i + n \<le> length xs \<Longrightarrow> slice i n (xs @ ys) = slice i n xs"
  by (simp add: slice_def)

lemma slice_append_right: "slice (length xs) n (xs @ ys) = take n ys"
  by (simp add: slice_def)

lemma slice_all [simp]: "slice 0 (length xs) xs = xs"
  by (simp add: slice_def)

lemma slice_nth: "i + k < length xs \<Longrightarrow> k < n \<Longrightarrow> slice i n xs ! k = xs ! (i + k)"
  by (simp add: slice_def)

lemma slice_split: "k \<le> n \<Longrightarrow> slice i k xs @ slice (i + k) (n - k) xs = slice i n xs"
  using take_add [of k "n - k" "drop i xs"] by (simp add: slice_def add.commute)

lemma find_append:
  "List.find P (xs @ ys) = (case List.find P xs of None \<Rightarrow> List.find P ys | Some x \<Rightarrow> Some x)"
  by (induction xs) auto

section \<open>Searching a sorted array\<close>

text \<open>
  \<open>bsearch\<close> of libc over the keys of an array: \<open>lim\<close> elements starting at \<open>base\<close> are left;
  the result is the index of a match.
\<close>

function bsearch :: "('k \<Rightarrow> 'k \<Rightarrow> int) \<Rightarrow> 'k \<Rightarrow> 'k list \<Rightarrow> nat \<Rightarrow> nat \<Rightarrow> nat option" where
  "bsearch cmp key ks base lim =
     (if lim = 0 then None
      else let p = base + lim div 2; c = cmp key (ks ! p)
           in if c = 0 then Some p
              else if 0 < c then bsearch cmp key ks (p + 1) ((lim - 1) div 2)
              else bsearch cmp key ks base (lim div 2))"
  by pat_completeness auto
termination
  by (relation "measure (\<lambda>(cmp, key, ks, base, lim). lim)") auto

declare bsearch.simps [simp del]

lemma bsearch_Some_match:
  "bsearch cmp key ks base lim = Some i \<Longrightarrow> cmp key (ks ! i) = 0 \<and> base \<le> i \<and> i < base + lim"
proof (induction cmp key ks base lim rule: bsearch.induct)
  case (1 cmp key ks base lim)
  let ?p = "base + lim div 2"
  from "1.prems" have pos: "lim \<noteq> 0"
    by (cases "lim = 0") (simp_all add: bsearch.simps [of cmp key ks base 0])
  consider "cmp key (ks ! ?p) = 0" | "0 < cmp key (ks ! ?p)" | "cmp key (ks ! ?p) < 0"
    by linarith
  then show ?case
  proof cases
    case 1
    with pos "1.prems" show ?thesis by (auto simp: bsearch.simps [of cmp key ks base lim] Let_def)
  next
    case 2
    with pos "1.prems" have "bsearch cmp key ks (?p + 1) ((lim - 1) div 2) = Some i"
      by (simp add: bsearch.simps [of cmp key ks base lim] Let_def)
    from "1.IH"(1) [OF pos refl refl _ _ this] 2 show ?thesis by (simp, linarith)
  next
    case 3
    with pos "1.prems" have "bsearch cmp key ks base (lim div 2) = Some i"
      by (simp add: bsearch.simps [of cmp key ks base lim] Let_def)
    from "1.IH"(2) [OF pos refl refl _ _ this] 3 show ?thesis by (simp, linarith)
  qed
qed

lemma bsearch_strcmp_finds:
  assumes srt: "\<And>a b. a < b \<Longrightarrow> b < n \<Longrightarrow> ks ! a < ks ! b" and j: "ks ! j = key"
  shows "base + lim \<le> n \<Longrightarrow> base \<le> j \<Longrightarrow> j < base + lim \<Longrightarrow>
    bsearch strcmp key ks base lim = Some j"
proof (induction lim arbitrary: base rule: less_induct)
  case (less lim)
  let ?p = "base + lim div 2"
  have p: "?p < n" using less.prems by auto
  consider "j = ?p" | "?p < j" | "j < ?p" by linarith
  then show ?case
  proof cases
    case 1
    with j less.prems show ?thesis by (simp add: bsearch.simps [of _ _ _ base lim] Let_def)
  next
    case 2
    with srt j less.prems have "ks ! ?p < key" by force
    with 2 less.prems less.IH [of "(lim - 1) div 2" "?p + 1"] show ?thesis
      by (force simp: bsearch.simps [of _ _ _ base lim] Let_def)
  next
    case 3
    with srt p j have "key < ks ! ?p" by force
    then have "\<not> 0 < strcmp key (ks ! ?p)" "strcmp key (ks ! ?p) \<noteq> 0" by auto
    with 3 less.prems less.IH [of "lim div 2" base] show ?thesis
      by (force simp: bsearch.simps [of _ _ _ base lim] Let_def)
  qed
qed

end
