(* ===== verification/Edify.thy ===== *)
theory Edify
  imports Recovery_Prelude "HOL-Library.Multiset"
begin

text \<open>
  The evaluator of the edify scripting language (\<^verbatim>\<open>edify/expr.c\<close>, \<^verbatim>\<open>edify/expr.h\<close>): values,
  expressions, the builtin functions, the table of named functions and the argument readers.

  A function of the language receives its arguments unevaluated and evaluates those it needs,
  so an argument is a record holding the computation \<open>EvaluateValue(state, argv[i])\<close> together
  with the source range of the expression. Function pointers are the type \<open>'f\<close> of an
  expression; \<open>call\<close> gives each pointer its function. A result \<open>None\<close> is undefined behaviour
  (an access past \<open>argv\<close> or outside the script), \<open>Some (None, st)\<close> is the \<open>NULL\<close> the functions
  return on an abort. Ownership and release of the heap cells is not modelled.
\<close>

section \<open>Values, state, arguments\<close>

definition VAL_STRING :: int where
  "VAL_STRING = 1"

definition VAL_BLOB :: int where
  "VAL_BLOB = 2"

record Value =
  vtype :: int
  vsize :: int
  vdata :: string

datatype effect = Stdout string | Stderr string | Sleep u32

record 'c State =
  cookie :: 'c
  script :: string
  errmsg :: "string option"
  effects :: "effect list"

record 'c arg =
  arg_eval :: "'c State \<Rightarrow> (Value option \<times> 'c State) option"
  arg_start :: int
  arg_end :: int

type_synonym 'c Function = "string \<Rightarrow> 'c arg list \<Rightarrow> (Value option, 'c State) run"

datatype 'f Expr = Expr (fn: 'f) (expr_name: string) (argv: "'f Expr list") (expr_start: int) (expr_end: int)

definition BooleanString :: "string \<Rightarrow> bool" where
  "BooleanString s \<longleftrightarrow> s \<noteq> []"

definition StringValue :: "string option \<Rightarrow> Value option" where
  "StringValue str = (case str of None \<Rightarrow> None
     | Some s \<Rightarrow> Some \<lparr>vtype = VAL_STRING, vsize = int (length s), vdata = s\<rparr>)"

lemma StringValue_None [simp]: "StringValue None = None"
  by (simp add: StringValue_def)

text \<open>\<open>vsnprintf\<close> into a 4096-byte buffer keeps at most 4095 characters.\<close>

definition ErrorAbort :: "'c State \<Rightarrow> string \<Rightarrow> 'c State" where
  "ErrorAbort st msg = st\<lparr>errmsg := Some (take 4095 msg)\<rparr>"

definition Evaluate :: "'c arg \<Rightarrow> (string option, 'c State) run" where
  "Evaluate a st =
     then_run (arg_eval a st) (\<lambda>v st.
       case v of None \<Rightarrow> Some (None, st)
       | Some v \<Rightarrow>
           if vtype v \<noteq> VAL_STRING
           then Some (None, ErrorAbort st (''expecting string, got value type '' @ show_int (vtype v)))
           else Some (Some (vdata v), st))"

text \<open>\<open>Evaluate(state, argv[i])\<close> and \<open>EvaluateValue(state, argv[i])\<close>.\<close>

definition EvaluateAt :: "'c arg list \<Rightarrow> nat \<Rightarrow> (string option, 'c State) run" where
  "EvaluateAt args i st = (if i < length args then Evaluate (args ! i) st else None)"

definition EvaluateValueAt :: "'c arg list \<Rightarrow> nat \<Rightarrow> (Value option, 'c State) run" where
  "EvaluateValueAt args i st = (if i < length args then arg_eval (args ! i) st else None)"

section \<open>Reading arguments\<close>

text \<open>The loop of the four readers: evaluate \<open>count\<close> arguments in order, stop at the first \<open>NULL\<close>.\<close>

fun read_loop :: "('c arg \<Rightarrow> ('v option, 'c State) run) \<Rightarrow> nat \<Rightarrow> 'c arg list \<Rightarrow> ('v list option, 'c State) run" where
  "read_loop ev 0 args st = Some (Some [], st)"
| "read_loop ev (Suc n) [] st = None"
| "read_loop ev (Suc n) (a # as) st =
     then_run (ev a st) (\<lambda>v st.
       case v of None \<Rightarrow> Some (None, st)
       | Some x \<Rightarrow> then_run (read_loop ev n as st) (\<lambda>r st. Some (map_option (Cons x) r, st)))"

definition ReadArgs :: "nat \<Rightarrow> 'c arg list \<Rightarrow> (string list option, 'c State) run" where
  "ReadArgs cnt args st = read_loop Evaluate cnt args st"

definition ReadValueArgs :: "nat \<Rightarrow> 'c arg list \<Rightarrow> (Value list option, 'c State) run" where
  "ReadValueArgs cnt args st = read_loop arg_eval cnt args st"

definition ReadVarArgs :: "'c arg list \<Rightarrow> (string list option, 'c State) run" where
  "ReadVarArgs args st = read_loop Evaluate (length args) args st"

definition ReadValueVarArgs :: "'c arg list \<Rightarrow> (Value list option, 'c State) run" where
  "ReadValueVarArgs args st = read_loop arg_eval (length args) args st"

section \<open>The builtin functions\<close>

definition ConcatFn :: "'c Function" where
  "ConcatFn nm args st =
     (if length args = 0 then Some (StringValue (Some []), st)
      else then_run (read_loop Evaluate (length args) args st)
             (\<lambda>r st. Some (StringValue (map_option concat r), st)))"

definition IfElseFn :: "'c Function" where
  "IfElseFn nm args st =
     (if length args \<noteq> 2 \<and> length args \<noteq> 3
      then Some (None, st\<lparr>errmsg := Some ''ifelse expects 2 or 3 arguments''\<rparr>)
      else then_run (EvaluateAt args 0 st) (\<lambda>cond st.
        case cond of None \<Rightarrow> Some (None, st)
        | Some c \<Rightarrow>
            if BooleanString c then EvaluateValueAt args 1 st
            else if length args = 3 then EvaluateValueAt args 2 st
            else Some (StringValue (Some c), st)))"

definition AbortFn :: "'c Function" where
  "AbortFn nm args st =
     then_run (if 0 < length args then EvaluateAt args 0 st else Some (None, st)) (\<lambda>msg st.
       Some (None, st\<lparr>errmsg := Some (case msg of Some m \<Rightarrow> m | None \<Rightarrow> ''called abort()'')\<rparr>))"

text \<open>
  The message of a failed assertion copies the source range of the argument; a range that is
  not one of the script would be read out of bounds.
\<close>

definition assert_source :: "'c State \<Rightarrow> 'c arg \<Rightarrow> string option" where
  "assert_source st a =
     (if 0 \<le> arg_start a \<and> arg_start a \<le> arg_end a \<and> arg_end a \<le> int (length (script st))
      then Some (slice (nat (arg_start a)) (nat (arg_end a - arg_start a)) (script st))
      else None)"

fun assert_loop :: "'c arg list \<Rightarrow> (Value option, 'c State) run" where
  "assert_loop [] st = Some (StringValue (Some []), st)"
| "assert_loop (a # as) st =
     then_run (Evaluate a st) (\<lambda>v st.
       case v of None \<Rightarrow> Some (None, st)
       | Some s \<Rightarrow>
           if BooleanString s then assert_loop as st
           else (case assert_source st a of
                   None \<Rightarrow> None
                 | Some src \<Rightarrow> Some (None, st\<lparr>errmsg := Some (''assert failed: '' @ src)\<rparr>)))"

definition AssertFn :: "'c Function" where
  "AssertFn nm args st = assert_loop args st"

definition SleepFn :: "'c Function" where
  "SleepFn nm args st =
     then_run (EvaluateAt args 0 st) (\<lambda>val st.
       case val of None \<Rightarrow> Some (None, st)
       | Some s \<Rightarrow> Some (StringValue (Some s),
                         st\<lparr>effects := effects st @ [Sleep (word_of_int (fst (strtol s)))]\<rparr>))"

fun stdout_loop :: "'c arg list \<Rightarrow> (Value option, 'c State) run" where
  "stdout_loop [] st = Some (StringValue (Some []), st)"
| "stdout_loop (a # as) st =
     then_run (Evaluate a st) (\<lambda>v st.
       case v of None \<Rightarrow> Some (None, st)
       | Some s \<Rightarrow> stdout_loop as (st\<lparr>effects := effects st @ [Stdout s]\<rparr>))"

definition StdoutFn :: "'c Function" where
  "StdoutFn nm args st = stdout_loop args st"

definition LogicalAndFn :: "'c Function" where
  "LogicalAndFn nm args st =
     then_run (EvaluateAt args 0 st) (\<lambda>left st.
       case left of None \<Rightarrow> Some (None, st)
       | Some l \<Rightarrow> if BooleanString l then EvaluateValueAt args 1 st
                   else Some (StringValue (Some l), st))"

definition LogicalOrFn :: "'c Function" where
  "LogicalOrFn nm args st =
     then_run (EvaluateAt args 0 st) (\<lambda>left st.
       case left of None \<Rightarrow> Some (None, st)
       | Some l \<Rightarrow> if \<not> BooleanString l then EvaluateValueAt args 1 st
                   else Some (StringValue (Some l), st))"

definition LogicalNotFn :: "'c Function" where
  "LogicalNotFn nm args st =
     then_run (EvaluateAt args 0 st) (\<lambda>val st.
       case val of None \<Rightarrow> Some (None, st)
       | Some s \<Rightarrow> Some (StringValue (Some (if BooleanString s then [] else ''t'')), st))"

text \<open>The three functions that evaluate two strings and compare them.\<close>

definition SubstringFn :: "'c Function" where
  "SubstringFn nm args st =
     then_run (EvaluateAt args 0 st) (\<lambda>needle st.
       case needle of None \<Rightarrow> Some (None, st)
       | Some n \<Rightarrow> then_run (EvaluateAt args 1 st) (\<lambda>haystack st.
           case haystack of None \<Rightarrow> Some (None, st)
           | Some h \<Rightarrow> Some (StringValue (Some (if strstr h n then ''t'' else [])), st)))"

definition EqualityFn :: "'c Function" where
  "EqualityFn nm args st =
     then_run (EvaluateAt args 0 st) (\<lambda>left st.
       case left of None \<Rightarrow> Some (None, st)
       | Some l \<Rightarrow> then_run (EvaluateAt args 1 st) (\<lambda>right st.
           case right of None \<Rightarrow> Some (None, st)
           | Some r \<Rightarrow> Some (StringValue (Some (if strcmp l r = 0 then ''t'' else [])), st)))"

definition InequalityFn :: "'c Function" where
  "InequalityFn nm args st =
     then_run (EvaluateAt args 0 st) (\<lambda>left st.
       case left of None \<Rightarrow> Some (None, st)
       | Some l \<Rightarrow> then_run (EvaluateAt args 1 st) (\<lambda>right st.
           case right of None \<Rightarrow> Some (None, st)
           | Some r \<Rightarrow> Some (StringValue (Some (if strcmp l r \<noteq> 0 then ''t'' else [])), st)))"

definition SequenceFn :: "'c Function" where
  "SequenceFn nm args st =
     then_run (EvaluateValueAt args 0 st) (\<lambda>left st.
       case left of None \<Rightarrow> Some (None, st) | Some _ \<Rightarrow> EvaluateValueAt args 1 st)"

text \<open>\<open>left[0] == 0 || *end != 0\<close> after \<open>strtol\<close>: the string is not an integer.\<close>

definition read_int :: "string \<Rightarrow> int option" where
  "read_int s = (let (v, rest) = strtol s in if s = [] \<or> rest \<noteq> [] then None else Some v)"

definition not_an_int :: "string \<Rightarrow> 'c State \<Rightarrow> 'c State" where
  "not_an_int s st = st\<lparr>effects := effects st @ [Stderr (''['' @ s @ ''] is not an int\<newline>'')]\<rparr>"

definition LessThanIntFn :: "'c Function" where
  "LessThanIntFn nm args st =
     (if length args \<noteq> 2
      then Some (None, st\<lparr>errmsg := Some ''less_than_int expects 2 arguments''\<rparr>)
      else then_run (ReadArgs 2 args st) (\<lambda>r st.
        case r of None \<Rightarrow> Some (None, st)
        | Some lr \<Rightarrow>
            let left = lr ! 0; right = lr ! 1
            in case read_int left of
                 None \<Rightarrow> Some (StringValue (Some []), not_an_int left st)
               | Some l_int \<Rightarrow>
                   (case read_int right of
                      None \<Rightarrow> Some (StringValue (Some []), not_an_int right st)
                    | Some r_int \<Rightarrow> Some (StringValue (Some (if l_int < r_int then ''t'' else [])), st))))"

definition GreaterThanIntFn :: "'c Function" where
  "GreaterThanIntFn nm args st =
     (if length args \<noteq> 2
      then Some (None, st\<lparr>errmsg := Some ''greater_than_int expects 2 arguments''\<rparr>)
      else LessThanIntFn nm [args ! 1, args ! 0] st)"

definition Literal :: "'c Function" where
  "Literal nm args st = Some (StringValue (Some nm), st)"

section \<open>Function pointers and evaluation\<close>

text \<open>
  The pointers the parser and \<open>RegisterBuiltins\<close> store; \<open>PExt\<close> stands for the functions an
  application registers (\<^verbatim>\<open>updater/install.c\<close>).
\<close>

datatype 'x fnptr =
    PLiteral | PConcatFn | PIfElseFn | PAbortFn | PAssertFn | PSleepFn | PStdoutFn
  | PLogicalAndFn | PLogicalOrFn | PLogicalNotFn | PSubstringFn | PEqualityFn | PInequalityFn
  | PSequenceFn | PLessThanIntFn | PGreaterThanIntFn | PExt 'x

fun call_fn :: "('x \<Rightarrow> 'c Function) \<Rightarrow> 'x fnptr \<Rightarrow> 'c Function" where
  "call_fn ext PLiteral = Literal"
| "call_fn ext PConcatFn = ConcatFn"
| "call_fn ext PIfElseFn = IfElseFn"
| "call_fn ext PAbortFn = AbortFn"
| "call_fn ext PAssertFn = AssertFn"
| "call_fn ext PSleepFn = SleepFn"
| "call_fn ext PStdoutFn = StdoutFn"
| "call_fn ext PLogicalAndFn = LogicalAndFn"
| "call_fn ext PLogicalOrFn = LogicalOrFn"
| "call_fn ext PLogicalNotFn = LogicalNotFn"
| "call_fn ext PSubstringFn = SubstringFn"
| "call_fn ext PEqualityFn = EqualityFn"
| "call_fn ext PInequalityFn = InequalityFn"
| "call_fn ext PSequenceFn = SequenceFn"
| "call_fn ext PLessThanIntFn = LessThanIntFn"
| "call_fn ext PGreaterThanIntFn = GreaterThanIntFn"
| "call_fn ext (PExt x) = ext x"

fun EvaluateValue :: "('f \<Rightarrow> 'c Function) \<Rightarrow> 'f Expr \<Rightarrow> (Value option, 'c State) run" where
  "EvaluateValue call (Expr f nm args s e) =
     call f nm (map (\<lambda>a. \<lparr>arg_eval = EvaluateValue call a, arg_start = expr_start a,
                          arg_end = expr_end a\<rparr>) args)"

definition arg_of :: "('f \<Rightarrow> 'c Function) \<Rightarrow> 'f Expr \<Rightarrow> 'c arg" where
  "arg_of call e = \<lparr>arg_eval = EvaluateValue call e, arg_start = expr_start e, arg_end = expr_end e\<rparr>"

definition Build :: "'f \<Rightarrow> int \<times> int \<Rightarrow> 'f Expr list \<Rightarrow> 'f Expr" where
  "Build f loc args = Expr f ''(operator)'' args (fst loc) (snd loc)"

section \<open>The table of named functions\<close>

text \<open>
  The array grows by \<open>realloc\<close>; \<open>None\<close> is a slot that has not been written. A write past the
  array is undefined.
\<close>

record 'f fn_tab =
  fn_entries :: nat
  fn_size :: nat
  fn_table :: "(string \<times> 'f) option list"

definition empty_table :: "'f fn_tab" where
  "empty_table = \<lparr>fn_entries = 0, fn_size = 0, fn_table = []\<rparr>"

definition RegisterFunction :: "string \<Rightarrow> 'f \<Rightarrow> 'f fn_tab \<Rightarrow> 'f fn_tab option" where
  "RegisterFunction nm f t =
     (let t = (if fn_size t \<le> fn_entries t
               then t\<lparr>fn_size := fn_size t * 2 + 1,
                      fn_table := fn_table t @ replicate (fn_size t + 1) None\<rparr>
               else t)
      in if fn_entries t < length (fn_table t)
         then Some (t\<lparr>fn_table := (fn_table t)[fn_entries t := Some (nm, f)],
                      fn_entries := fn_entries t + 1\<rparr>)
         else None)"

definition FinishRegistration :: "'f fn_tab \<Rightarrow> 'f fn_tab" where
  "FinishRegistration t =
     t\<lparr>fn_table := sort_key (\<lambda>x. fst (the x)) (take (fn_entries t) (fn_table t))
                   @ drop (fn_entries t) (fn_table t)\<rparr>"

definition FindFunction :: "'f fn_tab \<Rightarrow> string \<Rightarrow> 'f option" where
  "FindFunction t nm =
     (case bsearch strcmp nm (map (\<lambda>x. fst (the x)) (fn_table t)) 0 (fn_entries t) of
        None \<Rightarrow> None
      | Some i \<Rightarrow> Some (snd (the (fn_table t ! i))))"

fun register_all :: "(string \<times> 'f) list \<Rightarrow> 'f fn_tab \<Rightarrow> 'f fn_tab option" where
  "register_all [] t = Some t"
| "register_all ((nm, f) # fs) t = (case RegisterFunction nm f t of None \<Rightarrow> None | Some t' \<Rightarrow> register_all fs t')"

definition builtins :: "(string \<times> 'x fnptr) list" where
  "builtins = [(''ifelse'', PIfElseFn), (''abort'', PAbortFn), (''assert'', PAssertFn),
     (''concat'', PConcatFn), (''is_substring'', PSubstringFn), (''stdout'', PStdoutFn),
     (''sleep'', PSleepFn), (''less_than_int'', PLessThanIntFn),
     (''greater_than_int'', PGreaterThanIntFn)]"

definition RegisterBuiltins :: "'x fnptr fn_tab \<Rightarrow> 'x fnptr fn_tab option" where
  "RegisterBuiltins t = register_all builtins t"

section \<open>Evaluation neither faults nor fails silently\<close>

text \<open>
  What a caller of \<open>EvaluateValue\<close> and \<open>Evaluate\<close> relies on: the call returns, leaves the script
  alone, and a \<open>NULL\<close> result comes with a message in \<open>errmsg\<close>.
\<close>

definition ok_result :: "string \<Rightarrow> ('v option \<times> 'c State) option \<Rightarrow> bool" where
  "ok_result s m \<longleftrightarrow> (\<exists>v st. m = Some (v, st) \<and> script st = s \<and> (v = None \<longrightarrow> errmsg st \<noteq> None))"

definition arg_ok :: "string \<Rightarrow> 'c arg \<Rightarrow> bool" where
  "arg_ok s a \<longleftrightarrow> (\<forall>st. script st = s \<longrightarrow> ok_result s (arg_eval a st)) \<and>
     0 \<le> arg_start a \<and> arg_start a \<le> arg_end a \<and> arg_end a \<le> int (length s)"

lemma ok_SomeI [intro]: "script st = s \<Longrightarrow> (v = None \<Longrightarrow> errmsg st \<noteq> None) \<Longrightarrow> ok_result s (Some (v, st))"
  by (auto simp: ok_result_def)

lemma ok_StringValue [intro]: "script st = s \<Longrightarrow> ok_result s (Some (StringValue (Some x), st))"
  by (auto simp: ok_result_def StringValue_def)

lemma ok_then:
  assumes "ok_result s m" and "\<And>x st. script st = s \<Longrightarrow> ok_result s (f x st)"
  shows "ok_result s (then_run m (\<lambda>v st. case v of None \<Rightarrow> Some (None, st) | Some x \<Rightarrow> f x st))"
  using assms by (auto simp: ok_result_def split: option.splits)

lemma ok_Evaluate: "arg_ok s a \<Longrightarrow> script st = s \<Longrightarrow> ok_result s (Evaluate a st)"
  unfolding Evaluate_def by (rule ok_then) (auto simp: arg_ok_def ErrorAbort_def)

lemma ok_EvaluateAt:
  "\<forall>a \<in> set args. arg_ok s a \<Longrightarrow> i < length args \<Longrightarrow> script st = s \<Longrightarrow> ok_result s (EvaluateAt args i st)"
  by (simp add: EvaluateAt_def ok_Evaluate)

lemma ok_EvaluateValueAt:
  "\<forall>a \<in> set args. arg_ok s a \<Longrightarrow> i < length args \<Longrightarrow> script st = s \<Longrightarrow> ok_result s (EvaluateValueAt args i st)"
  by (simp add: EvaluateValueAt_def arg_ok_def)

lemma ok_map_Some:
  "ok_result s m \<Longrightarrow> ok_result s (then_run m (\<lambda>r st. Some (map_option f r, st)))"
  by (auto simp: ok_result_def)

lemma ok_read_loop:
  assumes "\<And>a st. a \<in> set args \<Longrightarrow> script st = s \<Longrightarrow> ok_result s (ev a st)"
  shows "n \<le> length args \<Longrightarrow> script st = s \<Longrightarrow> ok_result s (read_loop ev n args st)"
  using assms
proof (induction ev n args st rule: read_loop.induct)
  case (3 ev n a as st)
  show ?case
    unfolding read_loop.simps
  proof (rule ok_then)
    show "ok_result s (ev a st)" using "3.prems" by simp
    show "ok_result s (then_run (read_loop ev n as st') (\<lambda>r st. Some (map_option ((#) x) r, st)))"
      if "script st' = s" for x st'
      by (rule ok_map_Some, rule "3.IH" [OF refl]) (use "3.prems" that in auto)
  qed
qed auto

lemma ok_assert_loop:
  "\<forall>a \<in> set args. arg_ok s a \<Longrightarrow> script st = s \<Longrightarrow> ok_result s (assert_loop args st)"
proof (induction args arbitrary: st)
  case (Cons a as)
  show ?case
    unfolding assert_loop.simps
  proof (rule ok_then)
    show "ok_result s (Evaluate a st)" using Cons.prems by (simp add: ok_Evaluate)
    fix x st'
    assume st': "script (st' :: 'a State) = s"
    from Cons.prems st' obtain src where src: "assert_source st' a = Some src"
      by (auto simp: assert_source_def arg_ok_def)
    show "ok_result s (if BooleanString x then assert_loop as st'
      else case assert_source st' a of None \<Rightarrow> None
        | Some src \<Rightarrow> Some (None, st'\<lparr>errmsg := Some (''assert failed: '' @ src)\<rparr>))"
      using Cons st' by (auto simp: src)
  qed
qed auto

lemma ok_stdout_loop:
  "\<forall>a \<in> set args. arg_ok s a \<Longrightarrow> script st = s \<Longrightarrow> ok_result s (stdout_loop args st)"
proof (induction args arbitrary: st)
  case (Cons a as)
  show ?case
    unfolding stdout_loop.simps
    by (rule ok_then) (use Cons in \<open>auto simp: ok_Evaluate\<close>)
qed auto

lemma read_loop_length:
  "read_loop ev n args st = Some (Some xs, st') \<Longrightarrow> length xs = n"
  by (induction ev n args st arbitrary: xs st' rule: read_loop.induct)
    (auto simp: then_run_eq_Some_iff split: option.splits)

text \<open>
  How many arguments each function may be called with. The operators are built by the parser
  with a fixed count; \<open>sleep\<close> and \<open>is_substring\<close> read \<open>argv[0]\<close> and \<open>argv[1]\<close> unchecked.
\<close>

fun arity :: "('x \<Rightarrow> nat \<Rightarrow> bool) \<Rightarrow> 'x fnptr \<Rightarrow> nat \<Rightarrow> bool" where
  "arity ar PSleepFn n = (1 \<le> n)"
| "arity ar PLogicalNotFn n = (1 \<le> n)"
| "arity ar PLogicalAndFn n = (2 \<le> n)"
| "arity ar PLogicalOrFn n = (2 \<le> n)"
| "arity ar PSubstringFn n = (2 \<le> n)"
| "arity ar PEqualityFn n = (2 \<le> n)"
| "arity ar PInequalityFn n = (2 \<le> n)"
| "arity ar PSequenceFn n = (2 \<le> n)"
| "arity ar (PExt x) n = ar x n"
| "arity ar _ n = True"

fun wf_expr :: "('f \<Rightarrow> nat \<Rightarrow> bool) \<Rightarrow> nat \<Rightarrow> 'f Expr \<Rightarrow> bool" where
  "wf_expr ar n (Expr f nm args s e) \<longleftrightarrow>
     ar f (length args) \<and> 0 \<le> s \<and> s \<le> e \<and> e \<le> int n \<and> list_all (wf_expr ar n) args"

lemma wf_expr_range:
  "wf_expr ar n e \<Longrightarrow> 0 \<le> expr_start e \<and> expr_start e \<le> expr_end e \<and> expr_end e \<le> int n"
  by (cases e) simp

text \<open>The interface between the evaluator and the functions it calls.\<close>

locale edify_functions =
  fixes call :: "'f \<Rightarrow> 'c Function"
    and ar :: "'f \<Rightarrow> nat \<Rightarrow> bool"
  assumes call_ok:
    "ar f (length args) \<Longrightarrow> (\<And>a. a \<in> set args \<Longrightarrow> arg_ok s a) \<Longrightarrow> script st = s \<Longrightarrow>
     ok_result s (call f nm args st)"
begin

lemma eval_ok:
  "wf_expr ar (length s) e \<Longrightarrow> script st = s \<Longrightarrow> ok_result s (EvaluateValue call e st)"
proof (induction e arbitrary: st)
  case (Expr f nm args b e)
  have "arg_ok s (arg_of call a)" if "a \<in> set args" for a
  proof -
    from that Expr.prems(1) have "wf_expr ar (length s) a" by (simp add: list_all_iff)
    with Expr.IH that wf_expr_range show ?thesis by (fastforce simp: arg_ok_def arg_of_def)
  qed
  then show ?case
    unfolding EvaluateValue.simps
    by (intro call_ok) (use Expr.prems in \<open>auto simp: arg_of_def\<close>)
qed

lemma evaluate_ok:
  assumes "wf_expr ar (length s) e" "script st = s"
  shows "ok_result s (Evaluate (arg_of call e) st)"
  by (rule ok_Evaluate)
    (use assms eval_ok wf_expr_range [OF assms(1)] in \<open>auto simp: arg_ok_def arg_of_def\<close>)

end

text \<open>The builtins satisfy the interface as soon as the functions an application adds do.\<close>

locale edify_application =
  fixes ext :: "'x \<Rightarrow> 'c Function"
    and ext_ar :: "'x \<Rightarrow> nat \<Rightarrow> bool"
  assumes ext_ok:
    "ext_ar x (length args) \<Longrightarrow> (\<And>a. a \<in> set args \<Longrightarrow> arg_ok s a) \<Longrightarrow> script st = s \<Longrightarrow>
     ok_result s (ext x nm args st)"

lemmas ok_args = ok_EvaluateAt ok_EvaluateValueAt

lemma ok_LessThanIntFn:
  assumes args: "\<forall>a \<in> set args. arg_ok s a" and st: "script st = s"
  shows "ok_result s (LessThanIntFn nm args st)"
proof (cases "length args = 2")
  case True
  then have "ok_result s (ReadArgs 2 args st)"
    unfolding ReadArgs_def by (intro ok_read_loop) (use args st in \<open>auto simp: ok_Evaluate\<close>)
  with True show ?thesis
    by (auto simp: LessThanIntFn_def not_an_int_def Let_def
        intro!: ok_then ok_StringValue split: option.splits)
next
  case False
  with st show ?thesis by (auto simp: LessThanIntFn_def)
qed

lemma builtin_ok:
  assumes "arity ar f (length args)" and args: "\<forall>a \<in> set args. arg_ok s a"
    and st: "script st = s" and ext: "\<And>x. f \<noteq> PExt x"
  shows "ok_result s (call_fn ext f nm args st)"
proof (cases f)
  case PConcatFn
  have "ok_result s (read_loop Evaluate (length args) args st)"
    by (rule ok_read_loop) (use args st in \<open>auto simp: ok_Evaluate\<close>)
  then show ?thesis using PConcatFn st
    by (auto simp: ConcatFn_def ok_result_def StringValue_def)
next
  case PIfElseFn
  then show ?thesis using args st
    by (auto simp: IfElseFn_def intro!: ok_then ok_args ok_StringValue)
next
  case PAbortFn
  from args st ok_EvaluateAt [of args s 0 st] show ?thesis
    by (cases "args = []") (auto simp: PAbortFn AbortFn_def ok_result_def split: option.splits)
next
  case PLessThanIntFn
  then show ?thesis by (simp add: ok_LessThanIntFn args st)
next
  case PGreaterThanIntFn
  then show ?thesis using ok_LessThanIntFn [of "[args ! 1, args ! 0]" s st] args st
    by (auto simp: GreaterThanIntFn_def)
next
  case PAssertFn
  then show ?thesis by (simp add: AssertFn_def ok_assert_loop args st)
next
  case PStdoutFn
  then show ?thesis by (simp add: StdoutFn_def ok_stdout_loop args st)
next
  case (PExt x)
  then show ?thesis using ext by simp
qed (use assms(1) args st in \<open>auto simp: Literal_def SleepFn_def LogicalAndFn_def LogicalOrFn_def
    LogicalNotFn_def SubstringFn_def EqualityFn_def InequalityFn_def SequenceFn_def
    intro!: ok_then ok_args ok_StringValue\<close>)

sublocale edify_application \<subseteq> edify_functions "call_fn ext" "arity ext_ar"
proof
  fix f :: "'x fnptr" and args :: "'c arg list" and s nm and st :: "'c State"
  assume "arity ext_ar f (length args)" "\<And>a. a \<in> set args \<Longrightarrow> arg_ok s a" "script st = s"
  then show "ok_result s (call_fn ext f nm args st)"
    using builtin_ok [of ext_ar f args s st ext nm] ext_ok by (cases f) auto
qed

context edify_application begin

lemma application_eval_ok:
  "wf_expr (arity ext_ar) (length s) e \<Longrightarrow> script st = s \<Longrightarrow>
   ok_result s (EvaluateValue (call_fn ext) e st)"
  by (rule eval_ok)

end

text \<open>The program of \<^verbatim>\<open>edify/main.c\<close> registers the builtins and nothing else.\<close>

definition no_ext :: "unit \<Rightarrow> 'c Function" where
  "no_ext x nm args st = None"

definition no_ext_arity :: "unit \<Rightarrow> nat \<Rightarrow> bool" where
  "no_ext_arity x n = False"

interpretation core: edify_application no_ext no_ext_arity
  by unfold_locales (simp add: no_ext_arity_def)

section \<open>The function table\<close>

text \<open>
  Every slot below \<open>fn_entries\<close> is written, and the array has \<open>fn_size\<close> slots.
\<close>

definition table_inv :: "'f fn_tab \<Rightarrow> bool" where
  "table_inv t \<longleftrightarrow> length (fn_table t) = fn_size t \<and> fn_entries t \<le> fn_size t \<and>
     (\<forall>i < fn_entries t. fn_table t ! i \<noteq> None)"

definition registered :: "'f fn_tab \<Rightarrow> (string \<times> 'f) list" where
  "registered t = map the (take (fn_entries t) (fn_table t))"

lemma registered_length: "table_inv t \<Longrightarrow> length (registered t) = fn_entries t"
  by (simp add: registered_def table_inv_def)

lemma RegisterFunction_ok:
  assumes inv: "table_inv t"
  shows "\<exists>t'. RegisterFunction nm f t = Some t' \<and> table_inv t' \<and>
    registered t' = registered t @ [(nm, f)] \<and> fn_entries t' = fn_entries t + 1"
proof -
  define t1 where "t1 = (if fn_size t \<le> fn_entries t
    then t\<lparr>fn_size := fn_size t * 2 + 1, fn_table := fn_table t @ replicate (fn_size t + 1) None\<rparr>
    else t)"
  have n: "fn_entries t1 = fn_entries t" and room: "fn_entries t1 < length (fn_table t1)"
    and len: "length (fn_table t1) = fn_size t1"
    and eq: "take (fn_entries t) (fn_table t1) = take (fn_entries t) (fn_table t)"
    using inv by (auto simp: t1_def table_inv_def)
  have nth: "i < fn_entries t \<Longrightarrow> fn_table t1 ! i = fn_table t ! i" for i
    by (metis eq nth_take)
  let ?t' = "t1\<lparr>fn_table := (fn_table t1)[fn_entries t1 := Some (nm, f)], fn_entries := fn_entries t1 + 1\<rparr>"
  have "RegisterFunction nm f t = Some ?t'"
    using room by (simp add: RegisterFunction_def t1_def [symmetric] Let_def)
  moreover have "table_inv ?t'"
    using inv n room len nth by (auto simp: table_inv_def nth_list_update less_Suc_eq)
  moreover have "registered ?t' = registered t @ [(nm, f)]"
    using n room eq by (simp add: registered_def take_Suc_conv_app_nth)
  ultimately show ?thesis using n by auto
qed

lemma register_all_ok:
  "table_inv t \<Longrightarrow> \<exists>t'. register_all fs t = Some t' \<and> table_inv t' \<and> registered t' = registered t @ fs"
proof (induction fs arbitrary: t)
  case (Cons x fs)
  obtain nm f where x: "x = (nm, f)" by (cases x)
  from RegisterFunction_ok [OF Cons.prems, of nm f] obtain t1 where
    t1: "RegisterFunction nm f t = Some t1" "table_inv t1" "registered t1 = registered t @ [(nm, f)]"
    by blast
  from Cons.IH [OF t1(2)] t1 x show ?case by auto
qed simp

lemma registered_Finish:
  "registered (FinishRegistration t) = map the (sort_key (\<lambda>x. fst (the x)) (take (fn_entries t) (fn_table t)))"
  by (cases "fn_entries t \<le> length (fn_table t)") (simp_all add: registered_def FinishRegistration_def)

lemma Finish_keys:
  assumes "table_inv t"
  shows "map fst (registered (FinishRegistration t)) = sort (map fst (registered t))"
proof -
  let ?xs = "take (fn_entries t) (fn_table t)"
  have "map (\<lambda>x. fst (the x)) (sort_key (\<lambda>x. fst (the x)) ?xs) = sort (map (\<lambda>x. fst (the x)) ?xs)"
    by (rule properties_for_sort [symmetric]) simp_all
  then show ?thesis unfolding registered_Finish unfolding registered_def by (simp add: comp_def)
qed

lemma table_inv_Finish:
  assumes "table_inv t"
  shows "table_inv (FinishRegistration t)"
proof -
  let ?ys = "sort_key (\<lambda>x. fst (the x)) (take (fn_entries t) (fn_table t))"
  have "set ?ys = set (take (fn_entries t) (fn_table t))" by simp
  moreover have "None \<notin> set (take (fn_entries t) (fn_table t))"
    using assms by (auto simp: table_inv_def in_set_conv_nth)
  moreover have "length ?ys = fn_entries t" using assms by (simp add: table_inv_def)
  ultimately have "\<And>i. i < fn_entries t \<Longrightarrow> ?ys ! i \<noteq> None"
    by (metis nth_mem)
  with assms show ?thesis
    by (auto simp: table_inv_def FinishRegistration_def nth_append)
qed

lemma set_registered_Finish: "set (registered (FinishRegistration t)) = set (registered t)"
  by (simp add: registered_Finish) (simp add: registered_def)

lemma FindFunction_registered:
  assumes inv: "table_inv t" and dist: "distinct (map fst (registered t))"
  shows "FindFunction (FinishRegistration t) nm = map_of (registered t) nm"
proof -
  let ?t = "FinishRegistration t" and ?n = "fn_entries t"
  let ?ks = "map (\<lambda>x. fst (the x)) (fn_table ?t)"
  have inv': "table_inv ?t" and n: "fn_entries ?t = ?n"
    using table_inv_Finish [OF inv] by (simp_all add: FinishRegistration_def)
  have reg_nth: "registered ?t ! i = the (fn_table ?t ! i)" if "i < ?n" for i
    using that inv' n by (simp add: registered_def table_inv_def)
  have len: "length (registered ?t) = ?n" using registered_length [OF inv'] n by simp
  have key: "?ks ! i = fst (registered ?t ! i)" if "i < ?n" for i
    using that reg_nth inv' n by (simp add: table_inv_def)
  have "sorted_wrt (<) (map fst (registered ?t))"
    using Finish_keys [OF inv] dist by (simp add: strict_sorted_iff)
  then have srt: "a < b \<Longrightarrow> b < ?n \<Longrightarrow> ?ks ! a < ?ks ! b" for a b
    using sorted_wrt_nth_less [of "(<)" "map fst (registered ?t)" a b] key len by simp
  have dist': "distinct (map fst (registered ?t))"
    using Finish_keys [OF inv] dist by simp
  have same: "map_of (registered t) = map_of (registered ?t)"
    by (rule map_of_inject_set [THEN iffD2]) (use dist dist' set_registered_Finish in auto)
  show ?thesis
  proof (cases "bsearch strcmp nm ?ks 0 ?n")
    case None
    have "nm \<notin> set (map fst (registered ?t))"
    proof
      assume "nm \<in> set (map fst (registered ?t))"
      then obtain j where "j < ?n" "fst (registered ?t ! j) = nm"
        using len by (auto simp: in_set_conv_nth)
      with bsearch_strcmp_finds [where n = ?n and ks = ?ks and j = j and key = nm
          and base = 0 and lim = ?n] srt key None show False by simp
    qed
    then have "map_of (registered t) nm = None" using same by (simp add: map_of_eq_None_iff)
    with None n show ?thesis by (simp add: FindFunction_def)
  next
    case (Some i)
    then have "i < ?n" and "?ks ! i = nm" using bsearch_Some_match [OF Some] by auto
    then have "registered ?t ! i = (nm, snd (the (fn_table ?t ! i)))"
      using key [of i] reg_nth [of i] by (simp add: prod_eq_iff)
    then have "(nm, snd (the (fn_table ?t ! i))) \<in> set (registered ?t)"
      using nth_mem [of i "registered ?t"] \<open>i < ?n\<close> len by simp
    then have "map_of (registered t) nm = Some (snd (the (fn_table ?t ! i)))"
      using same dist' by simp
    with Some n show ?thesis by (simp add: FindFunction_def)
  qed
qed

section \<open>The language as its users read it\<close>

text \<open>
  A reference semantics of the operators after \<^verbatim>\<open>edify/README\<close>: every expression is
  string-valued, the empty string is false, operators evaluate their second argument only when
  it is needed, and an abort (\<open>Inl\<close> of its message) ends the evaluation. \<open>build_syn\<close> is what the
  actions of \<^verbatim>\<open>edify/parser.y\<close> build for each construct.
\<close>

datatype syn =
    SStr string | SConcat syn syn | SAnd syn syn | SOr syn syn | SNot syn
  | SEq syn syn | SNe syn syn | SSeq syn syn | SIf syn syn | SIfElse syn syn syn
  | SSubstring syn syn | SAbort0 | SAbort syn

definition truth :: "bool \<Rightarrow> string" where
  "truth b = (if b then ''t'' else [])"

definition bind_sum :: "'e + 'a \<Rightarrow> ('a \<Rightarrow> 'e + 'b) \<Rightarrow> 'e + 'b" where
  "bind_sum m f = (case m of Inl e \<Rightarrow> Inl e | Inr x \<Rightarrow> f x)"

lemma bind_sum_simps [simp]: "bind_sum (Inl e) f = Inl e" "bind_sum (Inr x) f = f x"
  by (simp_all add: bind_sum_def)

fun denote :: "syn \<Rightarrow> string + string" where
  "denote (SStr s) = Inr s"
| "denote (SConcat a b) = bind_sum (denote a) (\<lambda>x. bind_sum (denote b) (\<lambda>y. Inr (x @ y)))"
| "denote (SAnd a b) = bind_sum (denote a) (\<lambda>x. if x \<noteq> [] then denote b else Inr x)"
| "denote (SOr a b) = bind_sum (denote a) (\<lambda>x. if x \<noteq> [] then Inr x else denote b)"
| "denote (SNot a) = bind_sum (denote a) (\<lambda>x. Inr (truth (x = [])))"
| "denote (SEq a b) = bind_sum (denote a) (\<lambda>x. bind_sum (denote b) (\<lambda>y. Inr (truth (x = y))))"
| "denote (SNe a b) = bind_sum (denote a) (\<lambda>x. bind_sum (denote b) (\<lambda>y. Inr (truth (x \<noteq> y))))"
| "denote (SSeq a b) = bind_sum (denote a) (\<lambda>_. denote b)"
| "denote (SIf c a) = bind_sum (denote c) (\<lambda>x. if x \<noteq> [] then denote a else Inr [])"
| "denote (SIfElse c a b) = bind_sum (denote c) (\<lambda>x. if x \<noteq> [] then denote a else denote b)"
| "denote (SSubstring a b) =
     bind_sum (denote a) (\<lambda>n. bind_sum (denote b) (\<lambda>h. Inr (truth (\<exists>p s. h = p @ n @ s))))"
| "denote SAbort0 = Inl ''called abort()''"
| "denote (SAbort a) = (case denote a of Inl _ \<Rightarrow> Inl ''called abort()'' | Inr m \<Rightarrow> Inl m)"

fun build_syn :: "int \<times> int \<Rightarrow> syn \<Rightarrow> 'x fnptr Expr" where
  "build_syn l (SStr s) = Expr PLiteral s [] (fst l) (snd l)"
| "build_syn l (SConcat a b) = Build PConcatFn l [build_syn l a, build_syn l b]"
| "build_syn l (SAnd a b) = Build PLogicalAndFn l [build_syn l a, build_syn l b]"
| "build_syn l (SOr a b) = Build PLogicalOrFn l [build_syn l a, build_syn l b]"
| "build_syn l (SNot a) = Build PLogicalNotFn l [build_syn l a]"
| "build_syn l (SEq a b) = Build PEqualityFn l [build_syn l a, build_syn l b]"
| "build_syn l (SNe a b) = Build PInequalityFn l [build_syn l a, build_syn l b]"
| "build_syn l (SSeq a b) = Build PSequenceFn l [build_syn l a, build_syn l b]"
| "build_syn l (SIf c a) = Build PIfElseFn l [build_syn l c, build_syn l a]"
| "build_syn l (SIfElse c a b) = Build PIfElseFn l [build_syn l c, build_syn l a, build_syn l b]"
| "build_syn l (SSubstring a b) =
     Expr PSubstringFn ''is_substring'' [build_syn l a, build_syn l b] (fst l) (snd l)"
| "build_syn l SAbort0 = Expr PAbortFn ''abort'' [] (fst l) (snd l)"
| "build_syn l (SAbort a) = Expr PAbortFn ''abort'' [build_syn l a] (fst l) (snd l)"

definition outcome :: "string + string \<Rightarrow> 'c State \<Rightarrow> (string option \<times> 'c State) option" where
  "outcome r st = (case r of Inl m \<Rightarrow> Some (None, st\<lparr>errmsg := Some m\<rparr>) | Inr v \<Rightarrow> Some (Some v, st))"

definition value_outcome :: "string + string \<Rightarrow> (Value option, 'c State) run" where
  "value_outcome r st = then_run (outcome r st) (\<lambda>v st. Some (StringValue v, st))"

lemma outcome_simps [simp]:
  "outcome (Inl m) st = Some (None, st\<lparr>errmsg := Some m\<rparr>)"
  "outcome (Inr v) st = Some (Some v, st)"
  by (simp_all add: outcome_def)

lemma value_outcome_simps:
  "value_outcome (Inl m) st = Some (None, st\<lparr>errmsg := Some m\<rparr>)"
  "value_outcome (Inr v) st = Some (StringValue (Some v), st)"
  by (simp_all add: value_outcome_def StringValue_def)

lemma Evaluate_value_outcome [simp]:
  "arg_eval a = value_outcome r \<Longrightarrow> Evaluate a st = outcome r st"
  by (cases r) (simp_all add: Evaluate_def StringValue_def value_outcome_simps)

lemma two_args [simp]:
  "EvaluateAt (a # as) 0 st = Evaluate a st"
  "EvaluateAt (a # b # as) (Suc 0) st = Evaluate b st"
  "EvaluateValueAt (a # as) 0 st = arg_eval a st"
  "EvaluateValueAt (a # b # as) (Suc 0) st = arg_eval b st"
  "EvaluateValueAt (a # b # c # as) 2 st = arg_eval c st"
  by (simp_all add: EvaluateAt_def EvaluateValueAt_def)

lemmas builtin_defs = Literal_def ConcatFn_def IfElseFn_def AbortFn_def LogicalAndFn_def
  LogicalOrFn_def LogicalNotFn_def SubstringFn_def EqualityFn_def InequalityFn_def SequenceFn_def

lemma eval_build_syn:
  "EvaluateValue (call_fn ext) (build_syn l t) = (value_outcome (denote t) :: (Value option, 'c State) run)"
proof (induction t)
  case (SConcat a b)
  show ?case
    by (rule ext) (simp add: Build_def builtin_defs BooleanString_def truth_def SConcat,
      (cases "denote a"; cases "denote b"; simp add: value_outcome_simps BooleanString_def StringValue_def strstr_iff)?)
next
  case (SAnd a b)
  show ?case
    by (rule ext) (simp add: Build_def builtin_defs BooleanString_def truth_def SAnd,
      (cases "denote a"; simp add: value_outcome_simps BooleanString_def StringValue_def strstr_iff)?)
next
  case (SOr a b)
  show ?case
    by (rule ext) (simp add: Build_def builtin_defs BooleanString_def truth_def SOr,
      (cases "denote a"; simp add: value_outcome_simps BooleanString_def StringValue_def strstr_iff)?)
next
  case (SNot a)
  show ?case
    by (rule ext) (simp add: Build_def builtin_defs BooleanString_def truth_def SNot,
      (cases "denote a"; simp add: value_outcome_simps BooleanString_def StringValue_def strstr_iff)?)
next
  case (SEq a b)
  show ?case
    by (rule ext) (simp add: Build_def builtin_defs BooleanString_def truth_def SEq,
      (cases "denote a"; cases "denote b"; simp add: value_outcome_simps BooleanString_def StringValue_def strstr_iff)?)
next
  case (SNe a b)
  show ?case
    by (rule ext) (simp add: Build_def builtin_defs BooleanString_def truth_def SNe,
      (cases "denote a"; cases "denote b"; simp add: value_outcome_simps BooleanString_def StringValue_def strstr_iff)?)
next
  case (SSeq a b)
  show ?case
    by (rule ext) (simp add: Build_def builtin_defs BooleanString_def truth_def SSeq,
      (cases "denote a"; simp add: value_outcome_simps BooleanString_def StringValue_def strstr_iff)?)
next
  case (SIf c a)
  show ?case
    by (rule ext) (simp add: Build_def builtin_defs BooleanString_def truth_def SIf,
      (cases "denote c"; simp add: value_outcome_simps BooleanString_def StringValue_def strstr_iff)?)
next
  case (SIfElse c a b)
  show ?case
    by (rule ext) (simp add: Build_def builtin_defs BooleanString_def truth_def SIfElse,
      (cases "denote c"; simp add: value_outcome_simps BooleanString_def StringValue_def strstr_iff)?)
next
  case (SSubstring a b)
  show ?case
    by (rule ext) (simp add: Build_def builtin_defs BooleanString_def truth_def SSubstring strstr_iff,
      (cases "denote a"; cases "denote b"; simp add: value_outcome_simps BooleanString_def StringValue_def strstr_iff)?)
next
  case (SAbort a)
  show ?case
    by (rule ext) (simp add: Build_def builtin_defs BooleanString_def truth_def SAbort,
      (cases "denote a"; simp add: value_outcome_simps BooleanString_def StringValue_def strstr_iff)?)
qed (simp_all add: fun_eq_iff builtin_defs value_outcome_simps)

section \<open>Properties\<close>

text \<open>
  C10 (safety). Evaluating a well-formed expression never reads outside an argument array or the
  script, always returns, does not change the script, and if it returns \<open>NULL\<close> then an error
  message is set. The functions an application adds are only assumed to satisfy the same
  contract on arguments that satisfy it.
\<close>

theorem EvaluateValue_safe:
  fixes ext :: "'x \<Rightarrow> 'c Function"
  assumes ext: "\<And>x args s st nm. ext_ar x (length args) \<Longrightarrow> (\<And>a. a \<in> set args \<Longrightarrow> arg_ok s a) \<Longrightarrow>
      script st = s \<Longrightarrow> ok_result s (ext x nm args st)"
    and wf: "wf_expr (arity ext_ar) (length (script st)) e"
  shows "\<exists>v st'. EvaluateValue (call_fn ext) e st = Some (v, st') \<and> script st' = script st \<and>
    (v = None \<longrightarrow> errmsg st' \<noteq> None)"
proof -
  have "edify_application ext ext_ar" by (rule edify_application.intro) (rule ext)
  from edify_application.application_eval_ok [OF this wf refl] show ?thesis
    by (auto simp: ok_result_def)
qed

definition sample_state :: "unit State" where
  "sample_state = \<lparr>cookie = (), script = ''assert(a == b)'', errmsg = None, effects = []\<rparr>"

definition sample_assert :: "unit fnptr Expr" where
  "sample_assert = Expr PAssertFn ''assert''
     [Build PEqualityFn (7, 13) [Expr PLiteral ''a'' [] 7 8, Expr PLiteral ''b'' [] 12 13]] 0 14"

theorem EvaluateValue_safe_witness:
  "wf_expr (arity no_ext_arity) (length (script sample_state)) sample_assert \<and>
   (\<exists>v st'. EvaluateValue (call_fn no_ext) sample_assert sample_state = Some (v, st') \<and>
     script st' = script sample_state \<and> (v = None \<longrightarrow> errmsg st' \<noteq> None))"
proof -
  have wf: "wf_expr (arity no_ext_arity) (length (script sample_state)) sample_assert"
    by (simp add: sample_assert_def sample_state_def Build_def)
  show ?thesis
    by (rule conjI [OF wf], rule EvaluateValue_safe [where ext_ar = no_ext_arity])
      (simp add: no_ext_arity_def, rule wf)
qed

text \<open>
  C11 (refinement). The evaluator implements the reference semantics of the operators: on the
  expression the parser builds it returns the denoted string and leaves the state alone, or
  returns \<open>NULL\<close> with the denoted abort message in \<open>errmsg\<close>; in particular a second operand
  that is not needed is not evaluated.
\<close>

theorem Evaluate_denotes:
  "Evaluate (arg_of (call_fn ext) (build_syn l t)) st =
     (case denote t of Inr v \<Rightarrow> Some (Some v, st) | Inl m \<Rightarrow> Some (None, st\<lparr>errmsg := Some m\<rparr>))"
  by (simp add: arg_of_def eval_build_syn outcome_def split: sum.splits)

text \<open>
  C12 (functional). Registration never writes outside the table, and once it is finished
  \<open>FindFunction\<close> returns exactly what was registered: for names used once each, the function
  registered under the name, and \<open>NULL\<close> for every other name.
\<close>

theorem FindFunction_after_registration:
  fixes fs :: "(string \<times> 'f) list"
  assumes "distinct (map fst fs)"
  shows "\<exists>t. register_all fs empty_table = Some t \<and> fn_entries t = length fs \<and>
    fn_entries t \<le> length (fn_table t) \<and>
    (\<forall>nm. FindFunction (FinishRegistration t) nm = map_of fs nm)"
proof -
  have "table_inv (empty_table :: 'f fn_tab)" and "registered (empty_table :: 'f fn_tab) = []"
    by (simp_all add: table_inv_def empty_table_def registered_def)
  with register_all_ok [of empty_table fs] obtain t where
    t: "register_all fs empty_table = Some t" "table_inv t" "registered t = fs" by auto
  with assms FindFunction_registered [OF t(2)] registered_length [OF t(2)] show ?thesis
    by (auto simp: table_inv_def)
qed

theorem FindFunction_after_registration_witness:
  "distinct (map fst (builtins :: (string \<times> unit fnptr) list)) \<and>
   (\<exists>t. RegisterBuiltins empty_table = Some t \<and> fn_entries t = 9 \<and>
     FindFunction (FinishRegistration t) ''sleep'' = Some (PSleepFn :: unit fnptr) \<and>
     FindFunction (FinishRegistration t) ''mount'' = None)"
proof -
  have d: "distinct (map fst (builtins :: (string \<times> unit fnptr) list))"
    by (simp add: builtins_def)
  from FindFunction_after_registration [OF d] d show ?thesis
    by (auto simp: RegisterBuiltins_def builtins_def)
qed

lemma read_int_show_nat: "int n \<le> LONG_MAX \<Longrightarrow> read_int (show_nat n) = Some (int n)"
  by (simp add: read_int_def strtol_show_nat show_nat_nonempty)

definition lit_arg :: "string \<Rightarrow> 'c arg" where
  "lit_arg s = arg_of (call_fn no_ext) (Expr PLiteral s [] 0 0)"

lemma Evaluate_lit_arg [simp]: "Evaluate (lit_arg s) st = Some (Some s, st)"
  by (simp add: lit_arg_def arg_of_def Evaluate_def Literal_def StringValue_def)

text \<open>
  \<open>less_than_int\<close> on two decimal numbers that fit a \<open>long\<close> answers \<open>"t"\<close>
  exactly when the first is smaller, and the empty string otherwise.
\<close>

theorem LessThanInt_compares:
  assumes "int m \<le> LONG_MAX" and "int n \<le> LONG_MAX"
  shows "LessThanIntFn nm [lit_arg (show_nat m), lit_arg (show_nat n)] st =
    Some (StringValue (Some (if m < n then ''t'' else [])), st)"
  using assms
  by (simp add: LessThanIntFn_def ReadArgs_def read_int_show_nat numeral_2_eq_2)

theorem LessThanInt_compares_witness:
  "int 3 \<le> LONG_MAX \<and> int 14 \<le> LONG_MAX \<and>
   LessThanIntFn ''less_than_int'' [lit_arg (show_nat 3), lit_arg (show_nat 14)] sample_state =
     Some (StringValue (Some ''t''), sample_state)"
  using LessThanInt_compares [of 3 14 "''less_than_int''" sample_state]
  by (simp add: LONG_MAX_def)

text \<open>
  \<open>sleep\<close> and \<open>is_substring\<close> do not check their argument count: called from a script
  with no argument they read \<open>argv[0]\<close> of an empty array.
\<close>

theorem unchecked_argument_count:
  "EvaluateValue (call_fn ext) (Expr PSleepFn ''sleep'' [] b e) st = None \<and>
   EvaluateValue (call_fn ext) (Expr PSubstringFn ''is_substring'' [] b e) st = None"
  by (simp add: SleepFn_def SubstringFn_def EvaluateAt_def)

end
