(* ===== verification/Hash_Table.thy ===== *)
theory Hash_Table
  imports Recovery_Prelude
begin

unbundle bit_operations_syntax

text \<open>
  The open-addressing hash table of \<^verbatim>\<open>minzip/Hash.c\<close> and \<^verbatim>\<open>minzip/Hash.h\<close>: probing with
  tombstones, growth at a load of 5/8, removal, iteration. The stored pointers are the type
  \<open>'a\<close>; the value of a \<open>data\<close> field is \<open>Null\<close>, the tombstone or a pointer. A result \<open>None\<close> stands
  for an access outside the entry array, a failed assertion, an overflow of \<open>int\<close>, a call of
  \<open>abort\<close> or a probe that never ends.
\<close>

section \<open>The table\<close>

datatype 'a slot = Null | Tombstone | Data 'a

record 'a HashEntry =
  hashValue :: u32
  hdata :: "'a slot"

record 'a HashTable =
  tableSize :: nat
  numEntries :: nat
  numDeadEntries :: nat
  pEntries :: "'a HashEntry list"
  freeFunc :: bool  \<comment> \<open>whether a free function was given\<close>

definition LOAD_NUMER :: nat where
  "LOAD_NUMER = 5"

definition LOAD_DENOM :: nat where
  "LOAD_DENOM = 8"

definition INT_MAX :: int where
  "INT_MAX = 2147483647"

text \<open>The zeroed entries \<open>calloc\<close> returns.\<close>

definition calloc_entries :: "nat \<Rightarrow> 'a HashEntry list" where
  "calloc_entries n = replicate n \<lparr>hashValue = 0, hdata = Null\<rparr>"

definition mzHashSize :: "u32 \<Rightarrow> u32" where
  "mzHashSize sz = (sz * of_nat LOAD_DENOM) div of_nat LOAD_NUMER + 1"

definition roundUpPower2 :: "u32 \<Rightarrow> u32" where
  "roundUpPower2 val =
     (let val = val - 1;
          val = val OR drop_bit 1 val;
          val = val OR drop_bit 2 val;
          val = val OR drop_bit 4 val;
          val = val OR drop_bit 8 val;
          val = val OR drop_bit 16 val
      in val + 1)"

text \<open>\<open>malloc_ok\<close> and \<open>calloc_ok\<close> say whether the two allocations succeed; \<open>Some None\<close> is \<open>NULL\<close>.\<close>

definition mzHashTableCreate :: "bool \<Rightarrow> bool \<Rightarrow> u32 \<Rightarrow> bool \<Rightarrow> 'a HashTable option option" where
  "mzHashTableCreate malloc_ok calloc_ok initialSize ff =
     (if initialSize = 0 then None
      else if \<not> malloc_ok then Some None
      else if \<not> calloc_ok then Some None
      else let n = unat (roundUpPower2 initialSize)
           in Some (Some \<lparr>tableSize = n, numEntries = 0, numDeadEntries = 0,
                          pEntries = calloc_entries n, freeFunc = ff\<rparr>))"

text \<open>Clearing returns, next to the table, the pointers handed to the free function.\<close>

fun clear_loop :: "bool \<Rightarrow> 'a HashEntry list \<Rightarrow> 'a HashEntry list \<times> 'a list" where
  "clear_loop ff [] = ([], [])"
| "clear_loop ff (e # es) =
     (let (es', freed) = clear_loop ff es
      in case hdata e of
           Tombstone \<Rightarrow> (e\<lparr>hdata := Null\<rparr> # es', freed)
         | Data d \<Rightarrow> (e\<lparr>hdata := Null\<rparr> # es', if ff then d # freed else freed)
         | Null \<Rightarrow> (e # es', freed))"

definition mzHashTableClear :: "'a HashTable \<Rightarrow> 'a HashTable \<times> 'a list" where
  "mzHashTableClear t =
     (let (es, freed) = clear_loop (freeFunc t) (take (tableSize t) (pEntries t))
      in (t\<lparr>pEntries := es @ drop (tableSize t) (pEntries t), numEntries := 0, numDeadEntries := 0\<rparr>,
          freed))"

definition mzHashTableFree :: "'a HashTable option \<Rightarrow> 'a list" where
  "mzHashTableFree t = (case t of None \<Rightarrow> [] | Some t \<Rightarrow> snd (mzHashTableClear t))"

definition countTombStones :: "'a HashTable \<Rightarrow> nat" where
  "countTombStones t = length (filter (\<lambda>e. case hdata e of Tombstone \<Rightarrow> True | _ \<Rightarrow> False)
                                      (take (tableSize t) (pEntries t)))"

definition is_null :: "'a HashEntry \<Rightarrow> bool" where
  "is_null e \<longleftrightarrow> (case hdata e of Null \<Rightarrow> True | _ \<Rightarrow> False)"

section \<open>Growing\<close>

partial_function (option) resize_probe :: "'a HashEntry list \<Rightarrow> nat \<Rightarrow> nat \<Rightarrow> nat option" where
  "resize_probe es newSize i =
     (if i < length es
      then if is_null (es ! i) then Some i
           else resize_probe es newSize ((i + 1) AND (newSize - 1))
      else None)"

declare resize_probe.simps [code]

fun resize_loop :: "nat \<Rightarrow> 'a HashEntry list \<Rightarrow> 'a HashEntry list \<Rightarrow> 'a HashEntry list option" where
  "resize_loop newSize [] new = Some new"
| "resize_loop newSize (e # es) new =
     (case hdata e of
        Data d \<Rightarrow>
          (case resize_probe new newSize (unat (hashValue e AND (of_nat newSize - 1))) of
             None \<Rightarrow> None
           | Some i \<Rightarrow> resize_loop newSize es (new[i := \<lparr>hashValue = hashValue e, hdata = Data d\<rparr>]))
      | _ \<Rightarrow> resize_loop newSize es new)"

text \<open>\<open>Some None\<close> is the result \<open>false\<close> when \<open>calloc\<close> fails.\<close>

definition resizeHash :: "bool \<Rightarrow> 'a HashTable \<Rightarrow> nat \<Rightarrow> 'a HashTable option option" where
  "resizeHash calloc_ok t newSize =
     (if countTombStones t \<noteq> numDeadEntries t then None
      else if \<not> calloc_ok then Some None
      else case resize_loop newSize (take (tableSize t) (pEntries t)) (calloc_entries newSize) of
             None \<Rightarrow> None
           | Some new \<Rightarrow>
               (let t' = t\<lparr>pEntries := new, tableSize := newSize, numDeadEntries := 0\<rparr>
                in if countTombStones t' \<noteq> 0 then None else Some (Some t')))"

section \<open>Lookup, insertion, removal\<close>

text \<open>
  The probing loop of lookup, removal and \<open>countProbes\<close>: from entry \<open>i\<close> until an empty slot or
  one that satisfies \<open>stop\<close>, wrapping around at \<open>n\<close>; a table of one entry ends at \<open>pEnd\<close>.
\<close>

partial_function (option) probe_loop :: "('a HashEntry \<Rightarrow> bool) \<Rightarrow> 'a HashEntry list \<Rightarrow> nat \<Rightarrow> nat \<Rightarrow> nat option" where
  "probe_loop stop es n i =
     (if i < length es
      then if is_null (es ! i) \<or> stop (es ! i) then Some i
           else if i + 1 = n then (if n = 1 then Some (i + 1) else probe_loop stop es n 0)
           else probe_loop stop es n (i + 1)
      else None)"

declare probe_loop.simps [code]

definition home :: "u32 \<Rightarrow> nat \<Rightarrow> nat" where
  "home h n = unat (h AND (of_nat n - 1))"

definition item_match :: "('a \<Rightarrow> 'a \<Rightarrow> int) \<Rightarrow> u32 \<Rightarrow> 'a \<Rightarrow> 'a HashEntry \<Rightarrow> bool" where
  "item_match cmp h item e = (case hdata e of Data d \<Rightarrow> hashValue e = h \<and> cmp d item = 0 | _ \<Rightarrow> False)"

definition mzHashTableLookup ::
    "bool \<Rightarrow> 'a HashTable \<Rightarrow> u32 \<Rightarrow> 'a \<Rightarrow> ('a \<Rightarrow> 'a \<Rightarrow> int) \<Rightarrow> bool \<Rightarrow> ('a option \<times> 'a HashTable) option" where
  "mzHashTableLookup calloc_ok t itemHash item cmpFunc doAdd =
     (if tableSize t = 0 then None
      else case probe_loop (item_match cmpFunc itemHash item) (pEntries t) (tableSize t)
                  (home itemHash (tableSize t)) of
        None \<Rightarrow> None
      | Some i \<Rightarrow>
          if length (pEntries t) \<le> i then None
          else case hdata (pEntries t ! i) of
            Null \<Rightarrow>
              if doAdd then
                let t = t\<lparr>pEntries := (pEntries t)[i := \<lparr>hashValue = itemHash, hdata = Data item\<rparr>],
                          numEntries := numEntries t + 1\<rparr>
                in if INT_MAX < int ((numEntries t + numDeadEntries t) * LOAD_DENOM)
                      \<or> INT_MAX < int (tableSize t * LOAD_NUMER) then None
                   else case (if tableSize t * LOAD_NUMER < (numEntries t + numDeadEntries t) * LOAD_DENOM
                              then resizeHash calloc_ok t (tableSize t * 2) else Some (Some t)) of
                     Some (Some t) \<Rightarrow>
                       if numEntries t < tableSize t then Some (Some item, t) else None
                   | _ \<Rightarrow> None
              else Some (None, t)
          | Data d \<Rightarrow> Some (Some d, t)
          | Tombstone \<Rightarrow> None)"

definition item_is :: "'a \<Rightarrow> 'a HashEntry \<Rightarrow> bool" where
  "item_is item e = (case hdata e of Data d \<Rightarrow> d = item | _ \<Rightarrow> False)"

definition mzHashTableRemove :: "'a HashTable \<Rightarrow> u32 \<Rightarrow> 'a \<Rightarrow> (bool \<times> 'a HashTable) option" where
  "mzHashTableRemove t itemHash item =
     (if tableSize t = 0 then None
      else case probe_loop (item_is item) (pEntries t) (tableSize t) (home itemHash (tableSize t)) of
        None \<Rightarrow> None
      | Some i \<Rightarrow>
          if i < length (pEntries t) \<and> \<not> is_null (pEntries t ! i)
          then Some (True, t\<lparr>pEntries := (pEntries t)[i := (pEntries t ! i)\<lparr>hdata := Tombstone\<rparr>],
                             numEntries := numEntries t - 1,
                             numDeadEntries := numDeadEntries t + 1\<rparr>)
          else Some (False, t))"

section \<open>Iteration\<close>

fun foreach_loop :: "('a \<Rightarrow> 's \<Rightarrow> int \<times> 's) \<Rightarrow> 'a HashEntry list \<Rightarrow> 's \<Rightarrow> int \<times> 's" where
  "foreach_loop f [] s = (0, s)"
| "foreach_loop f (e # es) s =
     (case hdata e of
        Data d \<Rightarrow> (let (val, s) = f d s in if val \<noteq> 0 then (val, s) else foreach_loop f es s)
      | _ \<Rightarrow> foreach_loop f es s)"

definition mzHashForeach :: "'a HashTable \<Rightarrow> ('a \<Rightarrow> 's \<Rightarrow> int \<times> 's) \<Rightarrow> 's \<Rightarrow> int \<times> 's" where
  "mzHashForeach t f s = foreach_loop f (take (tableSize t) (pEntries t)) s"

text \<open>The iterator is the index it holds; \<open>-1\<close> before the first step.\<close>

function iter_next_loop :: "'a HashTable \<Rightarrow> nat \<Rightarrow> nat" where
  "iter_next_loop t i =
     (if i < tableSize t
      then (case hdata (pEntries t ! i) of Data d \<Rightarrow> i | _ \<Rightarrow> iter_next_loop t (i + 1))
      else i)"
  by pat_completeness auto
termination
  by (relation "measure (\<lambda>(t, i). tableSize t - i)") auto

declare iter_next_loop.simps [simp del]

definition mzHashIterNext :: "'a HashTable \<Rightarrow> int \<Rightarrow> int" where
  "mzHashIterNext t idx = int (iter_next_loop t (nat (idx + 1)))"

definition mzHashIterBegin :: "'a HashTable \<Rightarrow> int" where
  "mzHashIterBegin t = mzHashIterNext t (- 1)"

definition mzHashIterDone :: "'a HashTable \<Rightarrow> int \<Rightarrow> bool" where
  "mzHashIterDone t idx \<longleftrightarrow> int (tableSize t) \<le> idx"

definition mzHashIterData :: "'a HashTable \<Rightarrow> int \<Rightarrow> 'a slot option" where
  "mzHashIterData t idx = (if 0 \<le> idx \<and> idx < int (tableSize t) then Some (hdata (pEntries t ! nat idx)) else None)"

section \<open>Counting probes\<close>

text \<open>\<open>countProbes\<close> is the loop of lookup with a step counter; \<open>-1\<close> when it ends on an empty slot.\<close>

partial_function (option) count_loop :: "('a HashEntry \<Rightarrow> bool) \<Rightarrow> 'a HashEntry list \<Rightarrow> nat \<Rightarrow> nat \<Rightarrow> int \<Rightarrow> (nat \<times> int) option" where
  "count_loop stop es n i c =
     (if i < length es
      then if is_null (es ! i) \<or> stop (es ! i) then Some (i, c)
           else if i + 1 = n then (if n = 1 then Some (i + 1, c) else count_loop stop es n 0 (c + 1))
           else count_loop stop es n (i + 1) (c + 1)
      else None)"

definition countProbes :: "'a HashTable \<Rightarrow> u32 \<Rightarrow> 'a \<Rightarrow> ('a \<Rightarrow> 'a \<Rightarrow> int) \<Rightarrow> int option" where
  "countProbes t itemHash item cmpFunc =
     (if tableSize t = 0 then None
      else case count_loop (item_match cmpFunc itemHash item) (pEntries t) (tableSize t)
                  (home itemHash (tableSize t)) 0 of
        None \<Rightarrow> None
      | Some (i, c) \<Rightarrow>
          if length (pEntries t) \<le> i then None
          else if is_null (pEntries t ! i) then Some (- 1) else Some c)"

section \<open>Invariant\<close>

definition is_data :: "'a HashEntry \<Rightarrow> bool" where
  "is_data e \<longleftrightarrow> (case hdata e of Data d \<Rightarrow> True | _ \<Rightarrow> False)"

definition is_tomb :: "'a HashEntry \<Rightarrow> bool" where
  "is_tomb e \<longleftrightarrow> (case hdata e of Tombstone \<Rightarrow> True | _ \<Rightarrow> False)"

lemmas slot_defs = is_null_def is_data_def is_tomb_def

definition n_data :: "'a HashEntry list \<Rightarrow> nat" where
  "n_data es = length (filter is_data es)"

definition n_tomb :: "'a HashEntry list \<Rightarrow> nat" where
  "n_tomb es = length (filter is_tomb es)"

definition pow2 :: "nat \<Rightarrow> bool" where
  "pow2 n \<longleftrightarrow> (\<exists>k \<le> 31. n = 2 ^ k)"

text \<open>Every stored pointer is reached from the home slot of its hash without crossing an empty slot.\<close>

definition reach :: "'a HashEntry list \<Rightarrow> bool" where
  "reach es \<longleftrightarrow> (\<forall>j < length es. is_data (es ! j) \<longrightarrow>
     (\<exists>m < length es. (home (hashValue (es ! j)) (length es) + m) mod length es = j \<and>
        (\<forall>m' < m. \<not> is_null (es ! ((home (hashValue (es ! j)) (length es) + m') mod length es)))))"

definition hash_inv :: "'a HashTable \<Rightarrow> bool" where
  "hash_inv t \<longleftrightarrow> pow2 (tableSize t) \<and> length (pEntries t) = tableSize t \<and>
     numEntries t = n_data (pEntries t) \<and> numDeadEntries t = n_tomb (pEntries t) \<and>
     (numEntries t + numDeadEntries t) * LOAD_DENOM \<le> tableSize t * LOAD_NUMER \<and>
     reach (pEntries t)"

text \<open>The abstract content: the pointers stored under each hash value.\<close>

definition live :: "'a HashEntry list \<Rightarrow> (u32 \<times> 'a) set" where
  "live es = {(h, d). \<exists>j < length es. hashValue (es ! j) = h \<and> hdata (es ! j) = Data d}"

section \<open>Probing\<close>

lemma home_pow2: "pow2 n \<Longrightarrow> home h n = unat h mod n"
proof -
  assume "pow2 n"
  then obtain k where k: "k \<le> 31" "n = 2 ^ k" by (auto simp: pow2_def)
  have "(of_nat n :: u32) - 1 = mask k" using k by (simp add: mask_eq_exp_minus_1)
  then have "home h n = unat (take_bit k h)" by (simp add: home_def take_bit_eq_mask)
  also have "\<dots> = take_bit k (unat h)" by (rule unsigned_take_bit_eq)
  finally show ?thesis using k by (simp add: take_bit_eq_mod)
qed

lemma and_pow2: "pow2 n \<Longrightarrow> x AND (n - 1) = x mod n"
proof -
  assume "pow2 n"
  then obtain k where k: "n = 2 ^ k" by (auto simp: pow2_def)
  then have "n - 1 = mask k" by (simp add: mask_eq_exp_minus_1)
  then have "x AND (n - 1) = take_bit k x" by (simp add: take_bit_eq_mask)
  with k show ?thesis by (simp add: take_bit_eq_mod)
qed

lemma pow2_pos [simp]: "pow2 n \<Longrightarrow> 0 < n"
  by (auto simp: pow2_def)

lemma mod_not_ge [simp]: "0 < (n :: nat) \<Longrightarrow> \<not> n \<le> x mod n"
  by (simp add: not_le)

lemma circular_distance:
  fixes i j n :: nat
  assumes "i < n" "j < n"
  obtains m where "m < n" "(i + m) mod n = j"
proof
  show "(j + n - i) mod n < n" using assms by simp
  have "(i + (j + n - i) mod n) mod n = (i + (j + n - i)) mod n" by (rule mod_add_right_eq)
  also have "\<dots> = j" using assms by simp
  finally show "(i + (j + n - i) mod n) mod n = j" .
qed

lemma probe_loop_stops:
  assumes "length es = n" and "i < n" and "n = 1 \<Longrightarrow> m = 0"
    and "\<And>m'. m' < m \<Longrightarrow> \<not> is_null (es ! ((i + m') mod n)) \<and> \<not> stop (es ! ((i + m') mod n))"
    and "is_null (es ! ((i + m) mod n)) \<or> stop (es ! ((i + m) mod n))"
  shows "probe_loop stop es n i = Some ((i + m) mod n)"
  using assms(2-)
proof (induction m arbitrary: i)
  case 0
  then show ?case using assms(1) by (subst probe_loop.simps) simp
next
  case (Suc m)
  let ?i = "(i + 1) mod n"
  have n1: "n \<noteq> 1" using Suc.prems(2) by auto
  have shift: "(?i + x) mod n = (i + Suc x) mod n" for x by (simp add: mod_add_left_eq)
  have "probe_loop stop es n ?i = Some ((?i + m) mod n)"
  proof (rule Suc.IH)
    show "\<not> is_null (es ! ((?i + m') mod n)) \<and> \<not> stop (es ! ((?i + m') mod n))" if "m' < m" for m'
      using Suc.prems(3) [of "Suc m'"] that shift by simp
    show "is_null (es ! ((?i + m) mod n)) \<or> stop (es ! ((?i + m) mod n))"
      using Suc.prems(4) shift by simp
  qed (use Suc.prems n1 in auto)
  moreover have "probe_loop stop es n i = probe_loop stop es n ?i"
    using Suc.prems(1) Suc.prems(3) [of 0] n1 assms(1)
    by (subst probe_loop.simps) (cases "i + 1 = n"; simp)
  ultimately show ?case using shift by simp
qed

lemma resize_probe_is_probe_loop:
  assumes "length es = n" "pow2 n" "i < n" "n = 1 \<Longrightarrow> m = 0"
    and "\<And>m'. m' < m \<Longrightarrow> \<not> is_null (es ! ((i + m') mod n))"
    and "is_null (es ! ((i + m) mod n))"
  shows "resize_probe es n i = Some ((i + m) mod n)"
  using assms(3-)
proof (induction m arbitrary: i)
  case 0
  then show ?case using assms(1) by (subst resize_probe.simps) simp
next
  case (Suc m)
  let ?i = "(i + 1) mod n"
  have shift: "(?i + x) mod n = (i + Suc x) mod n" for x by (simp add: mod_add_left_eq)
  have "resize_probe es n ?i = Some ((?i + m) mod n)"
    by (rule Suc.IH) (use Suc.prems(3) [of "Suc _"] Suc.prems shift in auto)
  moreover have "resize_probe es n i = resize_probe es n ?i"
    using Suc.prems(1) Suc.prems(3) [of 0] assms(1) and_pow2 [OF assms(2)]
    by (subst resize_probe.simps) simp
  ultimately show ?case using shift by simp
qed

lemma count_slots: "n_data es + n_tomb es + length (filter is_null es) = length es"
  by (induction es) (auto simp: n_data_def n_tomb_def slot_defs split: slot.splits)

lemma null_exists:
  assumes "n_data es + n_tomb es < length es"
  obtains j where "j < length es" "is_null (es ! j)"
proof -
  from assms count_slots [of es] have "filter is_null es \<noteq> []" by auto
  then have "\<exists>j < length es. is_null (es ! j)"
    by (metis filter_empty_conv in_set_conv_nth)
  with that show thesis by blast
qed

text \<open>A probe from any slot of a table that is not full ends, at the first slot that stops it.\<close>

lemma first_stop:
  assumes len: "length es = n" and i: "i < n" and free: "n_data es + n_tomb es < n"
  obtains m where "m < n"
    and "is_null (es ! ((i + m) mod n)) \<or> stop (es ! ((i + m) mod n))"
    and "\<And>m'. m' < m \<Longrightarrow> \<not> is_null (es ! ((i + m') mod n)) \<and> \<not> stop (es ! ((i + m') mod n))"
proof -
  let ?P = "\<lambda>m. is_null (es ! ((i + m) mod n)) \<or> stop (es ! ((i + m) mod n))"
  from null_exists free len obtain j where j: "j < n" "is_null (es ! j)" by metis
  with circular_distance i obtain m0 where m0: "m0 < n" "(i + m0) mod n = j" by metis
  with j have P: "?P m0" by simp
  show thesis
  proof (rule that)
    show "?P (LEAST m. ?P m)" by (rule LeastI [of ?P, OF P])
    show "(LEAST m. ?P m) < n" using Least_le [of ?P, OF P] m0 by simp
    show "\<not> is_null (es ! ((i + m') mod n)) \<and> \<not> stop (es ! ((i + m') mod n))"
      if "m' < (LEAST m. ?P m)" for m'
      using not_less_Least [OF that] by simp
  qed
qed

section \<open>Storing a pointer in an empty slot\<close>

lemma filter_update:
  assumes "i < length es"
  shows "length (filter P (es[i := x])) + (if P (es ! i) then 1 else 0)
       = length (filter P es) + (if P x then 1 else 0)"
proof -
  let ?a = "take i es" and ?b = "drop (Suc i) es"
  have es: "es = ?a @ es ! i # ?b" using assms by (simp add: id_take_nth_drop)
  have "filter P (es[i := x]) = filter P ?a @ (if P x then [x] else []) @ filter P ?b"
    using assms by (simp add: upd_conv_take_nth_drop)
  moreover have "filter P es = filter P ?a @ (if P (es ! i) then [es ! i] else []) @ filter P ?b"
    by (subst es) simp
  ultimately show ?thesis by simp
qed

lemma store_counts:
  assumes "i < length es" "is_null (es ! i)"
  shows "n_data (es[i := \<lparr>hashValue = h, hdata = Data d\<rparr>]) = n_data es + 1"
    and "n_tomb (es[i := \<lparr>hashValue = h, hdata = Data d\<rparr>]) = n_tomb es"
  using filter_update [OF assms(1), of is_data "\<lparr>hashValue = h, hdata = Data d\<rparr>"]
    filter_update [OF assms(1), of is_tomb "\<lparr>hashValue = h, hdata = Data d\<rparr>"] assms(2)
  by (auto simp: n_data_def n_tomb_def slot_defs split: slot.splits)

lemma ex_update:
  "i < length es \<Longrightarrow> (\<exists>j < length (es[i := x]). P (es[i := x] ! j)) \<longleftrightarrow> P x \<or> (\<exists>j < length es. j \<noteq> i \<and> P (es ! j))"
  by (auto simp: nth_list_update)

lemma store_live:
  assumes i: "i < length es" and null: "is_null (es ! i)"
  shows "live (es[i := \<lparr>hashValue = h, hdata = Data d\<rparr>]) = insert (h, d) (live es)"
proof (rule set_eqI, clarify)
  fix h' d'
  have "hdata (es ! j) = Data d' \<Longrightarrow> j \<noteq> i" for j using null by (auto simp: is_null_def)
  then show "(h', d') \<in> live (es[i := \<lparr>hashValue = h, hdata = Data d\<rparr>]) \<longleftrightarrow> (h', d') \<in> insert (h, d) (live es)"
    using ex_update [OF i, where P = "\<lambda>e. hashValue e = h' \<and> hdata e = Data d'"
        and x = "\<lparr>hashValue = h, hdata = Data d\<rparr>"]
    by (auto simp: live_def simp del: length_list_update)
qed

text \<open>Overwriting a slot with something that is not empty keeps the other pointers reachable.\<close>

lemma reach_update:
  assumes r: "reach es" and i: "i < length es" and x: "\<not> is_null x"
    and new: "is_data x \<Longrightarrow> \<exists>m < length es. (home (hashValue x) (length es) + m) mod length es = i \<and>
      (\<forall>m' < m. \<not> is_null (es ! ((home (hashValue x) (length es) + m') mod length es)))"
  shows "reach (es[i := x])"
proof -
  have mono: "\<not> is_null (es ! k) \<Longrightarrow> \<not> is_null (es[i := x] ! k)" for k
    using i x by (cases "k = i") auto
  show ?thesis
    unfolding reach_def
  proof (intro allI impI)
    fix j
    assume j: "j < length (es[i := x])" and d: "is_data (es[i := x] ! j)"
    show "\<exists>m < length (es[i := x]). (home (hashValue (es[i := x] ! j)) (length (es[i := x])) + m)
        mod length (es[i := x]) = j \<and>
      (\<forall>m' < m. \<not> is_null (es[i := x] ! ((home (hashValue (es[i := x] ! j)) (length (es[i := x])) + m')
        mod length (es[i := x]))))"
    proof (cases "j = i")
      case True
      with d i new obtain m where "m < length es" "(home (hashValue x) (length es) + m) mod length es = i"
        "\<forall>m' < m. \<not> is_null (es ! ((home (hashValue x) (length es) + m') mod length es))" by auto
      then show ?thesis using True i mono by (intro exI [of _ m]) simp
    next
      case False
      with j d r obtain m where "m < length es"
        "(home (hashValue (es ! j)) (length es) + m) mod length es = j"
        "\<forall>m' < m. \<not> is_null (es ! ((home (hashValue (es ! j)) (length es) + m') mod length es))"
        by (auto simp: reach_def)
      then show ?thesis using False mono by (intro exI [of _ m]) simp
    qed
  qed
qed

lemma store_reach:
  assumes "reach es" "i < length es" "m < length es" "(home h (length es) + m) mod length es = i"
    and "\<And>m'. m' < m \<Longrightarrow> \<not> is_null (es ! ((home h (length es) + m') mod length es))"
  shows "reach (es[i := \<lparr>hashValue = h, hdata = Data d\<rparr>])"
  by (rule reach_update) (use assms in \<open>auto simp: is_null_def\<close>)

section \<open>Growing keeps the content\<close>

lemma resize_loop_ok:
  assumes "pow2 n"
  shows "length new = n \<Longrightarrow> reach new \<Longrightarrow> n_tomb new = 0 \<Longrightarrow> n_data new + n_data es < n \<Longrightarrow>
    \<exists>new'. resize_loop n es new = Some new' \<and> length new' = n \<and> reach new' \<and> n_tomb new' = 0 \<and>
      n_data new' = n_data new + n_data es \<and> live new' = live new \<union> live es"
proof (induction es arbitrary: new)
  case Nil
  then show ?case by (simp add: n_data_def live_def)
next
  case (Cons e es)
  have cons: "live (e # es) = {(h, d). hashValue e = h \<and> hdata e = Data d} \<union> live es"
    unfolding live_def by (auto simp: less_Suc_eq_0_disj)
  show ?case
  proof (cases "hdata e")
    case (Data d)
    let ?h = "hashValue e"
    have hm: "home ?h n < n" using assms home_pow2 by simp
    have "n_data new + n_tomb new < n" using Cons.prems by (simp add: n_data_def)
    from first_stop [OF Cons.prems(1) hm this, of "\<lambda>_. False"] obtain m where m: "m < n"
      and null: "is_null (new ! ((home ?h n + m) mod n))"
      and first: "\<And>m'. m' < m \<Longrightarrow> \<not> is_null (new ! ((home ?h n + m') mod n))" by auto
    let ?i = "(home ?h n + m) mod n"
    let ?new = "new[?i := \<lparr>hashValue = ?h, hdata = Data d\<rparr>]"
    have i: "?i < length new" using Cons.prems(1) m by simp
    have probe: "resize_probe new n (home ?h n) = Some ?i"
      by (rule resize_probe_is_probe_loop [OF Cons.prems(1) assms hm]) (use m null first in auto)
    have "reach ?new"
      by (rule store_reach [where m = m]) (use Cons.prems(1,2) m i first in auto)
    moreover have "n_data (e # es) = n_data es + 1" using Data by (simp add: n_data_def is_data_def)
    ultimately obtain new' where "resize_loop n es ?new = Some new'" "length new' = n" "reach new'"
      "n_tomb new' = 0" "n_data new' = n_data new + n_data (e # es)"
      "live new' = insert (?h, d) (live new) \<union> live es"
      using Cons.IH [of ?new] Cons.prems store_counts [OF i null, of ?h d] store_live [OF i null, of ?h d]
      by auto
    then show ?thesis using Data probe cons by (auto simp: home_def [symmetric])
  next
    case Null
    then show ?thesis using Cons cons by (simp add: n_data_def is_data_def)
  next
    case Tombstone
    then show ?thesis using Cons cons by (simp add: n_data_def is_data_def)
  qed
qed

lemma calloc_entries_empty:
  "length (calloc_entries n) = n" "reach (calloc_entries n)" "n_tomb (calloc_entries n) = 0"
  "n_data (calloc_entries n) = 0" "live (calloc_entries n) = {}"
  by (auto simp: calloc_entries_def reach_def n_tomb_def n_data_def live_def slot_defs)

lemma countTombStones_n_tomb: "length (pEntries t) = tableSize t \<Longrightarrow> countTombStones t = n_tomb (pEntries t)"
  by (simp add: countTombStones_def n_tomb_def is_tomb_def [abs_def])

lemma resizeHash_ok:
  assumes "pow2 n" "length (pEntries t) = tableSize t" "n_tomb (pEntries t) = numDeadEntries t"
    and "n_data (pEntries t) < n"
  shows "\<exists>t'. resizeHash True t n = Some (Some t') \<and> tableSize t' = n \<and> length (pEntries t') = n \<and>
    numEntries t' = numEntries t \<and> numDeadEntries t' = 0 \<and> reach (pEntries t') \<and>
    n_tomb (pEntries t') = 0 \<and> n_data (pEntries t') = n_data (pEntries t) \<and>
    live (pEntries t') = live (pEntries t) \<and> freeFunc t' = freeFunc t"
proof -
  from resize_loop_ok [OF assms(1), of "calloc_entries n" "pEntries t"] assms(4)
  obtain new where new: "resize_loop n (pEntries t) (calloc_entries n) = Some new" "length new = n"
    "reach new" "n_tomb new = 0" "n_data new = n_data (pEntries t)" "live new = live (pEntries t)"
    by (auto simp: calloc_entries_empty)
  let ?t' = "t\<lparr>pEntries := new, tableSize := n, numDeadEntries := 0\<rparr>"
  have "countTombStones ?t' = 0" using new countTombStones_n_tomb [of ?t'] by simp
  then have "resizeHash True t n = Some (Some ?t')"
    using assms(2,3) new countTombStones_n_tomb [of t] by (simp add: resizeHash_def Let_def)
  then show ?thesis using new by auto
qed

section \<open>Lookup, insertion and removal on the abstract content\<close>

lemma inv_free: "hash_inv t \<Longrightarrow> n_data (pEntries t) + n_tomb (pEntries t) < tableSize t"
  by (auto simp: hash_inv_def LOAD_DENOM_def LOAD_NUMER_def dest: pow2_pos)

lemma inv_probe:
  assumes inv: "hash_inv t"
  obtains m where "m < tableSize t"
    and "probe_loop stop (pEntries t) (tableSize t) (home h (tableSize t))
           = Some ((home h (tableSize t) + m) mod tableSize t)"
    and "is_null (pEntries t ! ((home h (tableSize t) + m) mod tableSize t)) \<or>
         stop (pEntries t ! ((home h (tableSize t) + m) mod tableSize t))"
    and "\<And>m'. m' < m \<Longrightarrow> \<not> is_null (pEntries t ! ((home h (tableSize t) + m') mod tableSize t)) \<and>
         \<not> stop (pEntries t ! ((home h (tableSize t) + m') mod tableSize t))"
proof -
  let ?n = "tableSize t"
  have n: "pow2 ?n" and len: "length (pEntries t) = ?n" using inv by (simp_all add: hash_inv_def)
  have i: "home h ?n < ?n" using n home_pow2 by simp
  from first_stop [OF len i inv_free [OF inv], of stop] obtain m where m: "m < ?n"
    and s: "is_null (pEntries t ! ((home h ?n + m) mod ?n)) \<or> stop (pEntries t ! ((home h ?n + m) mod ?n))"
    and f: "\<And>m'. m' < m \<Longrightarrow> \<not> is_null (pEntries t ! ((home h ?n + m') mod ?n)) \<and>
      \<not> stop (pEntries t ! ((home h ?n + m') mod ?n))" by blast
  from probe_loop_stops [OF len i _ f s] m have
    "probe_loop stop (pEntries t) ?n (home h ?n) = Some ((home h ?n + m) mod ?n)" by simp
  with that m s f show thesis by blast
qed

text \<open>A probe does not run past a stored pointer it should stop at.\<close>

lemma reach_hit:
  assumes r: "reach es" and j: "j < length es" "is_data (es ! j)" "hashValue (es ! j) = h" "stop (es ! j)"
    and f: "\<And>m'. m' < m \<Longrightarrow> \<not> stop (es ! ((home h (length es) + m') mod length es))"
  shows "\<not> is_null (es ! ((home h (length es) + m) mod length es))"
proof -
  from r j obtain mj where mj: "(home h (length es) + mj) mod length es = j"
    and nn: "\<forall>m' < mj. \<not> is_null (es ! ((home h (length es) + m') mod length es))"
    by (auto simp: reach_def)
  have "\<not> mj < m" using f [of mj] mj j(4) by auto
  then consider "m < mj" | "m = mj" by linarith
  then show ?thesis
    using nn mj j(2) by cases (auto simp: slot_defs split: slot.splits)
qed

lemma live_iff: "(h, d) \<in> live es \<longleftrightarrow> (\<exists>j < length es. hashValue (es ! j) = h \<and> hdata (es ! j) = Data d)"
  by (simp add: live_def)

lemma lookup_hit:
  assumes inv: "hash_inv t" and d: "(h, d) \<in> live (pEntries t)" "cmp d item = 0"
  shows "\<exists>d'. mzHashTableLookup c t h item cmp doAdd = Some (Some d', t) \<and>
    (h, d') \<in> live (pEntries t) \<and> cmp d' item = 0"
proof -
  let ?n = "tableSize t" and ?es = "pEntries t" and ?stop = "item_match cmp h item"
  have len: "length ?es = ?n" and r: "reach ?es" and n0: "?n \<noteq> 0"
    using inv by (auto simp: hash_inv_def)
  from inv_probe [OF inv, of ?stop h] obtain m where m: "m < ?n"
    and p: "probe_loop ?stop ?es ?n (home h ?n) = Some ((home h ?n + m) mod ?n)"
    and s: "is_null (?es ! ((home h ?n + m) mod ?n)) \<or> ?stop (?es ! ((home h ?n + m) mod ?n))"
    and f: "\<And>m'. m' < m \<Longrightarrow> \<not> ?stop (?es ! ((home h ?n + m') mod ?n))" by metis
  let ?i = "(home h ?n + m) mod ?n"
  from d obtain j where j: "j < ?n" "hashValue (?es ! j) = h" "hdata (?es ! j) = Data d"
    using len by (auto simp: live_iff)
  have "\<not> is_null (?es ! ?i)"
    using reach_hit [OF r, of j h ?stop m] j d(2) f len by (auto simp: item_match_def is_data_def)
  with s obtain d' where d': "hdata (?es ! ?i) = Data d'" "hashValue (?es ! ?i) = h" "cmp d' item = 0"
    by (auto simp: item_match_def split: slot.splits)
  have i: "?i < ?n" using n0 by simp
  then have "(h, d') \<in> live ?es" using d' len by (auto simp: live_iff)
  then show ?thesis using d' p i len n0 by (simp add: mzHashTableLookup_def)
qed

lemma lookup_probe_null:
  assumes inv: "hash_inv t" and none: "\<forall>d. (h, d) \<in> live (pEntries t) \<longrightarrow> cmp d item \<noteq> 0"
  obtains m where "m < tableSize t"
    and "probe_loop (item_match cmp h item) (pEntries t) (tableSize t) (home h (tableSize t))
           = Some ((home h (tableSize t) + m) mod tableSize t)"
    and "is_null (pEntries t ! ((home h (tableSize t) + m) mod tableSize t))"
    and "\<And>m'. m' < m \<Longrightarrow> \<not> is_null (pEntries t ! ((home h (tableSize t) + m') mod tableSize t))"
proof -
  let ?n = "tableSize t" and ?es = "pEntries t"
  have len: "length ?es = ?n" and n0: "?n \<noteq> 0" using inv by (auto simp: hash_inv_def)
  have no: "\<not> item_match cmp h item (?es ! j)" if "j < ?n" for j
    using none that len by (auto simp: item_match_def live_iff split: slot.splits)
  show thesis
    by (rule inv_probe [OF inv, of "item_match cmp h item" h], rule that) (use no n0 in auto)
qed

lemma lookup_miss:
  assumes inv: "hash_inv t" and none: "\<forall>d. (h, d) \<in> live (pEntries t) \<longrightarrow> cmp d item \<noteq> 0"
  shows "mzHashTableLookup c t h item cmp False = Some (None, t)"
proof -
  from lookup_probe_null [OF inv, where cmp = cmp and item = item and h = h] none obtain m where
    p: "probe_loop (item_match cmp h item) (pEntries t) (tableSize t) (home h (tableSize t))
           = Some ((home h (tableSize t) + m) mod tableSize t)"
    and n: "is_null (pEntries t ! ((home h (tableSize t) + m) mod tableSize t))" by metis
  moreover have "length (pEntries t) = tableSize t" "tableSize t \<noteq> 0"
    using inv by (auto simp: hash_inv_def)
  ultimately show ?thesis
    by (simp add: mzHashTableLookup_def is_null_def split: slot.splits)
qed

text \<open>How many more pointers a table can take before its counters come near \<open>INT_MAX\<close>.\<close>

definition room :: "'a HashTable \<Rightarrow> nat \<Rightarrow> bool" where
  "room t k \<longleftrightarrow> tableSize t \<le> 2 ^ 28 \<and> numEntries t + numDeadEntries t + k \<le> 2 ^ 26"

lemma pow2_double: "pow2 n \<Longrightarrow> n \<le> 2 ^ 28 \<Longrightarrow> pow2 (n * 2)"
proof -
  assume "pow2 n" "n \<le> 2 ^ 28"
  then obtain k where k: "n = 2 ^ k" by (auto simp: pow2_def)
  with \<open>n \<le> 2 ^ 28\<close> have "(2 :: nat) ^ k \<le> 2 ^ 28" by simp
  then have "k \<le> 28" by (rule power_le_imp_le_exp [rotated]) simp
  then have "Suc k \<le> 31" by simp
  with k show ?thesis by (auto simp: pow2_def intro!: exI [of _ "Suc k"])
qed

lemma lookup_add:
  assumes inv: "hash_inv t" and none: "\<forall>d. (h, d) \<in> live (pEntries t) \<longrightarrow> cmp d item \<noteq> 0"
    and room: "room t (Suc k)"
  shows "\<exists>t'. mzHashTableLookup True t h item cmp True = Some (Some item, t') \<and> hash_inv t' \<and>
    live (pEntries t') = insert (h, item) (live (pEntries t)) \<and> numEntries t' = numEntries t + 1 \<and>
    room t' k"
proof -
  let ?n = "tableSize t" and ?es = "pEntries t"
  have n: "pow2 ?n" "length ?es = ?n" "numEntries t = n_data ?es" "numDeadEntries t = n_tomb ?es"
    and load: "(numEntries t + numDeadEntries t) * 8 \<le> ?n * 5" and r: "reach ?es"
    using inv by (simp_all add: hash_inv_def LOAD_DENOM_def LOAD_NUMER_def)
  have n0: "0 < ?n" using n(1) by simp
  from lookup_probe_null [OF inv, where cmp = cmp and item = item and h = h] none obtain m where m: "m < ?n"
    and p: "probe_loop (item_match cmp h item) ?es ?n (home h ?n) = Some ((home h ?n + m) mod ?n)"
    and null: "is_null (?es ! ((home h ?n + m) mod ?n))"
    and f: "\<And>m'. m' < m \<Longrightarrow> \<not> is_null (?es ! ((home h ?n + m') mod ?n))" by metis
  let ?i = "(home h ?n + m) mod ?n"
  let ?es' = "?es[?i := \<lparr>hashValue = h, hdata = Data item\<rparr>]"
  define t1 where "t1 = t\<lparr>pEntries := ?es', numEntries := numEntries t + 1\<rparr>"
  have i: "?i < length ?es" using n0 n(2) by simp
  note c = store_counts [OF i null, of h item] and l = store_live [OF i null, of h item]
  have r': "reach ?es'" by (rule store_reach [where m = m]) (use r i m n(2) f in auto)
  have b: "?n \<le> 268435456" "numEntries t + numDeadEntries t + Suc k \<le> 67108864"
    using room by (simp_all add: room_def)
  have "hdata (?es ! ?i) = Null" using null by (simp add: is_null_def split: slot.splits)
  then have step: "mzHashTableLookup True t h item cmp True =
      (case (if ?n * 5 < (numEntries t1 + numDeadEntries t1) * 8 then resizeHash True t1 (?n * 2)
             else Some (Some t1)) of
         Some (Some t) \<Rightarrow> if numEntries t < tableSize t then Some (Some item, t) else None
       | _ \<Rightarrow> None)"
    using p i n0 n(2) load b
    by (simp add: mzHashTableLookup_def t1_def LOAD_DENOM_def LOAD_NUMER_def INT_MAX_def Let_def)
  show ?thesis
  proof (cases "?n * 5 < (numEntries t1 + numDeadEntries t1) * 8")
    case False
    then have "mzHashTableLookup True t h item cmp True = Some (Some item, t1)" "hash_inv t1"
      using step n c r' n0 by (auto simp: t1_def hash_inv_def LOAD_DENOM_def LOAD_NUMER_def)
    then show ?thesis using l room by (auto simp: t1_def room_def)
  next
    case True
    have "n_data ?es * 8 \<le> ?n * 5" using load n(3) by simp
    then have small: "(n_data ?es + 1) * 8 \<le> ?n * 2 * 5" using n0 by presburger
    have "n_data (pEntries t1) < ?n * 2" using small c n0 by (simp add: t1_def)
    with resizeHash_ok [of "?n * 2" t1] pow2_double [OF n(1)] b n c obtain t2 where
      t2: "resizeHash True t1 (?n * 2) = Some (Some t2)" "tableSize t2 = ?n * 2"
      "length (pEntries t2) = ?n * 2" "numEntries t2 = numEntries t + 1" "numDeadEntries t2 = 0"
      "reach (pEntries t2)" "n_tomb (pEntries t2) = 0" "n_data (pEntries t2) = n_data ?es + 1"
      "live (pEntries t2) = insert (h, item) (live ?es)"
      using l by (auto simp: t1_def)
    have inv2: "hash_inv t2"
      using t2 n small pow2_double [OF n(1)] b by (simp add: hash_inv_def LOAD_DENOM_def LOAD_NUMER_def)
    have "mzHashTableLookup True t h item cmp True = Some (Some item, t2)"
      using step True t2 small n n0 by simp
    moreover have "room t2 k" using t2 b True by (simp add: room_def t1_def)
    ultimately show ?thesis using inv2 t2 by auto
  qed
qed

lemma bury_counts:
  assumes "i < length es" "is_data (es ! i)"
  shows "n_data es = n_data (es[i := (es ! i)\<lparr>hdata := Tombstone\<rparr>]) + 1"
    and "n_tomb (es[i := (es ! i)\<lparr>hdata := Tombstone\<rparr>]) = n_tomb es + 1"
  using filter_update [OF assms(1), of is_data "(es ! i)\<lparr>hdata := Tombstone\<rparr>"]
    filter_update [OF assms(1), of is_tomb "(es ! i)\<lparr>hdata := Tombstone\<rparr>"] assms(2)
  by (auto simp: n_data_def n_tomb_def slot_defs split: slot.splits)

lemma bury_live:
  assumes i: "i < length es" and d: "hdata (es ! i) = Data d"
  shows "live (es[i := (es ! i)\<lparr>hdata := Tombstone\<rparr>]) \<subseteq> live es"
    and "(h', d') \<in> live es \<Longrightarrow> d' \<noteq> d \<Longrightarrow> (h', d') \<in> live (es[i := (es ! i)\<lparr>hdata := Tombstone\<rparr>])"
proof -
  show "live (es[i := (es ! i)\<lparr>hdata := Tombstone\<rparr>]) \<subseteq> live es"
    using i by (auto simp: live_def nth_list_update split: if_splits)
  assume "(h', d') \<in> live es" "d' \<noteq> d"
  then obtain j where j: "j < length es" "hashValue (es ! j) = h'" "hdata (es ! j) = Data d'"
    by (auto simp: live_iff)
  with d \<open>d' \<noteq> d\<close> have "j \<noteq> i" by auto
  with j show "(h', d') \<in> live (es[i := (es ! i)\<lparr>hdata := Tombstone\<rparr>])"
    by (auto simp: live_iff intro!: exI [of _ j])
qed

lemma remove_hit:
  assumes inv: "hash_inv t" and d: "(h, item) \<in> live (pEntries t)"
  shows "\<exists>t' i. mzHashTableRemove t h item = Some (True, t') \<and> hash_inv t' \<and>
    numEntries t' + 1 = numEntries t \<and> numDeadEntries t' = numDeadEntries t + 1 \<and>
    i < tableSize t \<and> hdata (pEntries t ! i) = Data item \<and>
    pEntries t' = (pEntries t)[i := (pEntries t ! i)\<lparr>hdata := Tombstone\<rparr>]"
proof -
  let ?n = "tableSize t" and ?es = "pEntries t"
  have len: "length ?es = ?n" and r: "reach ?es" and n: "?n \<noteq> 0" "pow2 ?n"
    and cnt: "numEntries t = n_data ?es" "numDeadEntries t = n_tomb ?es"
    and load: "(n_data ?es + n_tomb ?es) * 8 \<le> ?n * 5"
    using inv by (auto simp: hash_inv_def LOAD_DENOM_def LOAD_NUMER_def)
  from inv_probe [OF inv, of "item_is item" h] obtain m where
    p: "probe_loop (item_is item) ?es ?n (home h ?n) = Some ((home h ?n + m) mod ?n)"
    and s: "is_null (?es ! ((home h ?n + m) mod ?n)) \<or> item_is item (?es ! ((home h ?n + m) mod ?n))"
    and f: "\<And>m'. m' < m \<Longrightarrow> \<not> item_is item (?es ! ((home h ?n + m') mod ?n))" by metis
  let ?i = "(home h ?n + m) mod ?n"
  let ?es' = "?es[?i := (?es ! ?i)\<lparr>hdata := Tombstone\<rparr>]"
  from d obtain j where "j < ?n" "hashValue (?es ! j) = h" "hdata (?es ! j) = Data item"
    using len by (auto simp: live_iff)
  then have nn: "\<not> is_null (?es ! ?i)"
    using reach_hit [OF r, of j h "item_is item" m] f len by (auto simp: item_is_def is_data_def)
  with s have di: "hdata (?es ! ?i) = Data item" by (auto simp: item_is_def split: slot.splits)
  have i: "?i < length ?es" using n len by simp
  let ?t' = "t\<lparr>pEntries := ?es', numEntries := numEntries t - 1, numDeadEntries := numDeadEntries t + 1\<rparr>"
  have "reach ?es'"
    by (rule reach_update [OF r i]) (simp_all add: slot_defs)
  moreover have c: "n_data ?es = n_data ?es' + 1" "n_tomb ?es' = n_tomb ?es + 1"
    using bury_counts [OF i] di by (simp_all add: is_data_def)
  ultimately have "hash_inv ?t'"
    using n len cnt load by (simp add: hash_inv_def LOAD_DENOM_def LOAD_NUMER_def)
  moreover have "mzHashTableRemove t h item = Some (True, ?t')"
    using p i nn n by (simp add: mzHashTableRemove_def)
  ultimately show ?thesis using c cnt di i len by (intro exI [of _ ?t'] exI [of _ ?i]) simp
qed

lemma remove_miss:
  assumes inv: "hash_inv t" and none: "\<forall>h'. (h', item) \<notin> live (pEntries t)"
  shows "mzHashTableRemove t h item = Some (False, t)"
proof -
  let ?n = "tableSize t" and ?es = "pEntries t"
  have len: "length ?es = ?n" and n: "?n \<noteq> 0" using inv by (auto simp: hash_inv_def)
  from inv_probe [OF inv, of "item_is item" h] obtain m where
    p: "probe_loop (item_is item) ?es ?n (home h ?n) = Some ((home h ?n + m) mod ?n)"
    and s: "is_null (?es ! ((home h ?n + m) mod ?n)) \<or> item_is item (?es ! ((home h ?n + m) mod ?n))"
    by metis
  have "(home h ?n + m) mod ?n < length ?es" using n len by simp
  then have "\<not> item_is item (?es ! ((home h ?n + m) mod ?n))"
    using none by (auto simp: item_is_def live_iff split: slot.splits)
  with s p n len show ?thesis by (simp add: mzHashTableRemove_def)
qed

section \<open>Creation\<close>

lemma bit_smear_step:
  fixes y x :: u32
  assumes "\<And>i. bit y i \<longleftrightarrow> (\<exists>k \<ge> i. k < i + s \<and> bit x k)"
  shows "bit (y OR drop_bit s y) i \<longleftrightarrow> (\<exists>k \<ge> i. k < i + (s + s) \<and> bit x k)"
proof -
  have "bit (y OR drop_bit s y) i \<longleftrightarrow> bit y i \<or> bit y (s + i)"
    by (simp add: bit_or_iff bit_drop_bit_eq)
  also have "\<dots> \<longleftrightarrow> (\<exists>k \<ge> i. k < i + (s + s) \<and> bit x k)"
    unfolding assms
  proof
    assume "(\<exists>k \<ge> i. k < i + s \<and> bit x k) \<or> (\<exists>k \<ge> s + i. k < s + i + s \<and> bit x k)"
    then consider k where "i \<le> k" "k < i + s" "bit x k" | k where "s + i \<le> k" "k < s + i + s" "bit x k"
      by blast
    then show "\<exists>k \<ge> i. k < i + (s + s) \<and> bit x k"
    proof cases
      case (1 k)
      then show ?thesis by (intro exI [of _ k]) simp
    next
      case (2 k)
      then show ?thesis by (intro exI [of _ k]) simp
    qed
  next
    assume "\<exists>k \<ge> i. k < i + (s + s) \<and> bit x k"
    then obtain k where k: "i \<le> k" "k < i + (s + s)" "bit x k" by blast
    then show "(\<exists>k \<ge> i. k < i + s \<and> bit x k) \<or> (\<exists>k \<ge> s + i. k < s + i + s \<and> bit x k)"
      by (cases "k < i + s") (auto intro: exI [of _ k])
  qed
  finally show ?thesis .
qed

text \<open>The value of \<open>roundUpPower2\<close> before the last increment: all bits up to the highest set one.\<close>

definition smear :: "u32 \<Rightarrow> u32" where
  "smear val =
     (let val = val OR drop_bit 1 val;
          val = val OR drop_bit 2 val;
          val = val OR drop_bit 4 val;
          val = val OR drop_bit 8 val
      in val OR drop_bit 16 val)"

lemma roundUpPower2_smear: "roundUpPower2 v = smear (v - 1) + 1"
  by (simp add: roundUpPower2_def smear_def Let_def)

lemma bit_smear: "bit (smear x) i \<longleftrightarrow> (\<exists>k \<ge> i. bit x k)"
proof -
  have s0: "bit x j \<longleftrightarrow> (\<exists>k \<ge> j. k < j + 1 \<and> bit x k)" for j
    using le_antisym by fastforce
  define y1 where "y1 = x OR drop_bit 1 x"
  have s1: "bit y1 j \<longleftrightarrow> (\<exists>k \<ge> j. k < j + 2 \<and> bit x k)" for j
    using bit_smear_step [where s = 1 and y = x and x = x, OF s0] by (simp add: y1_def)
  define y2 where "y2 = y1 OR drop_bit 2 y1"
  have s2: "bit y2 j \<longleftrightarrow> (\<exists>k \<ge> j. k < j + 4 \<and> bit x k)" for j
    using bit_smear_step [where s = 2 and y = y1 and x = x, OF s1] by (simp add: y2_def)
  define y3 where "y3 = y2 OR drop_bit 4 y2"
  have s3: "bit y3 j \<longleftrightarrow> (\<exists>k \<ge> j. k < j + 8 \<and> bit x k)" for j
    using bit_smear_step [where s = 4 and y = y2 and x = x, OF s2] by (simp add: y3_def)
  define y4 where "y4 = y3 OR drop_bit 8 y3"
  have s4: "bit y4 j \<longleftrightarrow> (\<exists>k \<ge> j. k < j + 16 \<and> bit x k)" for j
    using bit_smear_step [where s = 8 and y = y3 and x = x, OF s3] by (simp add: y4_def)
  define y5 where "y5 = y4 OR drop_bit 16 y4"
  have s5: "bit y5 j \<longleftrightarrow> (\<exists>k \<ge> j. k < j + 32 \<and> bit x k)" for j
    using bit_smear_step [where s = 16 and y = y4 and x = x, OF s4] by (simp add: y5_def)
  have "smear x = y5" by (simp add: smear_def Let_def y1_def y2_def y3_def y4_def y5_def)
  then have "bit (smear x) i \<longleftrightarrow> (\<exists>k \<ge> i. k < i + 32 \<and> bit x k)" using s5 by simp
  also have "\<dots> \<longleftrightarrow> (\<exists>k \<ge> i. bit x k)"
    using bit_imp_le_length [of x] by force
  finally show ?thesis .
qed

lemma smear_mask:
  assumes t: "2 ^ t \<le> unat x" "unat x < 2 ^ Suc t"
  shows "smear x = mask (Suc t)"
proof (rule bit_word_eqI)
  fix i
  assume i: "i < LENGTH(32)"
  have nat_bit: "bit x k \<longleftrightarrow> bit (unat x) k" for k by (simp add: bit_unsigned_iff)
  have "unat x div 2 ^ t = 1" by (rule div_nat_eqI) (use t in simp_all)
  then have "odd (unat x div 2 ^ t)" by (metis odd_one)
  then have top: "bit x t" unfolding nat_bit bit_iff_odd [of "unat x"] .
  have above: "k \<le> t" if "bit x k" for k
  proof (rule ccontr)
    assume "\<not> k \<le> t"
    then have "(2 :: nat) ^ Suc t \<le> 2 ^ k" by (intro power_increasing) auto
    with t(2) have "unat x div 2 ^ k = 0" by simp
    with that show False unfolding nat_bit bit_iff_odd [of "unat x"] by (metis even_zero)
  qed
  have "(\<exists>k \<ge> i. bit x k) \<longleftrightarrow> i \<le> t" using top above le_trans by blast
  then show "bit (smear x) i = bit (mask (Suc t) :: u32) i"
    using i by (auto simp: bit_smear bit_mask_iff less_Suc_eq_le)
qed

lemma roundUpPower2_value:
  assumes "1 \<le> unat v" "unat v \<le> 2 ^ 31"
  obtains k where "k \<le> 31" "unat (roundUpPower2 v) = 2 ^ k" "unat v \<le> 2 ^ k" "2 ^ k < 2 * unat v"
proof (cases "unat v = 1")
  case True
  then have "v = 1" by (simp add: word_unat_eq_iff)
  then have "v - 1 = 0" by simp
  moreover have "smear 0 = 0" by (simp add: smear_def)
  ultimately have "unat (roundUpPower2 v) = 2 ^ 0" by (simp add: roundUpPower2_smear)
  with that [of 0] True show thesis by simp
next
  case False
  let ?x = "v - 1"
  have x: "unat ?x = unat v - 1"
    using assms(1) by (metis One_nat_def unat_minus_one le_numeral_extra(2) unat_0)
  from False assms(1) x have "1 \<le> unat ?x" by simp
  from ex_power_ivl1 [OF _ this, of 2] obtain t where
    t: "2 ^ t \<le> unat ?x" "unat ?x < 2 ^ Suc t" by auto
  have "(2 :: nat) ^ t < 2 ^ 31" using t(1) x assms by linarith
  then have t31: "t < 31" by (rule power_less_imp_less_exp [rotated]) simp
  have "roundUpPower2 v = 2 ^ Suc t"
    unfolding roundUpPower2_smear smear_mask [OF t] by (simp add: mask_eq_exp_minus_1)
  then have "unat (roundUpPower2 v) = 2 ^ Suc t"
    using unat_of_nat [where 'a = 32, of "2 ^ Suc t"] power_strict_increasing [of "Suc t" 32 "2 :: nat"] t31
    by simp
  with that [of "Suc t"] t x t31 assms show thesis by auto
qed

lemma create_ok:
  assumes "1 \<le> unat sz" "unat sz \<le> 2 ^ 28"
  shows "\<exists>t. mzHashTableCreate True True sz ff = Some (Some t) \<and> hash_inv t \<and> live (pEntries t) = {} \<and>
    numEntries t = 0 \<and> numDeadEntries t = 0 \<and> unat sz \<le> tableSize t \<and> tableSize t \<le> 2 ^ 28"
proof -
  have le: "unat sz \<le> 2 ^ 31" using assms(2) by simp
  from roundUpPower2_value [OF assms(1) le] obtain k where k: "k \<le> 31" "unat (roundUpPower2 sz) = 2 ^ k"
    "unat sz \<le> 2 ^ k" "2 ^ k < 2 * unat sz" by metis
  have "(2 :: nat) ^ k < 2 ^ 29" using k(4) assms(2) by simp
  then have "k < 29" by (rule power_less_imp_less_exp [rotated]) simp
  then have "(2 :: nat) ^ k \<le> 2 ^ 28" by (intro power_increasing) auto
  moreover have "sz \<noteq> 0" using assms(1) by auto
  moreover have "pow2 (2 ^ k)" using k(1) by (auto simp: pow2_def)
  ultimately show ?thesis
    using k by (simp add: mzHashTableCreate_def Let_def hash_inv_def calloc_entries_empty)
qed

section \<open>Iterating\<close>

definition data_list :: "'a HashEntry list \<Rightarrow> 'a list" where
  "data_list es = concat (map (\<lambda>e. case hdata e of Data d \<Rightarrow> [d] | _ \<Rightarrow> []) es)"

lemma data_list_simps [simp]:
  "data_list [] = []"
  "data_list (e # es) = (case hdata e of Data d \<Rightarrow> d # data_list es | _ \<Rightarrow> data_list es)"
  by (simp_all add: data_list_def split: slot.splits)

lemma foreach_collects: "foreach_loop (\<lambda>d s. (0, s @ [d])) es s = (0, s @ data_list es)"
  by (induction es arbitrary: s) (auto split: slot.splits)

lemma set_data_list: "set (data_list es) = snd ` live es"
proof -
  have "d \<in> set (data_list es) \<longleftrightarrow> (\<exists>e \<in> set es. hdata e = Data d)" for d
    by (induction es) (auto split: slot.splits)
  moreover have "(\<exists>e \<in> set es. hdata e = Data d) \<longleftrightarrow> (\<exists>j < length es. hdata (es ! j) = Data d)" for d
    by (metis in_set_conv_nth)
  ultimately have "set (data_list es) = {d. \<exists>j < length es. hdata (es ! j) = Data d}"
    by blast
  then show ?thesis by (auto simp: live_def image_iff)
qed

text \<open>The loop \<^verbatim>\<open>for (mzHashIterBegin(t, &i); !mzHashIterDone(&i); mzHashIterNext(&i))\<close>.\<close>

function iter_collect :: "'a HashTable \<Rightarrow> int \<Rightarrow> 'a slot list" where
  "iter_collect t idx =
     (if mzHashIterDone t idx \<or> idx < 0 then []
      else hdata (pEntries t ! nat idx) # iter_collect t (mzHashIterNext t idx))"
  by pat_completeness auto

lemma iter_next_ge: "i \<le> iter_next_loop t i"
proof (induction t i rule: iter_next_loop.induct)
  case (1 t i)
  then show ?case
    by (cases "i < tableSize t"; cases "hdata (pEntries t ! i)")
      (simp_all add: iter_next_loop.simps [of t i])
qed

termination iter_collect
proof (relation "measure (\<lambda>(t, idx). nat (int (tableSize t) - idx))")
  fix t :: "'a HashTable" and idx
  assume "\<not> (mzHashIterDone t idx \<or> idx < 0)"
  moreover have "nat (idx + 1) \<le> iter_next_loop t (nat (idx + 1))" by (rule iter_next_ge)
  ultimately show "((t, mzHashIterNext t idx), t, idx) \<in> measure (\<lambda>(t, idx). nat (int (tableSize t) - idx))"
    by (auto simp: mzHashIterNext_def mzHashIterDone_def)
qed simp

declare iter_collect.simps [simp del]

lemma iter_collect_from:
  assumes len: "length (pEntries t) = tableSize t"
  shows "i \<le> tableSize t \<Longrightarrow>
    iter_collect t (int (iter_next_loop t i)) = map Data (data_list (drop i (pEntries t)))"
proof (induction "tableSize t - i" arbitrary: i)
  case 0
  then have "i = tableSize t" by simp
  then show ?case using len
    by (subst iter_next_loop.simps) (simp add: iter_collect.simps mzHashIterDone_def)
next
  case (Suc n)
  then have i: "i < tableSize t" by simp
  have step: "drop i (pEntries t) = pEntries t ! i # drop (Suc i) (pEntries t)"
    using i len by (simp add: Cons_nth_drop_Suc)
  have IH: "iter_collect t (int (iter_next_loop t (Suc i))) = map Data (data_list (drop (Suc i) (pEntries t)))"
    by (rule Suc.hyps(1)) (use Suc.hyps(2) i in auto)
  show ?case
  proof (cases "hdata (pEntries t ! i)")
    case (Data d)
    then have "iter_next_loop t i = i" using i by (subst iter_next_loop.simps) simp
    moreover have "iter_collect t (int i) = Data d # iter_collect t (mzHashIterNext t (int i))"
      using i Data by (subst iter_collect.simps) (simp add: mzHashIterDone_def)
    moreover have "mzHashIterNext t (int i) = int (iter_next_loop t (Suc i))"
      by (simp add: mzHashIterNext_def nat_add_distrib)
    ultimately show ?thesis using IH Data step by simp
  next
    case Null
    then have "iter_next_loop t i = iter_next_loop t (Suc i)" using i by (subst iter_next_loop.simps) simp
    then show ?thesis using IH Null step by simp
  next
    case Tombstone
    then have "iter_next_loop t i = iter_next_loop t (Suc i)" using i by (subst iter_next_loop.simps) simp
    then show ?thesis using IH Tombstone step by simp
  qed
qed

section \<open>Clearing\<close>

lemma clear_loop_result:
  "clear_loop ff es = (map (\<lambda>e. e\<lparr>hdata := Null\<rparr>) es, if ff then data_list es else [])"
proof (induction es)
  case (Cons e es)
  have "hdata e = Null \<Longrightarrow> e\<lparr>hdata := Null\<rparr> = e" by simp
  with Cons show ?case by (auto split: slot.splits)
qed simp

section \<open>The table as clients see it\<close>

text \<open>
  The two calls clients make: \<open>mzHashTableLookup(t, h, x, cmp, false)\<close> and
  \<open>mzHashTableLookup(t, h, x, cmp, true)\<close>, with memory available.
\<close>

definition hash_find :: "('a \<Rightarrow> 'a \<Rightarrow> int) \<Rightarrow> 'a HashTable \<Rightarrow> u32 \<Rightarrow> 'a \<Rightarrow> 'a option option" where
  "hash_find cmp t h x = map_option fst (mzHashTableLookup True t h x cmp False)"

definition hash_add :: "('a \<Rightarrow> 'a \<Rightarrow> int) \<Rightarrow> 'a HashTable \<Rightarrow> u32 \<Rightarrow> 'a \<Rightarrow> ('a \<times> 'a HashTable) option" where
  "hash_add cmp t h x = (case mzHashTableLookup True t h x cmp True of
     Some (Some d, t') \<Rightarrow> Some (d, t') | _ \<Rightarrow> None)"

text \<open>Adding the items of a list one after the other; a duplicate leaves the first one in place.\<close>

fun add_all :: "('t \<Rightarrow> u32 \<Rightarrow> 'a \<Rightarrow> ('a \<times> 't) option) \<Rightarrow> ('a \<Rightarrow> u32) \<Rightarrow> 't \<Rightarrow> 'a list \<Rightarrow> 't option" where
  "add_all add hash t [] = Some t"
| "add_all add hash t (x # xs) =
     (case add t (hash x) x of None \<Rightarrow> None | Some (_, t') \<Rightarrow> add_all add hash t' xs)"

locale hash_store =
  fixes inv :: "'t \<Rightarrow> bool"
    and content :: "'t \<Rightarrow> (u32 \<times> 'a) set"
    and space :: "'t \<Rightarrow> nat \<Rightarrow> bool"
    and find :: "'t \<Rightarrow> u32 \<Rightarrow> 'a \<Rightarrow> 'a option option"
    and add :: "'t \<Rightarrow> u32 \<Rightarrow> 'a \<Rightarrow> ('a \<times> 't) option"
    and same :: "'a \<Rightarrow> 'a \<Rightarrow> bool"
  assumes find_some: "inv t \<Longrightarrow> (h, d) \<in> content t \<Longrightarrow> same d x \<Longrightarrow>
      \<exists>d'. find t h x = Some (Some d') \<and> (h, d') \<in> content t \<and> same d' x"
    and find_none: "inv t \<Longrightarrow> (\<And>d. (h, d) \<in> content t \<Longrightarrow> \<not> same d x) \<Longrightarrow> find t h x = Some None"
    and add_old: "inv t \<Longrightarrow> (h, d) \<in> content t \<Longrightarrow> same d x \<Longrightarrow>
      \<exists>d'. add t h x = Some (d', t) \<and> (h, d') \<in> content t \<and> same d' x"
    and add_new: "inv t \<Longrightarrow> (\<And>d. (h, d) \<in> content t \<Longrightarrow> \<not> same d x) \<Longrightarrow> space t (Suc k) \<Longrightarrow>
      \<exists>t'. add t h x = Some (x, t') \<and> inv t' \<and> content t' = insert (h, x) (content t) \<and> space t' k"
    and space_mono: "space t (Suc k) \<Longrightarrow> space t k"
begin

text \<open>The table holds, for each class of equal items, the first one of the list \<open>ys\<close>.\<close>

definition holds_firsts :: "('a \<Rightarrow> u32) \<Rightarrow> 't \<Rightarrow> 'a list \<Rightarrow> bool" where
  "holds_firsts hash t ys \<longleftrightarrow>
     (\<forall>h d. (h, d) \<in> content t \<longleftrightarrow> h = hash d \<and> List.find (\<lambda>y. same y d) ys = Some d)"

definition key_of :: "('a \<Rightarrow> u32) \<Rightarrow> bool" where
  "key_of hash \<longleftrightarrow> (\<forall>x y. same x y \<longrightarrow> hash x = hash y) \<and> equivp same"

lemma same_class: "key_of hash \<Longrightarrow> same x y \<Longrightarrow> (\<lambda>z. same z x) = (\<lambda>z. same z y)"
  unfolding key_of_def by (metis equivp_def)

lemma find_firsts:
  assumes "key_of hash" "inv t" "holds_firsts hash t ys"
  shows "find t (hash y) y = Some (List.find (\<lambda>z. same z y) ys)"
proof (cases "List.find (\<lambda>z. same z y) ys")
  case None
  have "\<not> same d y" if "(hash y, d) \<in> content t" for d
    using that assms(3) None same_class [OF assms(1)] unfolding holds_firsts_def by fastforce
  with None find_none [OF assms(2)] show ?thesis by simp
next
  case (Some d)
  then have "same d y" by (auto simp: find_Some_iff)
  with Some same_class [OF assms(1)] have "List.find (\<lambda>z. same z d) ys = Some d" by metis
  then have "(hash y, d) \<in> content t"
    using assms(1,3) \<open>same d y\<close> unfolding holds_firsts_def key_of_def by metis
  from find_some [OF assms(2) this \<open>same d y\<close>] obtain d' where
    d': "find t (hash y) y = Some (Some d')" "(hash y, d') \<in> content t" "same d' y" by blast
  then have "List.find (\<lambda>z. same z d') ys = Some d'" using assms(3) unfolding holds_firsts_def by metis
  with d' Some same_class [OF assms(1) d'(3)] show ?thesis by simp
qed

lemma add_firsts:
  assumes key: "key_of hash" and inv: "inv t" and hf: "holds_firsts hash t ys" and sp: "space t (Suc k)"
  shows "\<exists>d t'. add t (hash x) x = Some (d, t') \<and> inv t' \<and> holds_firsts hash t' (ys @ [x]) \<and> space t' k"
proof (cases "List.find (\<lambda>z. same z x) ys")
  case None
  have refl: "same x x" using key unfolding key_of_def by (metis equivp_reflp)
  have "\<not> same d x" if "(hash x, d) \<in> content t" for d
    using that hf None same_class [OF key] unfolding holds_firsts_def by fastforce
  from add_new [OF inv this sp] obtain t' where
    t': "add t (hash x) x = Some (x, t')" "inv t'" "content t' = insert (hash x, x) (content t)" "space t' k"
    by blast
  have "(h, d) \<in> content t' \<longleftrightarrow> h = hash d \<and> List.find (\<lambda>y. same y d) (ys @ [x]) = Some d" for h d
    using hf None refl t'(3) same_class [OF key, of x d] unfolding holds_firsts_def
    by (auto simp: find_append split: option.splits)
  with t' show ?thesis unfolding holds_firsts_def by blast
next
  case (Some d)
  then have "same d x" by (auto simp: find_Some_iff)
  with Some same_class [OF key] have "List.find (\<lambda>z. same z d) ys = Some d" by metis
  then have "(hash x, d) \<in> content t"
    using key hf \<open>same d x\<close> unfolding holds_firsts_def key_of_def by metis
  from add_old [OF inv this \<open>same d x\<close>] obtain d' where "add t (hash x) x = Some (d', t)" by blast
  moreover have "holds_firsts hash t (ys @ [x])"
    using hf Some unfolding holds_firsts_def by (auto simp: find_append split: option.splits)
  ultimately show ?thesis using inv sp space_mono by blast
qed

lemma add_all_firsts:
  assumes key: "key_of hash"
  shows "inv t \<Longrightarrow> holds_firsts hash t ys \<Longrightarrow> space t (length xs) \<Longrightarrow>
    \<exists>t'. add_all add hash t xs = Some t' \<and> inv t' \<and> holds_firsts hash t' (ys @ xs)"
proof (induction xs arbitrary: t ys)
  case (Cons x xs)
  then have sp: "space t (Suc (length xs))" by simp
  from add_firsts [OF key Cons.prems(1,2) sp, of x] obtain d t1 where
    "add t (hash x) x = Some (d, t1)" "inv t1" "holds_firsts hash t1 (ys @ [x])" "space t1 (length xs)"
    by blast
  with Cons.IH [of t1 "ys @ [x]"] show ?case by auto
qed auto

end

interpretation hs: hash_store hash_inv "\<lambda>t. live (pEntries t)" room "hash_find cmp" "hash_add cmp"
    "\<lambda>d x. cmp d x = 0" for cmp :: "'a \<Rightarrow> 'a \<Rightarrow> int"
proof
  fix t :: "'a HashTable" and h d x
  assume "hash_inv t" "(h, d) \<in> live (pEntries t)" "cmp d x = 0"
  note hit = lookup_hit [of t h d cmp x True, OF this]
  show "\<exists>d'. hash_find cmp t h x = Some (Some d') \<and> (h, d') \<in> live (pEntries t) \<and> cmp d' x = 0"
    using hit [of False] by (auto simp: hash_find_def)
  show "\<exists>d'. hash_add cmp t h x = Some (d', t) \<and> (h, d') \<in> live (pEntries t) \<and> cmp d' x = 0"
    using hit [of True] by (auto simp: hash_add_def)
next
  fix t :: "'a HashTable" and h x
  assume "hash_inv t" "\<And>d. (h, d) \<in> live (pEntries t) \<Longrightarrow> cmp d x \<noteq> 0"
  then show "hash_find cmp t h x = Some None"
    using lookup_miss [of t h cmp x True] by (simp add: hash_find_def)
next
  fix t :: "'a HashTable" and h x k
  assume "hash_inv t" "\<And>d. (h, d) \<in> live (pEntries t) \<Longrightarrow> cmp d x \<noteq> 0" "room t (Suc k)"
  then show "\<exists>t'. hash_add cmp t h x = Some (x, t') \<and> hash_inv t' \<and>
      live (pEntries t') = insert (h, x) (live (pEntries t)) \<and> room t' k"
    using lookup_add [of t h cmp x k] by (fastforce simp: hash_add_def)
qed (simp add: room_def)

section \<open>Properties\<close>

text \<open>
  C13 (refinement). Lookup computes the abstract search: on every table that satisfies the
  invariant it ends without leaving the array, returns a stored pointer with the given hash that
  compares equal when there is one, and \<open>NULL\<close> when there is none; the table is unchanged.
\<close>

theorem mzHashTableLookup_search:
  assumes "hash_inv t"
  shows "\<exists>r. mzHashTableLookup c t h item cmp False = Some (r, t) \<and>
    (case r of None \<Rightarrow> \<forall>d. (h, d) \<in> live (pEntries t) \<longrightarrow> cmp d item \<noteq> 0
     | Some d \<Rightarrow> (h, d) \<in> live (pEntries t) \<and> cmp d item = 0)"
proof (cases "\<exists>d. (h, d) \<in> live (pEntries t) \<and> cmp d item = 0")
  case True
  then obtain d where "(h, d) \<in> live (pEntries t)" "cmp d item = 0" by blast
  then show ?thesis using lookup_hit [OF assms, where d = d and cmp = cmp and item = item] by fastforce
next
  case False
  with lookup_miss [OF assms, of h cmp item] show ?thesis by auto
qed

definition sample_table :: "string HashTable" where
  "sample_table = \<lparr>tableSize = 2, numEntries = 1, numDeadEntries = 0,
     pEntries = [\<lparr>hashValue = 4, hdata = Data ''a''\<rparr>, \<lparr>hashValue = 0, hdata = Null\<rparr>], freeFunc = False\<rparr>"

lemma sample_table_inv: "hash_inv sample_table"
proof -
  have "reach (pEntries sample_table)"
    by (auto simp: reach_def sample_table_def is_data_def home_def less_Suc_eq intro!: exI [of _ 0])
  moreover have "pow2 2" by (auto simp: pow2_def intro!: exI [of _ 1])
  ultimately show ?thesis
    by (simp add: hash_inv_def sample_table_def n_data_def n_tomb_def slot_defs LOAD_DENOM_def LOAD_NUMER_def)
qed

theorem mzHashTableLookup_search_witness:
  "hash_inv sample_table \<and>
   (\<exists>r. mzHashTableLookup True sample_table 4 ''a'' strcmp False = Some (r, sample_table) \<and> r = Some ''a'')"
proof -
  have "(4, ''a'') \<in> live (pEntries sample_table)"
    by (auto simp: live_def sample_table_def intro!: exI [of _ 0])
  with mzHashTableLookup_search [OF sample_table_inv, of True 4 "''a''" strcmp] sample_table_inv
  show ?thesis by (fastforce split: option.splits)
qed

text \<open>
  C14 (invariant). Adding a pointer no stored one compares equal to keeps the invariant, through a
  resize if the load requires one: the content gains exactly that pointer under its hash, the
  entry count goes up by one, and no assertion of the code fails.
\<close>

theorem mzHashTableLookup_adds:
  assumes "hash_inv t" and "\<forall>d. (h, d) \<in> live (pEntries t) \<longrightarrow> cmp d item \<noteq> 0"
    and "room t (Suc k)"
  shows "\<exists>t'. mzHashTableLookup True t h item cmp True = Some (Some item, t') \<and> hash_inv t' \<and>
    live (pEntries t') = insert (h, item) (live (pEntries t)) \<and> numEntries t' = numEntries t + 1 \<and> room t' k"
  using lookup_add [OF assms(1), where h = h and cmp = cmp and item = item and k = k] assms(2,3) by blast

theorem mzHashTableLookup_adds_witness:
  "hash_inv sample_table \<and> room sample_table (Suc 0) \<and>
   (\<exists>t'. mzHashTableLookup True sample_table 6 ''b'' strcmp True = Some (Some ''b'', t') \<and> hash_inv t' \<and>
     live (pEntries t') = insert (6, ''b'') (live (pEntries sample_table)) \<and>
     numEntries t' = numEntries sample_table + 1 \<and> room t' 0)"
proof -
  have a: "\<forall>d. (6, d) \<in> live (pEntries sample_table) \<longrightarrow> strcmp d ''b'' \<noteq> 0"
    by (auto simp: live_def sample_table_def less_Suc_eq)
  have b: "room sample_table (Suc 0)" by (simp add: room_def sample_table_def)
  show ?thesis
    using sample_table_inv a b mzHashTableLookup_adds [OF sample_table_inv, where h = 6 and cmp = strcmp and item = "''b''" and k = 0]
    by blast
qed

text \<open>
  Removing a stored pointer that occurs in one slot only succeeds, keeps the
  invariant and takes exactly that pointer out of the content; removing a pointer that is not
  stored returns false and changes nothing.
\<close>

theorem mzHashTableRemove_removes:
  assumes inv: "hash_inv t"
    and once: "\<forall>i j. i < tableSize t \<longrightarrow> j < tableSize t \<longrightarrow>
      hdata (pEntries t ! i) = Data item \<longrightarrow> hdata (pEntries t ! j) = Data item \<longrightarrow> i = j"
    and hash: "\<forall>h'. (h', item) \<in> live (pEntries t) \<longrightarrow> h' = h"
  shows "\<exists>t'. mzHashTableRemove t h item = Some ((h, item) \<in> live (pEntries t), t') \<and> hash_inv t' \<and>
    live (pEntries t') = live (pEntries t) - {(h, item)}"
proof (cases "(h, item) \<in> live (pEntries t)")
  case True
  from remove_hit [OF inv this] obtain t' i where
    t': "mzHashTableRemove t h item = Some (True, t')" "hash_inv t'" "i < tableSize t"
    "hdata (pEntries t ! i) = Data item"
    "pEntries t' = (pEntries t)[i := (pEntries t ! i)\<lparr>hdata := Tombstone\<rparr>]" by blast
  have len: "length (pEntries t) = tableSize t" using inv by (simp add: hash_inv_def)
  have "(h', item) \<notin> live (pEntries t')" for h'
  proof
    assume "(h', item) \<in> live (pEntries t')"
    then obtain j where j: "j < tableSize t" "hdata (pEntries t' ! j) = Data item"
      using len t'(5) by (auto simp: live_iff)
    then have "j \<noteq> i" using t'(3,5) len by auto
    with j t' have "hdata (pEntries t ! j) = Data item" by simp
    with once j t'(3,4) \<open>j \<noteq> i\<close> show False by blast
  qed
  moreover have "live (pEntries t') \<subseteq> live (pEntries t)"
    "\<And>h' d'. (h', d') \<in> live (pEntries t) \<Longrightarrow> d' \<noteq> item \<Longrightarrow> (h', d') \<in> live (pEntries t')"
    using bury_live [of i "pEntries t" item] t' len by auto
  ultimately have "live (pEntries t') = live (pEntries t) - {(h, item)}" using hash by fast
  with t' True show ?thesis by auto
next
  case False
  with hash have "\<forall>h'. (h', item) \<notin> live (pEntries t)" by blast
  from remove_miss [OF inv this] False inv show ?thesis by auto
qed

theorem mzHashTableRemove_removes_witness:
  "\<exists>t'. mzHashTableRemove sample_table 4 ''a'' = Some (True, t') \<and> hash_inv t' \<and> live (pEntries t') = {}"
proof -
  have l: "live (pEntries sample_table) = {(4, ''a'')}"
    by (auto simp: live_def sample_table_def less_Suc_eq)
  have "\<forall>i j. i < tableSize sample_table \<longrightarrow> j < tableSize sample_table \<longrightarrow>
      hdata (pEntries sample_table ! i) = Data ''a'' \<longrightarrow> hdata (pEntries sample_table ! j) = Data ''a'' \<longrightarrow> i = j"
    by (auto simp: sample_table_def less_Suc_eq numeral_2_eq_2)
  from mzHashTableRemove_removes [OF sample_table_inv this, of 4] l show ?thesis by simp
qed

text \<open>
  \<open>roundUpPower2\<close> returns the least power of two that is not below its argument, for
  every argument from 1 to \<open>2^31\<close>.
\<close>

theorem roundUpPower2_least:
  assumes "1 \<le> unat v" and "unat v \<le> 2 ^ 31"
  shows "\<exists>k \<le> 31. unat (roundUpPower2 v) = 2 ^ k \<and> unat v \<le> 2 ^ k \<and> (\<forall>j. unat v \<le> 2 ^ j \<longrightarrow> k \<le> j)"
proof -
  from roundUpPower2_value [OF assms] obtain k where k: "k \<le> 31" "unat (roundUpPower2 v) = 2 ^ k"
    "unat v \<le> 2 ^ k" "2 ^ k < 2 * unat v" by metis
  have "k \<le> j" if "unat v \<le> 2 ^ j" for j
  proof -
    from that k(4) have "(2 :: nat) ^ k < 2 ^ Suc j" by simp
    then have "k < Suc j" by (rule power_less_imp_less_exp [rotated]) simp
    then show ?thesis by simp
  qed
  with k show ?thesis by blast
qed

theorem roundUpPower2_least_witness: "unat (roundUpPower2 100) = 128"
proof -
  from roundUpPower2_least [of 100] obtain k where k: "unat (roundUpPower2 100) = 2 ^ k" "100 \<le> (2 :: nat) ^ k"
    "\<forall>j. 100 \<le> (2 :: nat) ^ j \<longrightarrow> k \<le> j" by auto
  have "k \<le> 7" using k(3) by simp
  moreover have "\<not> k \<le> 6"
  proof
    assume "k \<le> 6"
    then have "(2 :: nat) ^ k \<le> 2 ^ 6" by (intro power_increasing) simp_all
    with k(2) show False by simp
  qed
  ultimately have "k = 7" by simp
  with k(1) show ?thesis by simp
qed

text \<open>
  The iterator visits exactly the pointers \<open>mzHashForeach\<close> applies its function
  to, in the same order, and these are the pointers of the content.
\<close>

theorem iterator_visits_foreach:
  assumes "hash_inv t"
  shows "\<exists>ds. iter_collect t (mzHashIterBegin t) = map Data ds \<and>
    mzHashForeach t (\<lambda>d s. (0, s @ [d])) [] = (0, ds) \<and> set ds = snd ` live (pEntries t)"
proof -
  have len: "length (pEntries t) = tableSize t" using assms by (simp add: hash_inv_def)
  have "iter_collect t (mzHashIterBegin t) = map Data (data_list (pEntries t))"
    using iter_collect_from [OF len, of 0] by (simp add: mzHashIterBegin_def mzHashIterNext_def)
  moreover have "mzHashForeach t (\<lambda>d s. (0, s @ [d])) [] = (0, data_list (pEntries t))"
    using len by (simp add: mzHashForeach_def foreach_collects)
  ultimately show ?thesis using set_data_list [of "pEntries t"]
    by (intro exI [of _ "data_list (pEntries t)"]) simp
qed

theorem iterator_visits_foreach_witness:
  "\<exists>ds. iter_collect sample_table (mzHashIterBegin sample_table) = map Data ds \<and>
    mzHashForeach sample_table (\<lambda>d s. (0, s @ [d])) [] = (0, ds) \<and> set ds = snd ` live (pEntries sample_table)"
  by (rule iterator_visits_foreach [OF sample_table_inv])

end
