(* ===== verification/Sys_Calls.thy ===== *)
theory Sys_Calls
  imports Recovery_Prelude
begin

text \<open>
  The kernel and the C library as the recovery sources call them: one field per call of the record
  \<open>os\<close>, on a state \<open>'w\<close> of the machine outside the program. Nothing is fixed about the calls here; the
  components that rely on documented behaviour state it as a predicate over the record. A descriptor is
  an \<open>int\<close>, negative when \<open>open\<close> failed.
\<close>

datatype open_flags = O_RDONLY | O_RDWR | O_CREAT_TRUNC

datatype seek = SEEK_SET int | SEEK_CUR int

record file_stat =
  st_mode :: int
  st_uid :: int
  st_gid :: int
  st_size :: int
  st_reg :: bool

text \<open>\<open>mtd_info_user\<close>: the fields of \<open>MEMGETINFO\<close> that are used.\<close>

record mtd_info =
  info_size :: int
  info_erasesize :: int
  info_writesize :: int

text \<open>
  \<open>os_malloc n w\<close> is the indeterminate content of a new object of \<open>n\<close> bytes, or \<open>None\<close> for \<open>NULL\<close>.
  \<open>os_ecc\<close> is \<open>ECCGETSTATS\<close> (its result and the counter \<open>failed\<close>); \<open>os_badblock\<close> is \<open>MEMGETBADBLOCK\<close>
  (its result and whether \<open>errno\<close> is \<open>EOPNOTSUPP\<close> after it); \<open>os_erase\<close> is \<open>MEMERASE\<close> of a range.
  The stdio streams are descriptors too: \<open>os_fopen\<close> takes the flag "for writing", \<open>os_fread\<close> returns
  the bytes of a read of that many elements of size one, \<open>os_fwrite\<close> the number of elements written;
  \<open>os_fappend\<close> is \<open>fopen\<close> in mode "a"; \<open>os_fgets f n\<close> is the string \<open>fgets\<close> leaves in a buffer of \<open>n\<close>
  characters (up to its first NUL). \<open>os_system\<close> is \<open>__system\<close>, which runs a shell command; \<open>os_exec\<close> runs a
  program in a child process and waits for it: its exit status, or \<open>None\<close> when it did not exit.
  \<open>os_make_ext4fs\<close> is the function of that name of the library \<open>ext4_utils\<close>.
\<close>

record 'w os =
  os_malloc :: "int \<Rightarrow> 'w \<Rightarrow> byte list option"
  os_open :: "string \<Rightarrow> open_flags \<Rightarrow> 'w \<Rightarrow> int \<times> 'w"
  os_close :: "int \<Rightarrow> 'w \<Rightarrow> int \<times> 'w"
  os_read :: "int \<Rightarrow> int \<Rightarrow> 'w \<Rightarrow> int \<times> byte list \<times> 'w"
  os_write :: "int \<Rightarrow> byte list \<Rightarrow> 'w \<Rightarrow> int \<times> 'w"
  os_lseek :: "int \<Rightarrow> seek \<Rightarrow> 'w \<Rightarrow> int \<times> 'w"
  os_fsync :: "int \<Rightarrow> 'w \<Rightarrow> 'w"
  os_meminfo :: "int \<Rightarrow> 'w \<Rightarrow> mtd_info option"
  os_ecc :: "int \<Rightarrow> 'w \<Rightarrow> int \<times> int"
  os_badblock :: "int \<Rightarrow> int \<Rightarrow> 'w \<Rightarrow> int \<times> bool"
  os_erase :: "int \<Rightarrow> int \<Rightarrow> int \<Rightarrow> 'w \<Rightarrow> int \<times> 'w"
  os_fopen :: "string \<Rightarrow> bool \<Rightarrow> 'w \<Rightarrow> int option \<times> 'w"
  os_fread :: "int \<Rightarrow> int \<Rightarrow> 'w \<Rightarrow> byte list \<times> 'w"
  os_fwrite :: "int \<Rightarrow> byte list \<Rightarrow> 'w \<Rightarrow> int \<times> 'w"
  os_fclose :: "int \<Rightarrow> 'w \<Rightarrow> int \<times> 'w"
  os_stat :: "string \<Rightarrow> 'w \<Rightarrow> file_stat option"
  os_statfs :: "string \<Rightarrow> 'w \<Rightarrow> (int \<times> int) option"
  os_chmod :: "string \<Rightarrow> int \<Rightarrow> 'w \<Rightarrow> int \<times> 'w"
  os_chown :: "string \<Rightarrow> int \<Rightarrow> int \<Rightarrow> 'w \<Rightarrow> int \<times> 'w"
  os_rename :: "string \<Rightarrow> string \<Rightarrow> 'w \<Rightarrow> int \<times> 'w"
  os_unlink :: "string \<Rightarrow> 'w \<Rightarrow> int \<times> 'w"
  os_readdir :: "string \<Rightarrow> 'w \<Rightarrow> string list option"
  os_readlink :: "string \<Rightarrow> 'w \<Rightarrow> string option"
  os_mount :: "string \<Rightarrow> string \<Rightarrow> string \<Rightarrow> bool \<Rightarrow> 'w \<Rightarrow> int \<times> 'w"
  os_remount :: "string option \<Rightarrow> string option \<Rightarrow> string option \<Rightarrow> 'w \<Rightarrow> int \<times> 'w"
  os_umount :: "string option \<Rightarrow> 'w \<Rightarrow> int \<times> 'w"
  os_mkdir :: "string \<Rightarrow> int \<Rightarrow> 'w \<Rightarrow> int \<times> 'w"
  os_rmdir :: "string \<Rightarrow> 'w \<Rightarrow> int \<times> 'w"
  os_symlink :: "string \<Rightarrow> string \<Rightarrow> 'w \<Rightarrow> int \<times> 'w"
  os_access :: "string \<Rightarrow> 'w \<Rightarrow> bool"
  os_system :: "string \<Rightarrow> 'w \<Rightarrow> int \<times> 'w"
  os_sleep :: "'w \<Rightarrow> 'w"
  os_sync :: "'w \<Rightarrow> 'w"
  os_fappend :: "string \<Rightarrow> 'w \<Rightarrow> int option \<times> 'w"
  os_fgets :: "int \<Rightarrow> nat \<Rightarrow> 'w \<Rightarrow> string option \<times> 'w"
  os_fputs :: "int \<Rightarrow> string \<Rightarrow> 'w \<Rightarrow> 'w"
  os_fseek :: "int \<Rightarrow> int \<Rightarrow> 'w \<Rightarrow> 'w"
  os_ftell :: "int \<Rightarrow> 'w \<Rightarrow> int"
  os_fseek_end :: "int \<Rightarrow> 'w \<Rightarrow> 'w"
  os_ioctl :: "int \<Rightarrow> int \<Rightarrow> 'w \<Rightarrow> int \<times> 'w"
  os_exec :: "string list \<Rightarrow> 'w \<Rightarrow> int option \<times> 'w"
  os_make_ext4fs :: "string option \<Rightarrow> int \<Rightarrow> string \<Rightarrow> 'w \<Rightarrow> int \<times> 'w"

text \<open>A machine on which every call fails, to build small examples from.\<close>

definition null_os :: "'w os" where
  "null_os = \<lparr>os_malloc = (\<lambda>n w. None), os_open = (\<lambda>p m w. (- 1, w)), os_close = (\<lambda>fd w. (- 1, w)),
     os_read = (\<lambda>fd n w. (- 1, [], w)), os_write = (\<lambda>fd d w. (- 1, w)), os_lseek = (\<lambda>fd s w. (- 1, w)), os_fsync = (\<lambda>fd w. w),
     os_meminfo = (\<lambda>fd w. None), os_ecc = (\<lambda>fd w. (- 1, 0)), os_badblock = (\<lambda>fd pos w. (- 1, False)),
     os_erase = (\<lambda>fd p n w. (- 1, w)), os_fopen = (\<lambda>p m w. (None, w)), os_fread = (\<lambda>fd n w. ([], w)),
     os_fwrite = (\<lambda>fd d w. (0, w)), os_fclose = (\<lambda>fd w. (- 1, w)), os_stat = (\<lambda>p w. None), os_statfs = (\<lambda>p w. None),
     os_chmod = (\<lambda>p m w. (- 1, w)), os_chown = (\<lambda>p u g w. (- 1, w)), os_rename = (\<lambda>p q w. (- 1, w)),
     os_unlink = (\<lambda>p w. (- 1, w)), os_readdir = (\<lambda>p w. None), os_readlink = (\<lambda>p w. None),
     os_mount = (\<lambda>d p f r w. (- 1, w)), os_remount = (\<lambda>d p f w. (- 1, w)), os_umount = (\<lambda>p w. (- 1, w)),
     os_mkdir = (\<lambda>p m w. (- 1, w)), os_rmdir = (\<lambda>p w. (- 1, w)), os_symlink = (\<lambda>p q w. (- 1, w)),
     os_access = (\<lambda>p w. False), os_system = (\<lambda>c w. (- 1, w)), os_sleep = (\<lambda>w. w), os_sync = (\<lambda>w. w),
     os_fappend = (\<lambda>p w. (None, w)), os_fgets = (\<lambda>fd n w. (None, w)), os_fputs = (\<lambda>fd s w. w),
     os_fseek = (\<lambda>fd p w. w), os_ftell = (\<lambda>fd w. - 1), os_fseek_end = (\<lambda>fd w. w), os_ioctl = (\<lambda>fd r w. (- 1, w)),
     os_exec = (\<lambda>a w. (None, w)), os_make_ext4fs = (\<lambda>d n p w. (- 1, w))\<rparr>"

end
