(* ===== verification/Freecache.thy ===== *)
theory Freecache
  imports Sys_Calls "HOL-Library.Sublist"
begin

text \<open>
  Making room on the cache partition: \<^verbatim>\<open>applypatch/freecache.c\<close>, with \<open>FreeSpaceForFile\<close> and
  \<open>CacheSizeCheck\<close> of \<^verbatim>\<open>applypatch/applypatch.c\<close>. A directory is read as the list of names
  \<open>readdir\<close> returns until its end.
\<close>

section \<open>Model\<close>

definition CACHE_TEMP_SOURCE :: string where
  "CACHE_TEMP_SOURCE = ''/cache/saved.file''"

text \<open>
  The free space as a \<open>size_t\<close>: \<open>-1\<close> on an error is the largest value, and the product of block size
  and free blocks is cut to 32 bits.
\<close>

definition FreeSpaceForFile :: "'w os \<Rightarrow> string \<Rightarrow> 'w \<Rightarrow> int" where
  "FreeSpaceForFile sys filename w =
     (case os_statfs sys filename w of
        None \<Rightarrow> 2 ^ 32 - 1
      | Some (f_bsize, f_bfree) \<Rightarrow> (f_bsize * f_bfree) mod 2 ^ 32)"

text \<open>The files a link of an open descriptor names are dropped from the list (set to \<open>NULL\<close>).\<close>

definition drop_link :: "string option list \<Rightarrow> string option \<Rightarrow> string option list" where
  "drop_link files link =
     (case link of
        None \<Rightarrow> files
      | Some l \<Rightarrow> if take 7 l = ''/cache/'' then map (\<lambda>f. if f = Some l then None else f) files else files)"

definition fd_dir :: "string \<Rightarrow> string" where
  "fd_dir d_name = ''/proc/'' @ d_name @ ''/fd/''"

definition drop_process :: "'w os \<Rightarrow> 'w \<Rightarrow> string \<Rightarrow> string option list \<Rightarrow> string option list" where
  "drop_process sys w d_name files =
     (if dropWhile isdigit d_name \<noteq> [] then files
      else let path = fd_dir d_name in
        case os_readdir sys path w of
          None \<Rightarrow> files
        | Some fds \<Rightarrow> foldl (\<lambda>fs fd. drop_link fs (os_readlink sys (path @ fd) w)) files fds)"

definition EliminateOpenFiles :: "'w os \<Rightarrow> 'w \<Rightarrow> string option list \<Rightarrow> int \<times> string option list" where
  "EliminateOpenFiles sys w files =
     (case os_readdir sys ''/proc'' w of
        None \<Rightarrow> (- 1, files)
      | Some ds \<Rightarrow> (0, foldl (\<lambda>fs d. drop_process sys w d fs) files ds))"

definition deletable_dirs :: "string list" where
  "deletable_dirs = [''/cache'', ''/cache/recovery/otatest'']"

definition is_expendable :: "'w os \<Rightarrow> 'w \<Rightarrow> string \<Rightarrow> bool" where
  "is_expendable sys w path \<longleftrightarrow> path \<noteq> CACHE_TEMP_SOURCE \<and>
     (case os_stat sys path w of None \<Rightarrow> False | Some st \<Rightarrow> st_reg st)"

definition files_in :: "'w os \<Rightarrow> 'w \<Rightarrow> string \<Rightarrow> string list" where
  "files_in sys w dir =
     (case os_readdir sys dir w of
        None \<Rightarrow> []
      | Some names \<Rightarrow> filter (is_expendable sys w) (map (\<lambda>n. dir @ ''/'' @ n) names))"

definition FindExpendableFiles :: "'w os \<Rightarrow> 'w \<Rightarrow> int \<times> string option list" where
  "FindExpendableFiles sys w = EliminateOpenFiles sys w (map Some (concat (map (files_in sys w) deletable_dirs)))"

text \<open>The loop that deletes; the result is the free space at its end.\<close>

fun delete_loop :: "'w os \<Rightarrow> int \<Rightarrow> string option list \<Rightarrow> int \<Rightarrow> 'w \<Rightarrow> int \<times> 'w" where
  "delete_loop sys bytes_needed [] free_now w = (free_now, w)"
| "delete_loop sys bytes_needed (n # ns) free_now w =
     (if bytes_needed \<le> free_now then (free_now, w)
      else case n of
        None \<Rightarrow> delete_loop sys bytes_needed ns free_now w
      | Some path \<Rightarrow>
          (case os_unlink sys path w of (_, w) \<Rightarrow>
             delete_loop sys bytes_needed ns (FreeSpaceForFile sys ''/cache'' w) w))"

definition MakeFreeSpaceOnCache :: "'w os \<Rightarrow> int \<Rightarrow> 'w \<Rightarrow> int \<times> 'w" where
  "MakeFreeSpaceOnCache sys bytes_needed w =
     (let free_now = FreeSpaceForFile sys ''/cache'' w in
      if bytes_needed \<le> free_now then (0, w)
      else case FindExpendableFiles sys w of (r, names) \<Rightarrow>
        if r < 0 then (- 1, w)
        else if names = [] then (- 1, w)
        else case delete_loop sys bytes_needed names free_now w of (free_now, w) \<Rightarrow>
          (if bytes_needed \<le> free_now then 0 else - 1, w))"

definition CacheSizeCheck :: "'w os \<Rightarrow> int \<Rightarrow> 'w \<Rightarrow> int \<times> 'w" where
  "CacheSizeCheck sys bytes w = (case MakeFreeSpaceOnCache sys bytes w of (r, w) \<Rightarrow> (if r < 0 then 1 else 0, w))"

section \<open>What is deleted\<close>

text \<open>A file is open when a descriptor of some process links to it.\<close>

definition numeric :: "string \<Rightarrow> bool" where
  "numeric s \<longleftrightarrow> (\<forall>c \<in> set s. isdigit c)"

definition open_file :: "'w os \<Rightarrow> 'w \<Rightarrow> string \<Rightarrow> bool" where
  "open_file sys w path \<longleftrightarrow> (\<exists>ds d fds fd. os_readdir sys ''/proc'' w = Some ds \<and> d \<in> set ds \<and> numeric d \<and>
     os_readdir sys (fd_dir d) w = Some fds \<and> fd \<in> set fds \<and>
     os_readlink sys (fd_dir d @ fd) w = Some path)"

lemma drop_link_subset: "Some p \<in> set (drop_link files l) \<Longrightarrow> Some p \<in> set files"
  by (auto simp: drop_link_def split: option.splits if_splits)

lemma foldl_subset:
  assumes "\<And>fs x. Some p \<in> set (f fs x) \<Longrightarrow> Some p \<in> set fs"
  shows "Some p \<in> set (foldl f fs xs) \<Longrightarrow> Some p \<in> set fs"
  by (induction xs arbitrary: fs) (auto dest: assms)

lemma foldl_drops:
  assumes sub: "\<And>fs x. Some p \<in> set (f fs x) \<Longrightarrow> Some p \<in> set fs"
    and drop: "\<And>fs. Some p \<notin> set (f fs x)" and x: "x \<in> set xs"
  shows "Some p \<notin> set (foldl f fs xs)"
  using x
proof (induction xs arbitrary: fs)
  case (Cons y ys)
  have "Some p \<in> set (foldl f gs ys) \<Longrightarrow> Some p \<in> set gs" for gs
    by (erule foldl_subset [rotated]) (rule sub)
  with Cons drop show ?case by (cases "x = y") auto
qed simp

lemma drop_process_subset: "Some p \<in> set (drop_process sys w d files) \<Longrightarrow> Some p \<in> set files"
proof -
  assume p: "Some p \<in> set (drop_process sys w d files)"
  have "Some p \<in> set (foldl (\<lambda>fs fd. drop_link fs (os_readlink sys (path @ fd) w)) files fds) \<Longrightarrow> Some p \<in> set files" for path fds
    by (erule foldl_subset [rotated]) (rule drop_link_subset)
  with p show ?thesis by (auto simp: drop_process_def Let_def split: option.splits if_splits)
qed

lemma drop_process_drops:
  assumes "numeric d" "os_readdir sys (fd_dir d) w = Some fds" "fd \<in> set fds"
    "os_readlink sys (fd_dir d @ fd) w = Some path" "take 7 path = ''/cache/''"
  shows "Some path \<notin> set (drop_process sys w d files)"
proof -
  have "dropWhile isdigit d = []" using assms(1) by (simp add: numeric_def)
  moreover have "Some path \<notin> set (foldl (\<lambda>fs fd. drop_link fs (os_readlink sys (fd_dir d @ fd) w)) files fds)"
    by (rule foldl_drops [where x = fd, OF drop_link_subset _ assms(3)]) (use assms(4,5) in \<open>auto simp: drop_link_def\<close>)
  ultimately show ?thesis using assms(2) by (simp add: drop_process_def)
qed

text \<open>
  What may be deleted: a regular file directly in one of the two directories, and not the saved copy.
\<close>

definition deletable :: "'w os \<Rightarrow> 'w \<Rightarrow> string \<Rightarrow> bool" where
  "deletable sys w p \<longleftrightarrow> p \<noteq> ''/cache/saved.file'' \<and> (\<exists>st. os_stat sys p w = Some st \<and> st_reg st) \<and>
     (\<exists>dir \<in> {''/cache'', ''/cache/recovery/otatest''}. \<exists>names n. os_readdir sys dir w = Some names \<and> n \<in> set names \<and> p = dir @ ''/'' @ n)"

lemma FindExpendableFiles_ok:
  assumes f: "FindExpendableFiles sys w = (r, names)" and p: "Some path \<in> set names" and r: "r = 0"
  shows "deletable sys w path" "\<not> open_file sys w path"
proof -
  obtain ds where ds: "os_readdir sys ''/proc'' w = Some ds"
    and names: "names = foldl (\<lambda>fs d. drop_process sys w d fs) (map Some (concat (map (files_in sys w) deletable_dirs))) ds"
    using f r by (auto simp: FindExpendableFiles_def EliminateOpenFiles_def split: option.splits)
  from p names have "Some path \<in> set (map Some (concat (map (files_in sys w) deletable_dirs)))"
    by (metis (no_types, lifting) foldl_subset [of path "\<lambda>fs d. drop_process sys w d fs"] drop_process_subset)
  then obtain dir where dir: "dir \<in> set deletable_dirs" "path \<in> set (files_in sys w dir)" by auto
  from dir(2) obtain n ns where d: "os_readdir sys dir w = Some ns" "n \<in> set ns" "path = dir @ ''/'' @ n"
    and e: "is_expendable sys w path" unfolding files_in_def by (cases "os_readdir sys dir w") auto
  from dir(1) have in_dirs: "dir \<in> {''/cache'', ''/cache/recovery/otatest''}" by (simp add: deletable_dirs_def)
  from e have "path \<noteq> ''/cache/saved.file'' \<and> (\<exists>st. os_stat sys path w = Some st \<and> st_reg st)"
    unfolding is_expendable_def CACHE_TEMP_SOURCE_def by (simp split: option.splits)
  with in_dirs d show "deletable sys w path" unfolding deletable_def by blast
  from in_dirs d(3) have c: "take 7 path = ''/cache/''" by auto
  show "\<not> open_file sys w path"
  proof
    assume "open_file sys w path"
    then obtain d fds fd where o: "d \<in> set ds" "numeric d" "os_readdir sys (fd_dir d) w = Some fds"
      "fd \<in> set fds" "os_readlink sys (fd_dir d @ fd) w = Some path"
      using ds by (auto simp: open_file_def)
    have "Some path \<notin> set (foldl (\<lambda>fs d. drop_process sys w d fs) (map Some (concat (map (files_in sys w) deletable_dirs))) ds)"
      by (rule foldl_drops [where x = d, OF drop_process_subset _ o(1)]) (simp, rule drop_process_drops [OF o(2-) c])
    with p names show False by simp
  qed
qed


abbreviation unlinks :: "'w os \<Rightarrow> string list \<Rightarrow> 'w \<Rightarrow> 'w" where
  "unlinks sys paths w \<equiv> fold (\<lambda>p w. snd (os_unlink sys p w)) paths w"

lemma delete_loop_unlinks:
  "free = FreeSpaceForFile sys ''/cache'' w \<Longrightarrow>
   \<exists>paths. delete_loop sys n names free w = (FreeSpaceForFile sys ''/cache'' (unlinks sys paths w), unlinks sys paths w) \<and>
     Some ` set paths \<subseteq> set names"
proof (induction sys n names free w rule: delete_loop.induct)
  case (1 sys n free w)
  then show ?case by (auto intro: exI [of _ "[]"])
next
  case (2 sys n m ns free w)
  show ?case
  proof (cases "n \<le> free")
    case True
    with "2.prems" show ?thesis by (auto intro: exI [of _ "[]"])
  next
    case False
    show ?thesis
    proof (cases m)
      case None
      with "2.IH"(1) [OF False None "2.prems"] False show ?thesis by auto
    next
      case (Some path)
      obtain r w1 where u: "os_unlink sys path w = (r, w1)" by fastforce
      from "2.IH"(2) [OF False Some u [symmetric] refl] obtain paths where
        "delete_loop sys n ns (FreeSpaceForFile sys ''/cache'' w1) w1 =
          (FreeSpaceForFile sys ''/cache'' (unlinks sys paths w1), unlinks sys paths w1)" "Some ` set paths \<subseteq> set ns" by blast
      with False Some u show ?thesis by (intro exI [of _ "path # paths"]) auto
    qed
  qed
qed

lemma MakeFreeSpaceOnCache_run:
  "\<exists>r paths. MakeFreeSpaceOnCache sys n w = (r, unlinks sys paths w) \<and>
     list_all (\<lambda>p. deletable sys w p \<and> \<not> open_file sys w p) paths \<and>
     (paths = [] \<or> FreeSpaceForFile sys ''/cache'' w < n) \<and>
     (r = 0 \<and> n \<le> FreeSpaceForFile sys ''/cache'' (unlinks sys paths w) \<or> r = - 1)"
proof -
  let ?free = "FreeSpaceForFile sys ''/cache'' w"
  obtain r names where f: "FindExpendableFiles sys w = (r, names)" by fastforce
  then have r: "r = - 1 \<or> r = 0" by (auto simp: FindExpendableFiles_def EliminateOpenFiles_def split: option.splits)
  consider "n \<le> ?free \<or> r < 0 \<or> names = []" | "?free < n" "r = 0" "names \<noteq> []" using r by force
  then show ?thesis
  proof cases
    case 1
    then show ?thesis using f by (intro exI [of _ "if n \<le> ?free then 0 else - 1"] exI [of _ "[]"]) (auto simp: MakeFreeSpaceOnCache_def Let_def)
  next
    case 2
    from delete_loop_unlinks [OF refl, of sys n names w] obtain paths where
      d: "delete_loop sys n names ?free w = (FreeSpaceForFile sys ''/cache'' (unlinks sys paths w), unlinks sys paths w)"
        "Some ` set paths \<subseteq> set names" by blast
    have "list_all (\<lambda>p. deletable sys w p \<and> \<not> open_file sys w p) paths"
      unfolding list_all_iff
    proof
      fix p assume "p \<in> set paths"
      then have "Some p \<in> set names" using d(2) by auto
      from FindExpendableFiles_ok [OF f this 2(2)]
      show "deletable sys w p \<and> \<not> open_file sys w p"
        by simp
    qed
    then show ?thesis using 2 d(1) f
      by (intro exI [of _ "if n \<le> FreeSpaceForFile sys ''/cache'' (unlinks sys paths w) then 0 else - 1"] exI [of _ paths])
        (auto simp: MakeFreeSpaceOnCache_def Let_def)
  qed
qed


end
