(* ===== verification/Mtd_Utils.thy ===== *)
theory Mtd_Utils
  imports Sys_Calls
begin

text \<open>
  Raw access to flash partitions: \<^verbatim>\<open>mtdutils/mtdutils.c\<close>. The first section is the partition table
  read from \<^verbatim>\<open>/proc/mtd\<close>, the second reading and the third writing a partition through a one-block
  buffer, skipping bad blocks. \<open>None\<close> is undefined behaviour or a loop that never ends.
\<close>

section \<open>The partition table\<close>

record MtdPartition =
  device_index :: int
  part_size :: int
  erase_size :: int
  part_name :: "string option"

record MtdState =
  partitions :: "MtdPartition list option"
  partition_count :: int

definition g_mtd_state :: MtdState where
  "g_mtd_state = \<lparr>partitions = None, partition_count = - 1\<rparr>"

definition NUMP :: nat where "NUMP = 32"

text \<open>
  The conversions of the format \<^verbatim>\<open>mtd%d: %x %x "%63[^"]\<close> of \<open>sscanf\<close>: a character of the format, white
  space (any amount, also none), \<open>%d\<close> and \<open>%x\<close> (both skip white space first), and a scan set with its
  width. \<open>%x\<close> stores the value as \<open>strtoul\<close> in a 32-bit object.
\<close>

fun scan_lit :: "string \<Rightarrow> string \<Rightarrow> string option" where
  "scan_lit [] s = Some s"
| "scan_lit (f # fs) [] = None"
| "scan_lit (f # fs) (c # s) = (if f = c then scan_lit fs s else None)"

definition scan_d :: "string \<Rightarrow> (int \<times> string) option" where
  "scan_d s = (case strtol s of (v, r) \<Rightarrow> if r = s then None else Some (v, r))"

definition hex_digit :: "char \<Rightarrow> int option" where
  "hex_digit c = (let n = (of_char c :: int) in
     if 48 \<le> n \<and> n \<le> 57 then Some (n - 48)
     else if 97 \<le> n \<and> n \<le> 102 then Some (n - 97 + 10)
     else if 65 \<le> n \<and> n \<le> 70 then Some (n - 65 + 10) else None)"

definition hex_val :: "string \<Rightarrow> int" where
  "hex_val ds = foldl (\<lambda>a d. 16 * a + the (hex_digit d)) 0 ds"

definition strip_0x :: "string \<Rightarrow> string" where
  "strip_0x s = (case s of a # b # c # cs \<Rightarrow>
     if a = CHR ''0'' \<and> (b = CHR ''x'' \<or> b = CHR ''X'') \<and> hex_digit c \<noteq> None then c # cs else s | _ \<Rightarrow> s)"

definition scan_x :: "string \<Rightarrow> (int \<times> string) option" where
  "scan_x s = (case strtol_sign (dropWhile isspace s) of (neg, r) \<Rightarrow>
     let r = strip_0x r; ds = takeWhile (\<lambda>c. hex_digit c \<noteq> None) r;
         v = (if hex_val ds < 2 ^ 32 then if neg then - hex_val ds else hex_val ds else 2 ^ 32 - 1)
     in if ds = [] then None else Some (int32 v, dropWhile (\<lambda>c. hex_digit c \<noteq> None) r))"

definition scan_set :: "nat \<Rightarrow> (char \<Rightarrow> bool) \<Rightarrow> string \<Rightarrow> (string \<times> string) option" where
  "scan_set width P s = (let m = take width (takeWhile P s) in
     if m = [] then None else Some (m, drop (length m) s))"

text \<open>All four conversions: the number, size, erase size and name of a partition.\<close>

definition scan_partition :: "string \<Rightarrow> (int \<times> int \<times> int \<times> string) option" where
  "scan_partition s =
     Option.bind (scan_lit ''mtd'' s) (\<lambda>s.
     Option.bind (scan_d s) (\<lambda>(num, s).
     Option.bind (scan_lit '':'' s) (\<lambda>s.
     Option.bind (scan_x s) (\<lambda>(size, s).
     Option.bind (scan_x s) (\<lambda>(erasesize, s).
     Option.bind (scan_lit [CHR 0x22] (dropWhile isspace s)) (\<lambda>s.
     Option.bind (scan_set 63 (\<lambda>c. c \<noteq> CHR 0x22) s) (\<lambda>(name, s).
     Some (num, size, erasesize, name))))))))"

text \<open>
  One line of the file. \<open>size\<close> and \<open>erase_size\<close> are unsigned: the value is taken modulo \<open>2\<^sup>32\<close>. A number
  outside the table writes outside the array. \<open>strdup\<close> fails only when \<open>malloc\<close> does: the result is then
  \<open>Inl\<close> of the table that is left.
\<close>

definition scan_line ::
  "'w os \<Rightarrow> 'w \<Rightarrow> string \<Rightarrow> MtdPartition list \<times> int \<Rightarrow> (MtdPartition list + MtdPartition list \<times> int) option" where
  "scan_line sys w bufp = (\<lambda>(ps, count).
     case scan_partition bufp of
       None \<Rightarrow> Some (Inr (ps, count))
     | Some (mtdnum, mtdsize, mtderasesize, mtdname) \<Rightarrow>
         if mtdnum < 0 \<or> int (length ps) \<le> mtdnum then None
         else let p = (ps ! nat mtdnum)\<lparr>device_index := mtdnum, part_size := mtdsize mod 2 ^ 32,
                       erase_size := mtderasesize mod 2 ^ 32\<rparr> in
           if os_malloc sys (int (length mtdname) + 1) w = None
           then Some (Inl (ps[nat mtdnum := p\<lparr>part_name := None\<rparr>]))
           else Some (Inr (ps[nat mtdnum := p\<lparr>part_name := Some mtdname\<rparr>], count + 1)))"

text \<open>"Eat the line": what follows the next newline.\<close>

definition next_line :: "string \<Rightarrow> string" where
  "next_line s = drop 1 (dropWhile (\<lambda>c. c \<noteq> CHR 0x0A) s)"

lemma next_line_shorter: "s \<noteq> [] \<Longrightarrow> length (next_line s) < length s"
  using length_dropWhile_le [of "\<lambda>c. c \<noteq> CHR 0x0A" s] by (cases s) (auto simp: next_line_def)

function scan_lines ::
  "'w os \<Rightarrow> 'w \<Rightarrow> string \<Rightarrow> MtdPartition list \<times> int \<Rightarrow> (MtdPartition list + MtdPartition list \<times> int) option" where
  "scan_lines sys w s tab =
     (if s = [] then Some (Inr tab)
      else case scan_line sys w s tab of
        Some (Inr tab') \<Rightarrow> scan_lines sys w (next_line s) tab'
      | r \<Rightarrow> r)"
  by pat_completeness auto
termination
  by (relation "measure (\<lambda>(sys, w, s, tab). length s)") (auto intro: next_line_shorter)

declare scan_lines.simps [simp del]

text \<open>
  \<open>buf[nbytes] = 0\<close> ends the string \<open>sscanf\<close> sees at the first NUL of the file; the loop counts all the
  bytes read, and \<open>/proc/mtd\<close> holds none.
\<close>

definition mtd_scan_partitions :: "'w os \<Rightarrow> MtdState \<Rightarrow> 'w \<Rightarrow> (int \<times> MtdState \<times> 'w) option" where
  "mtd_scan_partitions sys st w =
     (case (case partitions st of
              Some ps \<Rightarrow> Some ps
            | None \<Rightarrow> if os_malloc sys (int NUMP * 16) w = None then None
                      else Some (replicate NUMP \<lparr>device_index = 0, part_size = 0, erase_size = 0, part_name = None\<rparr>)) of
        None \<Rightarrow> Some (- 1, st, w)
      | Some ps \<Rightarrow>
          let ps = map (\<lambda>p. p\<lparr>part_name := None, device_index := - 1\<rparr>) ps;
              bail = (\<lambda>ps. \<lparr>partitions = Some ps, partition_count = - 1\<rparr>) in
          case os_open sys ''/proc/mtd'' O_RDONLY w of (fd, w1) \<Rightarrow>
            if fd < 0 then Some (- 1, bail ps, w1)
            else case os_read sys fd 2047 w1 of (nbytes, buf, w2) \<Rightarrow>
              case os_close sys fd w2 of (_, w3) \<Rightarrow>
                if nbytes < 0 then Some (- 1, bail ps, w3)
                else case scan_lines sys w3 (map (\<lambda>b. char_of (unat b)) buf) (ps, 0) of
                  None \<Rightarrow> None
                | Some (Inl ps') \<Rightarrow> Some (- 1, bail ps', w3)
                | Some (Inr (ps', n)) \<Rightarrow> Some (n, \<lparr>partitions = Some ps', partition_count = n\<rparr>, w3))"

definition mtd_find_partition_by_name :: "MtdState \<Rightarrow> string \<Rightarrow> MtdPartition option" where
  "mtd_find_partition_by_name st name =
     (case partitions st of
        None \<Rightarrow> None
      | Some ps \<Rightarrow> find (\<lambda>p. device_index p \<ge> 0 \<and> part_name p = Some name) ps)"

definition dev_name :: "MtdPartition \<Rightarrow> string" where
  "dev_name p = ''/dev/mtd/mtd'' @ show_int (device_index p)"

definition mtd_partition_info :: "'w os \<Rightarrow> MtdPartition \<Rightarrow> 'w \<Rightarrow> mtd_info option \<times> 'w" where
  "mtd_partition_info sys part w =
     (case os_open sys (dev_name part) O_RDONLY w of (fd, w1) \<Rightarrow>
        if fd < 0 then (None, w1)
        else case os_close sys fd w1 of (_, w2) \<Rightarrow> (os_meminfo sys fd w1, w2))"

definition x_bits :: "int \<Rightarrow> int" where
  "x_bits m = or m 73"

text \<open>Mounting: read-write unless it is refused, then read-only; execute permission on the mount point.\<close>

definition mtd_mount_partition :: "'w os \<Rightarrow> MtdPartition \<Rightarrow> string \<Rightarrow> string \<Rightarrow> bool \<Rightarrow> 'w \<Rightarrow> int \<times> 'w" where
  "mtd_mount_partition sys part mount_point filesystem read_only w =
     (let devname = ''/dev/block/mtdblock'' @ show_int (device_index part) in
      case (if read_only then (- 1, w) else os_mount sys devname mount_point filesystem False w) of (rv, w1) \<Rightarrow>
      case (if read_only \<or> rv < 0 then os_mount sys devname mount_point filesystem True w1 else (rv, w1)) of (rv, w2) \<Rightarrow>
      if rv < 0 then (rv, w2)
      else case os_stat sys mount_point w2 of
        None \<Rightarrow> (- 1, w2)
      | Some st \<Rightarrow> if x_bits (st_mode st) \<noteq> st_mode st then os_chmod sys mount_point (x_bits (st_mode st)) w2 else (0, w2))"

section \<open>Reading\<close>

record MtdReadContext =
  rc_partition :: MtdPartition
  rc_buffer :: "byte list"
  rc_consumed :: int
  rc_fd :: int

definition mtd_read_partition :: "'w os \<Rightarrow> MtdPartition \<Rightarrow> 'w \<Rightarrow> MtdReadContext option \<times> 'w" where
  "mtd_read_partition sys part w =
     (case os_malloc sys 16 w of
        None \<Rightarrow> (None, w)
      | Some _ \<Rightarrow>
          (case os_malloc sys (erase_size part) w of
             None \<Rightarrow> (None, w)
           | Some buffer \<Rightarrow>
               (case os_open sys (dev_name part) O_RDONLY w of (fd, w1) \<Rightarrow>
                  if fd < 0 then (None, w1)
                  else (Some \<lparr>rc_partition = part, rc_buffer = buffer,
                              rc_consumed = erase_size part, rc_fd = fd\<rparr>, w1))))"

definition mtd_read_skip_to :: "'w os \<Rightarrow> MtdReadContext \<Rightarrow> int \<Rightarrow> 'w \<Rightarrow> 'w" where
  "mtd_read_skip_to sys ctx offset w = snd (os_lseek sys (rc_fd ctx) (SEEK_SET offset) w)"

text \<open>One round of \<open>read_block\<close> at \<open>pos\<close>: it returns, or goes on with the next block.\<close>

datatype 'w read_round = ReadDone int "byte list" 'w | ReadNext int 'w

definition read_round :: "'w os \<Rightarrow> MtdPartition \<Rightarrow> int \<Rightarrow> int \<Rightarrow> int \<Rightarrow> 'w \<Rightarrow> 'w read_round" where
  "read_round sys part fd before pos w =
     (let size = int32 (erase_size part) in
      case os_lseek sys fd (SEEK_SET pos) w of (p, w1) \<Rightarrow>
      if p \<noteq> pos then ReadNext before w1
      else case os_read sys fd size w1 of (n, data, w2) \<Rightarrow>
        if n \<noteq> size then ReadNext before w2
        else case os_ecc sys fd w2 of (ret, after) \<Rightarrow>
          if ret \<noteq> 0 then ReadDone (- 1) [] w2
          else if after \<noteq> before then ReadNext after w2
          else if fst (os_badblock sys fd pos w2) \<noteq> 0 then ReadNext before w2
          else ReadDone 0 data w2)"

partial_function (option) read_block_loop ::
  "'w os \<Rightarrow> MtdPartition \<Rightarrow> int \<Rightarrow> int \<Rightarrow> int \<Rightarrow> 'w \<Rightarrow> (int \<times> byte list \<times> 'w) option" where
  "read_block_loop sys part fd before pos w =
     (if pos + int32 (erase_size part) \<le> int32 (part_size part)
      then case read_round sys part fd before pos w of
             ReadDone r data w1 \<Rightarrow> Some (r, data, w1)
           | ReadNext before1 w1 \<Rightarrow>
               read_block_loop sys part fd before1 (pos + erase_size part) w1
      else Some (- 1, [], w))"

definition read_block :: "'w os \<Rightarrow> MtdPartition \<Rightarrow> int \<Rightarrow> 'w \<Rightarrow> (int \<times> byte list \<times> 'w) option" where
  "read_block sys part fd w =
     (case os_ecc sys fd w of (ret, before) \<Rightarrow>
        if ret \<noteq> 0 then Some (- 1, [], w)
        else case os_lseek sys fd (SEEK_CUR 0) w of (pos, w1) \<Rightarrow>
          read_block_loop sys part fd before pos w1)"

text \<open>
  \<open>mtd_read_data\<close> with the bytes read so far, \<open>acc\<close>. The result is the number of bytes, or \<open>-1\<close>; on an
  error what is in the caller's buffer is not used by any caller and left out.
\<close>

definition copy_from_buffer :: "MtdReadContext \<Rightarrow> int \<Rightarrow> byte list \<Rightarrow> byte list \<times> MtdReadContext" where
  "copy_from_buffer ctx len acc =
     (if rc_consumed ctx < erase_size (rc_partition ctx) then
        let avail = erase_size (rc_partition ctx) - rc_consumed ctx;
            copy = (if len - int (length acc) < avail then len - int (length acc) else avail)
        in (acc @ slice (nat (rc_consumed ctx)) (nat copy) (rc_buffer ctx),
            ctx\<lparr>rc_consumed := rc_consumed ctx + copy\<rparr>)
      else (acc, ctx))"

partial_function (option) read_whole_blocks ::
  "'w os \<Rightarrow> MtdReadContext \<Rightarrow> int \<Rightarrow> byte list \<Rightarrow> 'w \<Rightarrow> (int \<times> byte list \<times> 'w) option" where
  "read_whole_blocks sys ctx len acc w =
     (if rc_consumed ctx = erase_size (rc_partition ctx) \<and> erase_size (rc_partition ctx) \<le> len - int (length acc)
      then Option.bind (read_block sys (rc_partition ctx) (rc_fd ctx) w) (\<lambda>(r, data, w1).
             if r \<noteq> 0 then Some (- 1, acc, w1) else read_whole_blocks sys ctx len (acc @ data) w1)
      else Some (0, acc, w))"

partial_function (option) read_data_loop ::
  "'w os \<Rightarrow> int \<Rightarrow> byte list \<Rightarrow> MtdReadContext \<Rightarrow> 'w \<Rightarrow> (int \<times> byte list \<times> MtdReadContext \<times> 'w) option" where
  "read_data_loop sys len acc ctx w =
     (if int (length acc) < int32 len then
        case copy_from_buffer ctx len acc of (acc, ctx) \<Rightarrow>
        Option.bind (read_whole_blocks sys ctx len acc w) (\<lambda>(r, acc, w).
        if r \<noteq> 0 then Some (- 1, acc, ctx, w)
        else if int32 len \<le> int (length acc) then Some (int (length acc), acc, ctx, w)
        else if rc_consumed ctx = erase_size (rc_partition ctx) then
          Option.bind (read_block sys (rc_partition ctx) (rc_fd ctx) w) (\<lambda>(r, data, w).
          if r \<noteq> 0 then Some (- 1, acc, ctx, w)
          else read_data_loop sys len acc (ctx\<lparr>rc_buffer := data, rc_consumed := 0\<rparr>) w)
        else read_data_loop sys len acc ctx w)
      else Some (int (length acc), acc, ctx, w))"

definition mtd_read_data ::
  "'w os \<Rightarrow> MtdReadContext \<Rightarrow> int \<Rightarrow> 'w \<Rightarrow> (int \<times> byte list \<times> MtdReadContext \<times> 'w) option" where
  "mtd_read_data sys ctx len w = read_data_loop sys len [] ctx w"

definition mtd_read_close :: "'w os \<Rightarrow> MtdReadContext \<Rightarrow> 'w \<Rightarrow> 'w" where
  "mtd_read_close sys ctx w = snd (os_close sys (rc_fd ctx) w)"


section \<open>Writing\<close>

record MtdWriteContext =
  wc_partition :: MtdPartition
  wc_buffer :: "byte list"
  wc_stored :: int
  wc_fd :: int
  bad_block_offsets :: "int list"
  bad_block_alloc :: int

definition mtd_write_partition :: "'w os \<Rightarrow> MtdPartition \<Rightarrow> 'w \<Rightarrow> MtdWriteContext option \<times> 'w" where
  "mtd_write_partition sys part w =
     (case os_malloc sys 28 w of
        None \<Rightarrow> (None, w)
      | Some _ \<Rightarrow>
          (case os_malloc sys (erase_size part) w of
             None \<Rightarrow> (None, w)
           | Some buffer \<Rightarrow>
               (case os_open sys (dev_name part) O_RDWR w of (fd, w1) \<Rightarrow>
                  if fd < 0 then (None, w1)
                  else (Some \<lparr>wc_partition = part, wc_buffer = buffer, wc_stored = 0, wc_fd = fd,
                              bad_block_offsets = [], bad_block_alloc = 0\<rparr>, w1))))"

text \<open>\<open>realloc\<close> is not checked: storing through \<open>NULL\<close> is undefined.\<close>

definition add_bad_block_offset :: "'w os \<Rightarrow> MtdWriteContext \<Rightarrow> int \<Rightarrow> 'w \<Rightarrow> MtdWriteContext option" where
  "add_bad_block_offset sys ctx pos w =
     (if bad_block_alloc ctx < int (length (bad_block_offsets ctx)) + 1 then
        let alloc = bad_block_alloc ctx * 2 + 1 in
        if os_malloc sys (alloc * 4) w = None then None
        else Some (ctx\<lparr>bad_block_alloc := alloc, bad_block_offsets := bad_block_offsets ctx @ [pos]\<rparr>)
      else Some (ctx\<lparr>bad_block_offsets := bad_block_offsets ctx @ [pos]\<rparr>))"

text \<open>
  One try at the block at \<open>pos\<close>: erase, write, read back and compare. A failed write is only reported;
  it is the comparison that decides.
\<close>

definition write_try :: "'w os \<Rightarrow> int \<Rightarrow> byte list \<Rightarrow> int \<Rightarrow> 'w \<Rightarrow> bool \<times> 'w" where
  "write_try sys fd data pos w =
     (let size = int (length data) in
      case os_erase sys fd pos size w of (e, w1) \<Rightarrow>
      if e < 0 then (False, w1)
      else
        (case os_lseek sys fd (SEEK_SET pos) w1 of (p, w2) \<Rightarrow>
         case (if p \<noteq> pos then (0, w2) else os_write sys fd data w2) of (_, w3) \<Rightarrow>
         case os_lseek sys fd (SEEK_SET pos) w3 of (p, w4) \<Rightarrow>
         if p \<noteq> pos then (False, w4)
         else case os_read sys fd size w4 of (n, verify, w5) \<Rightarrow>
           if n \<noteq> size then (False, w5) else (verify = data, w5)))"

fun write_tries :: "nat \<Rightarrow> 'w os \<Rightarrow> int \<Rightarrow> byte list \<Rightarrow> int \<Rightarrow> 'w \<Rightarrow> bool \<times> 'w" where
  "write_tries 0 sys fd data pos w = (False, w)"
| "write_tries (Suc n) sys fd data pos w =
     (case write_try sys fd data pos w of (ok, w1) \<Rightarrow>
        if ok then (True, w1) else write_tries n sys fd data pos w1)"

text \<open>
  The blocks from \<open>pos\<close> on: factory-bad blocks are passed over, others tried twice and erased again when
  that fails. \<open>data\<close> is one erase block. \<open>pos + size\<close> is an \<open>off_t\<close>: beyond its range it is undefined.
\<close>

partial_function (option) write_block_loop ::
  "'w os \<Rightarrow> MtdWriteContext \<Rightarrow> byte list \<Rightarrow> int \<Rightarrow> 'w \<Rightarrow> (int \<times> MtdWriteContext \<times> 'w) option" where
  "write_block_loop sys ctx data pos w =
     (let part = wc_partition ctx; fd = wc_fd ctx; size = int32 (erase_size part);
          next = int32 (pos + erase_size part) in
      if LONG_MAX < pos + size then None
      else if int32 (part_size part) < pos + size then Some (- 1, ctx, w)
      else case os_badblock sys fd pos w of (ret, eopnotsupp) \<Rightarrow>
        if ret \<noteq> 0 \<and> \<not> (ret = - 1 \<and> eopnotsupp) then
          Option.bind (add_bad_block_offset sys ctx pos w) (\<lambda>ctx. write_block_loop sys ctx data next w)
        else case write_tries 2 sys fd data pos w of (ok, w1) \<Rightarrow>
          if ok then Some (0, ctx, w1)
          else Option.bind (add_bad_block_offset sys ctx pos w1) (\<lambda>ctx.
               case os_erase sys fd pos size w1 of (_, w2) \<Rightarrow> write_block_loop sys ctx data next w2))"

definition write_block ::
  "'w os \<Rightarrow> MtdWriteContext \<Rightarrow> byte list \<Rightarrow> 'w \<Rightarrow> (int \<times> MtdWriteContext \<times> 'w) option" where
  "write_block sys ctx data w =
     (case os_lseek sys (wc_fd ctx) (SEEK_CUR 0) w of (pos, w1) \<Rightarrow>
        if pos = - 1 then Some (1, ctx, w1)
        else if os_malloc sys (erase_size (wc_partition ctx)) w1 = None then Some (1, ctx, w1)
        else write_block_loop sys ctx data pos w1)"

text \<open>
  \<open>mtd_write_data\<close>; \<open>data\<close> is what is still to be written. First the buffer is filled if it has
  something in it or there is no whole block, then written if it is full, then whole blocks are written
  from the caller's buffer.
\<close>

definition put_buffer :: "byte list \<Rightarrow> int \<Rightarrow> byte list \<Rightarrow> byte list" where
  "put_buffer buf pos data = take (nat pos) buf @ data @ drop (nat pos + length data) buf"

definition coalesce :: "MtdWriteContext \<Rightarrow> byte list \<Rightarrow> byte list \<times> MtdWriteContext" where
  "coalesce ctx data =
     (let es = erase_size (wc_partition ctx) in
      if 0 < wc_stored ctx \<or> int (length data) < es then
        let avail = es - wc_stored ctx;
            copy = (if int (length data) < avail then int (length data) else avail)
        in (drop (nat copy) data,
            ctx\<lparr>wc_buffer := put_buffer (wc_buffer ctx) (wc_stored ctx) (take (nat copy) data),
                wc_stored := wc_stored ctx + copy\<rparr>)
      else (data, ctx))"

definition flush_full :: "'w os \<Rightarrow> MtdWriteContext \<Rightarrow> 'w \<Rightarrow> (int \<times> MtdWriteContext \<times> 'w) option" where
  "flush_full sys ctx w =
     (if wc_stored ctx = erase_size (wc_partition ctx)
      then Option.bind (write_block sys ctx (wc_buffer ctx) w) (\<lambda>(r, ctx, w).
             if r \<noteq> 0 then Some (- 1, ctx, w) else Some (0, ctx\<lparr>wc_stored := 0\<rparr>, w))
      else Some (0, ctx, w))"

partial_function (option) write_whole_blocks ::
  "'w os \<Rightarrow> MtdWriteContext \<Rightarrow> byte list \<Rightarrow> 'w \<Rightarrow> (int \<times> byte list \<times> MtdWriteContext \<times> 'w) option" where
  "write_whole_blocks sys ctx data w =
     (let es = erase_size (wc_partition ctx) in
      if wc_stored ctx = 0 \<and> es \<le> int (length data)
      then Option.bind (write_block sys ctx (take (nat es) data) w) (\<lambda>(r, ctx, w).
             if r \<noteq> 0 then Some (- 1, data, ctx, w)
             else write_whole_blocks sys ctx (drop (nat es) data) w)
      else Some (0, data, ctx, w))"

partial_function (option) write_data_loop ::
  "'w os \<Rightarrow> int \<Rightarrow> byte list \<Rightarrow> MtdWriteContext \<Rightarrow> 'w \<Rightarrow> (int \<times> MtdWriteContext \<times> 'w) option" where
  "write_data_loop sys len data ctx w =
     (if data \<noteq> [] then
        case coalesce ctx data of (data, ctx) \<Rightarrow>
        Option.bind (flush_full sys ctx w) (\<lambda>(r, ctx, w).
        if r \<noteq> 0 then Some (- 1, ctx, w)
        else Option.bind (write_whole_blocks sys ctx data w) (\<lambda>(r, data, ctx, w).
        if r \<noteq> 0 then Some (- 1, ctx, w)
        else write_data_loop sys len data ctx w))
      else Some (len, ctx, w))"

definition mtd_write_data ::
  "'w os \<Rightarrow> MtdWriteContext \<Rightarrow> byte list \<Rightarrow> 'w \<Rightarrow> (int \<times> MtdWriteContext \<times> 'w) option" where
  "mtd_write_data sys ctx data w = write_data_loop sys (int32 (int (length data))) data ctx w"

text \<open>Erasing \<open>n\<close> more blocks from \<open>pos\<close>; the position after them.\<close>

fun erase_loop :: "nat \<Rightarrow> 'w os \<Rightarrow> int \<Rightarrow> int \<Rightarrow> int \<Rightarrow> 'w \<Rightarrow> int \<times> 'w" where
  "erase_loop 0 sys fd es pos w = (pos, w)"
| "erase_loop (Suc n) sys fd es pos w =
     (if 0 < fst (os_badblock sys fd pos w) then erase_loop n sys fd es (pos + es) w
      else erase_loop n sys fd es (pos + es) (snd (os_erase sys fd pos es w)))"

text \<open>Zero-padding and writing what is in the buffer, to get to a block boundary.\<close>

definition pad_flush :: "'w os \<Rightarrow> MtdWriteContext \<Rightarrow> 'w \<Rightarrow> (int \<times> MtdWriteContext \<times> 'w) option" where
  "pad_flush sys ctx w =
     (if 0 < wc_stored ctx then
        let zero = nat (erase_size (wc_partition ctx) - wc_stored ctx);
            buffer = put_buffer (wc_buffer ctx) (wc_stored ctx) (replicate zero 0)
        in Option.bind (write_block sys (ctx\<lparr>wc_buffer := buffer\<rparr>) buffer w) (\<lambda>(r, ctx, w).
             if r \<noteq> 0 then Some (- 1, ctx, w) else Some (0, ctx\<lparr>wc_stored := 0\<rparr>, w))
      else Some (0, ctx, w))"

text \<open>
  The size is unsigned, so the difference and the quotient are; a position outside the partition would
  make a huge \<open>total\<close>. A zero erase size divides by zero.
\<close>

definition mtd_erase_blocks ::
  "'w os \<Rightarrow> MtdWriteContext \<Rightarrow> int \<Rightarrow> 'w \<Rightarrow> (int \<times> MtdWriteContext \<times> 'w) option" where
  "mtd_erase_blocks sys ctx blocks w =
     Option.bind (pad_flush sys ctx w) (\<lambda>(r, ctx, w).
        if r \<noteq> 0 then Some (- 1, ctx, w)
        else case os_lseek sys (wc_fd ctx) (SEEK_CUR 0) w of (pos, w) \<Rightarrow>
          if pos = - 1 then Some (- 1, ctx, w)
          else if erase_size (wc_partition ctx) = 0 then None
          else let part = wc_partition ctx; es = erase_size part;
                   total = int32 (((part_size part - pos) mod 2 ^ 32) div es);
                   blocks = (if blocks < 0 then total else blocks) in
            if total < blocks then Some (- 1, ctx, w)
            else case erase_loop (nat blocks) sys (wc_fd ctx) es pos w of (pos, w) \<Rightarrow> Some (pos, ctx, w))"

definition mtd_write_close :: "'w os \<Rightarrow> MtdWriteContext \<Rightarrow> 'w \<Rightarrow> (int \<times> 'w) option" where
  "mtd_write_close sys ctx w =
     Option.bind (mtd_erase_blocks sys ctx 0 w) (\<lambda>(p, ctx, w).
     case os_close sys (wc_fd ctx) w of (c, w) \<Rightarrow> Some (if p = - 1 \<or> c \<noteq> 0 then - 1 else 0, w))"

text \<open>The first position at or after \<open>pos\<close> that is not in the list of bad blocks.\<close>

fun find_write_start :: "int \<Rightarrow> int list \<Rightarrow> int \<Rightarrow> int" where
  "find_write_start es [] pos = pos"
| "find_write_start es (b # bs) pos =
     (if b = pos then find_write_start es bs (pos + es)
      else if pos < b then pos
      else find_write_start es bs pos)"

definition mtd_find_write_start :: "MtdWriteContext \<Rightarrow> int \<Rightarrow> int" where
  "mtd_find_write_start ctx pos = find_write_start (erase_size (wc_partition ctx)) (bad_block_offsets ctx) pos"


section \<open>Commands on whole partitions\<close>

definition BUFSIZ :: int where "BUFSIZ = 1024"
definition BLOCK_SIZE :: int where "BLOCK_SIZE = 2048"

text \<open>
  The state of a command is the table \<open>st\<close> and the machine. \<open>lookup_partition\<close> is the scan and the search
  the commands start with; a scan that finds no partition is an error of some of them.
\<close>

definition lookup_partition ::
  "'w os \<Rightarrow> bool \<Rightarrow> string \<Rightarrow> MtdState \<Rightarrow> 'w \<Rightarrow> (MtdPartition option \<times> MtdState \<times> 'w) option" where
  "lookup_partition sys check name st w =
     Option.bind (mtd_scan_partitions sys st w) (\<lambda>(n, st, w).
     Some (if check \<and> n \<le> 0 then None else mtd_find_partition_by_name st name, st, w))"

partial_function (option) restore_loop ::
  "'w os \<Rightarrow> int \<Rightarrow> MtdWriteContext \<Rightarrow> 'w \<Rightarrow> (bool \<times> MtdWriteContext \<times> 'w) option" where
  "restore_loop sys f ctx w =
     (case os_fread sys f BUFSIZ w of (buffer, w) \<Rightarrow>
        if buffer = [] then Some (True, ctx, w)
        else Option.bind (mtd_write_data sys ctx buffer w) (\<lambda>(wrote, ctx, w).
             if wrote = int (length buffer) then restore_loop sys f ctx w else Some (False, ctx, w)))"

text \<open>The file is opened a second time as a descriptor that is never used.\<close>

definition cmd_mtd_restore_raw_partition ::
  "'w os \<Rightarrow> string \<Rightarrow> string \<Rightarrow> MtdState \<Rightarrow> 'w \<Rightarrow> (int \<times> MtdState \<times> 'w) option" where
  "cmd_mtd_restore_raw_partition sys partition_name filename st w =
     (case os_fopen sys filename False w of
        (None, w) \<Rightarrow> Some (- 1, st, w)
      | (Some f, w) \<Rightarrow>
          Option.bind (lookup_partition sys True partition_name st w) (\<lambda>(mtd, st, w).
          case mtd of
            None \<Rightarrow> Some (- 1, st, w)
          | Some mtd \<Rightarrow>
              (case os_open sys filename O_RDONLY w of (fd, w) \<Rightarrow>
                 if fd < 0 then Some (- 1, st, w)
                 else case mtd_write_partition sys mtd w of
                   (None, w) \<Rightarrow> Some (- 1, st, w)
                 | (Some ctx, w) \<Rightarrow>
                     Option.bind (restore_loop sys f ctx w) (\<lambda>(success, ctx, w).
                     case os_fclose sys f w of (_, w) \<Rightarrow>
                       if \<not> success then Some (- 1, st, w)
                       else Option.bind (mtd_erase_blocks sys ctx (- 1) w) (\<lambda>(_, ctx, w).
                            Option.bind (mtd_write_close sys ctx w) (\<lambda>(_, w). Some (0, st, w)))))))"

partial_function (option) backup_loop ::
  "'w os \<Rightarrow> string \<Rightarrow> int \<Rightarrow> MtdReadContext \<Rightarrow> 'w \<Rightarrow> (bool \<times> MtdReadContext \<times> 'w) option" where
  "backup_loop sys filename fd ctx w =
     Option.bind (mtd_read_data sys ctx BLOCK_SIZE w) (\<lambda>(len, buf, ctx, w).
     if len \<le> 0 then Some (True, ctx, w)
     else case os_write sys fd buf w of (wrote, w) \<Rightarrow>
       if wrote \<noteq> len then
         (case os_close sys fd w of (_, w) \<Rightarrow> case os_unlink sys filename w of (_, w) \<Rightarrow> Some (False, ctx, w))
       else backup_loop sys filename fd ctx w)"

definition STDOUT_FILENO :: int where "STDOUT_FILENO = 1"

definition cmd_mtd_backup_raw_partition ::
  "'w os \<Rightarrow> string \<Rightarrow> string \<Rightarrow> MtdState \<Rightarrow> 'w \<Rightarrow> (int \<times> MtdState \<times> 'w) option" where
  "cmd_mtd_backup_raw_partition sys partition_name filename st w =
     Option.bind (lookup_partition sys True partition_name st w) (\<lambda>(part, st, w).
     case part of
       None \<Rightarrow> Some (- 1, st, w)
     | Some part \<Rightarrow>
         (case mtd_partition_info sys part w of
            (None, w) \<Rightarrow> Some (- 1, st, w)
          | (Some info, w) \<Rightarrow>
              (case (if filename = ''-'' then (STDOUT_FILENO, w) else os_open sys filename O_CREAT_TRUNC w) of (fd, w) \<Rightarrow>
                 if fd < 0 then Some (- 1, st, w)
                 else case mtd_read_partition sys part w of
                   (None, w) \<Rightarrow>
                     (case os_close sys fd w of (_, w) \<Rightarrow> case os_unlink sys filename w of (_, w) \<Rightarrow> Some (- 1, st, w))
                 | (Some ctx, w) \<Rightarrow>
                     Option.bind (backup_loop sys filename fd ctx w) (\<lambda>(ok, ctx, w).
                     if \<not> ok then Some (- 1, st, w)
                     else case os_close sys fd (mtd_read_close sys ctx w) of (c, w) \<Rightarrow>
                       if c \<noteq> 0 then (case os_unlink sys filename w of (_, w) \<Rightarrow> Some (- 1, st, w))
                       else Some (0, st, w)))))"

text \<open>The result of \<open>mtd_erase_blocks\<close> is stored in a \<open>size_t\<close> and only compared with zero.\<close>

definition cmd_mtd_erase_raw_partition ::
  "'w os \<Rightarrow> string \<Rightarrow> MtdState \<Rightarrow> 'w \<Rightarrow> (int \<times> MtdState \<times> 'w) option" where
  "cmd_mtd_erase_raw_partition sys partition_name st w =
     Option.bind (lookup_partition sys True partition_name st w) (\<lambda>(p, st, w).
     case p of
       None \<Rightarrow> Some (- 1, st, w)
     | Some p \<Rightarrow>
         (case mtd_write_partition sys p w of
            (None, w) \<Rightarrow> Some (- 1, st, w)
          | (Some out, w) \<Rightarrow>
              Option.bind (mtd_erase_blocks sys out (- 1) w) (\<lambda>(erased, out, w).
              if erased mod 2 ^ 32 = 0 then Some (- 1, st, w) else Some (0, st, w))))"

definition cmd_mtd_erase_partition ::
  "'w os \<Rightarrow> string \<Rightarrow> string \<Rightarrow> MtdState \<Rightarrow> 'w \<Rightarrow> (int \<times> MtdState \<times> 'w) option" where
  "cmd_mtd_erase_partition sys part filesystem st w = cmd_mtd_erase_raw_partition sys part st w"

definition cmd_mtd_mount_partition ::
  "'w os \<Rightarrow> string \<Rightarrow> string \<Rightarrow> string \<Rightarrow> bool \<Rightarrow> MtdState \<Rightarrow> 'w \<Rightarrow> (int \<times> MtdState \<times> 'w) option" where
  "cmd_mtd_mount_partition sys part mount_point filesystem read_only st w =
     Option.bind (lookup_partition sys False part st w) (\<lambda>(p, st, w).
     case p of
       None \<Rightarrow> Some (- 1, st, w)
     | Some p \<Rightarrow> (case mtd_mount_partition sys p mount_point filesystem read_only w of (rv, w) \<Rightarrow> Some (rv, st, w)))"

definition cmd_mtd_get_partition_device ::
  "'w os \<Rightarrow> string \<Rightarrow> MtdState \<Rightarrow> 'w \<Rightarrow> ((int \<times> string) \<times> MtdState \<times> 'w) option" where
  "cmd_mtd_get_partition_device sys part st w =
     Option.bind (lookup_partition sys False part st w) (\<lambda>(p, st, w).
     case p of
       None \<Rightarrow> Some ((- 1, []), st, w)
     | Some p \<Rightarrow> Some ((0, ''/dev/block/mtdblock'' @ show_int (device_index p)), st, w))"

end
