(* ===== verification/Mtd_Flash.thy ===== *)
theory Mtd_Flash
  imports Mtd_Utils
begin

text \<open>
  Reading and writing a flash partition through \<^verbatim>\<open>mtdutils/mtdutils.c\<close>, on a device that behaves as
  the MTD driver documents: the bytes that are read and written are those of the good blocks, in order.
\<close>

section \<open>NAND flash\<close>

text \<open>
  A view of an open flash device: which erase blocks are good, the position of the descriptor and the
  contents of the blocks.
\<close>

record 'w nand =
  nd_good :: "nat \<Rightarrow> bool"
  nd_pos :: "'w \<Rightarrow> int"
  nd_blk :: "'w \<Rightarrow> nat \<Rightarrow> byte list"

definition block_count :: "MtdPartition \<Rightarrow> nat" where
  "block_count part = nat (part_size part div erase_size part)"

text \<open>A partition is a whole number of blocks and its offsets fit an \<open>off_t\<close>.\<close>

definition partition_ok :: "MtdPartition \<Rightarrow> bool" where
  "partition_ok part \<longleftrightarrow> 0 < erase_size part \<and> part_size part = int (block_count part) * erase_size part
     \<and> part_size part + erase_size part \<le> LONG_MAX"

definition erased :: "MtdPartition \<Rightarrow> byte list" where
  "erased part = replicate (nat (erase_size part)) (- 1)"

text \<open>
  What the MTD driver documents, for the descriptor \<open>fd\<close>: \<open>lseek\<close> moves the position and nothing else;
  a good block reads back without new ECC failures and moves the position to the next one, a read of a
  bad block may do anything but change the contents (only,
  the ECC counters stay when it fails); an erased good block can be written; \<open>MEMERASE\<close>
  erases a good block; \<open>MEMGETBADBLOCK\<close> tells the bad blocks. Memory can be allocated.
\<close>

definition seek_law :: "'w os \<Rightarrow> int \<Rightarrow> MtdPartition \<Rightarrow> 'w nand \<Rightarrow> bool" where
  "seek_law sys fd part V \<longleftrightarrow> (\<forall>w. os_lseek sys fd (SEEK_CUR 0) w = (nd_pos V w, w)) \<and>
     (\<forall>w p. 0 \<le> p \<and> p < part_size part \<longrightarrow>
        (case os_lseek sys fd (SEEK_SET p) w of (r, w') \<Rightarrow> r = p \<and> nd_pos V w' = p \<and> nd_blk V w' = nd_blk V w
           \<and> os_ecc sys fd w' = os_ecc sys fd w))"

definition block_read_law :: "'w os \<Rightarrow> int \<Rightarrow> MtdPartition \<Rightarrow> 'w nand \<Rightarrow> bool" where
  "block_read_law sys fd part V \<longleftrightarrow>
     (\<forall>w i. i < block_count part \<and> nd_pos V w = int i * erase_size part \<longrightarrow>
        (case os_read sys fd (erase_size part) w of (n, d, w') \<Rightarrow> nd_blk V w' = nd_blk V w \<and>
           (nd_good V i \<longrightarrow> n = erase_size part \<and> d = nd_blk V w i \<and> nd_pos V w' = (int i + 1) * erase_size part) \<and>
           (nd_good V i \<or> n \<noteq> erase_size part \<longrightarrow> os_ecc sys fd w' = os_ecc sys fd w)))"

definition block_state_law :: "'w os \<Rightarrow> int \<Rightarrow> MtdPartition \<Rightarrow> 'w nand \<Rightarrow> bool" where
  "block_state_law sys fd part V \<longleftrightarrow> (\<forall>w. fst (os_ecc sys fd w) = 0) \<and>
     (\<forall>w i. i < block_count part \<longrightarrow> int (length (nd_blk V w i)) = erase_size part \<and>
        os_badblock sys fd (int i * erase_size part) w = (if nd_good V i then 0 else 1, False))"

definition nand_reads :: "'w os \<Rightarrow> int \<Rightarrow> MtdPartition \<Rightarrow> 'w nand \<Rightarrow> bool" where
  "nand_reads sys fd part V \<longleftrightarrow> partition_ok part \<and> seek_law sys fd part V \<and> block_read_law sys fd part V
     \<and> block_state_law sys fd part V"

text \<open>The contents of the good blocks from the \<open>i\<close>-th up to the \<open>j\<close>-th block.\<close>

definition flash :: "'w nand \<Rightarrow> 'w \<Rightarrow> nat \<Rightarrow> nat \<Rightarrow> byte list" where
  "flash V w i j = concat (map (nd_blk V w) (filter (nd_good V) [i..<j]))"

lemma filter_upt_Cons:
  "filter P [i..<n] = q # qs \<Longrightarrow> i \<le> q \<and> q < n \<and> P q \<and> qs = filter P [Suc q..<n]"
proof (induction "n - i" arbitrary: i)
  case 0
  then show ?case by simp
next
  case (Suc k)
  then have "[i..<n] = i # [Suc i..<n]" by (simp add: upt_conv_Cons)
  moreover have "k = n - Suc i" using Suc.hyps(2) by simp
  ultimately show ?case using Suc.hyps(1) [of "Suc i"] Suc.prems Suc.hyps(2) by (cases "P i") auto
qed

lemma partition_int32:
  assumes "partition_ok part"
  shows "int32 (erase_size part) = erase_size part" "int32 (part_size part) = part_size part"
proof -
  have "0 < erase_size part" "0 \<le> part_size part" "part_size part + erase_size part \<le> LONG_MAX"
    using assms by (auto simp: partition_ok_def)
  then show "int32 (erase_size part) = erase_size part" "int32 (part_size part) = part_size part"
    by (auto intro!: int32_id simp: LONG_MIN_def)
qed

lemma block_fits:
  assumes "partition_ok part"
  shows "int i * erase_size part + erase_size part \<le> part_size part \<longleftrightarrow> i < block_count part"
proof -
  have es: "0 < erase_size part" and ps: "part_size part = int (block_count part) * erase_size part"
    using assms by (auto simp: partition_ok_def)
  have "int i * erase_size part + erase_size part = (int i + 1) * erase_size part" by (simp add: distrib_right)
  then have "int i * erase_size part + erase_size part \<le> part_size part \<longleftrightarrow> int i + 1 \<le> int (block_count part)"
    using es by (simp add: ps mult_le_cancel_right)
  then show ?thesis by linarith
qed

lemma block_before:
  assumes "partition_ok part" "i < block_count part"
  shows "0 \<le> int i * erase_size part" "int i * erase_size part < part_size part"
  using assms block_fits [OF assms(1), of i] by (auto simp: partition_ok_def)


lemma nand_readsD:
  assumes law: "nand_reads sys fd part V"
  shows "partition_ok part"
    and "os_lseek sys fd (SEEK_CUR 0) w = (nd_pos V w, w)"
    and "fst (os_ecc sys fd w) = 0"
    and "i < block_count part \<Longrightarrow> int (length (nd_blk V w i)) = erase_size part"
    and "i < block_count part \<Longrightarrow>
      os_badblock sys fd (int i * erase_size part) w = (if nd_good V i then 0 else 1, False)"
  using law by (simp_all add: nand_reads_def seek_law_def block_state_law_def)


lemma nand_seekD:
  assumes "nand_reads sys fd part V" "i < block_count part"
    and eq: "os_lseek sys fd (SEEK_SET (int i * erase_size part)) w = (r, w')"
  shows "r = int i * erase_size part" "nd_pos V w' = int i * erase_size part" "nd_blk V w' = nd_blk V w"
    "os_ecc sys fd w' = os_ecc sys fd w"
proof -
  have "partition_ok part" using assms(1) by (rule nand_readsD)
  then have "0 \<le> int i * erase_size part \<and> int i * erase_size part < part_size part"
    using block_before assms(2) by blast
  moreover from assms(1) have law: "seek_law sys fd part V" by (simp add: nand_reads_def)
  ultimately have "case os_lseek sys fd (SEEK_SET (int i * erase_size part)) w of (q, v) \<Rightarrow>
      q = int i * erase_size part \<and> nd_pos V v = int i * erase_size part \<and> nd_blk V v = nd_blk V w
           \<and> os_ecc sys fd v = os_ecc sys fd w"
    by (intro law [unfolded seek_law_def, THEN conjunct2, rule_format])
  then show "r = int i * erase_size part" "nd_pos V w' = int i * erase_size part" "nd_blk V w' = nd_blk V w"
    "os_ecc sys fd w' = os_ecc sys fd w" by (simp_all add: eq)
qed

lemma nand_readD:
  assumes "nand_reads sys fd part V" "i < block_count part" "nd_pos V w = int i * erase_size part"
    and eq: "os_read sys fd (erase_size part) w = (n, d, w')"
  shows "nd_blk V w' = nd_blk V w"
    and "nd_good V i \<Longrightarrow> n = erase_size part" "nd_good V i \<Longrightarrow> d = nd_blk V w i"
    and "nd_good V i \<Longrightarrow> nd_pos V w' = (int i + 1) * erase_size part"
    and "nd_good V i \<or> n \<noteq> erase_size part \<Longrightarrow> os_ecc sys fd w' = os_ecc sys fd w"
proof -
  from assms(1) have law: "block_read_law sys fd part V" by (simp add: nand_reads_def)
  have "case os_read sys fd (erase_size part) w of (m, b, v) \<Rightarrow> nd_blk V v = nd_blk V w \<and>
           (nd_good V i \<longrightarrow> m = erase_size part \<and> b = nd_blk V w i \<and> nd_pos V v = (int i + 1) * erase_size part) \<and>
           (nd_good V i \<or> m \<noteq> erase_size part \<longrightarrow> os_ecc sys fd v = os_ecc sys fd w)"
    by (rule law [unfolded block_read_law_def, rule_format]) (simp add: assms(2,3))
  then show "nd_blk V w' = nd_blk V w" "nd_good V i \<Longrightarrow> n = erase_size part" "nd_good V i \<Longrightarrow> d = nd_blk V w i"
    "nd_good V i \<Longrightarrow> nd_pos V w' = (int i + 1) * erase_size part"
    "nd_good V i \<or> n \<noteq> erase_size part \<Longrightarrow> os_ecc sys fd w' = os_ecc sys fd w"
    by (auto simp: eq)
qed

text \<open>A round of \<open>read_block\<close>: a good block is returned, a bad one passed over.\<close>

lemma read_round_at:
  assumes law: "nand_reads sys fd part V" and i: "i < block_count part" and e: "snd (os_ecc sys fd w) = before"
  shows "nd_good V i \<Longrightarrow> \<exists>w'. read_round sys part fd before (int i * erase_size part) w = ReadDone 0 (nd_blk V w i) w'
      \<and> nd_pos V w' = (int i + 1) * erase_size part \<and> nd_blk V w' = nd_blk V w"
    and "\<not> nd_good V i \<Longrightarrow> \<exists>before' w'. read_round sys part fd before (int i * erase_size part) w = ReadNext before' w'
      \<and> nd_blk V w' = nd_blk V w \<and> snd (os_ecc sys fd w') = before'"
proof -
  let ?p = "int i * erase_size part"
  have ok: "partition_ok part" using law by (rule nand_readsD)
  obtain r w1 where s: "os_lseek sys fd (SEEK_SET ?p) w = (r, w1)" by fastforce
  note s1 = nand_seekD [OF law i s]
  obtain n d w2 where rd: "os_read sys fd (erase_size part) w1 = (n, d, w2)" by (metis prod_cases3)
  note r1 = nand_readD [OF law i s1(2) rd]
  obtain a where a: "os_ecc sys fd w2 = (0, a)"
    using nand_readsD(3) [OF law, of w2] by (metis prod.collapse)
  have b: "os_badblock sys fd ?p w2 = (if nd_good V i then 0 else 1, False)" using law i by (rule nand_readsD)
  have round: "read_round sys part fd before ?p w =
      (if n \<noteq> erase_size part then ReadNext before w2 else if a \<noteq> before then ReadNext a w2
       else if \<not> nd_good V i then ReadNext before w2 else ReadDone 0 d w2)"
    using s s1(1) rd a b by (simp add: read_round_def Let_def partition_int32 [OF ok])
  show "\<exists>w'. read_round sys part fd before ?p w = ReadDone 0 (nd_blk V w i) w'
      \<and> nd_pos V w' = (int i + 1) * erase_size part \<and> nd_blk V w' = nd_blk V w" if g: "nd_good V i"
  proof -
    have "a = before" using r1(5) s1(4) a e g by (metis snd_conv)
    with round r1 s1 g show ?thesis by simp
  qed
  show "\<exists>before' w'. read_round sys part fd before ?p w = ReadNext before' w'
      \<and> nd_blk V w' = nd_blk V w \<and> snd (os_ecc sys fd w') = before'" if g: "\<not> nd_good V i"
    using round r1(1,5) s1 g e a by (cases "n = erase_size part") auto
qed

lemma read_block_loop_at:
  assumes law: "nand_reads sys fd part V"
  shows "i \<le> block_count part \<Longrightarrow> snd (os_ecc sys fd w) = before \<Longrightarrow>
    (case filter (nd_good V) [i..<block_count part] of
       [] \<Rightarrow> \<exists>w'. read_block_loop sys part fd before (int i * erase_size part) w = Some (- 1, [], w') \<and> nd_blk V w' = nd_blk V w
     | q # _ \<Rightarrow> \<exists>w'. read_block_loop sys part fd before (int i * erase_size part) w = Some (0, nd_blk V w q, w')
         \<and> nd_pos V w' = (int q + 1) * erase_size part \<and> nd_blk V w' = nd_blk V w)"
proof (induction "block_count part - i" arbitrary: i before w)
  case 0
  have ok: "partition_ok part" using law by (rule nand_readsD)
  from 0 have i: "i = block_count part" by simp
  then have "\<not> int i * erase_size part + erase_size part \<le> part_size part"
    by (simp only: block_fits [OF ok])
  then show ?case
    using i by (simp add: read_block_loop.simps [of sys part fd before] partition_int32 [OF ok])
next
  case (Suc n)
  have ok: "partition_ok part" using law by (rule nand_readsD)
  from Suc.hyps(2) have i: "i < block_count part" by simp
  then have fits: "int i * erase_size part + erase_size part \<le> part_size part" by (simp only: block_fits [OF ok])
  have up: "[i..<block_count part] = i # [Suc i..<block_count part]" using i by (rule upt_conv_Cons)
  have next_pos: "int i * erase_size part + erase_size part = int (Suc i) * erase_size part" by (simp add: distrib_right)
  show ?case
  proof (cases "nd_good V i")
    case True
    from read_round_at(1) [OF law i Suc.prems(2) True] obtain w' where
      "read_round sys part fd before (int i * erase_size part) w = ReadDone 0 (nd_blk V w i) w'"
      "nd_pos V w' = (int i + 1) * erase_size part" "nd_blk V w' = nd_blk V w" by blast
    then show ?thesis using True up fits
      by (simp add: read_block_loop.simps [of sys part fd before] partition_int32 [OF ok])
  next
    case False
    from read_round_at(2) [OF law i Suc.prems(2) False] obtain b' w' where
      rr: "read_round sys part fd before (int i * erase_size part) w = ReadNext b' w'"
      "nd_blk V w' = nd_blk V w" "snd (os_ecc sys fd w') = b'" by blast
    have eq: "read_block_loop sys part fd before (int i * erase_size part) w =
        read_block_loop sys part fd b' (int (Suc i) * erase_size part) w'"
      using rr(1) fits by (simp add: read_block_loop.simps [of sys part fd before] partition_int32 [OF ok] next_pos)
    have "n = block_count part - Suc i" "Suc i \<le> block_count part" using Suc.hyps(2) by auto
    from Suc.hyps(1) [OF this rr(3)] show ?thesis
      using False unfolding eq rr(2) up by (simp only: filter.simps if_False)
  qed
qed


text \<open>The descriptor stands at the start of block \<open>p\<close>.\<close>

definition at_block :: "MtdPartition \<Rightarrow> 'w nand \<Rightarrow> nat \<Rightarrow> 'w \<Rightarrow> bool" where
  "at_block part V p w \<longleftrightarrow> p \<le> block_count part \<and> nd_pos V w = int p * erase_size part"

lemma read_block_at:
  assumes law: "nand_reads sys fd part V" and p: "at_block part V p w"
  shows "(\<exists>w'. read_block sys part fd w = Some (- 1, [], w') \<and> nd_blk V w' = nd_blk V w \<and> flash V w p (block_count part) = []) \<or>
    (\<exists>q d w'. read_block sys part fd w = Some (0, d, w') \<and> nd_blk V w' = nd_blk V w \<and> at_block part V q w' \<and>
       int (length d) = erase_size part \<and> flash V w p (block_count part) = d @ flash V w' q (block_count part))"
proof -
  let ?n = "block_count part"
  have rb: "read_block sys part fd w = read_block_loop sys part fd (snd (os_ecc sys fd w)) (int p * erase_size part) w"
    using nand_readsD(2,3) [OF law, of w] p by (simp add: read_block_def at_block_def split_beta)
  have le: "p \<le> ?n" using p by (simp add: at_block_def)
  note loop = read_block_loop_at [OF law le refl, of w, folded rb]
  show ?thesis
  proof (cases "filter (nd_good V) [p..<?n]")
    case Nil
    with loop show ?thesis by (simp add: flash_def)
  next
    case (Cons q qs)
    with loop obtain w' where w': "read_block sys part fd w = Some (0, nd_blk V w q, w')"
      "nd_pos V w' = (int q + 1) * erase_size part" "nd_blk V w' = nd_blk V w" by auto
    note q = filter_upt_Cons [OF Cons]
    then have "at_block part V (Suc q) w'" using w'(2) by (simp add: at_block_def)
    moreover have "int (length (nd_blk V w q)) = erase_size part" using nand_readsD(4) [OF law] q by blast
    moreover have "flash V w p ?n = nd_blk V w q @ flash V w' (Suc q) ?n"
      using q w'(3) Cons by (simp add: flash_def)
    ultimately show ?thesis using w' by blast
  qed
qed

section \<open>Reading is reading the good blocks\<close>

text \<open>What is still to be read through a context: the rest of its buffer, then the good blocks.\<close>

definition unread :: "MtdReadContext \<Rightarrow> byte list" where
  "unread ctx = (if rc_consumed ctx < erase_size (rc_partition ctx) then drop (nat (rc_consumed ctx)) (rc_buffer ctx) else [])"

definition reads_from :: "'w os \<Rightarrow> 'w nand \<Rightarrow> MtdReadContext \<Rightarrow> nat \<Rightarrow> 'w \<Rightarrow> bool" where
  "reads_from sys V ctx p w \<longleftrightarrow> nand_reads sys (rc_fd ctx) (rc_partition ctx) V \<and> at_block (rc_partition ctx) V p w
     \<and> 0 \<le> rc_consumed ctx \<and> rc_consumed ctx \<le> erase_size (rc_partition ctx)
     \<and> (rc_consumed ctx < erase_size (rc_partition ctx) \<longrightarrow> int (length (rc_buffer ctx)) = erase_size (rc_partition ctx))"

abbreviation rest_of :: "'w nand \<Rightarrow> MtdReadContext \<Rightarrow> nat \<Rightarrow> 'w \<Rightarrow> byte list" where
  "rest_of V ctx p w \<equiv> unread ctx @ flash V w p (block_count (rc_partition ctx))"

lemma reads_from_pos: "reads_from sys V ctx p w \<Longrightarrow> 0 < erase_size (rc_partition ctx)"
  using nand_readsD(1) by (fastforce simp: reads_from_def partition_ok_def)

lemma unread_slice:
  assumes "0 \<le> c" "0 \<le> m" "c + m \<le> es" "int (length buf) = es"
  shows "slice (nat c) (nat m) buf @ (if c + m < es then drop (nat (c + m)) buf else []) = drop (nat c) buf"
proof -
  have "drop (nat (c + m)) buf = drop (nat m) (drop (nat c) buf)"
    using assms by (simp add: nat_add_distrib add.commute)
  then have "slice (nat c) (nat m) buf @ drop (nat (c + m)) buf = drop (nat c) buf"
    by (simp only: slice_def append_take_drop_id)
  moreover have "drop (nat (c + m)) buf = []" if "\<not> c + m < es" using that assms by simp
  ultimately show ?thesis by (cases "c + m < es") auto
qed

lemma copy_from_buffer_moves:
  assumes r: "reads_from sys V ctx p w" and len: "int (length acc) < len"
    and c: "copy_from_buffer ctx len acc = (acc', ctx')"
  shows "reads_from sys V ctx' p w \<and> acc' @ unread ctx' = acc @ unread ctx \<and> int (length acc') \<le> len \<and>
    rc_partition ctx' = rc_partition ctx \<and> rc_fd ctx' = rc_fd ctx \<and>
    (int (length acc') = len \<or> rc_consumed ctx' = erase_size (rc_partition ctx)) \<and>
    length acc \<le> length acc' \<and>
    (rc_consumed ctx < erase_size (rc_partition ctx) \<longrightarrow> length acc < length acc')"
proof (cases "rc_consumed ctx < erase_size (rc_partition ctx)")
  case False
  with r c len have "acc' = acc" "ctx' = ctx" "rc_consumed ctx = erase_size (rc_partition ctx)"
    by (auto simp: copy_from_buffer_def reads_from_def)
  with r len show ?thesis by simp
next
  case True
  let ?es = "erase_size (rc_partition ctx)" and ?c = "rc_consumed ctx"
  define m where "m = (if len - int (length acc) < ?es - ?c then len - int (length acc) else ?es - ?c)"
  have m: "0 < m" "?c + m \<le> ?es" "m \<le> len - int (length acc)" "m = len - int (length acc) \<or> ?c + m = ?es"
    using True len by (auto simp: m_def)
  have b: "0 \<le> ?c" "int (length (rc_buffer ctx)) = ?es" using r True by (auto simp: reads_from_def)
  from c True have eq: "acc' = acc @ slice (nat ?c) (nat m) (rc_buffer ctx)" "ctx' = ctx\<lparr>rc_consumed := ?c + m\<rparr>"
    by (auto simp: copy_from_buffer_def Let_def m_def)
  have l: "int (length acc') = int (length acc) + m" using m b by (simp add: eq)
  have "acc' @ unread ctx' = acc @ unread ctx"
    using unread_slice [of ?c m ?es "rc_buffer ctx"] m b True by (simp add: eq unread_def split: if_splits)
  moreover have "reads_from sys V ctx' p w" using r m b by (simp add: reads_from_def eq(2))
  ultimately show ?thesis using l m eq(2) by auto
qed

text \<open>Reading whole blocks: everything read comes off the good blocks; it fails only when they run out.\<close>

lemma read_whole_blocks_moves:
  assumes law: "nand_reads sys (rc_fd ctx) (rc_partition ctx) V" and c: "rc_consumed ctx = erase_size (rc_partition ctx)"
  shows "at_block (rc_partition ctx) V p w \<Longrightarrow> int (length acc) \<le> len \<Longrightarrow>
    \<exists>r acc' w' q. read_whole_blocks sys ctx len acc w = Some (r, acc', w') \<and> nd_blk V w' = nd_blk V w \<and>
      (if r = 0 then acc' @ flash V w' q (block_count (rc_partition ctx)) = acc @ flash V w p (block_count (rc_partition ctx))
           \<and> at_block (rc_partition ctx) V q w' \<and> length acc \<le> length acc' \<and> int (length acc') \<le> len
           \<and> len - int (length acc') < erase_size (rc_partition ctx)
       else int (length (acc @ flash V w p (block_count (rc_partition ctx)))) < len)"
proof (induction "nat (len - int (length acc))" arbitrary: acc p w rule: less_induct)
  case less
  let ?P = "rc_partition ctx" and ?n = "block_count (rc_partition ctx)"
  have es: "0 < erase_size ?P" using nand_readsD(1) [OF law] by (simp add: partition_ok_def)
  show ?case
  proof (cases "erase_size ?P \<le> len - int (length acc)")
    case False
    then show ?thesis using less.prems
      by (intro exI [of _ 0] exI [of _ acc] exI [of _ w] exI [of _ p])
        (simp add: read_whole_blocks.simps [of sys ctx len acc w])
  next
    case True
    from read_block_at [OF law less.prems(1)] show ?thesis
    proof (elim disjE exE conjE)
      fix w' assume rb: "read_block sys ?P (rc_fd ctx) w = Some (- 1, [], w')" "nd_blk V w' = nd_blk V w" "flash V w p ?n = []"
      then have "read_whole_blocks sys ctx len acc w = Some (- 1, acc, w')"
        using True c by (simp add: read_whole_blocks.simps [of sys ctx len acc w])
      then show ?thesis using rb True es by (intro exI) (auto simp: split: if_splits)
    next
      fix q d w' assume rb: "read_block sys ?P (rc_fd ctx) w = Some (0, d, w')" "nd_blk V w' = nd_blk V w"
        "at_block ?P V q w'" "int (length d) = erase_size ?P" "flash V w p ?n = d @ flash V w' q ?n"
      then have eq: "read_whole_blocks sys ctx len acc w = read_whole_blocks sys ctx len (acc @ d) w'"
        using True c by (simp add: read_whole_blocks.simps [of sys ctx len acc w])
      have "nat (len - int (length (acc @ d))) < nat (len - int (length acc))" "int (length (acc @ d)) \<le> len"
        using True es rb(4) by auto
      from less.hyps [OF this(1) rb(3) this(2)] show ?thesis
        unfolding eq using rb(2,5) by fastforce
    qed
  qed
qed


definition read_measure :: "int \<Rightarrow> byte list \<Rightarrow> MtdReadContext \<Rightarrow> nat" where
  "read_measure len acc ctx =
     2 * nat (len - int (length acc)) + (if rc_consumed ctx < erase_size (rc_partition ctx) then 0 else 1)"

text \<open>
  The outcome of a read when \<open>all\<close> are the bytes read before and those still to come: \<open>len\<close> bytes of it
  are read, or there are fewer.
\<close>

definition reads_all :: "'w os \<Rightarrow> 'w nand \<Rightarrow> MtdReadContext \<Rightarrow> 'w \<Rightarrow> int \<Rightarrow> byte list
    \<Rightarrow> (int \<times> byte list \<times> MtdReadContext \<times> 'w) option \<Rightarrow> bool" where
  "reads_all sys V ctx w len all res \<longleftrightarrow>
     (\<exists>r acc' ctx' w' q. res = Some (r, acc', ctx', w') \<and> nd_blk V w' = nd_blk V w \<and>
        (if r = len then acc' @ rest_of V ctx' q w' = all \<and> reads_from sys V ctx' q w' \<and> int (length acc') = len
           \<and> rc_partition ctx' = rc_partition ctx \<and> rc_fd ctx' = rc_fd ctx
         else r = - 1 \<and> int (length all) < len))"

lemma reads_allI:
  "reads_from sys V ctx' q w' \<Longrightarrow> nd_blk V w' = nd_blk V w \<Longrightarrow> acc' @ rest_of V ctx' q w' = all \<Longrightarrow>
   rc_partition ctx' = rc_partition ctx \<Longrightarrow> rc_fd ctx' = rc_fd ctx \<Longrightarrow> int (length acc') = len \<Longrightarrow>
   reads_all sys V ctx w len all (Some (len, acc', ctx', w'))"
  unfolding reads_all_def by auto

lemma reads_all_short:
  "int (length all) < len \<Longrightarrow> nd_blk V w' = nd_blk V w \<Longrightarrow>
   reads_all sys V ctx w len all (Some (- 1, acc', ctx', w'))"
  unfolding reads_all_def by (auto intro!: exI)

lemma reads_all_cong:
  "rc_partition ctx1 = rc_partition ctx \<Longrightarrow> rc_fd ctx1 = rc_fd ctx \<Longrightarrow> nd_blk V w1 = nd_blk V w \<Longrightarrow>
   reads_all sys V ctx1 w1 len all res = reads_all sys V ctx w len all res"
  by (simp add: reads_all_def)

lemma flash_cong: "nd_blk V w' = nd_blk V w \<Longrightarrow> flash V w' p n = flash V w p n"
  by (simp add: flash_def)

text \<open>The rest of a round once the buffer is used up; \<open>again\<close> is the next round.\<close>

lemma read_after_buffer:
  assumes r: "reads_from sys V ctx p w" and c: "rc_consumed ctx = erase_size (rc_partition ctx)"
    and acc: "int (length acc) < len"
    and again: "\<And>acc' ctx' w' q. reads_from sys V ctx' q w' \<Longrightarrow> nd_blk V w' = nd_blk V w \<Longrightarrow>
      rc_partition ctx' = rc_partition ctx \<Longrightarrow> rc_fd ctx' = rc_fd ctx \<Longrightarrow> rc_consumed ctx' < erase_size (rc_partition ctx) \<Longrightarrow>
      length acc \<le> length acc' \<Longrightarrow> int (length acc') \<le> len \<Longrightarrow> acc' @ rest_of V ctx' q w' = acc @ rest_of V ctx p w \<Longrightarrow>
      reads_all sys V ctx w len (acc @ rest_of V ctx p w) (read_data_loop sys len acc' ctx' w')"
  shows "reads_all sys V ctx w len (acc @ rest_of V ctx p w)
    (Option.bind (read_whole_blocks sys ctx len acc w) (\<lambda>(r, acc, w).
        if r \<noteq> 0 then Some (- 1, acc, ctx, w)
        else if len \<le> int (length acc) then Some (int (length acc), acc, ctx, w)
        else if rc_consumed ctx = erase_size (rc_partition ctx) then
          Option.bind (read_block sys (rc_partition ctx) (rc_fd ctx) w) (\<lambda>(r, data, w).
          if r \<noteq> 0 then Some (- 1, acc, ctx, w)
          else read_data_loop sys len acc (ctx\<lparr>rc_buffer := data, rc_consumed := 0\<rparr>) w)
        else read_data_loop sys len acc ctx w))"
proof -
  let ?P = "rc_partition ctx" and ?n = "block_count (rc_partition ctx)"
  have law: "nand_reads sys (rc_fd ctx) ?P V" "at_block ?P V p w" using r by (auto simp: reads_from_def)
  have es: "0 < erase_size ?P" using r by (rule reads_from_pos)
  have u: "unread ctx = []" using c by (simp add: unread_def)
  from read_whole_blocks_moves [OF law(1) c law(2), of acc len] acc obtain r1 acc1 w1 q where
    b: "read_whole_blocks sys ctx len acc w = Some (r1, acc1, w1)" "nd_blk V w1 = nd_blk V w"
      "if r1 = 0 then acc1 @ flash V w1 q ?n = acc @ flash V w p ?n
         \<and> at_block ?P V q w1 \<and> length acc \<le> length acc1 \<and> int (length acc1) \<le> len
         \<and> len - int (length acc1) < erase_size ?P
       else int (length (acc @ flash V w p ?n)) < len" by auto
  consider "r1 \<noteq> 0" | "r1 = 0" "int (length acc1) = len" | "r1 = 0" "int (length acc1) < len"
    using b(3) by (metis order_le_less)
  then show ?thesis
  proof cases
    case 1
    then show ?thesis using b u by (auto intro: reads_all_short)
  next
    case 2
    then have "reads_from sys V ctx q w1" using r b(3) by (simp add: reads_from_def)
    then show ?thesis using 2 b u by (auto intro: reads_allI)
  next
    case 3
    then have q: "at_block ?P V q w1" "length acc \<le> length acc1" "acc1 @ flash V w1 q ?n = acc @ flash V w p ?n"
      using b(3) by auto
    from read_block_at [OF law(1) q(1)] show ?thesis
    proof (elim disjE exE conjE)
      fix w2 assume rb: "read_block sys ?P (rc_fd ctx) w1 = Some (- 1, [], w2)" "nd_blk V w2 = nd_blk V w1" "flash V w1 q ?n = []"
      then have "int (length (acc @ rest_of V ctx p w)) < len" using q(3) 3 u by simp
      then show ?thesis using b 3 rb c by (auto intro: reads_all_short)
    next
      fix q2 d w2 assume rb: "read_block sys ?P (rc_fd ctx) w1 = Some (0, d, w2)" "nd_blk V w2 = nd_blk V w1"
        "at_block ?P V q2 w2" "int (length d) = erase_size ?P" "flash V w1 q ?n = d @ flash V w2 q2 ?n"
      let ?ctx = "ctx\<lparr>rc_buffer := d, rc_consumed := 0\<rparr>"
      have "reads_from sys V ?ctx q2 w2" using law rb es by (simp add: reads_from_def)
      moreover have "acc1 @ rest_of V ?ctx q2 w2 = acc @ rest_of V ctx p w"
        using q(3) rb(5) es u by (simp add: unread_def)
      ultimately have "reads_all sys V ctx w len (acc @ rest_of V ctx p w) (read_data_loop sys len acc1 ?ctx w2)"
        using again [of ?ctx q2 w2 acc1] b(2) rb(2) q(2) 3 es by simp
      then show ?thesis using b 3 rb c by simp
    qed
  qed
qed

lemma read_data_loop_moves:
  assumes "len \<le> LONG_MAX"
  shows "reads_from sys V ctx p w \<Longrightarrow> int (length acc) \<le> len \<Longrightarrow>
    reads_all sys V ctx w len (acc @ rest_of V ctx p w) (read_data_loop sys len acc ctx w)"
proof (induction "read_measure len acc ctx" arbitrary: acc ctx p w rule: less_induct)
  case less
  let ?P = "rc_partition ctx"
  let ?all = "acc @ rest_of V ctx p w"
  have len32: "int32 len = len" using assms less.prems(2) by (intro int32_id) (simp_all add: LONG_MIN_def)
  note loop = read_data_loop.simps [of sys len acc ctx w, unfolded len32]
  show ?case
  proof (cases "int (length acc) < len")
    case False
    with less.prems show ?thesis unfolding loop by (auto intro: reads_allI)
  next
    case True
    obtain acc1 ctx1 where c: "copy_from_buffer ctx len acc = (acc1, ctx1)" by fastforce
    note m = copy_from_buffer_moves [OF less.prems(1) True c]
    have all: "acc1 @ rest_of V ctx1 p w = ?all" using m by (simp flip: append_assoc)
    have es: "0 < erase_size ?P" using less.prems(1) by (rule reads_from_pos)
    show ?thesis
    proof (cases "int (length acc1) = len")
      case full: True
      have "read_whole_blocks sys ctx1 len acc1 w = Some (0, acc1, w)"
        using full m es by (simp add: read_whole_blocks.simps [of sys ctx1 len acc1 w])
      then have "read_data_loop sys len acc ctx w = Some (len, acc1, ctx1, w)"
        using True full c by (simp add: loop)
      then show ?thesis using m full all by (auto intro: reads_allI)
    next
      case False
      with m have c1: "rc_consumed ctx1 = erase_size (rc_partition ctx1)" "int (length acc1) < len" by simp_all
      have "reads_all sys V ctx1 w len (acc1 @ rest_of V ctx1 p w) (read_data_loop sys len acc ctx w)"
        unfolding loop if_P [OF True] c prod.case
      proof (rule read_after_buffer [OF _ c1], goal_cases)
        case 1
        then show ?case using m by simp
      next
        case (2 acc' ctx' w' q)
        then have "read_measure len acc' ctx' < read_measure len acc ctx"
          using m c1 by (cases "length acc < length acc'") (auto simp: read_measure_def)
        from less.hyps [OF this 2(1,7)] show ?case using 2 reads_all_cong by metis
      qed
      then show ?thesis using m all reads_all_cong by metis
    qed
  qed
qed

section \<open>Writing is writing the good blocks\<close>

text \<open>
  What the driver documents for writing: an erased good block takes a block of data, \<open>MEMERASE\<close> erases
  a good block; closing the descriptor succeeds. Memory can be allocated.
\<close>

definition block_write_law :: "'w os \<Rightarrow> int \<Rightarrow> MtdPartition \<Rightarrow> 'w nand \<Rightarrow> bool" where
  "block_write_law sys fd part V \<longleftrightarrow>
     (\<forall>w i d. i < block_count part \<and> nd_good V i \<and> nd_pos V w = int i * erase_size part \<and>
          int (length d) = erase_size part \<and> nd_blk V w i = erased part \<longrightarrow>
        nd_blk V (snd (os_write sys fd d w)) = (nd_blk V w)(i := d)) \<and>
     (\<forall>w i. i < block_count part \<and> nd_good V i \<longrightarrow>
        0 \<le> fst (os_erase sys fd (int i * erase_size part) (erase_size part) w) \<and>
        nd_pos V (snd (os_erase sys fd (int i * erase_size part) (erase_size part) w)) = nd_pos V w \<and>
        nd_blk V (snd (os_erase sys fd (int i * erase_size part) (erase_size part) w)) = (nd_blk V w)(i := erased part)) \<and>
     (\<forall>w. fst (os_close sys fd w) = 0 \<and> nd_blk V (snd (os_close sys fd w)) = nd_blk V w)"

definition malloc_law :: "'w os \<Rightarrow> bool" where
  "malloc_law sys \<longleftrightarrow> (\<forall>n w. os_malloc sys n w \<noteq> None) \<and>
     (\<forall>n w b. os_malloc sys n w = Some b \<and> 0 \<le> n \<longrightarrow> int (length b) = n)"

definition nand_writes :: "'w os \<Rightarrow> int \<Rightarrow> MtdPartition \<Rightarrow> 'w nand \<Rightarrow> bool" where
  "nand_writes sys fd part V \<longleftrightarrow> nand_reads sys fd part V \<and> block_write_law sys fd part V \<and> malloc_law sys"

lemma nand_eraseD:
  assumes "nand_writes sys fd part V" "i < block_count part" "nd_good V i"
    and eq: "os_erase sys fd (int i * erase_size part) (erase_size part) w = (r, w')"
  shows "0 \<le> r" "nd_pos V w' = nd_pos V w" "nd_blk V w' = (nd_blk V w)(i := erased part)"
proof -
  have "block_write_law sys fd part V" using assms(1) by (simp add: nand_writes_def)
  from this [unfolded block_write_law_def, THEN conjunct2, THEN conjunct1, rule_format, OF conjI, OF assms(2,3), of w] eq
  show "0 \<le> r" "nd_pos V w' = nd_pos V w" "nd_blk V w' = (nd_blk V w)(i := erased part)" by simp_all
qed

lemma nand_writeD:
  assumes "nand_writes sys fd part V" "i < block_count part" "nd_good V i" "nd_pos V w = int i * erase_size part"
    "int (length d) = erase_size part" "nd_blk V w i = erased part"
  shows "nd_blk V (snd (os_write sys fd d w)) = (nd_blk V w)(i := d)"
proof -
  have "block_write_law sys fd part V" using assms(1) by (simp add: nand_writes_def)
  from this [unfolded block_write_law_def, THEN conjunct1, rule_format, of i w d] assms show ?thesis by blast
qed

lemma write_try_good:
  assumes law: "nand_writes sys fd part V" and i: "i < block_count part" "nd_good V i" and d: "int (length d) = erase_size part"
  shows "\<exists>w'. write_try sys fd d (int i * erase_size part) w = (True, w')
    \<and> nd_pos V w' = int (Suc i) * erase_size part \<and> nd_blk V w' = (nd_blk V w)(i := d)"
proof -
  let ?p = "int i * erase_size part"
  have rl: "nand_reads sys fd part V" using law by (simp add: nand_writes_def)
  obtain e w1 where e: "os_erase sys fd ?p (erase_size part) w = (e, w1)" by fastforce
  note e1 = nand_eraseD [OF law i e]
  obtain p2 w2 where s2: "os_lseek sys fd (SEEK_SET ?p) w1 = (p2, w2)" by fastforce
  note s2' = nand_seekD [OF rl i(1) s2]
  obtain n3 w3 where w3: "os_write sys fd d w2 = (n3, w3)" by fastforce
  have b3: "nd_blk V w3 = (nd_blk V w)(i := d)"
    using nand_writeD [OF law i s2'(2) d] w3 s2'(3) e1(3) by simp
  obtain p4 w4 where s4: "os_lseek sys fd (SEEK_SET ?p) w3 = (p4, w4)" by fastforce
  note s4' = nand_seekD [OF rl i(1) s4]
  obtain n5 v w5 where r5: "os_read sys fd (erase_size part) w4 = (n5, v, w5)" by (metis prod_cases3)
  note r5' = nand_readD [OF rl i(1) s4'(2) r5]
  have "write_try sys fd d ?p w = (True, w5)"
    using e e1(1) s2 s2'(1) w3 s4 s4'(1,3) r5 r5'(2,3) i(2) b3 by (simp add: write_try_def Let_def d)
  moreover have "nd_pos V w5 = int (Suc i) * erase_size part" using r5'(4) i(2) by (simp add: add.commute)
  moreover have "nd_blk V w5 = (nd_blk V w)(i := d)" using r5'(1) s4'(3) b3 by simp
  ultimately show ?thesis by blast
qed

text \<open>What changes in the context: blocks passed over are noted.\<close>

definition noted :: "MtdWriteContext \<Rightarrow> int list \<Rightarrow> MtdWriteContext \<Rightarrow> bool" where
  "noted ctx bs ctx' \<longleftrightarrow> (\<exists>a. ctx' = ctx\<lparr>bad_block_offsets := bad_block_offsets ctx @ bs, bad_block_alloc := a\<rparr>)"

lemma noted_Nil: "noted ctx [] ctx"
  unfolding noted_def by (rule exI [of _ "bad_block_alloc ctx"]) simp

lemma add_bad_block_offset_notes:
  assumes "malloc_law sys"
  shows "\<exists>ctx'. add_bad_block_offset sys ctx pos w = Some ctx' \<and> noted ctx [pos] ctx'"
proof -
  have m: "(os_malloc sys n w = None) = False" for n using assms by (simp add: malloc_law_def)
  moreover have "\<exists>a. ctx\<lparr>bad_block_alloc := bad_block_alloc ctx * 2 + 1, bad_block_offsets := bad_block_offsets ctx @ [pos]\<rparr> =
      ctx\<lparr>bad_block_offsets := bad_block_offsets ctx @ [pos], bad_block_alloc := a\<rparr>"
    by (rule exI [of _ "bad_block_alloc ctx * 2 + 1"]) simp
  moreover have "\<exists>a. ctx\<lparr>bad_block_offsets := bad_block_offsets ctx @ [pos]\<rparr> =
      ctx\<lparr>bad_block_offsets := bad_block_offsets ctx @ [pos], bad_block_alloc := a\<rparr>"
    by (rule exI [of _ "bad_block_alloc ctx"]) simp
  ultimately show ?thesis by (simp only: add_bad_block_offset_def noted_def Let_def m) simp
qed

lemma noted_trans: "noted ctx bs ctx' \<Longrightarrow> noted ctx' cs ctx'' \<Longrightarrow> noted ctx (bs @ cs) ctx''"
  unfolding noted_def by auto

lemma write_block_loop_at:
  assumes law: "nand_writes sys fd part V" and d: "int (length d) = erase_size part"
  shows "i \<le> block_count part \<Longrightarrow> wc_partition ctx = part \<Longrightarrow> wc_fd ctx = fd \<Longrightarrow>
    (case filter (nd_good V) [i..<block_count part] of
       [] \<Rightarrow> \<exists>ctx' w'. write_block_loop sys ctx d (int i * erase_size part) w = Some (- 1, ctx', w') \<and> nd_blk V w' = nd_blk V w
     | q # _ \<Rightarrow> \<exists>ctx' w'. write_block_loop sys ctx d (int i * erase_size part) w = Some (0, ctx', w')
         \<and> noted ctx (map (\<lambda>k. int k * erase_size part) [i..<q]) ctx'
         \<and> nd_pos V w' = int (Suc q) * erase_size part \<and> nd_blk V w' = (nd_blk V w)(q := d))"
proof (induction "block_count part - i" arbitrary: i ctx)
  case 0
  have rl: "nand_reads sys fd part V" using law by (simp add: nand_writes_def)
  note ok = nand_readsD(1) [OF rl]
  from 0 have i: "i = block_count part" by simp
  then have "part_size part < int i * erase_size part + erase_size part"
    "int i * erase_size part + erase_size part \<le> LONG_MAX"
    using ok by (auto simp: partition_ok_def)
  then show ?case
    using i 0 by (simp add: write_block_loop.simps [of sys ctx d] partition_int32 [OF ok] Let_def)
next
  case (Suc n)
  have rl: "nand_reads sys fd part V" and ml: "malloc_law sys" using law by (simp_all add: nand_writes_def)
  note ok = nand_readsD(1) [OF rl]
  from Suc.hyps(2) have i: "i < block_count part" by simp
  then have fits: "int i * erase_size part + erase_size part \<le> part_size part" by (simp only: block_fits [OF ok])
  then have long: "int i * erase_size part + erase_size part \<le> LONG_MAX" using ok by (auto simp: partition_ok_def)
  have up: "[i..<block_count part] = i # [Suc i..<block_count part]" using i by (rule upt_conv_Cons)
  have pos: "int32 (int i * erase_size part + erase_size part) = int (Suc i) * erase_size part"
  proof (subst int32_id)
    show "LONG_MIN \<le> int i * erase_size part + erase_size part"
      using block_before(1) [OF ok i] ok unfolding partition_ok_def LONG_MIN_def by linarith
  qed (use long in \<open>simp_all add: distrib_right\<close>)
  note loop = write_block_loop.simps [of sys ctx d "int i * erase_size part" w]
  note bad = nand_readsD(5) [OF rl i, of w]
  show ?case
  proof (cases "nd_good V i")
    case True
    from write_try_good [OF law i True d] obtain w' where
      "write_try sys fd d (int i * erase_size part) w = (True, w')"
      "nd_pos V w' = int (Suc i) * erase_size part" "nd_blk V w' = (nd_blk V w)(i := d)" by blast
    then show ?thesis using True up fits long bad Suc.prems noted_Nil
      by (simp add: loop partition_int32 [OF ok] Let_def numeral_2_eq_2)
  next
    case False
    from add_bad_block_offset_notes [OF ml] obtain ctx1 where
      c1: "add_bad_block_offset sys ctx (int i * erase_size part) w = Some ctx1" "noted ctx [int i * erase_size part] ctx1" by blast
    have eq: "write_block_loop sys ctx d (int i * erase_size part) w =
        write_block_loop sys ctx1 d (int (Suc i) * erase_size part) w"
      using c1(1) fits long bad False Suc.prems pos by (simp add: loop partition_int32 [OF ok] Let_def)
    have ctx1: "wc_partition ctx1 = part" "wc_fd ctx1 = fd" using c1(2) Suc.prems by (auto simp: noted_def)
    have "n = block_count part - Suc i" "Suc i \<le> block_count part" using Suc.hyps(2) by auto
    note IH = Suc.hyps(1) [OF this ctx1, folded eq]
    show ?thesis
    proof (cases "filter (nd_good V) [Suc i..<block_count part]")
      case Nil
      then show ?thesis using IH False up by simp
    next
      case (Cons q qs)
      then have "i < q" using filter_upt_Cons [OF Cons] by simp
      then have "[i..<q] = i # [Suc i..<q]" by (rule upt_conv_Cons)
      with IH Cons False up c1(2) show ?thesis by (auto dest: noted_trans)
    qed
  qed
qed


text \<open>
  A descriptor for writing at block \<open>p\<close>, with the buffer's contents; what has been written; and the
  number of bytes that can still be written.
\<close>

definition writes_to :: "'w os \<Rightarrow> 'w nand \<Rightarrow> MtdWriteContext \<Rightarrow> nat \<Rightarrow> 'w \<Rightarrow> bool" where
  "writes_to sys V ctx p w \<longleftrightarrow> nand_writes sys (wc_fd ctx) (wc_partition ctx) V \<and> at_block (wc_partition ctx) V p w
     \<and> 0 \<le> wc_stored ctx \<and> wc_stored ctx \<le> erase_size (wc_partition ctx)
     \<and> int (length (wc_buffer ctx)) = erase_size (wc_partition ctx)"

definition written :: "'w nand \<Rightarrow> MtdWriteContext \<Rightarrow> nat \<Rightarrow> 'w \<Rightarrow> byte list" where
  "written V ctx p w = flash V w 0 p @ take (nat (wc_stored ctx)) (wc_buffer ctx)"

definition space :: "'w nand \<Rightarrow> MtdWriteContext \<Rightarrow> nat \<Rightarrow> int" where
  "space V ctx p = erase_size (wc_partition ctx) * int (length (filter (nd_good V) [p..<block_count (wc_partition ctx)]))
     - wc_stored ctx"

lemma writes_to_pos: "writes_to sys V ctx p w \<Longrightarrow> 0 < erase_size (wc_partition ctx)"
  using nand_readsD(1) by (fastforce simp: writes_to_def nand_writes_def partition_ok_def)

lemma upt_split: "i \<le> j \<Longrightarrow> j \<le> k \<Longrightarrow> [i..<k] = [i..<j] @ [j..<k]"
  by (metis le_add_diff_inverse upt_add_eq_append)

lemma flash_write:
  assumes q: "p \<le> q" "nd_good V q" "\<forall>k. p \<le> k \<and> k < q \<longrightarrow> \<not> nd_good V k" and b: "nd_blk V w' = (nd_blk V w)(q := d)"
  shows "flash V w' 0 (Suc q) = flash V w 0 p @ d"
proof -
  have u: "[0..<Suc q] = [0..<p] @ [p..<q] @ [q]" using q(1) by (simp add: upt_split [of 0 p q])
  have n: "filter (nd_good V) [p..<q] = []" using q(3) by (auto simp: filter_empty_conv)
  have m: "map ((nd_blk V w)(q := d)) (filter (nd_good V) [0..<p]) = map (nd_blk V w) (filter (nd_good V) [0..<p])"
    using q(1) by (intro map_cong) auto
  show ?thesis using q(2) unfolding flash_def b u by (simp add: m n)
qed

lemma filter_upt_first:
  assumes "filter P [i..<n] = q # qs" "i \<le> k" "k < q"
  shows "\<not> P k"
proof
  assume "P k"
  note q = filter_upt_Cons [OF assms(1)]
  have "[i..<n] = [i..<q] @ [q..<n]" using q by (intro upt_split) auto
  moreover have "filter P [q..<n] = q # qs" using q by (simp add: upt_conv_Cons)
  ultimately have "filter P [i..<q] = []" using assms(1) by simp
  then show False using \<open>P k\<close> assms(2,3) by (auto simp: filter_empty_conv)
qed

text \<open>Writing one block \<open>d\<close>: it is appended to what the flash holds, or no good block is left.\<close>

lemma write_block_at:
  assumes w: "writes_to sys V ctx p w" and d: "int (length d) = erase_size (wc_partition ctx)"
  shows "(\<exists>ctx' w'. write_block sys ctx d w = Some (- 1, ctx', w') \<and> space V ctx p = - wc_stored ctx) \<or>
    (\<exists>q bs ctx' w'. write_block sys ctx d w = Some (0, ctx', w') \<and> noted ctx bs ctx' \<and>
       writes_to sys V ctx' q w' \<and> flash V w' 0 q = flash V w 0 p @ d \<and>
       space V ctx p = erase_size (wc_partition ctx) + space V ctx' q \<and>
       bs = map (\<lambda>k. int k * erase_size (wc_partition ctx)) [p..<q - 1] \<and> p < q)"
proof -
  let ?P = "wc_partition ctx" and ?fd = "wc_fd ctx"
  let ?n = "block_count ?P"
  have law: "nand_writes sys ?fd ?P V" and at: "at_block ?P V p w" using w by (auto simp: writes_to_def)
  then have rl: "nand_reads sys ?fd ?P V" "malloc_law sys" by (auto simp: nand_writes_def)
  have pos: "nd_pos V w = int p * erase_size ?P" "p \<le> ?n" using at by (auto simp: at_block_def)
  have "0 \<le> int p * erase_size ?P" using writes_to_pos [OF w] by simp
  then have wb: "write_block sys ctx d w = write_block_loop sys ctx d (int p * erase_size ?P) w"
    using nand_readsD(2) [OF rl(1), of w] rl(2) [unfolded malloc_law_def, THEN conjunct1, rule_format, of "erase_size ?P" w] pos
    by (auto simp: write_block_def)
  note loop = write_block_loop_at [OF law d pos(2) refl refl, of w, folded wb]
  show ?thesis
  proof (cases "filter (nd_good V) [p..<?n]")
    case Nil
    with loop show ?thesis by (auto simp: space_def)
  next
    case (Cons q qs)
    with loop obtain ctx' w' where r: "write_block sys ctx d w = Some (0, ctx', w')"
      "noted ctx (map (\<lambda>k. int k * erase_size ?P) [p..<q]) ctx'"
      "nd_pos V w' = int (Suc q) * erase_size ?P" "nd_blk V w' = (nd_blk V w)(q := d)" by auto
    note q = filter_upt_Cons [OF Cons] and first = filter_upt_first [OF Cons]
    have c: "wc_partition ctx' = ?P" "wc_fd ctx' = ?fd" "wc_stored ctx' = wc_stored ctx" "wc_buffer ctx' = wc_buffer ctx"
      using r(2) by (auto simp: noted_def)
    have "writes_to sys V ctx' (Suc q) w'" using w q r(3) by (simp add: writes_to_def c at_block_def)
    moreover have "flash V w' 0 (Suc q) = flash V w 0 p @ d" using q first r(4) by (intro flash_write) auto
    moreover have "space V ctx p = erase_size ?P + space V ctx' (Suc q)"
      using q Cons by (simp add: space_def c distrib_left)
    ultimately show ?thesis using r q by (intro disjI2 exI [of _ "Suc q"]) auto
  qed
qed

text \<open>
  From one state of writing to another: the data still to be written and what has been written are
  together the same, and so is the space they leave.
\<close>

definition moved :: "'w os \<Rightarrow> 'w nand \<Rightarrow> MtdWriteContext \<Rightarrow> nat \<Rightarrow> 'w \<Rightarrow> byte list
    \<Rightarrow> MtdWriteContext \<Rightarrow> nat \<Rightarrow> 'w \<Rightarrow> byte list \<Rightarrow> bool" where
  "moved sys V ctx p w data ctx' q w' data' \<longleftrightarrow> writes_to sys V ctx' q w' \<and> p \<le> q \<and>
     written V ctx' q w' @ data' = written V ctx p w @ data \<and>
     space V ctx' q - int (length data') = space V ctx p - int (length data) \<and>
     wc_partition ctx' = wc_partition ctx \<and> wc_fd ctx' = wc_fd ctx"

lemma moved_refl: "writes_to sys V ctx p w \<Longrightarrow> moved sys V ctx p w data ctx p w data"
  by (simp add: moved_def)

lemma moved_trans:
  "moved sys V ctx p w d ctx1 p1 w1 d1 \<Longrightarrow> moved sys V ctx1 p1 w1 d1 ctx2 p2 w2 d2 \<Longrightarrow> moved sys V ctx p w d ctx2 p2 w2 d2"
  by (simp add: moved_def)

lemma moved_space: "moved sys V ctx p w d ctx1 p1 w1 d1 \<Longrightarrow> space V ctx1 p1 < int (length d1) \<longleftrightarrow> space V ctx p < int (length d)"
  unfolding moved_def by linarith

lemma coalesce_moves:
  assumes w: "writes_to sys V ctx p w" and "data \<noteq> []" and s: "wc_stored ctx < erase_size (wc_partition ctx)"
    and c: "coalesce ctx data = (data', ctx')"
  shows "moved sys V ctx p w data ctx' p w data' \<and>
    (length data' < length data \<or> ctx' = ctx \<and> data' = data \<and> wc_stored ctx = 0 \<and> erase_size (wc_partition ctx) \<le> int (length data))"
proof (cases "0 < wc_stored ctx \<or> int (length data) < erase_size (wc_partition ctx)")
  case False
  then show ?thesis using w c by (auto simp: coalesce_def moved_refl writes_to_def)
next
  case True
  let ?es = "erase_size (wc_partition ctx)" and ?s = "wc_stored ctx" and ?b = "wc_buffer ctx"
  define m where "m = (if int (length data) < ?es - ?s then int (length data) else ?es - ?s)"
  have m: "0 < m" "m \<le> int (length data)" "?s + m \<le> ?es"
    using s assms(2) by (auto simp: m_def)
  have b: "0 \<le> ?s" "int (length ?b) = ?es" using w by (auto simp: writes_to_def)
  from c True have eq: "data' = drop (nat m) data"
    "ctx' = ctx\<lparr>wc_buffer := put_buffer ?b ?s (take (nat m) data), wc_stored := ?s + m\<rparr>"
    by (auto simp: coalesce_def Let_def m_def)
  have len: "int (length (put_buffer ?b ?s (take (nat m) data))) = ?es"
    using m b by (simp add: put_buffer_def)
  have "take (nat (?s + m)) (put_buffer ?b ?s (take (nat m) data)) = take (nat ?s) ?b @ take (nat m) data"
    using m b by (simp add: put_buffer_def nat_add_distrib)
  then have "written V ctx' p w @ data' = written V ctx p w @ data"
    by (simp add: written_def eq)
  then show ?thesis using w m b len by (auto simp: eq writes_to_def space_def moved_def)
qed

text \<open>The step that writes a full buffer.\<close>

lemma flush_full_moves:
  assumes w: "writes_to sys V ctx p w"
  shows "(\<exists>ctx' w'. flush_full sys ctx w = Some (- 1, ctx', w') \<and> space V ctx p < int (length data)) \<or>
    (\<exists>q ctx' w'. flush_full sys ctx w = Some (0, ctx', w') \<and> moved sys V ctx p w data ctx' q w' data \<and>
       wc_stored ctx' < erase_size (wc_partition ctx) \<and> (wc_stored ctx = 0 \<longrightarrow> wc_stored ctx' = 0))"
proof (cases "wc_stored ctx = erase_size (wc_partition ctx)")
  case False
  then have "flush_full sys ctx w = Some (0, ctx, w)" "wc_stored ctx < erase_size (wc_partition ctx)"
    using w by (auto simp: flush_full_def writes_to_def)
  then show ?thesis using moved_refl [OF w] by blast
next
  case True
  have b: "int (length (wc_buffer ctx)) = erase_size (wc_partition ctx)" using w by (simp add: writes_to_def)
  from write_block_at [OF w b] show ?thesis
  proof (elim disjE exE conjE)
    fix ctx' w' assume "write_block sys ctx (wc_buffer ctx) w = Some (- 1, ctx', w')" "space V ctx p = - wc_stored ctx"
    then show ?thesis using True writes_to_pos [OF w] by (auto simp: flush_full_def)
  next
    fix q bs ctx1 w' assume r: "write_block sys ctx (wc_buffer ctx) w = Some (0, ctx1, w')" "noted ctx bs ctx1"
      "writes_to sys V ctx1 q w'" "flash V w' 0 q = flash V w 0 p @ wc_buffer ctx"
      "space V ctx p = erase_size (wc_partition ctx) + space V ctx1 q" "p < q"
    let ?ctx = "ctx1\<lparr>wc_stored := 0\<rparr>"
    have c: "wc_partition ctx1 = wc_partition ctx" "wc_fd ctx1 = wc_fd ctx" "wc_stored ctx1 = wc_stored ctx"
      using r(2) by (auto simp: noted_def)
    have "flush_full sys ctx w = Some (0, ?ctx, w')" using True r(1) by (simp add: flush_full_def)
    moreover have "writes_to sys V ?ctx q w'" using r(3) writes_to_pos [OF w] by (simp add: writes_to_def c)
    moreover have "written V ?ctx q w' = written V ctx p w" using r(4) b True by (simp add: written_def)
    moreover have "space V ?ctx q = space V ctx p" using r(5) True by (simp add: space_def c)
    ultimately show ?thesis using c True r(6) writes_to_pos [OF w]
      by (intro disjI2 exI [of _ q] exI [of _ ?ctx] exI [of _ w']) (simp add: moved_def)
  qed
qed

lemma write_whole_blocks_moves:
  "writes_to sys V ctx p w \<Longrightarrow>
   (\<exists>data' ctx' w'. write_whole_blocks sys ctx data w = Some (- 1, data', ctx', w') \<and> space V ctx p < int (length data)) \<or>
   (\<exists>q data' ctx' w'. write_whole_blocks sys ctx data w = Some (0, data', ctx', w') \<and> moved sys V ctx p w data ctx' q w' data' \<and>
      wc_stored ctx' = wc_stored ctx \<and>
      length data' \<le> length data \<and> (wc_stored ctx = 0 \<longrightarrow> int (length data') < erase_size (wc_partition ctx)))"
proof (induction "length data" arbitrary: data ctx p w rule: less_induct)
  case less
  note w = less.prems
  let ?es = "erase_size (wc_partition ctx)"
  have es: "0 < ?es" using w by (rule writes_to_pos)
  note loop = write_whole_blocks.simps [of sys ctx data w]
  show ?case
  proof (cases "wc_stored ctx = 0 \<and> ?es \<le> int (length data)")
    case False
    then have "write_whole_blocks sys ctx data w = Some (0, data, ctx, w)" unfolding loop by (auto simp: Let_def)
    then show ?thesis using moved_refl [OF w, of data] False by fastforce
  next
    case True
    have d: "int (length (take (nat ?es) data)) = ?es" using True es by (auto simp: min_def)
    from write_block_at [OF w d] show ?thesis
    proof (elim disjE exE conjE)
      fix ctx' w' assume "write_block sys ctx (take (nat ?es) data) w = Some (- 1, ctx', w')" "space V ctx p = - wc_stored ctx"
      then show ?thesis using True es by (auto simp: loop Let_def)
    next
      fix q bs ctx1 w' assume r: "write_block sys ctx (take (nat ?es) data) w = Some (0, ctx1, w')" "noted ctx bs ctx1"
        "writes_to sys V ctx1 q w'" "flash V w' 0 q = flash V w 0 p @ take (nat ?es) data"
        "space V ctx p = ?es + space V ctx1 q" "p < q"
      let ?rest = "drop (nat ?es) data"
      have c: "wc_partition ctx1 = wc_partition ctx" "wc_fd ctx1 = wc_fd ctx" "wc_stored ctx1 = wc_stored ctx"
        using r(2) by (auto simp: noted_def)
      have eq: "write_whole_blocks sys ctx data w = write_whole_blocks sys ctx1 ?rest w'"
        using True r(1) by (simp add: loop Let_def)
      have shorter: "length ?rest < length data" using True es by (cases data) auto
      have "int (length ?rest) = int (length data) - ?es" using True es by auto
      then have m: "moved sys V ctx p w data ctx1 q w' ?rest"
        using r True c by (simp add: moved_def written_def)
      from less.hyps [OF shorter r(3)] show ?thesis
        unfolding eq moved_space [OF m] c using moved_trans [OF m] shorter by (meson less_imp_le order_trans)
    qed
  qed
qed

lemma write_data_loop_moves:
  "writes_to sys V ctx p w \<Longrightarrow> wc_stored ctx < erase_size (wc_partition ctx) \<Longrightarrow>
   (\<exists>ctx' w'. write_data_loop sys len data ctx w = Some (- 1, ctx', w') \<and> space V ctx p < int (length data)) \<or>
   (\<exists>q ctx' w'. write_data_loop sys len data ctx w = Some (len, ctx', w') \<and> moved sys V ctx p w data ctx' q w' [] \<and>
      wc_stored ctx' < erase_size (wc_partition ctx'))"
proof (induction "length data" arbitrary: data ctx p w rule: less_induct)
  case less
  note w = less.prems(1)
  note loop = write_data_loop.simps [of sys len data ctx w]
  show ?case
  proof (cases "data = []")
    case True
    then have "write_data_loop sys len data ctx w = Some (len, ctx, w)" unfolding loop by simp
    then show ?thesis using less.prems moved_refl [OF w, of data] True by blast
  next
    case False
    obtain data1 ctx1 where c: "coalesce ctx data = (data1, ctx1)" by fastforce
    note c1 = coalesce_moves [OF w False less.prems(2) c]
    then have m1: "moved sys V ctx p w data ctx1 p w data1" and w1: "writes_to sys V ctx1 p w" by (simp_all add: moved_def)
    from flush_full_moves [OF w1, of data1] show ?thesis
    proof (elim disjE exE conjE)
      fix ctx2 w2 assume "flush_full sys ctx1 w = Some (- 1, ctx2, w2)" "space V ctx1 p < int (length data1)"
      then show ?thesis using False c moved_space [OF m1] by (simp add: loop)
    next
      fix q ctx2 w2 assume f: "flush_full sys ctx1 w = Some (0, ctx2, w2)" "moved sys V ctx1 p w data1 ctx2 q w2 data1"
        "wc_stored ctx2 < erase_size (wc_partition ctx1)" "wc_stored ctx1 = 0 \<longrightarrow> wc_stored ctx2 = 0"
      note m2 = moved_trans [OF m1 f(2)]
      then have w2: "writes_to sys V ctx2 q w2" by (simp add: moved_def)
      from write_whole_blocks_moves [OF w2, of data1] show ?thesis
      proof (elim disjE exE conjE)
        fix d ctx3 w3 assume "write_whole_blocks sys ctx2 data1 w2 = Some (- 1, d, ctx3, w3)" "space V ctx2 q < int (length data1)"
        then show ?thesis using False c f(1) moved_space [OF m2] by (simp add: loop)
      next
        fix q3 data3 ctx3 w3 assume b: "write_whole_blocks sys ctx2 data1 w2 = Some (0, data3, ctx3, w3)"
          "moved sys V ctx2 q w2 data1 ctx3 q3 w3 data3" "wc_stored ctx3 = wc_stored ctx2" "length data3 \<le> length data1"
          "wc_stored ctx2 = 0 \<longrightarrow> int (length data3) < erase_size (wc_partition ctx2)"
        note m3 = moved_trans [OF m2 b(2)]
        have eq: "write_data_loop sys len data ctx w = write_data_loop sys len data3 ctx3 w3"
          using b(1) f(1) False c by (simp add: loop)
        have part: "wc_partition ctx2 = wc_partition ctx" "wc_partition ctx1 = wc_partition ctx" "wc_partition ctx3 = wc_partition ctx"
          using m1 m2 m3 by (simp_all add: moved_def)
        have shorter: "length data3 < length data" using b(4,5) c1 f(4) part by auto
        have st: "writes_to sys V ctx3 q3 w3" "wc_stored ctx3 < erase_size (wc_partition ctx3)"
          using m3 b(3) f(3) part by (simp_all add: moved_def)
        from less.hyps [OF shorter st] show ?thesis
          unfolding eq moved_space [OF m3] using moved_trans [OF m3] by blast
      qed
    qed
  qed
qed


text \<open>The blocks left from block \<open>q\<close> on, as \<open>mtd_erase_blocks\<close> counts them.\<close>

lemma blocks_left:
  assumes "partition_ok part" "q \<le> block_count part"
  shows "int32 (((part_size part - int q * erase_size part) mod 2 ^ 32) div erase_size part) = int (block_count part - q)"
proof -
  let ?d = "part_size part - int q * erase_size part"
  have es: "0 < erase_size part" "part_size part = int (block_count part) * erase_size part"
    "part_size part + erase_size part \<le> 2147483647"
    using assms(1) by (auto simp: partition_ok_def LONG_MAX_def)
  have d: "?d = int (block_count part - q) * erase_size part"
    using assms(2) by (simp add: es(2) of_nat_diff left_diff_distrib)
  have "0 \<le> ?d" unfolding d using es(1) by simp
  moreover have "0 \<le> int q * erase_size part" using es(1) by simp
  moreover have "(2 :: int) ^ 32 = 4294967296" by simp
  ultimately have "?d mod 2 ^ 32 = ?d" using es(1,3) by (intro mod_pos_pos_trivial) linarith+
  then have q: "(?d mod 2 ^ 32) div erase_size part = int (block_count part - q)" using d es(1) by simp
  have "int (block_count part - q) * 1 \<le> int (block_count part) * erase_size part"
    using es(1) by (intro mult_mono) auto
  then show ?thesis unfolding q using es by (intro int32_id) (simp_all add: LONG_MAX_def LONG_MIN_def)
qed

text \<open>Finishing with the descriptor at block \<open>q\<close> and the buffer flushed.\<close>

lemma mtd_write_close_at:
  assumes flushed: "pad_flush sys ctx w = Some (0, ctx1, w1)"
    and w1: "writes_to sys V ctx1 q w1" and same: "wc_fd ctx1 = wc_fd ctx" "wc_partition ctx1 = wc_partition ctx"
  shows "\<exists>w'. mtd_write_close sys ctx w = Some (0, w') \<and> nd_blk V w' = nd_blk V w1"
proof -
  let ?P = "wc_partition ctx"
  have rl: "nand_reads sys (wc_fd ctx) ?P V" "block_write_law sys (wc_fd ctx) ?P V"
    using w1 same by (auto simp: writes_to_def nand_writes_def)
  note ok = nand_readsD(1) [OF rl(1)]
  have es: "0 < erase_size ?P" using ok by (simp add: partition_ok_def)
  have pos: "nd_pos V w1 = int q * erase_size ?P" "q \<le> block_count ?P" "0 \<le> int q * erase_size ?P"
    using w1 es same by (auto simp: writes_to_def at_block_def)
  have "mtd_erase_blocks sys ctx 0 w = Some (int q * erase_size ?P, ctx1, w1)"
    using flushed blocks_left [OF ok pos(2)] nand_readsD(2) [OF rl(1), of w1] pos es same
    by (simp add: mtd_erase_blocks_def Let_def)
  then show ?thesis using rl(2) pos same
    by (simp add: mtd_write_close_def block_write_law_def split_beta)
qed

text \<open>Finishing: the buffer is padded with zeros and written.\<close>

lemma mtd_write_close_flushes:
  assumes w: "writes_to sys V ctx p w" and st: "wc_stored ctx < erase_size (wc_partition ctx)" and room: "0 \<le> space V ctx p"
  shows "\<exists>q w' k. mtd_write_close sys ctx w = Some (0, w') \<and> q \<le> block_count (wc_partition ctx) \<and>
    flash V w' 0 q = written V ctx p w @ replicate k 0"
proof (cases "0 < wc_stored ctx")
  case False
  then have "wc_stored ctx = 0" using w by (simp add: writes_to_def)
  moreover have "pad_flush sys ctx w = Some (0, ctx, w)" using False by (simp add: pad_flush_def)
  from mtd_write_close_at [OF this w refl refl] obtain w' where
    c: "mtd_write_close sys ctx w = Some (0, w')" "nd_blk V w' = nd_blk V w" by auto
  ultimately have "mtd_write_close sys ctx w = Some (0, w')" "flash V w' 0 p = written V ctx p w @ replicate 0 0"
    by (simp_all add: written_def flash_cong [OF c(2)])
  moreover have "p \<le> block_count (wc_partition ctx)" using w by (simp add: writes_to_def at_block_def)
  ultimately show ?thesis by blast
next
  case True
  let ?P = "wc_partition ctx" and ?s = "wc_stored ctx"
  let ?pad = "replicate (nat (erase_size ?P - ?s)) (0 :: byte)"
  define buf where "buf = put_buffer (wc_buffer ctx) ?s ?pad"
  have b: "0 \<le> ?s" "int (length (wc_buffer ctx)) = erase_size ?P" using w by (auto simp: writes_to_def)
  have buf: "buf = take (nat ?s) (wc_buffer ctx) @ ?pad" "int (length buf) = erase_size ?P"
    using b st by (simp_all add: buf_def put_buffer_def)
  let ?ctx = "ctx\<lparr>wc_buffer := buf\<rparr>"
  have "writes_to sys V ?ctx p w" using w buf(2) by (simp add: writes_to_def)
  from write_block_at [OF this, of buf] buf(2) True room obtain q bs ctx1 w1 where
    r: "write_block sys ?ctx buf w = Some (0, ctx1, w1)" "noted ?ctx bs ctx1" "writes_to sys V ctx1 q w1"
      "flash V w1 0 q = flash V w 0 p @ buf"
    by (auto simp: space_def)
  let ?ctx1 = "ctx1\<lparr>wc_stored := 0\<rparr>"
  have same: "wc_fd ?ctx1 = wc_fd ctx" "wc_partition ?ctx1 = ?P" using r(2) by (auto simp: noted_def)
  have w1: "writes_to sys V ?ctx1 q w1" using r(3) writes_to_pos [OF w] same by (simp add: writes_to_def)
  have "pad_flush sys ctx w = Some (0, ?ctx1, w1)" using True r(1) by (simp add: pad_flush_def Let_def flip: buf_def)
  from mtd_write_close_at [OF this w1 same] obtain w' where
    c: "mtd_write_close sys ctx w = Some (0, w')" "nd_blk V w' = nd_blk V w1" by blast
  have "flash V w' 0 q = written V ctx p w @ ?pad" using r(4) buf(1) by (simp add: written_def flash_cong [OF c(2)])
  moreover have "q \<le> block_count ?P" using r(3) same by (simp add: writes_to_def at_block_def)
  ultimately show ?thesis using c(1) by blast
qed


section \<open>Contracts\<close>

text \<open>
  A source of bytes, as the loaders of the recovery use one: in state \<open>c\<close> a read of \<open>n\<close> bytes returns
  the next \<open>n\<close> bytes of what is left, or something other than \<open>n\<close> when there are fewer. \<open>e\<close> is the
  environment the read runs in, \<open>v\<close> the view of it that says what is left.
\<close>

locale byte_source =
  fixes read :: "'e \<Rightarrow> 'c \<Rightarrow> int \<Rightarrow> 'w \<Rightarrow> (int \<times> byte list \<times> 'c \<times> 'w) option"
    and ready :: "'e \<Rightarrow> 'v \<Rightarrow> 'c \<Rightarrow> 'w \<Rightarrow> bool"
    and left :: "'e \<Rightarrow> 'v \<Rightarrow> 'c \<Rightarrow> 'w \<Rightarrow> byte list"
  assumes read_full: "ready e v c w \<Longrightarrow> 0 \<le> n \<Longrightarrow> n \<le> LONG_MAX \<Longrightarrow> n \<le> int (length (left e v c w)) \<Longrightarrow>
      \<exists>c' w'. read e c n w = Some (n, take (nat n) (left e v c w), c', w') \<and> ready e v c' w' \<and>
        left e v c' w' = drop (nat n) (left e v c w)"
    and read_short: "ready e v c w \<Longrightarrow> n \<le> LONG_MAX \<Longrightarrow> int (length (left e v c w)) < n \<Longrightarrow>
      \<exists>r d c' w'. read e c n w = Some (r, d, c', w') \<and> r \<noteq> n"
begin

text \<open>Reading twice is reading once.\<close>

lemma read_read:
  assumes "ready e v c w" "0 \<le> n" "0 \<le> m" "n + m \<le> LONG_MAX" "n + m \<le> int (length (left e v c w))"
    and "read e c n w = Some (n', d, c', w')" "read e c' m w' = Some (m', d', c'', w'')"
  shows "n' = n \<and> m' = m \<and> d @ d' = take (nat (n + m)) (left e v c w)"
proof -
  from read_full [OF assms(1,2)] assms(3-6) have 1: "n' = n" "d = take (nat n) (left e v c w)" "ready e v c' w'"
    "left e v c' w' = drop (nat n) (left e v c w)" by auto
  moreover from read_full [OF 1(3) assms(3)] 1(4) assms(2,4,5,7) have "m' = m" "d' = take (nat m) (left e v c' w')" by auto
  ultimately show ?thesis using assms(2,3) by (simp add: take_add nat_add_distrib)
qed

end

definition mtd_ready :: "'w os \<Rightarrow> 'w nand \<Rightarrow> MtdReadContext \<Rightarrow> 'w \<Rightarrow> bool" where
  "mtd_ready sys V ctx w \<longleftrightarrow> (\<exists>p. reads_from sys V ctx p w)"

definition mtd_left :: "'w os \<Rightarrow> 'w nand \<Rightarrow> MtdReadContext \<Rightarrow> 'w \<Rightarrow> byte list" where
  "mtd_left sys V ctx w = rest_of V ctx (nat (nd_pos V w div erase_size (rc_partition ctx))) w"

lemma mtd_left_at: "reads_from sys V ctx p w \<Longrightarrow> mtd_left sys V ctx w = rest_of V ctx p w"
  using reads_from_pos [of sys V ctx p w] by (simp add: mtd_left_def reads_from_def at_block_def)

interpretation mtd_source: byte_source mtd_read_data mtd_ready mtd_left
proof (unfold_locales, goal_cases)
  case (1 sys V ctx w n)
  then obtain p where p: "reads_from sys V ctx p w" by (auto simp: mtd_ready_def)
  note left = mtd_left_at [OF p]
  from read_data_loop_moves [OF 1(3) p, of "[]"] 1(2,4) left obtain acc' ctx' w' q where
    r: "mtd_read_data sys ctx n w = Some (n, acc', ctx', w')" "reads_from sys V ctx' q w'"
      "acc' @ rest_of V ctx' q w' = mtd_left sys V ctx w" "int (length acc') = n"
    by (auto simp: reads_all_def mtd_read_data_def split: if_splits)
  then have "acc' = take (nat n) (mtd_left sys V ctx w)" "rest_of V ctx' q w' = drop (nat n) (mtd_left sys V ctx w)"
    using r(3) [symmetric] by auto
  then show ?case using r(1,2) mtd_left_at [OF r(2)] by (auto simp: mtd_ready_def)
next
  case (2 sys V ctx w n)
  then obtain p where p: "reads_from sys V ctx p w" by (auto simp: mtd_ready_def)
  from read_data_loop_moves [OF 2(2) p, of "[]"] 2(3) mtd_left_at [OF p] show ?case
    by (auto simp: reads_all_def mtd_read_data_def split: if_splits dest!: arg_cong [where f = length])
qed

section \<open>Written data is read back\<close>

text \<open>
  The device of a partition: every descriptor \<open>open\<close> returns behaves as above, starts at the beginning,
  and all descriptors see the same blocks.
\<close>

definition flash_device ::
  "'w os \<Rightarrow> MtdPartition \<Rightarrow> (nat \<Rightarrow> bool) \<Rightarrow> (int \<Rightarrow> 'w \<Rightarrow> int) \<Rightarrow> ('w \<Rightarrow> nat \<Rightarrow> byte list) \<Rightarrow> bool" where
  "flash_device sys part good pos blk \<longleftrightarrow>
     (\<forall>m w. case os_open sys (dev_name part) m w of (fd, w') \<Rightarrow>
        0 \<le> fd \<and> pos fd w' = 0 \<and> blk w' = blk w \<and>
        nand_writes sys fd part \<lparr>nd_good = good, nd_pos = pos fd, nd_blk = blk\<rparr>)"

text \<open>Successive calls of \<open>mtd_write_data\<close>, each of which must report its whole length.\<close>

fun write_pieces :: "'w os \<Rightarrow> MtdWriteContext \<Rightarrow> byte list list \<Rightarrow> 'w \<Rightarrow> (MtdWriteContext \<times> 'w) option" where
  "write_pieces sys ctx [] w = Some (ctx, w)"
| "write_pieces sys ctx (d # ds) w =
     Option.bind (mtd_write_data sys ctx d w) (\<lambda>(n, ctx, w).
     if n = int (length d) then write_pieces sys ctx ds w else None)"

definition good_bytes :: "MtdPartition \<Rightarrow> (nat \<Rightarrow> bool) \<Rightarrow> int" where
  "good_bytes part good = erase_size part * int (length (filter good [0..<block_count part]))"

lemma write_pieces_written:
  "writes_to sys V ctx p w \<Longrightarrow> wc_stored ctx < erase_size (wc_partition ctx) \<Longrightarrow>
   int (length (concat ds)) \<le> space V ctx p \<Longrightarrow> int (length (concat ds)) \<le> LONG_MAX \<Longrightarrow>
   \<exists>ctx' q w'. write_pieces sys ctx ds w = Some (ctx', w') \<and> moved sys V ctx p w (concat ds) ctx' q w' [] \<and>
     wc_stored ctx' < erase_size (wc_partition ctx')"
proof (induction ds arbitrary: ctx p w)
  case Nil
  then show ?case using moved_refl by fastforce
next
  case (Cons d ds)
  have "int32 (int (length d)) = int (length d)" using Cons.prems(4) by (intro int32_id) (auto simp: LONG_MIN_def)
  with write_data_loop_moves [OF Cons.prems(1,2), of "int (length d)" d] Cons.prems(3) obtain q ctx1 w1 where
    r: "mtd_write_data sys ctx d w = Some (int (length d), ctx1, w1)" "moved sys V ctx p w d ctx1 q w1 []"
      "wc_stored ctx1 < erase_size (wc_partition ctx1)"
    by (auto simp: mtd_write_data_def)
  then have m: "moved sys V ctx p w (concat (d # ds)) ctx1 q w1 (concat ds)" by (auto simp: moved_def)
  then have w1: "writes_to sys V ctx1 q w1" and sp: "int (length (concat ds)) \<le> space V ctx1 q"
    using Cons.prems(3) by (auto simp: moved_def)
  from Cons.IH [OF w1 r(3) sp] Cons.prems(4) obtain ctx' q' w' where
    i: "write_pieces sys ctx1 ds w1 = Some (ctx', w')" "moved sys V ctx1 q w1 (concat ds) ctx' q' w' []"
    "wc_stored ctx' < erase_size (wc_partition ctx')" by auto
  have "write_pieces sys ctx (d # ds) w = Some (ctx', w')" using r(1) i(1) by simp
  then show ?case using moved_trans [OF m i(2)] i(3) by blast
qed

lemma flash_deviceD:
  assumes "flash_device sys part good pos blk" "os_open sys (dev_name part) m w = (fd, w')"
  shows "0 \<le> fd" "pos fd w' = 0" "blk w' = blk w" "nand_writes sys fd part \<lparr>nd_good = good, nd_pos = pos fd, nd_blk = blk\<rparr>"
proof -
  note assms(1) [unfolded flash_device_def, THEN spec [of _ m], THEN spec [of _ w]]
  then show "0 \<le> fd" "pos fd w' = 0" "blk w' = blk w" "nand_writes sys fd part \<lparr>nd_good = good, nd_pos = pos fd, nd_blk = blk\<rparr>"
    by (simp_all add: assms(2))
qed

lemma device_ok:
  assumes "flash_device sys part good pos blk"
  shows "malloc_law sys" "partition_ok part"
proof -
  obtain fd w' where "os_open sys (dev_name part) O_RDONLY undefined = (fd, w')" by fastforce
  from flash_deviceD(4) [OF assms this] show "malloc_law sys" "partition_ok part"
    using nand_readsD(1) by (auto simp: nand_writes_def)
qed

text \<open>Opening for writing and for reading.\<close>

lemma mtd_write_partition_opens:
  assumes dev: "flash_device sys part good pos blk"
  shows "\<exists>ctx w'. mtd_write_partition sys part w = (Some ctx, w') \<and> blk w' = blk w \<and> wc_partition ctx = part \<and> wc_stored ctx = 0 \<and>
    writes_to sys \<lparr>nd_good = good, nd_pos = pos (wc_fd ctx), nd_blk = blk\<rparr> ctx 0 w'"
proof -
  obtain fd w' where o: "os_open sys (dev_name part) O_RDWR w = (fd, w')" by fastforce
  note d = flash_deviceD [OF dev o]
  have m: "malloc_law sys" and es: "0 < erase_size part" using device_ok [OF dev] by (auto simp: partition_ok_def)
  obtain c b where "os_malloc sys 28 w = Some c" "os_malloc sys (erase_size part) w = Some b" "int (length b) = erase_size part"
    using m es unfolding malloc_law_def by (metis option.exhaust less_imp_le)
  then show ?thesis using o d es by (auto simp: mtd_write_partition_def writes_to_def at_block_def)
qed

lemma mtd_read_partition_opens:
  assumes dev: "flash_device sys part good pos blk"
  shows "\<exists>ctx w'. mtd_read_partition sys part w = (Some ctx, w') \<and> blk w' = blk w \<and>
    mtd_ready sys \<lparr>nd_good = good, nd_pos = pos (rc_fd ctx), nd_blk = blk\<rparr> ctx w' \<and>
    mtd_left sys \<lparr>nd_good = good, nd_pos = pos (rc_fd ctx), nd_blk = blk\<rparr> ctx w' =
      flash \<lparr>nd_good = good, nd_pos = pos (rc_fd ctx), nd_blk = blk\<rparr> w 0 (block_count part)"
proof -
  obtain fd w' where o: "os_open sys (dev_name part) O_RDONLY w = (fd, w')" by fastforce
  note d = flash_deviceD [OF dev o]
  have m: "malloc_law sys" and es: "0 < erase_size part" using device_ok [OF dev] by (auto simp: partition_ok_def)
  obtain c b where b: "os_malloc sys 16 w = Some c" "os_malloc sys (erase_size part) w = Some b"
    using m unfolding malloc_law_def by (metis option.exhaust)
  let ?ctx = "\<lparr>rc_partition = part, rc_buffer = b, rc_consumed = erase_size part, rc_fd = fd\<rparr>"
  let ?V = "\<lparr>nd_good = good, nd_pos = pos fd, nd_blk = blk\<rparr>"
  have r: "reads_from sys ?V ?ctx 0 w'"
    using d es by (simp add: reads_from_def at_block_def nand_writes_def)
  then have "mtd_ready sys ?V ?ctx w'" "mtd_left sys ?V ?ctx w' = flash ?V w' 0 (block_count part)"
    using mtd_left_at [OF r] by (auto simp: mtd_ready_def unread_def)
  moreover have "flash ?V w' 0 (block_count part) = flash ?V w 0 (block_count part)" using d(3) by (intro flash_cong) simp
  ultimately show ?thesis using o d b by (auto simp: mtd_read_partition_def)
qed


text \<open>What a view of the device shows does not depend on the descriptor.\<close>

definition contents :: "MtdPartition \<Rightarrow> (nat \<Rightarrow> bool) \<Rightarrow> ('w \<Rightarrow> nat \<Rightarrow> byte list) \<Rightarrow> 'w \<Rightarrow> byte list" where
  "contents part good blk w = concat (map (blk w) (filter good [0..<block_count part]))"

lemma flash_contents: "flash \<lparr>nd_good = good, nd_pos = pos, nd_blk = blk\<rparr> w 0 (block_count part) = contents part good blk w"
  by (simp add: flash_def contents_def)

lemma contents_cong: "blk w' = blk w \<Longrightarrow> contents part good blk w' = contents part good blk w"
  by (simp add: contents_def)

text \<open>Writing and closing puts the data at the beginning of the contents.\<close>

lemma write_close_contents:
  assumes dev: "flash_device sys part good pos blk"
    and fits: "int (length (concat ds)) \<le> good_bytes part good" "int (length (concat ds)) \<le> LONG_MAX"
  obtains ctx w1 ctx1 w2 w3 r where "mtd_write_partition sys part w = (Some ctx, w1)" "write_pieces sys ctx ds w1 = Some (ctx1, w2)"
    "mtd_write_close sys ctx1 w2 = Some (0, w3)" "contents part good blk w3 = concat ds @ r"
proof -
  from mtd_write_partition_opens [OF dev] obtain ctx w1 where
    o: "mtd_write_partition sys part w = (Some ctx, w1)" "wc_partition ctx = part" "wc_stored ctx = 0"
      "writes_to sys \<lparr>nd_good = good, nd_pos = pos (wc_fd ctx), nd_blk = blk\<rparr> ctx 0 w1" (is "writes_to _ ?V _ _ _") by blast
  have st: "wc_stored ctx < erase_size (wc_partition ctx)" using o(3) writes_to_pos [OF o(4)] by simp
  have sp: "int (length (concat ds)) \<le> space ?V ctx 0" using fits(1) o(2,3) by (simp add: space_def good_bytes_def)
  from write_pieces_written [OF o(4) st sp fits(2)] obtain ctx1 q w2 where
    p: "write_pieces sys ctx ds w1 = Some (ctx1, w2)" "moved sys ?V ctx 0 w1 (concat ds) ctx1 q w2 []"
      "wc_stored ctx1 < erase_size (wc_partition ctx1)" by blast
  from p(2) sp o(2,3) have c1: "writes_to sys ?V ctx1 q w2" "0 \<le> space ?V ctx1 q" "wc_partition ctx1 = part"
    "written ?V ctx1 q w2 = concat ds" by (auto simp: moved_def written_def flash_def)
  from mtd_write_close_flushes [OF c1(1) p(3) c1(2)] obtain n w3 k where
    cl: "mtd_write_close sys ctx1 w2 = Some (0, w3)" "n \<le> block_count part" "flash ?V w3 0 n = concat ds @ replicate k 0"
    using c1(3,4) by auto
  have "contents part good blk w3 = flash ?V w3 0 n @ flash ?V w3 n (block_count part)"
    using upt_split [OF le0 cl(2)] by (simp add: flash_def contents_def)
  with cl(3) have "contents part good blk w3 = concat ds @ replicate k 0 @ flash ?V w3 n (block_count part)" by simp
  with o(1) p(1) cl(1) show thesis by (rule that)
qed

text \<open>Opening and reading gives a prefix of the contents; reading and closing change nothing.\<close>

lemma mtd_read_data_keeps:
  assumes "mtd_ready sys V ctx w" "0 \<le> n" "n \<le> LONG_MAX" "mtd_read_data sys ctx n w = Some (n, d, ctx', w')"
  shows "nd_blk V w' = nd_blk V w" "rc_fd ctx' = rc_fd ctx"
proof -
  from assms(1) obtain p where p: "reads_from sys V ctx p w" by (auto simp: mtd_ready_def)
  from read_data_loop_moves [OF assms(3) p, of "[]"] assms(2,4)
  show "nd_blk V w' = nd_blk V w" "rc_fd ctx' = rc_fd ctx" by (auto simp: reads_all_def mtd_read_data_def)
qed

lemma nand_closeD: "nand_writes sys fd part V \<Longrightarrow> nd_blk V (snd (os_close sys fd w)) = nd_blk V w"
  by (simp add: nand_writes_def block_write_law_def)

lemma read_contents:
  assumes dev: "flash_device sys part good pos blk" and n: "0 \<le> n" "n \<le> LONG_MAX" "n \<le> int (length (contents part good blk w))"
  obtains ctx w1 ctx1 w2 where "mtd_read_partition sys part w = (Some ctx, w1)"
    "mtd_read_data sys ctx n w1 = Some (n, take (nat n) (contents part good blk w), ctx1, w2)"
    "blk (mtd_read_close sys ctx1 w2) = blk w"
proof -
  from mtd_read_partition_opens [OF dev] obtain ctx w1 where
    rd: "mtd_read_partition sys part w = (Some ctx, w1)" "blk w1 = blk w"
      "mtd_ready sys \<lparr>nd_good = good, nd_pos = pos (rc_fd ctx), nd_blk = blk\<rparr> ctx w1" (is "mtd_ready _ ?R _ _")
      "mtd_left sys \<lparr>nd_good = good, nd_pos = pos (rc_fd ctx), nd_blk = blk\<rparr> ctx w1 = contents part good blk w"
    unfolding flash_contents by blast
  from mtd_source.read_full [OF rd(3) n(1,2)] n(3) rd(4) obtain ctx1 w2 where
    r: "mtd_read_data sys ctx n w1 = Some (n, take (nat n) (contents part good blk w), ctx1, w2)" by auto
  note k = mtd_read_data_keeps [OF rd(3) n(1,2) r]
  obtain fd w0 where o: "os_open sys (dev_name part) O_RDONLY w = (fd, w0)" by fastforce
  with rd(1) have "rc_fd ctx = fd" by (auto simp: mtd_read_partition_def split: option.splits if_splits)
  then have "blk (mtd_read_close sys ctx1 w2) = blk w"
    using nand_closeD [OF flash_deviceD(4) [OF dev o], of w2] k rd(2) by (simp add: mtd_read_close_def)
  with rd(1) r show thesis by (rule that)
qed

lemma length_contents:
  assumes dev: "flash_device sys part good pos blk"
  shows "int (length (contents part good blk w)) = good_bytes part good"
proof -
  obtain fd w0 where o: "os_open sys (dev_name part) O_RDONLY w = (fd, w0)" by fastforce
  note rd = flash_deviceD(4) [OF dev o, unfolded nand_writes_def, THEN conjunct1]
  have len: "length (blk w i) = nat (erase_size part)" if "i < block_count part" for i
    using nand_readsD(4) [OF rd that, of w] by simp
  have "map (length \<circ> blk w) (filter good [0..<block_count part]) = map (\<lambda>i. nat (erase_size part)) (filter good [0..<block_count part])"
    by (rule map_cong [OF refl]) (simp add: len)
  then show ?thesis using nand_readsD(1) [OF rd]
    by (simp add: contents_def good_bytes_def length_concat comp_def map_replicate_const sum_list_replicate partition_ok_def)
qed

text \<open>
  C5: what is written to a flash partition in any number of pieces and closed is what is then read from
  it, whatever blocks of the device are bad, as long as the good ones hold it: every call succeeds and
  the bytes are the same.
\<close>

theorem mtd_roundtrip:
  assumes dev: "flash_device sys part good pos blk"
    and fits: "int (length (concat ds)) \<le> good_bytes part good" "int (length (concat ds)) \<le> LONG_MAX"
  shows "\<exists>ctx w1 ctx1 w2 w3 rctx w4 rctx1 w5.
    mtd_write_partition sys part w = (Some ctx, w1) \<and> write_pieces sys ctx ds w1 = Some (ctx1, w2) \<and>
    mtd_write_close sys ctx1 w2 = Some (0, w3) \<and> mtd_read_partition sys part w3 = (Some rctx, w4) \<and>
    mtd_read_data sys rctx (int (length (concat ds))) w4 = Some (int (length (concat ds)), concat ds, rctx1, w5)"
proof -
  obtain ctx w1 ctx1 w2 w3 r where
    wr: "mtd_write_partition sys part w = (Some ctx, w1)" "write_pieces sys ctx ds w1 = Some (ctx1, w2)"
      "mtd_write_close sys ctx1 w2 = Some (0, w3)" and c: "contents part good blk w3 = concat ds @ r"
    by (rule write_close_contents [OF dev fits])
  have "int (length (concat ds)) \<le> int (length (contents part good blk w3))" by (simp only: c length_append)
  then obtain rctx w4 rctx1 w5 where "mtd_read_partition sys part w3 = (Some rctx, w4)"
    "mtd_read_data sys rctx (int (length (concat ds))) w4 = Some (int (length (concat ds)), take (length (concat ds)) (contents part good blk w3), rctx1, w5)"
    using read_contents [OF dev of_nat_0_le_iff fits(2)] by (metis nat_int)
  then show ?thesis using wr c by (metis append_eq_conv_conj)
qed

text \<open>A small device with three blocks of two bytes, the middle one bad; one descriptor.\<close>

type_synonym chip = "int \<times> (nat \<Rightarrow> byte list)"

definition chip_part :: MtdPartition where
  "chip_part = \<lparr>device_index = 0, part_size = 6, erase_size = 2, part_name = Some ''misc''\<rparr>"

definition chip_blk :: "chip \<Rightarrow> nat \<Rightarrow> byte list" where
  "chip_blk w i = take 2 (snd w i @ [0, 0])"

definition chip_seek :: "int \<Rightarrow> seek \<Rightarrow> chip \<Rightarrow> int \<times> chip" where
  "chip_seek fd s w = (case s of SEEK_SET p \<Rightarrow> (p, (p, snd w)) | SEEK_CUR d \<Rightarrow> (fst w + d, (fst w + d, snd w)))"

definition chip_read :: "int \<Rightarrow> int \<Rightarrow> chip \<Rightarrow> int \<times> byte list \<times> chip" where
  "chip_read fd n w = (2, chip_blk w (nat (fst w div 2)), (fst w + 2, snd w))"

definition chip_write :: "int \<Rightarrow> byte list \<Rightarrow> chip \<Rightarrow> int \<times> chip" where
  "chip_write fd d w = (2, (fst w + 2, (snd w)(nat (fst w div 2) := d)))"

definition chip_erase :: "int \<Rightarrow> int \<Rightarrow> int \<Rightarrow> chip \<Rightarrow> int \<times> chip" where
  "chip_erase fd pos n w = (0, (fst w, (snd w)(nat (pos div 2) := [- 1, - 1])))"

definition chip_os :: "chip os" where
  "chip_os = null_os\<lparr>os_malloc := \<lambda>n w. Some (replicate (nat n) 0), os_open := \<lambda>p m w. (3, (0, snd w)), os_close := \<lambda>fd w. (0, w),
     os_read := chip_read, os_write := chip_write, os_lseek := chip_seek, os_ecc := \<lambda>fd w. (0, 0),
     os_badblock := \<lambda>fd pos w. (if pos = 2 then 1 else 0, False), os_erase := chip_erase\<rparr>"

lemma chip_blocks: "block_count chip_part = 3" "erase_size chip_part = 2" "part_size chip_part = 6"
  by (simp_all add: block_count_def chip_part_def)

lemma chip_device: "flash_device chip_os chip_part (\<lambda>i. i \<noteq> 1) (\<lambda>fd w. fst w) chip_blk"
proof -
  let ?V = "\<lparr>nd_good = \<lambda>i. i \<noteq> 1, nd_pos = fst, nd_blk = chip_blk\<rparr>"
  have "partition_ok chip_part" by (simp add: partition_ok_def chip_blocks LONG_MAX_def)
  moreover have "seek_law chip_os 3 chip_part ?V"
    by (auto simp: seek_law_def chip_os_def chip_seek_def chip_blk_def)
  moreover have "block_read_law chip_os 3 chip_part ?V"
    by (auto simp: block_read_law_def chip_os_def chip_read_def chip_blk_def chip_blocks)
  moreover have "block_state_law chip_os 3 chip_part ?V"
    by (auto simp: block_state_law_def chip_os_def chip_blk_def chip_blocks)
  moreover have "block_write_law chip_os 3 chip_part ?V"
    by (auto simp: block_write_law_def chip_os_def chip_blocks chip_write_def chip_erase_def chip_blk_def erased_def numeral_2_eq_2)
  moreover have "malloc_law chip_os" by (auto simp: malloc_law_def chip_os_def)
  ultimately have "nand_writes chip_os 3 chip_part ?V" by (simp add: nand_writes_def nand_reads_def)
  moreover have "os_open chip_os = (\<lambda>p m w. (3, (0, snd w)))" by (simp add: chip_os_def)
  moreover have "chip_blk (0, snd w) = chip_blk w" for w by (rule ext) (simp add: chip_blk_def)
  ultimately show ?thesis by (simp add: flash_device_def)
qed

theorem mtd_roundtrip_witness:
  "\<exists>ctx w1 ctx1 w2 w3 rctx w4 rctx1 w5.
    mtd_write_partition chip_os chip_part (0, \<lambda>_. []) = (Some ctx, w1) \<and> write_pieces chip_os ctx [[1], [2, 3]] w1 = Some (ctx1, w2) \<and>
    mtd_write_close chip_os ctx1 w2 = Some (0, w3) \<and> mtd_read_partition chip_os chip_part w3 = (Some rctx, w4) \<and>
    mtd_read_data chip_os rctx 3 w4 = Some (3, [1, 2, 3], rctx1, w5)"
  using mtd_roundtrip [OF chip_device, of "[[1], [2, 3]]" "(0, \<lambda>_. [])"]
  by (simp add: good_bytes_def chip_blocks LONG_MAX_def numeral_3_eq_3 upt_rec)

end
