(* ===== verification/Byte_Codec.thy ===== *)
theory Byte_Codec
  imports Recovery_Prelude
begin

unbundle bit_operations_syntax

text \<open>
  Fixed-width integers in byte buffers: the \<open>get\<close>, \<open>read\<close> and \<open>set\<close> routines of
  \<^verbatim>\<open>minzip/Bits.h\<close>, the file writers and readers of \<^verbatim>\<open>applypatch/utils.c\<close> and the
  sign-magnitude offsets of bsdiff (\<open>offtin\<close> in \<^verbatim>\<open>applypatch/bspatch.c\<close>, \<open>offtout\<close> in
  \<^verbatim>\<open>applypatch/bsdiff.c\<close>). A buffer is the list of the bytes from the pointer to the end of its
  object; reading or writing past the end is \<open>None\<close>. A \<open>read\<close> routine returns the advanced
  pointer next to the value.
\<close>

section \<open>Reading\<close>

definition get1 :: "byte list \<Rightarrow> byte option" where
  "get1 p = (case p of a # _ \<Rightarrow> Some a | _ \<Rightarrow> None)"

definition get2BE :: "byte list \<Rightarrow> u16 option" where
  "get2BE p = (case p of a # b # _ \<Rightarrow> Some (push_bit 8 (ucast a) OR ucast b) | _ \<Rightarrow> None)"

definition get4BE :: "byte list \<Rightarrow> u32 option" where
  "get4BE p = (case p of a # b # c # d # _ \<Rightarrow>
     Some (push_bit 24 (ucast a) OR push_bit 16 (ucast b) OR push_bit 8 (ucast c) OR ucast d) | _ \<Rightarrow> None)"

definition get8BE :: "byte list \<Rightarrow> u64 option" where
  "get8BE p = (case p of a # b # c # d # e # f # g # h # _ \<Rightarrow>
     Some (push_bit 56 (ucast a) OR push_bit 48 (ucast b) OR push_bit 40 (ucast c) OR push_bit 32 (ucast d) OR
           push_bit 24 (ucast e) OR push_bit 16 (ucast f) OR push_bit 8 (ucast g) OR ucast h) | _ \<Rightarrow> None)"

definition get2LE :: "byte list \<Rightarrow> u16 option" where
  "get2LE p = (case p of a # b # _ \<Rightarrow> Some (ucast a OR push_bit 8 (ucast b)) | _ \<Rightarrow> None)"

definition get4LE :: "byte list \<Rightarrow> u32 option" where
  "get4LE p = (case p of a # b # c # d # _ \<Rightarrow>
     Some (ucast a OR push_bit 8 (ucast b) OR push_bit 16 (ucast c) OR push_bit 24 (ucast d)) | _ \<Rightarrow> None)"

definition get8LE :: "byte list \<Rightarrow> u64 option" where
  "get8LE p = (case p of a # b # c # d # e # f # g # h # _ \<Rightarrow>
     Some (ucast a OR push_bit 8 (ucast b) OR push_bit 16 (ucast c) OR push_bit 24 (ucast d) OR
           push_bit 32 (ucast e) OR push_bit 40 (ucast f) OR push_bit 48 (ucast g) OR push_bit 56 (ucast h)) | _ \<Rightarrow> None)"

definition read_with :: "nat \<Rightarrow> (byte list \<Rightarrow> 'v option) \<Rightarrow> byte list \<Rightarrow> ('v \<times> byte list) option" where
  "read_with n get p = map_option (\<lambda>v. (v, drop n p)) (get p)"

definition read1 :: "byte list \<Rightarrow> (byte \<times> byte list) option" where
  "read1 = read_with 1 get1"

definition read2BE :: "byte list \<Rightarrow> (u16 \<times> byte list) option" where
  "read2BE = read_with 2 get2BE"

definition read4BE :: "byte list \<Rightarrow> (u32 \<times> byte list) option" where
  "read4BE = read_with 4 get4BE"

definition read8BE :: "byte list \<Rightarrow> (u64 \<times> byte list) option" where
  "read8BE = read_with 8 get8BE"

definition read2LE :: "byte list \<Rightarrow> (u16 \<times> byte list) option" where
  "read2LE = read_with 2 get2LE"

definition read4LE :: "byte list \<Rightarrow> (u32 \<times> byte list) option" where
  "read4LE = read_with 4 get4LE"

definition read8LE :: "byte list \<Rightarrow> (u64 \<times> byte list) option" where
  "read8LE = read_with 8 get8LE"

section \<open>Writing\<close>

text \<open>Overwrite the first bytes of a buffer.\<close>

definition store_bytes :: "byte list \<Rightarrow> byte list \<Rightarrow> byte list option" where
  "store_bytes buf bs = (if length bs \<le> length buf then Some (bs @ drop (length bs) buf) else None)"

definition set1 :: "byte list \<Rightarrow> byte \<Rightarrow> byte list option" where
  "set1 buf val = store_bytes buf [val]"

definition bytes2BE :: "u16 \<Rightarrow> byte list" where
  "bytes2BE v = [ucast (drop_bit 8 v), ucast v]"

definition bytes4BE :: "u32 \<Rightarrow> byte list" where
  "bytes4BE v = [ucast (drop_bit 24 v), ucast (drop_bit 16 v), ucast (drop_bit 8 v), ucast v]"

definition bytes8BE :: "u64 \<Rightarrow> byte list" where
  "bytes8BE v = [ucast (drop_bit 56 v), ucast (drop_bit 48 v), ucast (drop_bit 40 v), ucast (drop_bit 32 v),
     ucast (drop_bit 24 v), ucast (drop_bit 16 v), ucast (drop_bit 8 v), ucast v]"

definition bytes2LE :: "u16 \<Rightarrow> byte list" where
  "bytes2LE v = [ucast v, ucast (drop_bit 8 v)]"

definition bytes4LE :: "u32 \<Rightarrow> byte list" where
  "bytes4LE v = [ucast v, ucast (drop_bit 8 v), ucast (drop_bit 16 v), ucast (drop_bit 24 v)]"

definition bytes8LE :: "u64 \<Rightarrow> byte list" where
  "bytes8LE v = [ucast v, ucast (drop_bit 8 v), ucast (drop_bit 16 v), ucast (drop_bit 24 v),
     ucast (drop_bit 32 v), ucast (drop_bit 40 v), ucast (drop_bit 48 v), ucast (drop_bit 56 v)]"

definition set2BE :: "byte list \<Rightarrow> u16 \<Rightarrow> byte list option" where
  "set2BE buf val = store_bytes buf (bytes2BE val)"

definition set4BE :: "byte list \<Rightarrow> u32 \<Rightarrow> byte list option" where
  "set4BE buf val = store_bytes buf (bytes4BE val)"

definition set8BE :: "byte list \<Rightarrow> u64 \<Rightarrow> byte list option" where
  "set8BE buf val = store_bytes buf (bytes8BE val)"

definition set2LE :: "byte list \<Rightarrow> u16 \<Rightarrow> byte list option" where
  "set2LE buf val = store_bytes buf (bytes2LE val)"

definition set4LE :: "byte list \<Rightarrow> u32 \<Rightarrow> byte list option" where
  "set4LE buf val = store_bytes buf (bytes4LE val)"

definition set8LE :: "byte list \<Rightarrow> u64 \<Rightarrow> byte list option" where
  "set8LE buf val = store_bytes buf (bytes8LE val)"

section \<open>Length-prefixed strings\<close>

definition skipUtf8String :: "byte list \<Rightarrow> byte list option" where
  "skipUtf8String p =
     (case read4BE p of None \<Rightarrow> None
      | Some (len, q) \<Rightarrow> if unat len \<le> length q then Some (drop (unat len) q) else None)"

text \<open>
  The buffer after the call and the length; the copy is cut at \<open>bufLen - 1\<close> bytes and terminated.
  A buffer of no bytes (\<open>bufLen - 1\<close> wraps) is undefined.
\<close>

definition readUtf8String :: "byte list \<Rightarrow> byte list \<Rightarrow> (int \<times> byte list \<times> byte list) option" where
  "readUtf8String p buf =
     (case read4BE p of None \<Rightarrow> None
      | Some (len, q) \<Rightarrow>
          if buf = [] then None
          else let copyLen = (if unat len < length buf then unat len else length buf - 1)
               in if unat len \<le> length q
                  then Some (int32 (uint len), take copyLen q @ 0 # drop (copyLen + 1) buf, drop (unat len) q)
                  else None)"

text \<open>\<open>length + 1\<close> bytes are allocated; a length for which that wraps to 0 is undefined.\<close>

definition readNewUtf8String :: "byte list \<Rightarrow> (byte list \<times> nat \<times> byte list) option" where
  "readNewUtf8String p =
     (case read4BE p of None \<Rightarrow> None
      | Some (len, q) \<Rightarrow>
          if len + 1 \<noteq> 0 \<and> unat len \<le> length q then Some (take (unat len) q, unat len, drop (unat len) q) else None)"

definition setUtf8String :: "byte list \<Rightarrow> byte list \<Rightarrow> byte list option" where
  "setUtf8String buf str = store_bytes buf (bytes4BE (of_nat (length str)) @ str)"

section \<open>Integers in patch files\<close>

text \<open>The bytes \<open>Write4\<close> and \<open>Write8\<close> append to the file; \<open>>>\<close> of a signed value keeps the sign.\<close>

definition Write4 :: "int \<Rightarrow> byte list" where
  "Write4 v = [word_of_int (v AND 0xff), word_of_int (drop_bit 8 v AND 0xff),
     word_of_int (drop_bit 16 v AND 0xff), word_of_int (drop_bit 24 v AND 0xff)]"

definition Write8 :: "int \<Rightarrow> byte list" where
  "Write8 v = [word_of_int (v AND 0xff), word_of_int (drop_bit 8 v AND 0xff),
     word_of_int (drop_bit 16 v AND 0xff), word_of_int (drop_bit 24 v AND 0xff),
     word_of_int (drop_bit 32 v AND 0xff), word_of_int (drop_bit 40 v AND 0xff),
     word_of_int (drop_bit 48 v AND 0xff), word_of_int (drop_bit 56 v AND 0xff)]"

definition Read2 :: "byte list \<Rightarrow> int option" where
  "Read2 p = (case p of a # b # _ \<Rightarrow> Some (sint (push_bit 8 (ucast b :: u32) OR ucast a)) | _ \<Rightarrow> None)"

definition Read4 :: "byte list \<Rightarrow> int option" where
  "Read4 p = (case p of a # b # c # d # _ \<Rightarrow>
     Some (sint (push_bit 24 (ucast d :: u32) OR push_bit 16 (ucast c) OR push_bit 8 (ucast b) OR ucast a))
     | _ \<Rightarrow> None)"

definition Read8 :: "byte list \<Rightarrow> int option" where
  "Read8 p = (case p of a # b # c # d # e # f # g # h # _ \<Rightarrow>
     Some (sint (push_bit 56 (ucast h :: u64) OR push_bit 48 (ucast g) OR push_bit 40 (ucast f) OR
       push_bit 32 (ucast e) OR push_bit 24 (ucast d) OR push_bit 16 (ucast c) OR push_bit 8 (ucast b) OR
       ucast a)) | _ \<Rightarrow> None)"

text \<open>
  \<open>offtin\<close>; \<open>off\<close> is the conversion of an arithmetic result to \<open>off_t\<close>, whose width differs between
  the device (32 bits) and the host tools (64 bits).
\<close>

definition offtin :: "(int \<Rightarrow> int) \<Rightarrow> byte list \<Rightarrow> int option" where
  "offtin off buf =
     (case buf of b0 # b1 # b2 # b3 # b4 # b5 # b6 # b7 # _ \<Rightarrow>
        let y = uint (b7 AND 0x7F);
            y = off (off (y * 256) + uint b6);
            y = off (off (y * 256) + uint b5);
            y = off (off (y * 256) + uint b4);
            y = off (off (y * 256) + uint b3);
            y = off (off (y * 256) + uint b2);
            y = off (off (y * 256) + uint b1);
            y = off (off (y * 256) + uint b0)
        in Some (if b7 AND 0x80 \<noteq> 0 then off (- y) else y)
      | _ \<Rightarrow> None)"

text \<open>\<open>offtout\<close>, for an offset whose magnitude is below \<open>2^63\<close>.\<close>

definition offtout :: "int \<Rightarrow> byte list" where
  "offtout x =
     (let y = (if x < 0 then - x else x);
          b0 = word_of_int (y mod 256); y = (y - uint b0) div 256;
          b1 = word_of_int (y mod 256); y = (y - uint b1) div 256;
          b2 = word_of_int (y mod 256); y = (y - uint b2) div 256;
          b3 = word_of_int (y mod 256); y = (y - uint b3) div 256;
          b4 = word_of_int (y mod 256); y = (y - uint b4) div 256;
          b5 = word_of_int (y mod 256); y = (y - uint b5) div 256;
          b6 = word_of_int (y mod 256); y = (y - uint b6) div 256;
          b7 = word_of_int (y mod 256)
      in [b0, b1, b2, b3, b4, b5, b6, if x < 0 then b7 OR 0x80 else b7])"

section \<open>The law of a codec\<close>

locale codec =
  fixes width :: nat
    and put :: "'v \<Rightarrow> byte list"
    and get :: "byte list \<Rightarrow> 'v option"
  assumes put_length: "length (put v) = width"
    and get_put: "get (put v @ rest) = Some v"
    and get_short: "length p < width \<Longrightarrow> get p = None"
begin

lemma read_put: "read_with width get (put v @ rest) = Some (v, rest)"
  by (simp add: read_with_def get_put put_length)

lemma get_store: "store_bytes buf (put v) = Some buf' \<Longrightarrow> get buf' = Some v"
  by (auto simp: store_bytes_def get_put split: if_splits)

lemma store_ok: "width \<le> length buf \<Longrightarrow> \<exists>buf'. store_bytes buf (put v) = Some buf' \<and> length buf' = length buf \<and> get buf' = Some v \<and> drop width buf' = drop width buf"
  by (simp add: store_bytes_def get_put put_length)

lemma get_inject: "put v @ r = put v' @ r' \<Longrightarrow> v = v' \<and> r = r'"
  by (metis get_put option.inject append_same_eq same_append_eq)

end

section \<open>The word codecs\<close>

lemma bit_byte_at [bit_simps]:
  fixes v :: "'a :: len word"
  shows "bit (push_bit s (ucast (ucast (drop_bit s v) :: byte)) :: 'a word) n \<longleftrightarrow> s \<le> n \<and> n < s + 8 \<and> bit v n"
proof (cases "s \<le> n")
  case True
  then show ?thesis
    by (auto simp: bit_push_bit_iff bit_ucast_iff bit_drop_bit_eq dest: bit_imp_le_length)
next
  case False
  then show ?thesis by (simp add: bit_push_bit_iff)
qed

lemma bit_byte_0:
  fixes v :: "'a :: len word"
  shows "bit (ucast (ucast v :: byte) :: 'a word) n \<longleftrightarrow> n < 8 \<and> bit v n"
  by (auto simp: bit_ucast_iff dest: bit_imp_le_length)

lemma or_bytes:
  "(a :: 'a :: len word) OR b OR c OR d = d OR c OR b OR a"
  by (simp add: or.commute or.left_commute)

lemma word16_bytes:
  fixes v :: u16
  shows "ucast (ucast v :: byte) OR push_bit 8 (ucast (ucast (drop_bit 8 v) :: byte)) = v" (is "?w = _")
proof (rule bit_word_eqI)
  fix n
  assume n: "n < LENGTH(16)"
  show "bit ?w n = bit v n"
    unfolding bit_or_iff bit_byte_at bit_byte_0 using n by (cases "bit v n"; simp; linarith)
qed

lemma word32_bytes:
  fixes v :: u32
  shows "ucast (ucast v :: byte) OR push_bit 8 (ucast (ucast (drop_bit 8 v) :: byte)) OR
   push_bit 16 (ucast (ucast (drop_bit 16 v) :: byte)) OR push_bit 24 (ucast (ucast (drop_bit 24 v) :: byte)) = v"
   (is "?w = _")
proof (rule bit_word_eqI)
  fix n
  assume n: "n < LENGTH(32)"
  show "bit ?w n = bit v n"
    unfolding bit_or_iff bit_byte_at bit_byte_0 using n by (cases "bit v n"; simp; linarith)
qed

lemma word64_bytes:
  fixes v :: u64
  shows "ucast (ucast v :: byte) OR push_bit 8 (ucast (ucast (drop_bit 8 v) :: byte)) OR
   push_bit 16 (ucast (ucast (drop_bit 16 v) :: byte)) OR push_bit 24 (ucast (ucast (drop_bit 24 v) :: byte)) OR
   push_bit 32 (ucast (ucast (drop_bit 32 v) :: byte)) OR push_bit 40 (ucast (ucast (drop_bit 40 v) :: byte)) OR
   push_bit 48 (ucast (ucast (drop_bit 48 v) :: byte)) OR push_bit 56 (ucast (ucast (drop_bit 56 v) :: byte)) = v"
   (is "?w = _")
proof (rule bit_word_eqI)
  fix n
  assume n: "n < LENGTH(64)"
  show "bit ?w n = bit v n"
    unfolding bit_or_iff bit_byte_at bit_byte_0 using n by (cases "bit v n"; simp; linarith)
qed

lemmas or_rev = or.commute or.left_commute

interpretation le16: codec 2 bytes2LE get2LE
  by unfold_locales (auto simp: bytes2LE_def get2LE_def word16_bytes split: list.splits)

interpretation le32: codec 4 bytes4LE get4LE
  by unfold_locales (auto simp: bytes4LE_def get4LE_def word32_bytes split: list.splits)

interpretation le64: codec 8 bytes8LE get8LE
  by unfold_locales (auto simp: bytes8LE_def get8LE_def word64_bytes split: list.splits)

lemma get2LE_take: "2 \<le> k \<Longrightarrow> get2LE (take k p) = get2LE p"
  by (cases p; cases "tl p"; cases k; cases "k - 1") (auto simp: get2LE_def)

lemma get4LE_take: "4 \<le> k \<Longrightarrow> get4LE (take k p) = get4LE p"
proof -
  assume "4 \<le> k"
  then obtain j where k: "k = Suc (Suc (Suc (Suc j)))"
    by (metis Suc_le_D numeral_eq_Suc pred_numeral_simps(2) pred_numeral_simps(3) BitM.simps eval_nat_numeral(3) Suc_le_mono)
  show ?thesis by (auto simp: k get4LE_def split: list.splits)
qed

lemma be16_bytes: "push_bit 8 (ucast (ucast (drop_bit 8 v) :: byte)) OR ucast (ucast v :: byte) = (v :: u16)"
  using word16_bytes [of v] by (simp only: or_rev)

lemma be32_bytes:
  "push_bit 24 (ucast (ucast (drop_bit 24 v) :: byte)) OR push_bit 16 (ucast (ucast (drop_bit 16 v) :: byte)) OR
   push_bit 8 (ucast (ucast (drop_bit 8 v) :: byte)) OR ucast (ucast v :: byte) = (v :: u32)"
  using word32_bytes [of v] by (simp only: or_rev)

lemma be64_bytes:
  "push_bit 56 (ucast (ucast (drop_bit 56 v) :: byte)) OR push_bit 48 (ucast (ucast (drop_bit 48 v) :: byte)) OR
   push_bit 40 (ucast (ucast (drop_bit 40 v) :: byte)) OR push_bit 32 (ucast (ucast (drop_bit 32 v) :: byte)) OR
   push_bit 24 (ucast (ucast (drop_bit 24 v) :: byte)) OR push_bit 16 (ucast (ucast (drop_bit 16 v) :: byte)) OR
   push_bit 8 (ucast (ucast (drop_bit 8 v) :: byte)) OR ucast (ucast v :: byte) = (v :: u64)"
  using word64_bytes [of v] by (simp only: or_rev)

interpretation be16: codec 2 bytes2BE get2BE
  by unfold_locales (auto simp: bytes2BE_def get2BE_def be16_bytes split: list.splits)

interpretation be32: codec 4 bytes4BE get4BE
  by unfold_locales (auto simp: bytes4BE_def get4BE_def be32_bytes split: list.splits)

interpretation be64: codec 8 bytes8BE get8BE
  by unfold_locales (auto simp: bytes8BE_def get8BE_def be64_bytes split: list.splits)

section \<open>Signed integers of patch files\<close>

lemma byte_of_int:
  assumes "s + 8 \<le> LENGTH('a :: len)"
  shows "(word_of_int (drop_bit s v AND 0xff) :: byte) = ucast (drop_bit s (word_of_int v :: 'a word))"
proof (rule bit_word_eqI)
  fix n
  assume "n < LENGTH(8)"
  moreover have "bit (mask 8 :: int) n" using \<open>n < LENGTH(8)\<close> by (simp add: bit_mask_iff)
  then have "bit (0xff :: int) n" by (simp add: mask_eq_exp_minus_1)
  ultimately show "bit (word_of_int (drop_bit s v AND 0xff) :: byte) n
      = bit (ucast (drop_bit s (word_of_int v :: 'a word)) :: byte) n"
    using assms
    by (simp add: bit_simps) 
qed

lemma Write4_bytes: "Write4 v = bytes4LE (word_of_int v)"
  using byte_of_int [where 'a = 32 and s = 0 and v = v] byte_of_int [where 'a = 32 and s = 8 and v = v]
    byte_of_int [where 'a = 32 and s = 16 and v = v] byte_of_int [where 'a = 32 and s = 24 and v = v]
  by (simp add: Write4_def bytes4LE_def)

lemma Write8_bytes: "Write8 v = bytes8LE (word_of_int v)"
  using byte_of_int [where 'a = 64 and s = 0 and v = v] byte_of_int [where 'a = 64 and s = 8 and v = v]
    byte_of_int [where 'a = 64 and s = 16 and v = v] byte_of_int [where 'a = 64 and s = 24 and v = v]
    byte_of_int [where 'a = 64 and s = 32 and v = v] byte_of_int [where 'a = 64 and s = 40 and v = v]
    byte_of_int [where 'a = 64 and s = 48 and v = v] byte_of_int [where 'a = 64 and s = 56 and v = v]
  by (simp add: Write8_def bytes8LE_def)

lemma Read4_get: "Read4 p = map_option sint (get4LE p)"
  by (simp add: Read4_def get4LE_def or_rev split: list.splits)

lemma Read8_get: "Read8 p = map_option sint (get8LE p)"
  by (simp add: Read8_def get8LE_def or_rev split: list.splits)

section \<open>Sign-magnitude offsets\<close>

lemma uint_byte: "0 \<le> y \<Longrightarrow> uint (word_of_int (y mod 256) :: byte) = y mod 256"
  by (simp add: uint_word_of_int)

lemma strip_digit: "((y :: int) - y mod 256) div 256 = y div 256"
  by (simp add: minus_mod_eq_mult_div)

lemma add_digit: "(y :: int) div 256 * 256 + y mod 256 = y"
  by simp

lemma low_byte:
  fixes b :: byte
  assumes "uint b < 128"
  shows "uint (b AND 0x7F) = uint b" and "b AND 0x80 = 0"
    and "(b OR 0x80) AND 0x7F = b" and "(b OR 0x80) AND 0x80 = 0x80"
proof -
  have hi: "\<not> bit b n" if "7 \<le> n" for n
  proof (cases "n = 7")
    case True
    have "uint b div 2 ^ 7 = 0" using assms by simp
    then have "\<not> bit (uint b) 7" unfolding bit_iff_odd [of "uint b"] by simp
    with True show ?thesis by (simp add: bit_unsigned_iff)
  next
    case False
    with that show ?thesis by (auto dest: bit_imp_le_length)
  qed
  have lo: "n < 7" if "bit b n" for n using hi [of n] that by linarith
  have m7: "(0x7F :: byte) = mask 7" by (simp add: mask_eq_exp_minus_1)
  have "bit (2 ^ 7 :: byte) n \<longleftrightarrow> n = 7" for n by (simp only: bit_exp_iff) auto
  then have e7: "bit (0x80 :: byte) n \<longleftrightarrow> n = 7" for n by simp
  have "b AND mask 7 = b" by (rule bit_word_eqI) (auto simp: bit_simps intro: lo)
  then show "uint (b AND 0x7F) = uint b" unfolding m7 by simp
  have "bit (b AND 0x80) n = bit (0 :: byte) n" for n
    using lo [of n] e7 [of n] by (auto simp: bit_and_iff)
  then show "b AND 0x80 = 0" by (intro bit_word_eqI)
  have "bit ((b OR 0x80) AND 0x7F) n = bit b n" for n
    unfolding m7 bit_and_iff bit_or_iff bit_mask_iff using lo [of n] e7 [of n] by auto
  then show "(b OR 0x80) AND 0x7F = b" by (intro bit_word_eqI)
  have "bit ((b OR 0x80) AND 0x80) n = bit (0x80 :: byte) n" for n
    unfolding bit_and_iff bit_or_iff by auto
  then show "(b OR 0x80) AND 0x80 = 0x80" by (intro bit_word_eqI)
qed

lemma digit_step: "0 \<le> (y :: int) \<Longrightarrow> y \<le> m \<Longrightarrow> 0 \<le> y div 256 \<and> y div 256 \<le> m"
  by linarith

text \<open>The loop body of \<open>offtin\<close> on the digits of a number below the bound of the conversion.\<close>

lemma offtin_digit:
  assumes "\<And>z. - m \<le> z \<Longrightarrow> z \<le> m \<Longrightarrow> off z = (z :: int)" "0 \<le> y" "y \<le> m"
  shows "off (off (y div 256 * 256) + y mod 256) = y"
proof -
  have "y div 256 * 256 \<le> y" "0 \<le> y div 256 * 256" using assms(2) by (simp_all add: pos_imp_zdiv_nonneg_iff)
  with assms(2,3) have "- m \<le> y div 256 * 256" "y div 256 * 256 \<le> m" by linarith+
  then have "off (y div 256 * 256) = y div 256 * 256" by (rule assms(1))
  then show ?thesis using assms by simp
qed

lemma offtin_offtout_core:
  assumes x: "\<bar>x\<bar> < 2 ^ 63" and off: "\<And>z. - \<bar>x\<bar> \<le> z \<Longrightarrow> z \<le> \<bar>x\<bar> \<Longrightarrow> off z = z"
  shows "offtin off (offtout x @ rest) = Some x"
proof -
  define y0 where "y0 = \<bar>x\<bar>"
  define y1 where "y1 = y0 div 256"
  define y2 where "y2 = y1 div 256"
  define y3 where "y3 = y2 div 256"
  define y4 where "y4 = y3 div 256"
  define y5 where "y5 = y4 div 256"
  define y6 where "y6 = y5 div 256"
  define y7 where "y7 = y6 div 256"
  note ys = y1_def y2_def y3_def y4_def y5_def y6_def y7_def
  have b0: "0 \<le> y0 \<and> y0 \<le> \<bar>x\<bar>" by (simp add: y0_def)
  have b1: "0 \<le> y1 \<and> y1 \<le> \<bar>x\<bar>" unfolding y1_def using b0 by (intro digit_step) simp_all
  have b2: "0 \<le> y2 \<and> y2 \<le> \<bar>x\<bar>" unfolding y2_def using b1 by (intro digit_step) simp_all
  have b3: "0 \<le> y3 \<and> y3 \<le> \<bar>x\<bar>" unfolding y3_def using b2 by (intro digit_step) simp_all
  have b4: "0 \<le> y4 \<and> y4 \<le> \<bar>x\<bar>" unfolding y4_def using b3 by (intro digit_step) simp_all
  have b5: "0 \<le> y5 \<and> y5 \<le> \<bar>x\<bar>" unfolding y5_def using b4 by (intro digit_step) simp_all
  have b6: "0 \<le> y6 \<and> y6 \<le> \<bar>x\<bar>" unfolding y6_def using b5 by (intro digit_step) simp_all
  have b7': "0 \<le> y7" unfolding y7_def using digit_step [of y6 y6] b6 by simp
  note pos = b0 [THEN conjunct1] b1 [THEN conjunct1] b2 [THEN conjunct1] b3 [THEN conjunct1]
    b4 [THEN conjunct1] b5 [THEN conjunct1] b6 [THEN conjunct1] b7'
  note le = b0 [THEN conjunct2] b1 [THEN conjunct2] b2 [THEN conjunct2] b3 [THEN conjunct2]
    b4 [THEN conjunct2] b5 [THEN conjunct2] b6 [THEN conjunct2]
  have "y0 < 128 * 256 ^ 7" using x unfolding y0_def by simp
  then have y7: "y7 < 128"
    unfolding ys by (simp add: zdiv_zmult2_eq [symmetric] div_less_iff_less_mult)
  let ?b7 = "word_of_int y7 :: byte"
  have b7: "uint ?b7 = y7" using pos y7 by (simp add: uint_word_of_int)
  have out: "offtout x = [word_of_int (y0 mod 256), word_of_int (y1 mod 256), word_of_int (y2 mod 256),
      word_of_int (y3 mod 256), word_of_int (y4 mod 256), word_of_int (y5 mod 256), word_of_int (y6 mod 256),
      if x < 0 then ?b7 OR 0x80 else ?b7]"
  proof -
    have "(if x < 0 then - x else x) = y0" by (simp add: y0_def)
    then show ?thesis
      unfolding offtout_def Let_def
      using pos y7 by (simp only: uint_byte strip_digit ys [symmetric] mod_pos_pos_trivial)
  qed
  have d: "off (off (y div 256 * 256) + y mod 256) = y" if "0 \<le> y" "y \<le> \<bar>x\<bar>" for y
    using off that by (rule offtin_digit)
  note digits = d [OF pos(1) le(1), folded ys] d [OF pos(2) le(2), folded ys] d [OF pos(3) le(3), folded ys]
    d [OF pos(4) le(4), folded ys] d [OF pos(5) le(5), folded ys] d [OF pos(6) le(6), folded ys]
    d [OF pos(7) le(7), folded ys]
  note bytes = pos [THEN uint_byte]
  have neg: "off (- y0) = - y0" by (rule off) (simp_all add: y0_def)
  show ?thesis
  proof (cases "x < 0")
    case True
    then have "offtin off (offtout x @ rest) = Some (- y0)"
      unfolding offtin_def out Let_def
      using low_byte [of ?b7] y7 b7 by (simp add: bytes digits neg)
    with True show ?thesis by (simp add: y0_def)
  next
    case False
    then have "offtin off (offtout x @ rest) = Some y0"
      unfolding offtin_def out Let_def
      using low_byte [of ?b7] y7 b7 by (simp add: bytes digits)
    with False show ?thesis by (simp add: y0_def)
  qed
qed

section \<open>Properties\<close>

lemma sint_word_of_int_self: "- (2 ^ (LENGTH('a) - 1)) \<le> v \<Longrightarrow> v < 2 ^ (LENGTH('a) - 1) \<Longrightarrow> sint (word_of_int v :: 'a :: len word) = v"
  by (simp add: signed_take_bit_int_eq_self sint_sbintrunc')

lemma Read4_Write4:
  assumes "LONG_MIN \<le> v" "v \<le> LONG_MAX"
  shows "Read4 (Write4 v @ rest) = Some v"
  using assms sint_word_of_int_self [where 'a = 32 and v = v]
  by (simp add: Read4_get Write4_bytes le32.get_put LONG_MIN_def LONG_MAX_def)

lemma Read8_Write8:
  assumes "- (2 ^ 63) \<le> w" "w < 2 ^ 63"
  shows "Read8 (Write8 w @ rest) = Some w"
  using assms sint_word_of_int_self [where 'a = 64 and v = w]
  by (simp add: Read8_get Write8_bytes le64.get_put)

lemma length_Write [simp]: "length (Write4 v) = 4" "length (Write8 w) = 8"
  by (simp_all add: Write4_def Write8_def)

text \<open>
  the integers imgdiff and bsdiff write are the ones the patchers read. What \<open>Write4\<close> and
  \<open>Write8\<close> append is read back by \<open>Read4\<close> and \<open>Read8\<close>, sign included, whatever follows it.
\<close>

theorem patch_integers_roundtrip:
  assumes "LONG_MIN \<le> v" "v \<le> LONG_MAX" "- (2 ^ 63) \<le> w" "w < 2 ^ 63"
  shows "Read4 (Write4 v @ rest) = Some v \<and> Read8 (Write8 w @ rest) = Some w"
  using assms by (simp add: Read4_Write4 Read8_Write8)

theorem patch_integers_roundtrip_witness:
  "Read4 (Write4 (- 5) @ [7]) = Some (- 5) \<and> Read8 (Write8 (- 81985529216486896) @ [7]) = Some (- 81985529216486896)"
  by (rule patch_integers_roundtrip) (simp_all add: LONG_MIN_def LONG_MAX_def)

text \<open>
  Bsdiff's sign-magnitude offsets. What \<open>offtout\<close> writes, \<open>offtin\<close> reads: on the host for every
  64-bit offset, and on the device, where \<open>off_t\<close> has 32 bits, for the offsets it can represent.
\<close>

theorem offtin_offtout:
  assumes "\<bar>x\<bar> < 2 ^ 63"
  shows "offtin id (offtout x @ rest) = Some x
    \<and> (\<bar>x\<bar> \<le> LONG_MAX \<longrightarrow> offtin int32 (offtout x @ rest) = Some x)"
proof -
  have "offtin int32 (offtout x @ rest) = Some x" if b: "\<bar>x\<bar> \<le> LONG_MAX"
  proof (rule offtin_offtout_core [OF assms])
    fix z
    assume "- \<bar>x\<bar> \<le> z" "z \<le> \<bar>x\<bar>"
    with b show "int32 z = z" by (intro int32_id) (simp_all add: LONG_MIN_def LONG_MAX_def)
  qed
  moreover have "offtin id (offtout x @ rest) = Some x"
    by (rule offtin_offtout_core [OF assms]) simp
  ultimately show ?thesis by blast
qed

theorem offtin_offtout_witness:
  "offtin id (offtout (- 70000) @ [1]) = Some (- 70000) \<and> offtin int32 (offtout (- 70000) @ [1]) = Some (- 70000)"
  using offtin_offtout [of "- 70000" "[1]"] by (simp add: LONG_MAX_def)

text \<open>
  A length-prefixed string that fits the buffer is stored without touching the rest of it, and is
  read back in full by \<open>readNewUtf8String\<close> and, cut to the size of the destination and terminated,
  by \<open>readUtf8String\<close>; both leave the pointer where \<open>skipUtf8String\<close> does.
\<close>

theorem utf8_string_roundtrip:
  assumes "length str + 4 \<le> length buf" "length str < 2 ^ 31" "dest \<noteq> []"
  shows "\<exists>buf'. setUtf8String buf str = Some buf' \<and> length buf' = length buf
    \<and> readNewUtf8String buf' = Some (str, length str, drop (length str + 4) buf)
    \<and> skipUtf8String buf' = Some (drop (length str + 4) buf)
    \<and> readUtf8String buf' dest = Some (int (length str),
        take (length dest - 1) str @ 0 # drop (min (length str) (length dest - 1) + 1) dest,
        drop (length str + 4) buf)"
proof -
  let ?rest = "drop (length str + 4) buf"
  let ?buf = "bytes4BE (of_nat (length str)) @ str @ ?rest"
  have len: "unat (of_nat (length str) :: u32) = length str"
    using assms(2) by (simp add: unat_of_nat take_bit_nat_eq_self)
  have ulen: "uint (of_nat (length str) :: u32) = int (length str)"
    using len by (metis of_nat_unat)
  have plus: "(of_nat (length str) :: u32) + 1 \<noteq> 0"
  proof
    assume "(of_nat (length str) :: u32) + 1 = 0"
    then have "unat (of_nat (length str + 1) :: u32) = 0" by (simp add: add.commute)
    then have "(length str + 1) mod 2 ^ 32 = 0" unfolding unat_of_nat by simp
    then show False using assms(2) by simp
  qed
  have i32: "int32 (int (length str)) = int (length str)"
    using assms(2) by (intro int32_id) (simp_all add: LONG_MIN_def LONG_MAX_def)
  have store: "setUtf8String buf str = Some ?buf"
    using assms(1) by (simp add: setUtf8String_def store_bytes_def be32.put_length add.commute)
  have rd: "read4BE ?buf = Some (of_nat (length str), str @ ?rest)"
    unfolding read4BE_def by (rule be32.read_put)
  have blen: "length ?buf = length buf" using assms(1) by (simp add: be32.put_length)
  have "readUtf8String ?buf dest = Some (int (length str),
        take (length dest - 1) str @ 0 # drop (min (length str) (length dest - 1) + 1) dest, ?rest)"
    using assms(3) by (cases "length str < length dest") (auto simp: readUtf8String_def rd len ulen i32 min_def Let_def)
  with store blen show ?thesis
    by (simp add: readNewUtf8String_def skipUtf8String_def rd len plus)
qed

theorem utf8_string_roundtrip_witness:
  "\<exists>buf'. setUtf8String [9, 9, 9, 9, 9, 9, 9] [0x68, 0x69] = Some buf' \<and> length buf' = Suc (length [9 :: byte, 9, 9, 9, 9, 9])
    \<and> readNewUtf8String buf' = Some ([0x68, 0x69], Suc 1, [9])
    \<and> skipUtf8String buf' = Some [9]
    \<and> readUtf8String buf' [5, 5] = Some (2, [0x68, 0], [9])"
  using utf8_string_roundtrip [of "[0x68, 0x69]" "[9, 9, 9, 9, 9, 9, 9]" "[5, 5]"] by simp

end
