(* ===== verification/Retouch.thy ===== *)
theory Retouch
  imports Byte_Codec
begin

unbundle bit_operations_syntax

text \<open>
  \<^verbatim>\<open>minelf/Retouch.c\<close>: finding the relocation entries of a prelinked binary that was randomized
  ("retouched") on the device, and setting them to a given offset. The binary is a list of bytes of less
  than \<open>2\<^sup>31\<close> bytes; an access outside it is \<open>None\<close>.
\<close>

section \<open>Model\<close>

definition RETOUCH_DATA_ERROR :: int where "RETOUCH_DATA_ERROR = 0"
definition RETOUCH_DATA_MATCHED :: int where "RETOUCH_DATA_MATCHED = 1"
definition RETOUCH_DATA_MISMATCHED :: int where "RETOUCH_DATA_MISMATCHED = 2"
definition RETOUCH_DATA_NOTAPPLICABLE :: int where "RETOUCH_DATA_NOTAPPLICABLE = 3"

text \<open>The compression state: \<open>offs_prev\<close> and \<open>cont_prev\<close>.\<close>

type_synonym decoder = "u32 \<times> u32"

definition init_compression_state :: decoder where
  "init_compression_state = (0, 0)"

definition word_at :: "byte \<Rightarrow> u32" where
  "word_at b = ucast b"

definition decode_bytes :: "byte list \<Rightarrow> decoder \<Rightarrow> u32 \<times> u32" where
  "decode_bytes e prev =
     (let b = (\<lambda>i. word_at (e ! i)) in
      if length e = 2 then
        let tmp = push_bit 8 (b 0 AND 0x1f) OR b 1;
            tmp = (if tmp AND 0x1000 \<noteq> 0 then 0xffffe000 OR tmp else tmp)
        in (fst prev + (drop_bit 5 (b 0 AND 0x60) + 1) * 4, snd prev + tmp)
      else if length e = 3 then
        let tmp = push_bit 16 (b 0 AND 0x0f) OR push_bit 8 (b 1) OR b 2;
            tmp = (if tmp AND 0x80000 \<noteq> 0 then 0xfff00000 OR tmp else tmp)
        in (fst prev + (drop_bit 4 (b 0 AND 0x30) + 1) * 4, snd prev + tmp)
      else
        let off = push_bit 24 (b 0) OR push_bit 16 (b 1) OR push_bit 8 (b 2) OR b 3
        in (if off = 0x3fffffff then - 1 else off,
            push_bit 24 (b 4) OR push_bit 16 (b 5) OR push_bit 8 (b 6) OR b 7))"

definition input_size :: "byte \<Rightarrow> nat" where
  "input_size b0 = (if b0 AND 0x80 \<noteq> 0 then 2 else if b0 AND 0x40 \<noteq> 0 then 3 else 8)"

text \<open>The entry encoded at \<open>b_ptr\<close> and the position after it; the entry is also the new state.\<close>

definition decode_in_memory :: "byte list \<Rightarrow> nat \<Rightarrow> decoder \<Rightarrow> (nat \<times> u32 \<times> u32) option" where
  "decode_in_memory mem b_ptr prev =
     (if length mem \<le> b_ptr then None
      else let n = input_size (mem ! b_ptr) in
        if length mem < b_ptr + n then None
        else Some (b_ptr + n, decode_bytes (slice b_ptr n mem) prev))"

definition load32 :: "byte list \<Rightarrow> nat \<Rightarrow> u32 option" where
  "load32 mem a = get4LE (drop a mem)"

definition store32 :: "byte list \<Rightarrow> nat \<Rightarrow> u32 \<Rightarrow> byte list option" where
  "store32 mem a v = (if a + 4 \<le> length mem then Some (take a mem @ bytes4LE v @ drop (a + 4) mem) else None)"

text \<open>\<open>-1\<close> stands for the value in \<open>prelink_info_t\<close>.\<close>

definition entry_address :: "nat \<Rightarrow> u32 \<Rightarrow> nat" where
  "entry_address p_offs off = (if sint off = - 1 then p_offs else nat (sint off))"

text \<open>
  What the loop keeps: the binary, the compression state, the candidate for the offset (\<open>None\<close> until
  \<open>offset_set\<close>) and whether a different one was seen.
\<close>

record retouching =
  r_mem :: "byte list"
  r_prev :: decoder
  r_candidate :: "u32 option"
  r_mismatch :: bool

text \<open>One round at an entry: the new state, or the error return.\<close>

definition retouch_entry :: "u32 option \<Rightarrow> int \<Rightarrow> nat \<Rightarrow> u32 \<times> u32 \<Rightarrow> retouching \<Rightarrow> (retouching + byte list) option" where
  "retouch_entry desired b_offs p_offs = (\<lambda>(off, original) s.
     if sint off < - 1 \<or> b_offs \<le> sint off then Some (Inr (r_mem s))
     else let a = entry_address p_offs off in
       Option.bind (case desired of None \<Rightarrow> Some (r_mem s) | Some target \<Rightarrow> store32 (r_mem s) a (original + target)) (\<lambda>mem.
       Option.bind (load32 mem a) (\<lambda>v.
         let this = v - original in
         Some (Inl (case r_candidate s of
             None \<Rightarrow> s\<lparr>r_mem := mem, r_prev := (off, original), r_candidate := Some this\<rparr>
           | Some c \<Rightarrow> s\<lparr>r_mem := mem, r_prev := (off, original), r_mismatch := r_mismatch s \<or> c \<noteq> this\<rparr>)))))"

function retouch_loop ::
  "u32 option \<Rightarrow> int \<Rightarrow> nat \<Rightarrow> nat \<Rightarrow> nat \<Rightarrow> retouching \<Rightarrow> (retouching \<times> nat + byte list) option" where
  "retouch_loop desired b_offs r_offs p_offs b_ptr s =
     (if r_offs \<le> b_ptr then Some (Inl (s, b_ptr))
      else case decode_in_memory (r_mem s) b_ptr (r_prev s) of
        None \<Rightarrow> None
      | Some (b_ptr', entry) \<Rightarrow>
          (case retouch_entry desired b_offs p_offs entry s of
             None \<Rightarrow> None
           | Some (Inr mem) \<Rightarrow> Some (Inr mem)
           | Some (Inl s') \<Rightarrow> retouch_loop desired b_offs r_offs p_offs b_ptr' s'))"
  by pat_completeness auto
termination
  by (relation "measure (\<lambda>(desired, b_offs, r_offs, p_offs, b_ptr, s). r_offs - b_ptr)")
    (auto simp: decode_in_memory_def Let_def input_size_def split: if_splits)

declare retouch_loop.simps [simp del]

definition PRE_TAG :: "byte list" where "PRE_TAG = [80, 82, 69, 32]"
definition RETOUCH_TAG :: "byte list" where "RETOUCH_TAG = [82, 69, 84, 79, 85, 67, 72, 32]"

text \<open>
  \<open>retouch_mask_data\<close>: the result code, the binary and the value of \<open>*retouch_offset\<close>. \<open>blob_size\<close> is
  unsigned, so \<open>b_offs\<close> is computed modulo \<open>2\<^sup>32\<close>.
\<close>

definition retouch_mask_data :: "byte list \<Rightarrow> u32 option \<Rightarrow> (int \<times> byte list \<times> u32) option" where
  "retouch_mask_data mem desired =
     (let target = (case desired of None \<Rightarrow> 0 | Some t \<Rightarrow> t);
          unmatched = (if desired = None then RETOUCH_DATA_NOTAPPLICABLE else RETOUCH_DATA_MATCHED) in
      if length mem < 20 then Some (unmatched, mem, target)
      else let p_offs = length mem - 8; r_offs = p_offs - 12 in
        if slice (p_offs + 4) 4 mem \<noteq> PRE_TAG \<or> slice r_offs 8 mem \<noteq> RETOUCH_TAG then Some (unmatched, mem, target)
        else Option.bind (load32 mem (r_offs + 8)) (\<lambda>blob_size.
          let b_offs = sint (word_of_nat r_offs - blob_size :: u32) in
          if b_offs < 0 then Some (RETOUCH_DATA_ERROR, mem, target)
          else Option.bind
            (retouch_loop desired b_offs r_offs p_offs (nat b_offs)
               \<lparr>r_mem = mem, r_prev = init_compression_state, r_candidate = None, r_mismatch = False\<rparr>) (\<lambda>r.
            case r of
              Inr mem' \<Rightarrow> Some (RETOUCH_DATA_ERROR, mem', target)
            | Inl (s, b_ptr) \<Rightarrow>
                if r_offs < b_ptr then Some (RETOUCH_DATA_ERROR, r_mem s, target)
                else if r_mismatch s then Some (RETOUCH_DATA_MISMATCHED, r_mem s, target)
                else Some (RETOUCH_DATA_MATCHED, r_mem s, (case r_candidate s of None \<Rightarrow> target | Some c \<Rightarrow> c)))))"


section \<open>No access outside the binary\<close>

lemma input_size_le: "2 \<le> input_size b" "input_size b \<le> 8"
  by (simp_all add: input_size_def)

lemma decode_in_memory_ok:
  "b_ptr + 8 \<le> length mem \<Longrightarrow> \<exists>b e. decode_in_memory mem b_ptr prev = Some (b, e) \<and> b_ptr < b \<and> b \<le> b_ptr + 8"
  using input_size_le [of "mem ! b_ptr"] by (auto simp: decode_in_memory_def Let_def)

lemma load32_ok: "a + 4 \<le> length mem \<Longrightarrow> \<exists>v. load32 mem a = Some v"
  unfolding load32_def get4LE_def by (cases "drop a mem" rule: list.exhaust; auto split: list.splits dest!: arg_cong [where f = length])

lemma retouch_entry_ok:
  assumes "b_offs \<le> int (length (r_mem s)) - 4" "p_offs + 4 \<le> length (r_mem s)"
  shows "\<exists>r. retouch_entry desired b_offs p_offs e s = Some r \<and>
    (case r of Inl s' \<Rightarrow> length (r_mem s') = length (r_mem s) | Inr mem \<Rightarrow> length mem = length (r_mem s))"
proof -
  obtain off original where e: "e = (off, original)" by fastforce
  show ?thesis
  proof (cases "sint off < - 1 \<or> b_offs \<le> sint off")
    case True
    then show ?thesis by (simp add: e retouch_entry_def)
  next
    case False
    let ?a = "entry_address p_offs off"
    have a: "?a + 4 \<le> length (r_mem s)" using assms False by (auto simp: entry_address_def)
    have "\<exists>mem. (case desired of None \<Rightarrow> Some (r_mem s) | Some t \<Rightarrow> store32 (r_mem s) ?a (original + t)) = Some mem
        \<and> length mem = length (r_mem s)"
      using a by (auto simp: store32_def bytes4LE_def split: option.splits)
    then obtain mem where m: "(case desired of None \<Rightarrow> Some (r_mem s) | Some t \<Rightarrow> store32 (r_mem s) ?a (original + t)) = Some mem"
      "length mem = length (r_mem s)" by blast
    moreover from a m(2) obtain v where "load32 mem ?a = Some v" using load32_ok by metis
    ultimately show ?thesis using False by (simp add: e retouch_entry_def Let_def split: option.split)
  qed
qed

lemma retouch_loop_ok:
  assumes "b_offs \<le> int (length mem) - 4" "p_offs + 4 \<le> length mem" "r_offs + 8 \<le> length mem"
  shows "length (r_mem s) = length mem \<Longrightarrow> retouch_loop desired b_offs r_offs p_offs b_ptr s \<noteq> None"
proof (induction "r_offs - b_ptr" arbitrary: b_ptr s rule: less_induct)
  case less
  note loop = retouch_loop.simps [of desired b_offs r_offs p_offs b_ptr s]
  show ?case
  proof (cases "r_offs \<le> b_ptr")
    case True
    then show ?thesis by (simp add: loop)
  next
    case False
    then have "b_ptr + 8 \<le> length (r_mem s)" using assms(3) less.prems by simp
    then obtain b e where d: "decode_in_memory (r_mem s) b_ptr (r_prev s) = Some (b, e)" "b_ptr < b"
      using decode_in_memory_ok by blast
    obtain r where r: "retouch_entry desired b_offs p_offs e s = Some r"
      "case r of Inl s' \<Rightarrow> length (r_mem s') = length (r_mem s) | Inr mem \<Rightarrow> length mem = length (r_mem s)"
      using retouch_entry_ok [of b_offs s p_offs desired e] assms(1,2) less.prems by auto
    have "r_offs - b < r_offs - b_ptr" using False d(2) by simp
    with less.hyps [of b] False d r less.prems show ?thesis by (cases r) (auto simp: loop)
  qed
qed



section \<open>Masking forgets the randomization\<close>

text \<open>The entries a relocation list encodes, and where their encoding ends.\<close>

function entries :: "byte list \<Rightarrow> nat \<Rightarrow> nat \<Rightarrow> decoder \<Rightarrow> (u32 \<times> u32) list \<times> nat" where
  "entries mem r_offs b_ptr prev =
     (if r_offs \<le> b_ptr then ([], b_ptr)
      else case decode_in_memory mem b_ptr prev of
        None \<Rightarrow> ([], b_ptr)
      | Some (b, e) \<Rightarrow> (case entries mem r_offs b e of (es, n) \<Rightarrow> (e # es, n)))"
  by pat_completeness auto
termination
  by (relation "measure (\<lambda>(mem, r_offs, b_ptr, prev). r_offs - b_ptr)")
    (auto simp: decode_in_memory_def Let_def input_size_def split: if_splits)

declare entries.simps [simp del]

text \<open>Every entry is a word below the list of entries, or the one in \<open>prelink_info_t\<close>.\<close>

definition clear :: "int \<Rightarrow> u32 \<times> u32 \<Rightarrow> bool" where
  "clear b_offs e \<longleftrightarrow> sint (fst e) = - 1 \<or> 0 \<le> sint (fst e) \<and> sint (fst e) + 4 \<le> b_offs"

definition put_entry :: "nat \<Rightarrow> u32 \<Rightarrow> u32 \<times> u32 \<Rightarrow> byte list \<Rightarrow> byte list" where
  "put_entry p_offs t e mem =
     (let a = entry_address p_offs (fst e) in take a mem @ bytes4LE (snd e + t) @ drop (a + 4) mem)"

definition covers :: "nat \<Rightarrow> u32 \<times> u32 \<Rightarrow> nat \<Rightarrow> bool" where
  "covers p_offs e i \<longleftrightarrow> entry_address p_offs (fst e) \<le> i \<and> i < entry_address p_offs (fst e) + 4"

text \<open>What masking leaves as it is: everything from the list on, apart from the prelink address.\<close>

definition framed :: "int \<Rightarrow> nat \<Rightarrow> byte list \<Rightarrow> byte list \<Rightarrow> bool" where
  "framed b_offs p_offs m m' \<longleftrightarrow> length m' = length m \<and>
     (\<forall>i < length m. b_offs \<le> int i \<and> \<not> (p_offs \<le> i \<and> i < p_offs + 4) \<longrightarrow> m' ! i = m ! i)"

lemma length_put_entry: "entry_address p_offs (fst e) + 4 \<le> length m \<Longrightarrow> length (put_entry p_offs t e m) = length m"
  by (simp add: put_entry_def Let_def bytes4LE_def)

lemma put_entry_nth:
  assumes "entry_address p_offs (fst e) + 4 \<le> length m" "i < length m"
  shows "put_entry p_offs t e m ! i =
    (if covers p_offs e i then bytes4LE (snd e + t) ! (i - entry_address p_offs (fst e)) else m ! i)"
  using assms by (auto simp: put_entry_def Let_def covers_def nth_append le32.put_length min_def)

lemma clear_address:
  assumes "clear b_offs e" "b_offs \<le> int p_offs" "p_offs + 4 \<le> length m"
  shows "entry_address p_offs (fst e) + 4 \<le> length m"
    and "covers p_offs e i \<Longrightarrow> int i < b_offs \<or> p_offs \<le> i \<and> i < p_offs + 4"
  using assms by (auto simp: clear_def entry_address_def covers_def)

lemma framed_put:
  assumes "clear b_offs e" "b_offs \<le> int p_offs" "p_offs + 4 \<le> length m"
  shows "framed b_offs p_offs m (put_entry p_offs t e m)"
  using clear_address(1) [OF assms] by (auto simp: framed_def length_put_entry put_entry_nth dest: clear_address(2) [OF assms])

lemma framed_trans: "framed b p m1 m2 \<Longrightarrow> framed b p m2 m3 \<Longrightarrow> framed b p m1 m3"
  by (simp add: framed_def)

lemma framed_slice:
  assumes "framed b_offs p_offs m m'" "b_offs \<le> int i" "i + n \<le> p_offs \<or> p_offs + 4 \<le> i"
  shows "slice i n m' = slice i n m"
proof (rule nth_equalityI)
  show "length (slice i n m') = length (slice i n m)" using assms(1) by (simp add: framed_def)
next
  fix k assume "k < length (slice i n m')"
  then have k: "k < n" "i + k < length m" "i + k < length m'" using assms(1) by (auto simp: framed_def)
  then have "m' ! (i + k) = m ! (i + k)" using assms unfolding framed_def by auto
  with k show "slice i n m' ! k = slice i n m ! k" by (simp add: slice_def)
qed

lemma framed_decode:
  assumes f: "framed b_offs p_offs m m'" and "b_offs \<le> int b_ptr" "b_ptr + 8 \<le> p_offs" "p_offs + 4 \<le> length m"
  shows "decode_in_memory m' b_ptr prev = decode_in_memory m b_ptr prev"
proof -
  have l: "length m' = length m" using f by (simp add: framed_def)
  have "m' ! b_ptr = m ! b_ptr" using f assms(2-) by (simp add: framed_def)
  moreover have "slice b_ptr (input_size (m ! b_ptr)) m' = slice b_ptr (input_size (m ! b_ptr)) m"
    using input_size_le [of "m ! b_ptr"] assms by (intro framed_slice [OF f]) auto
  ultimately show ?thesis by (simp add: decode_in_memory_def l Let_def)
qed

text \<open>Writing the same entries over two binaries that differ only where they write gives the same.\<close>

lemma fold_put_same:
  "\<forall>e \<in> set es. entry_address p_offs (fst e) + 4 \<le> length m \<Longrightarrow> length m' = length m \<Longrightarrow>
   (\<And>i. i < length m \<Longrightarrow> \<not> (\<exists>e \<in> set es. covers p_offs e i) \<Longrightarrow> m' ! i = m ! i) \<Longrightarrow>
   fold (put_entry p_offs t) es m' = fold (put_entry p_offs t) es m"
proof (induction es arbitrary: m m')
  case Nil
  then show ?case by (simp add: nth_equalityI)
next
  case (Cons e es)
  show ?case unfolding fold_simps
    by (rule Cons.IH) (use Cons.prems in \<open>auto simp: length_put_entry put_entry_nth\<close>)
qed

lemma fold_put_other:
  "\<forall>e \<in> set es. entry_address p_offs (fst e) + 4 \<le> length m \<Longrightarrow> i < length m \<Longrightarrow>
   length (fold (put_entry p_offs t) es m) = length m \<and>
   (\<not> (\<exists>e \<in> set es. covers p_offs e i) \<longrightarrow> fold (put_entry p_offs t) es m ! i = m ! i)"
proof (induction es arbitrary: m)
  case (Cons e es)
  then show ?case by (auto simp: length_put_entry put_entry_nth)
qed simp


lemma retouch_entry_puts:
  assumes c: "clear b_offs e" and b: "0 \<le> b_offs" "b_offs \<le> int p_offs" "p_offs + 4 \<le> length (r_mem s)"
    and s: "r_candidate s \<in> {None, Some t}" "\<not> r_mismatch s"
  shows "retouch_entry (Some t) b_offs p_offs e s =
    Some (Inl (s\<lparr>r_mem := put_entry p_offs t e (r_mem s), r_prev := e, r_candidate := Some t\<rparr>))"
proof -
  let ?a = "entry_address p_offs (fst e)" and ?m = "put_entry p_offs t e (r_mem s)"
  have a: "?a + 4 \<le> length (r_mem s)" using clear_address(1) [OF c b(2,3)] .
  have "store32 (r_mem s) ?a (snd e + t) = Some ?m" using a by (simp add: store32_def put_entry_def Let_def)
  moreover have "load32 ?m ?a = Some (snd e + t)"
    using a by (simp add: load32_def put_entry_def Let_def le32.get_put)
  moreover have "\<not> (sint (fst e) < - 1 \<or> b_offs \<le> sint (fst e))" using c b(1) by (auto simp: clear_def)
  ultimately show ?thesis using s by (cases e) (auto simp: retouch_entry_def Let_def)
qed

lemma retouch_loop_puts:
  assumes b: "0 \<le> b_offs" "r_offs + 12 = p_offs" "p_offs + 8 = length mem"
  shows "entries mem r_offs b_ptr (r_prev s) = (es, n) \<Longrightarrow> \<forall>e \<in> set es. clear b_offs e \<Longrightarrow>
    framed b_offs p_offs mem (r_mem s) \<Longrightarrow> b_offs \<le> int b_ptr \<Longrightarrow> r_candidate s \<in> {None, Some t} \<Longrightarrow> \<not> r_mismatch s \<Longrightarrow>
    \<exists>s'. retouch_loop (Some t) b_offs r_offs p_offs b_ptr s = Some (Inl (s', n)) \<and> r_mem s' = fold (put_entry p_offs t) es (r_mem s)
      \<and> \<not> r_mismatch s' \<and> r_candidate s' = (if es = [] then r_candidate s else Some t)"
proof (induction "r_offs - b_ptr" arbitrary: b_ptr s es rule: less_induct)
  case less
  note loop = retouch_loop.simps [of "Some t" b_offs r_offs p_offs b_ptr s]
    and ents = less.prems(1) [unfolded entries.simps [of mem r_offs b_ptr]]
  show ?case
  proof (cases "r_offs \<le> b_ptr")
    case True
    then have "es = []" "n = b_ptr" using ents by auto
    moreover have "retouch_loop (Some t) b_offs r_offs p_offs b_ptr s = Some (Inl (s, b_ptr))" using True by (simp add: loop)
    ultimately show ?thesis using less.prems by auto
  next
    case False
    have l: "length (r_mem s) = length mem" using less.prems(3) by (simp add: framed_def)
    obtain b1 e where d: "decode_in_memory mem b_ptr (r_prev s) = Some (b1, e)" "b_ptr < b1"
      using decode_in_memory_ok [of b_ptr mem "r_prev s"] False b by fastforce
    then have d': "decode_in_memory (r_mem s) b_ptr (r_prev s) = Some (b1, e)"
      using framed_decode [OF less.prems(3,4)] False b by simp
    obtain es1 where es: "entries mem r_offs b1 e = (es1, n)" "es = e # es1"
      using ents False d(1) by (auto split: prod.splits)
    have c: "clear b_offs e" "\<forall>e \<in> set es1. clear b_offs e" using less.prems(2) es(2) by auto
    have bp: "b_offs \<le> int p_offs" using less.prems(4) False b by simp
    let ?s = "s\<lparr>r_mem := put_entry p_offs t e (r_mem s), r_prev := e, r_candidate := Some t\<rparr>"
    have step: "retouch_entry (Some t) b_offs p_offs e s = Some (Inl ?s)"
      using retouch_entry_puts [OF c(1) b(1) bp _ less.prems(5,6)] l b by simp
    have fr: "framed b_offs p_offs mem (r_mem ?s)"
      using framed_trans [OF less.prems(3) framed_put [OF c(1) bp]] l b by simp
    have "\<exists>s'. retouch_loop (Some t) b_offs r_offs p_offs b1 ?s = Some (Inl (s', n)) \<and>
        r_mem s' = fold (put_entry p_offs t) es1 (r_mem ?s) \<and> \<not> r_mismatch s' \<and> r_candidate s' = (if es1 = [] then r_candidate ?s else Some t)"
      by (rule less.hyps) (use False d(2) es(1) c(2) fr less.prems in simp_all)
    then show ?thesis using False d' step es(2) by (auto simp: loop)
  qed
qed

text \<open>A binary with relocation entries: the start of the list, the list, and that it is as it should be.\<close>

definition blob_start :: "byte list \<Rightarrow> int" where
  "blob_start mem = sint (word_of_nat (length mem - 20) - the (load32 mem (length mem - 12)) :: u32)"

definition relocs :: "byte list \<Rightarrow> (u32 \<times> u32) list \<times> nat" where
  "relocs mem = entries mem (length mem - 20) (nat (blob_start mem)) init_compression_state"

definition well_retouched :: "byte list \<Rightarrow> bool" where
  "well_retouched mem \<longleftrightarrow> 20 \<le> length mem \<and> slice (length mem - 4) 4 mem = PRE_TAG \<and>
     slice (length mem - 20) 8 mem = RETOUCH_TAG \<and> 0 \<le> blob_start mem \<and>
     snd (relocs mem) = length mem - 20 \<and> list_all (clear (blob_start mem)) (fst (relocs mem))"

lemma retouch_mask_data_puts:
  assumes w: "well_retouched mem"
  shows "retouch_mask_data mem (Some t) =
    Some (RETOUCH_DATA_MATCHED, fold (put_entry (length mem - 8) t) (fst (relocs mem)) mem, t)"
proof -
  define p_offs where "p_offs = length mem - 8"
  define r_offs where "r_offs = length mem - 20"
  have o: "p_offs + 8 = length mem" "r_offs + 12 = p_offs" using w by (auto simp: p_offs_def r_offs_def well_retouched_def)
  have idx: "length mem - 4 = p_offs + 4" "length mem - 12 = r_offs + 8" "p_offs - 12 = r_offs" using o by auto
  obtain blob where blob: "load32 mem (r_offs + 8) = Some blob" using load32_ok o by fastforce
  define s where "s = \<lparr>r_mem = mem, r_prev = init_compression_state, r_candidate = None, r_mismatch = False\<rparr>"
  have bs: "blob_start mem = sint (word_of_nat r_offs - blob :: u32)"
    by (simp add: blob_start_def idx blob flip: r_offs_def)
  obtain es where es: "entries mem r_offs (nat (blob_start mem)) (r_prev s) = (es, r_offs)" "fst (relocs mem) = es"
    using w by (cases "relocs mem") (auto simp: well_retouched_def relocs_def s_def r_offs_def)
  have "\<exists>s'. retouch_loop (Some t) (blob_start mem) r_offs p_offs (nat (blob_start mem)) s = Some (Inl (s', r_offs)) \<and>
      r_mem s' = fold (put_entry p_offs t) es (r_mem s) \<and> \<not> r_mismatch s' \<and> r_candidate s' = (if es = [] then r_candidate s else Some t)"
    using w es o by (intro retouch_loop_puts [OF _ o(2,1) es(1)])
      (auto simp: well_retouched_def s_def framed_def list_all_iff)
  then obtain s' where "retouch_loop (Some t) (sint (word_of_nat r_offs - blob :: u32)) r_offs p_offs (nat (sint (word_of_nat r_offs - blob :: u32))) s = Some (Inl (s', r_offs))"
    "r_mem s' = fold (put_entry p_offs t) es mem" "\<not> r_mismatch s'" "r_candidate s' = None \<or> r_candidate s' = Some t"
    unfolding bs by (auto simp: s_def split: if_splits)
  moreover have "slice (p_offs + 4) 4 mem = PRE_TAG" "slice r_offs 8 mem = RETOUCH_TAG" "\<not> length mem < 20"
    "\<not> sint (word_of_nat r_offs - blob :: u32) < 0"
    using w bs by (auto simp: well_retouched_def idx r_offs_def [symmetric])
  ultimately show ?thesis
    by (auto simp: retouch_mask_data_def Let_def blob es(2) idx(3) simp flip: p_offs_def s_def)
qed

lemma entries_framed:
  assumes "r_offs + 8 \<le> p_offs" "p_offs + 4 \<le> length m" "framed b_offs p_offs m m'"
  shows "b_offs \<le> int b_ptr \<Longrightarrow> entries m' r_offs b_ptr prev = entries m r_offs b_ptr prev"
proof (induction "r_offs - b_ptr" arbitrary: b_ptr prev rule: less_induct)
  case less
  show ?case
  proof (cases "r_offs \<le> b_ptr")
    case True
    then show ?thesis by (simp add: entries.simps)
  next
    case False
    then have eq: "decode_in_memory m' b_ptr prev = decode_in_memory m b_ptr prev"
      using framed_decode [OF assms(3) less.prems] assms(1,2) by simp
    obtain b e where d: "decode_in_memory m b_ptr prev = Some (b, e)" "b_ptr < b"
      using decode_in_memory_ok [of b_ptr m prev] False assms by fastforce
    have "entries m' r_offs b e = entries m r_offs b e" using False d(2) less.prems by (intro less.hyps) auto
    then show ?thesis using False d(1) eq by (simp add: entries.simps [of _ r_offs b_ptr])
  qed
qed

lemma well_retouched_framed:
  assumes w: "well_retouched m" and f: "framed (blob_start m) (length m - 8) m m'" and b: "blob_start m \<le> int (length m) - 20"
  shows "well_retouched m' \<and> relocs m' = relocs m"
proof -
  have l: "length m' = length m" "20 \<le> length m" using w f by (auto simp: framed_def well_retouched_def)
  have s: "slice i n m' = slice i n m" if "length m - 20 \<le> i" "i + n \<le> length m - 8 \<or> length m - 4 \<le> i" for i n
    using that l b by (intro framed_slice [OF f]) auto
  have "slice (length m - 12) 4 m' = slice (length m - 12) 4 m" using l by (intro s) auto
  then have "take 4 (drop (length m - 12) m') = take 4 (drop (length m - 12) m)" by (simp add: slice_def)
  then have "load32 m' (length m - 12) = load32 m (length m - 12)"
    unfolding load32_def by (metis get4LE_take order_refl)
  then have bs: "blob_start m' = blob_start m" by (simp add: blob_start_def l)
  have "relocs m' = relocs m"
    unfolding relocs_def bs l using l b w f by (intro entries_framed) (auto simp: well_retouched_def)
  moreover have "slice (length m - 4) 4 m' = slice (length m - 4) 4 m" "slice (length m - 20) 8 m' = slice (length m - 20) 8 m"
    using l by (auto intro!: s)
  ultimately show ?thesis using w by (simp add: well_retouched_def bs l)
qed


lemma well_retouched_start:
  assumes "well_retouched m"
  shows "blob_start m \<le> int (length m) - 20"
proof (rule ccontr)
  assume "\<not> ?thesis"
  then have "length m - 20 < nat (blob_start m)" using assms by (auto simp: well_retouched_def)
  then have "snd (relocs m) = nat (blob_start m)" by (simp add: relocs_def entries.simps)
  with \<open>length m - 20 < nat (blob_start m)\<close> assms show False by (simp add: well_retouched_def)
qed

text \<open>
  C28: in a well-formed retouched binary, setting the entries to an offset succeeds and reports that
  offset, and what the entries held before does not matter: setting them to one offset and then to
  another is setting them to the second one. So the masked contents, and the SHA-1 that is checked
  before patching, do not depend on the randomization of the device.
\<close>

theorem masking_forgets_randomization:
  assumes w: "well_retouched mem"
  shows "\<exists>m1 m2. retouch_mask_data mem (Some t1) = Some (RETOUCH_DATA_MATCHED, m1, t1) \<and>
    retouch_mask_data mem (Some t2) = Some (RETOUCH_DATA_MATCHED, m2, t2) \<and>
    retouch_mask_data m1 (Some t2) = Some (RETOUCH_DATA_MATCHED, m2, t2)"
proof -
  let ?p = "length mem - 8" and ?es = "fst (relocs mem)"
  let ?m1 = "fold (put_entry ?p t1) ?es mem"
  have c: "\<forall>e \<in> set ?es. clear (blob_start mem) e" and l: "20 \<le> length mem"
    using w by (auto simp: well_retouched_def list_all_iff)
  note b = well_retouched_start [OF w]
  have a: "\<forall>e \<in> set ?es. entry_address ?p (fst e) + 4 \<le> length mem"
    using c l b by (auto intro!: clear_address(1))
  note other = fold_put_other [OF a, where t = t1]
  have len: "length ?m1 = length mem" using other [of 0] l by (cases mem) auto
  have "framed (blob_start mem) ?p mem ?m1"
    unfolding framed_def using len other c clear_address(2) [of "blob_start mem" _ ?p mem] l b by fastforce
  from well_retouched_framed [OF w this b] have w1: "well_retouched ?m1" "relocs ?m1 = relocs mem" by auto
  have "fold (put_entry ?p t2) ?es ?m1 = fold (put_entry ?p t2) ?es mem"
    using other len by (intro fold_put_same [OF a]) auto
  then show ?thesis using retouch_mask_data_puts [OF w] retouch_mask_data_puts [OF w1(1)] w1(2) len by simp
qed

definition sample_binary :: "byte list" where
  "sample_binary = [7, 1, 0, 0, 11, 1, 0, 0] @ [0, 0, 0, 0, 0, 0, 1, 0, 0x80, 4, 0x3f, 0xff, 0xff, 0xff, 0, 0, 0x20, 0] @
     RETOUCH_TAG @ [18, 0, 0, 0] @ [7, 0x20, 0, 0] @ PRE_TAG"

theorem masking_forgets_randomization_witness:
  "well_retouched sample_binary \<and>
   (\<exists>m1 m2. retouch_mask_data sample_binary (Some 0x1000) = Some (RETOUCH_DATA_MATCHED, m1, 0x1000) \<and>
    retouch_mask_data sample_binary (Some 0) = Some (RETOUCH_DATA_MATCHED, m2, 0) \<and>
    retouch_mask_data m1 (Some 0) = Some (RETOUCH_DATA_MATCHED, m2, 0))"
proof -
  have "well_retouched sample_binary" by code_simp
  then show ?thesis using masking_forgets_randomization by blast
qed

end
