(* ===== verification/Sinks.thy ===== *)
theory Sinks
  imports Recovery_Prelude
begin

text \<open>
  Where the patchers of \<^verbatim>\<open>applypatch/\<close> send their output: \<open>FileSink\<close> and \<open>MemorySink\<close> of
  \<^verbatim>\<open>applypatch/applypatch.c\<close>, and the contract \<open>SinkFn\<close> stands for, as the locale \<open>byte_sink\<close>.
\<close>

section \<open>Model\<close>

text \<open>A sink takes the bytes and its token; the result is the number of bytes it took.\<close>

type_synonym 't sink = "byte list \<Rightarrow> 't \<Rightarrow> int \<times> 't"

text \<open>
  \<open>FileSink\<close>: \<open>wr\<close> is the system call \<open>write\<close> on the descriptor, which may take less than it is
  given. \<open>done\<close> is what has been written so far, \<open>data\<close> the rest.
\<close>

function FileSink_loop :: "'f sink \<Rightarrow> int \<Rightarrow> byte list \<Rightarrow> 'f \<Rightarrow> int \<times> 'f" where
  "FileSink_loop wr dn data f =
     (if data = [] then (dn, f)
      else case wr data f of (wrote, f') \<Rightarrow>
        if wrote \<le> 0 then (dn, f')
        else FileSink_loop wr (dn + wrote) (drop (nat wrote) data) f')"
  by pat_completeness auto
termination
  by (relation "measure (\<lambda>(wr, dn, data, f). length data)") auto

declare FileSink_loop.simps [simp del]

definition FileSink :: "'f sink \<Rightarrow> 'f sink" where
  "FileSink wr data f = FileSink_loop wr 0 data f"

record MemorySinkInfo =
  msi_buffer :: "byte list"
  msi_size :: int
  msi_pos :: int

definition MemorySink :: "MemorySinkInfo sink" where
  "MemorySink data msi =
     (if msi_size msi - msi_pos msi < int (length data) then (- 1, msi)
      else (int (length data),
            msi\<lparr>msi_buffer := take (nat (msi_pos msi)) (msi_buffer msi) @ data @
                  drop (nat (msi_pos msi) + length data) (msi_buffer msi),
                msi_pos := msi_pos msi + int (length data)\<rparr>))"

section \<open>The contract\<close>

locale byte_sink =
  fixes sink :: "'t sink"
    and inv :: "'t \<Rightarrow> bool"
    and taken :: "'t \<Rightarrow> byte list"
    and room :: "'t \<Rightarrow> nat"
  assumes sink_takes: "inv t \<Longrightarrow> length d \<le> room t \<Longrightarrow>
    \<exists>t'. sink d t = (int (length d), t') \<and> inv t' \<and> taken t' = taken t @ d \<and> room t' = room t - length d"
begin

lemma sink_takesE:
  assumes "inv t" "length d \<le> room t"
  obtains t' where "sink d t = (int (length d), t')" "inv t'" "taken t' = taken t @ d"
    "room t' = room t - length d"
  using sink_takes [OF assms] by blast

end

section \<open>The sinks of applypatch keep it\<close>

definition msi_inv :: "MemorySinkInfo \<Rightarrow> bool" where
  "msi_inv m \<longleftrightarrow> msi_size m = int (length (msi_buffer m)) \<and> 0 \<le> msi_pos m \<and> msi_pos m \<le> msi_size m"

definition msi_taken :: "MemorySinkInfo \<Rightarrow> byte list" where
  "msi_taken m = take (nat (msi_pos m)) (msi_buffer m)"

definition msi_room :: "MemorySinkInfo \<Rightarrow> nat" where
  "msi_room m = nat (msi_size m - msi_pos m)"

interpretation mem_sink: byte_sink MemorySink msi_inv msi_taken msi_room
proof
  fix t :: MemorySinkInfo and d :: "byte list"
  assume inv: "msi_inv t" and le: "length d \<le> msi_room t"
  let ?t = "snd (MemorySink d t)"
  from inv le have "MemorySink d t = (int (length d), ?t)"
    by (auto simp: MemorySink_def msi_inv_def msi_room_def)
  moreover from inv le have "msi_inv ?t" "msi_taken ?t = msi_taken t @ d" "msi_room ?t = msi_room t - length d"
    by (auto simp: MemorySink_def msi_inv_def msi_room_def msi_taken_def nat_add_distrib)
  ultimately show "\<exists>t'. MemorySink d t = (int (length d), t') \<and> msi_inv t' \<and> msi_taken t' = msi_taken t @ d
      \<and> msi_room t' = msi_room t - length d" by blast
qed

text \<open>
  \<open>write\<close> on a file with room: it takes at least one byte and at most what it is given, in order.
\<close>

definition write_law :: "'f sink \<Rightarrow> ('f \<Rightarrow> byte list) \<Rightarrow> ('f \<Rightarrow> nat) \<Rightarrow> bool" where
  "write_law wr taken room \<longleftrightarrow> (\<forall>f d. d \<noteq> [] \<and> length d \<le> room f \<longrightarrow>
     (case wr d f of (n, f') \<Rightarrow> 0 < n \<and> n \<le> int (length d) \<and> taken f' = taken f @ take (nat n) d
        \<and> room f' = room f - nat n))"

lemma FileSink_loop_takes:
  assumes "write_law wr taken room"
  shows "length d \<le> room f \<Longrightarrow>
    \<exists>f'. FileSink_loop wr dn d f = (dn + int (length d), f') \<and> taken f' = taken f @ d \<and> room f' = room f - length d"
proof (induction "length d" arbitrary: d f dn rule: less_induct)
  case less
  show ?case
  proof (cases "d = []")
    case True
    then show ?thesis by (simp add: FileSink_loop.simps)
  next
    case False
    obtain n f' where w: "wr d f = (n, f')" by (cases "wr d f")
    with assms False less.prems have n: "0 < n" "n \<le> int (length d)" and f': "taken f' = taken f @ take (nat n) d"
      "room f' = room f - nat n"
      unfolding write_law_def by (auto split: prod.splits)
    have "length (drop (nat n) d) < length d" "length (drop (nat n) d) \<le> room f'"
      using n f'(2) less.prems by auto
    from less.hyps [OF this] obtain f'' where
      "FileSink_loop wr (dn + n) (drop (nat n) d) f' = (dn + n + int (length (drop (nat n) d)), f'')"
      "taken f'' = taken f' @ drop (nat n) d" "room f'' = room f' - length (drop (nat n) d)" by blast
    with False n f' w show ?thesis
      by (auto simp: FileSink_loop.simps [of wr dn d f] nat_le_iff)
  qed
qed

text \<open>
  whatever way \<open>write\<close> splits the data, \<open>FileSink\<close> over it is a sink: while the file has room it
  reports the full length and the file holds the data, each byte once and in order.
\<close>

theorem FileSink_byte_sink:
  assumes "write_law wr taken room"
  shows "byte_sink (FileSink wr) (\<lambda>_. True) taken room"
  using FileSink_loop_takes [OF assms, where dn = 0] by unfold_locales (simp add: FileSink_def)

theorem FileSink_byte_sink_witness:
  "byte_sink (FileSink (\<lambda>d (f, r). (int (min 2 (length d)), (f @ take 2 d, r - min 2 (length d)))))
     (\<lambda>_. True) fst (snd :: byte list \<times> nat \<Rightarrow> nat)"
  by (rule FileSink_byte_sink) (auto simp: write_law_def min_def split: prod.splits)

end
