(* ===== verification/Patch_Files.thy ===== *)
theory Patch_Files
  imports Freecache Mtd_Flash Retouch Sinks "HOL-Library.Multiset"
begin

text \<open>
  Loading and saving what \<open>applypatch\<close> works on: the file and partition functions of
  \<^verbatim>\<open>applypatch/applypatch.c\<close>. Parameters are the system calls, the SHA-1 functions of \<open>mincrypt\<close>
  (a context, its update and the digest) and \<open>qsort\<close>.
\<close>

section \<open>State and parameters\<close>

record ('w, 'c) env =
  os_of :: "'w os"
  SHA_init :: 'c
  SHA_update :: "'c \<Rightarrow> byte list \<Rightarrow> 'c"
  SHA_final :: "'c \<Rightarrow> byte list"
  qsort :: "(nat \<Rightarrow> int) \<Rightarrow> nat list \<Rightarrow> nat list"

definition SHA :: "('w, 'c) env \<Rightarrow> byte list \<Rightarrow> byte list" where
  "SHA E data = SHA_final E (SHA_update E (SHA_init E) data)"

text \<open>The static variables of the program, and the machine.\<close>

record 'w prog =
  mtd_partitions_scanned :: bool
  mtd_state :: MtdState
  world :: 'w

text \<open>\<open>FileContents\<close>; \<open>None\<close> is an object that is not initialized (for the data, also \<open>NULL\<close>).\<close>

record FileContents =
  fc_sha1 :: "byte list option"
  fc_data :: "byte list option"
  fc_size :: "int option"
  fc_st :: "(int \<times> int \<times> int) option"

definition uninit :: FileContents where
  "uninit = \<lparr>fc_sha1 = None, fc_data = None, fc_size = None, fc_st = None\<rparr>"

section \<open>Digests\<close>

definition SHA_DIGEST_SIZE :: nat where "SHA_DIGEST_SIZE = 20"

text \<open>\<open>ParseSha1\<close>: exactly forty hexadecimal digits, two to a byte.\<close>

fun parse_digits :: "nat \<Rightarrow> string \<Rightarrow> (byte list \<times> string) option" where
  "parse_digits 0 s = Some ([], s)"
| "parse_digits (Suc n) s =
     (case s of
        a # b # s' \<Rightarrow>
          (case (hex_digit a, hex_digit b) of
             (Some h, Some l) \<Rightarrow>
               (case parse_digits n s' of
                  None \<Rightarrow> None
                | Some (d, r) \<Rightarrow> Some (or (push_bit 4 (word_of_int h)) (word_of_int l) # d, r))
           | _ \<Rightarrow> None)
      | _ \<Rightarrow> None)"

definition ParseSha1 :: "string \<Rightarrow> byte list option" where
  "ParseSha1 str =
     (case parse_digits SHA_DIGEST_SIZE str of
        Some (digest, []) \<Rightarrow> Some digest
      | _ \<Rightarrow> None)"

text \<open>\<open>FindMatchingPatch\<close>: the index of the first digest that matches.\<close>

fun FindMatchingPatch :: "byte list \<Rightarrow> string list \<Rightarrow> nat option" where
  "FindMatchingPatch sha1 [] = None"
| "FindMatchingPatch sha1 (p # ps) =
     (if ParseSha1 p = Some sha1 then Some 0 else map_option Suc (FindMatchingPatch sha1 ps))"

section \<open>Partitions\<close>

datatype PartitionType = MTD | EMMC

text \<open>The tokens \<open>strtok(copy, ":")\<close> returns one after the other.\<close>

fun split_colon :: "string \<Rightarrow> string list" where
  "split_colon [] = [[]]"
| "split_colon (c # s) =
     (if c = CHR '':'' then [] # split_colon s
      else case split_colon s of t # ts \<Rightarrow> (c # t) # ts | [] \<Rightarrow> [[c]])"

definition strtok_colon :: "string \<Rightarrow> string list" where
  "strtok_colon s = filter (\<lambda>t. t \<noteq> []) (split_colon s)"

definition is_partition :: "string \<Rightarrow> bool" where
  "is_partition filename \<longleftrightarrow> take 4 filename = ''MTD:'' \<or> take 5 filename = ''EMMC:''"

definition partition_type :: "string \<Rightarrow> PartitionType option" where
  "partition_type magic = (if magic = ''MTD'' then Some MTD else if magic = ''EMMC'' then Some EMMC else None)"

text \<open>
  The pairs of size and digest after the partition's name; \<open>Some None\<close> is the error return for a zero
  size. A missing size is a null pointer given to \<open>strtol\<close>; a missing digest is kept as \<open>None\<close>.
\<close>

fun size_pairs :: "nat \<Rightarrow> string list \<Rightarrow> (int \<times> string option) list option option" where
  "size_pairs 0 ts = Some (Some [])"
| "size_pairs (Suc n) [] = None"
| "size_pairs (Suc n) (t # ts) =
     (let sz = fst (strtol t) mod 2 ^ 32 in
      if sz = 0 then Some None
      else case size_pairs n (tl ts) of
        Some (Some ps) \<Rightarrow> Some (Some ((sz, case ts of [] \<Rightarrow> None | s # _ \<Rightarrow> Some s) # ps))
      | r \<Rightarrow> r)"

text \<open>An open partition: a read context or a stdio stream.\<close>

datatype handle = MtdHandle MtdReadContext | DevHandle int

definition scan_once :: "'w os \<Rightarrow> 'w prog \<Rightarrow> 'w prog option" where
  "scan_once sys s =
     (if mtd_partitions_scanned s then Some s
      else Option.bind (mtd_scan_partitions sys (mtd_state s) (world s)) (\<lambda>(_, st, w).
           Some (s\<lparr>mtd_partitions_scanned := True, mtd_state := st, world := w\<rparr>)))"

definition open_partition ::
  "'w os \<Rightarrow> PartitionType \<Rightarrow> string \<Rightarrow> 'w prog \<Rightarrow> (handle option \<times> 'w prog) option" where
  "open_partition sys type part s =
     (case type of
        MTD \<Rightarrow>
          Option.bind (scan_once sys s) (\<lambda>s.
          case mtd_find_partition_by_name (mtd_state s) part of
            None \<Rightarrow> Some (None, s)
          | Some mtd \<Rightarrow>
              (case mtd_read_partition sys mtd (world s) of (c, w) \<Rightarrow> Some (map_option MtdHandle c, s\<lparr>world := w\<rparr>)))
      | EMMC \<Rightarrow>
          (case os_fopen sys part False (world s) of (f, w) \<Rightarrow> Some (map_option DevHandle f, s\<lparr>world := w\<rparr>)))"

definition partition_read ::
  "'w os \<Rightarrow> handle \<Rightarrow> int \<Rightarrow> 'w \<Rightarrow> (int \<times> byte list \<times> handle \<times> 'w) option" where
  "partition_read sys h n w =
     (case h of
        MtdHandle ctx \<Rightarrow>
          Option.bind (mtd_read_data sys ctx n w) (\<lambda>(r, d, ctx, w). Some (r, d, MtdHandle ctx, w))
      | DevHandle f \<Rightarrow> (case os_fread sys f n w of (d, w) \<Rightarrow> Some (int (length d), d, DevHandle f, w)))"

definition partition_close :: "'w os \<Rightarrow> handle \<Rightarrow> 'w \<Rightarrow> 'w" where
  "partition_close sys h w =
     (case h of MtdHandle ctx \<Rightarrow> mtd_read_close sys ctx w | DevHandle f \<Rightarrow> snd (os_fclose sys f w))"

text \<open>
  The loop over the pairs in order of size: \<open>data\<close> is what has been read so far. The result is whether
  a pair matched, or \<open>None\<close> inside for the error return.
\<close>

fun match_pairs ::
  "('w, 'c) env \<Rightarrow> (int \<times> string option) list \<Rightarrow> handle \<Rightarrow> byte list \<Rightarrow> 'c \<Rightarrow> 'w
   \<Rightarrow> (bool option \<times> byte list \<times> 'c \<times> handle \<times> 'w) option" where
  "match_pairs E [] h data ctx w = Some (Some False, data, ctx, h, w)"
| "match_pairs E ((sz, sha) # ps) h data ctx w =
     (let next = sz - int (length data) in
      Option.bind
       (if 0 < next then
          Option.bind (partition_read (os_of E) h next w) (\<lambda>(r, d, h, w).
          if r mod 2 ^ 32 \<noteq> next then Some (None, h, w) else Some (Some d, h, w))
        else Some (Some [], h, w))
       (\<lambda>(d, h, w).
        case d of
          None \<Rightarrow> Some (None, data, ctx, h, w)
        | Some d \<Rightarrow>
            let ctx = (if 0 < next then SHA_update E ctx d else ctx); data = data @ d in
            case sha of
              None \<Rightarrow> None
            | Some s \<Rightarrow>
                (case ParseSha1 s of
                   None \<Rightarrow> Some (None, data, ctx, h, w)
                 | Some parsed \<Rightarrow>
                     if SHA_final E ctx = parsed then Some (Some True, data, ctx, h, w)
                     else match_pairs E ps h data ctx w)))"

text \<open>
  The part of \<open>LoadPartitionContents\<close> after the partition is open: the pairs are tried in order of size.
  Without any pair the largest size is read from before the array; \<open>malloc\<close> is not checked.
\<close>

definition load_matching ::
  "('w, 'c) env \<Rightarrow> (int \<times> string option) list \<Rightarrow> handle \<Rightarrow> FileContents \<Rightarrow> 'w prog \<Rightarrow> (int \<times> FileContents \<times> 'w prog) option" where
  "load_matching E pairs h fc s =
     (let index = qsort E (\<lambda>i. fst (pairs ! i)) [0..<length pairs];
          by_size = map ((!) pairs) index in
      if pairs = [] then None
      else if os_malloc (os_of E) (fst (last by_size)) (world s) = None then None
      else Option.bind (match_pairs E by_size h [] (SHA_init E) (world s)) (\<lambda>(m, data, ctx, h, w).
        case m of
          None \<Rightarrow> Some (- 1, fc\<lparr>fc_data := None, fc_size := Some (int (length data))\<rparr>, s\<lparr>world := w\<rparr>)
        | Some matched \<Rightarrow>
            let w = partition_close (os_of E) h w in
            if \<not> matched
            then Some (- 1, fc\<lparr>fc_data := None, fc_size := Some (int (length data))\<rparr>, s\<lparr>world := w\<rparr>)
            else Some (0, fc\<lparr>fc_data := Some data, fc_size := Some (int (length data)),
                           fc_sha1 := Some (SHA_final E ctx), fc_st := Some (420, 0, 0)\<rparr>, s\<lparr>world := w\<rparr>)))"

text \<open>\<open>LoadPartitionContents\<close>; a name with too few pairs is only reported.\<close>

definition LoadPartitionContents ::
  "('w, 'c) env \<Rightarrow> string \<Rightarrow> FileContents \<Rightarrow> 'w prog \<Rightarrow> (int \<times> FileContents \<times> 'w prog) option" where
  "LoadPartitionContents E filename fc s =
     (case strtok_colon filename of
        [] \<Rightarrow> None
      | magic # toks \<Rightarrow>
          (case partition_type magic of
             None \<Rightarrow> Some (- 1, fc, s)
           | Some type \<Rightarrow>
               (let colons = length (filter (\<lambda>c. c = CHR '':'') filename) in
                Option.bind (size_pairs ((colons - 1) div 2) (tl toks)) (\<lambda>pairs.
                case pairs of
                  None \<Rightarrow> Some (- 1, fc, s)
                | Some pairs \<Rightarrow>
                    (case toks of
                       [] \<Rightarrow> None
                     | part # _ \<Rightarrow>
                         Option.bind (open_partition (os_of E) type part s) (\<lambda>(h, s).
                         case h of
                           None \<Rightarrow> Some (- 1, fc, s)
                         | Some h \<Rightarrow> load_matching E pairs h fc s))))))"

section \<open>Files\<close>

definition LoadFileContents ::
  "('w, 'c) env \<Rightarrow> string \<Rightarrow> FileContents \<Rightarrow> bool \<Rightarrow> 'w prog \<Rightarrow> (int \<times> FileContents \<times> 'w prog) option" where
  "LoadFileContents E filename fc retouch_flag s =
     (let fc = fc\<lparr>fc_data := None\<rparr> in
      if is_partition filename then LoadPartitionContents E filename fc s
      else case os_stat (os_of E) filename (world s) of
        None \<Rightarrow> Some (- 1, fc, s)
      | Some st \<Rightarrow>
          let sz = int32 (st_size st);
              fc = fc\<lparr>fc_st := Some (st_mode st, st_uid st, st_gid st), fc_size := Some sz\<rparr> in
          case os_fopen (os_of E) filename False (world s) of
            (None, w) \<Rightarrow> Some (- 1, fc, s\<lparr>world := w\<rparr>)
          | (Some f, w) \<Rightarrow>
              if os_malloc (os_of E) sz (world s) = None then None
              else case os_fread (os_of E) f sz w of (data, w) \<Rightarrow>
                if int (length data) \<noteq> sz then Some (- 1, fc, s\<lparr>world := w\<rparr>)
                else case os_fclose (os_of E) f w of (_, w) \<Rightarrow>
                  Option.bind
                    (if retouch_flag
                     then Option.bind (retouch_mask_data data (Some 0)) (\<lambda>(r, data, _).
                            Some (if r \<noteq> RETOUCH_DATA_MATCHED then None else Some data))
                     else Some (Some data))
                    (\<lambda>d. case d of
                       None \<Rightarrow> Some (- 1, fc, s\<lparr>world := w\<rparr>)
                     | Some data \<Rightarrow>
                         Some (0, fc\<lparr>fc_data := Some data, fc_sha1 := Some (SHA E data)\<rparr>, s\<lparr>world := w\<rparr>)))"

text \<open>
  \<open>SaveFileContents\<close>: the data is written by \<open>FileSink\<close>; from a null pointer \<open>write\<close> fails with
  \<open>EFAULT\<close>, so nothing is written and the sink returns 0.
\<close>

definition SaveFileContents :: "'w os \<Rightarrow> string \<Rightarrow> FileContents \<Rightarrow> 'w \<Rightarrow> (int \<times> 'w) option" where
  "SaveFileContents sys filename fc w =
     (case os_open sys filename O_CREAT_TRUNC w of (fd, w) \<Rightarrow>
        if fd < 0 then Some (- 1, w)
        else case fc_size fc of
          None \<Rightarrow> None
        | Some sz \<Rightarrow>
            (case (case fc_data fc of None \<Rightarrow> (0, w) | Some data \<Rightarrow> FileSink (os_write sys fd) data w) of (n, w) \<Rightarrow>
               if n \<noteq> sz then (case os_close sys fd w of (_, w) \<Rightarrow> Some (- 1, w))
               else case os_close sys fd (os_fsync sys fd w) of (_, w) \<Rightarrow>
                 (case fc_st fc of
                    None \<Rightarrow> None
                  | Some (mode, uid, gid) \<Rightarrow>
                      (case os_chmod sys filename mode w of (r, w) \<Rightarrow>
                         if r \<noteq> 0 then Some (- 1, w)
                         else case os_chown sys filename uid gid w of (r, w) \<Rightarrow>
                           Some (if r \<noteq> 0 then - 1 else 0, w)))))"

definition WriteToPartition :: "'w os \<Rightarrow> byte list \<Rightarrow> string \<Rightarrow> 'w prog \<Rightarrow> (int \<times> 'w prog) option" where
  "WriteToPartition sys data target s =
     (case strtok_colon target of
        [] \<Rightarrow> None
      | magic # toks \<Rightarrow>
          (case (partition_type magic, toks) of
             (None, _) \<Rightarrow> Some (- 1, s)
           | (Some _, []) \<Rightarrow> Some (- 1, s)
           | (Some MTD, part # _) \<Rightarrow>
               Option.bind (scan_once sys s) (\<lambda>s.
               case mtd_find_partition_by_name (mtd_state s) part of
                 None \<Rightarrow> Some (- 1, s)
               | Some mtd \<Rightarrow>
                   (case mtd_write_partition sys mtd (world s) of
                      (None, w) \<Rightarrow> Some (- 1, s\<lparr>world := w\<rparr>)
                    | (Some ctx, w) \<Rightarrow>
                        Option.bind (mtd_write_data sys ctx data w) (\<lambda>(written, ctx, w).
                        if written mod 2 ^ 32 \<noteq> int (length data)
                        then Option.bind (mtd_write_close sys ctx w) (\<lambda>(_, w). Some (- 1, s\<lparr>world := w\<rparr>))
                        else Option.bind (mtd_erase_blocks sys ctx (- 1) w) (\<lambda>(p, ctx, w).
                          if p < 0
                          then Option.bind (mtd_write_close sys ctx w) (\<lambda>(_, w). Some (- 1, s\<lparr>world := w\<rparr>))
                          else Option.bind (mtd_write_close sys ctx w) (\<lambda>(c, w).
                            Some (if c \<noteq> 0 then - 1 else 0, s\<lparr>world := w\<rparr>))))))
           | (Some EMMC, part # _) \<Rightarrow>
               (case os_fopen sys part True (world s) of
                  (None, w) \<Rightarrow> None
                | (Some f, w) \<Rightarrow>
                    (case os_fwrite sys f data w of (n, w) \<Rightarrow>
                       if n \<noteq> int (length data) then Some (- 1, s\<lparr>world := w\<rparr>)
                       else case os_fclose sys f w of (c, w) \<Rightarrow> Some (if c \<noteq> 0 then - 1 else 0, s\<lparr>world := w\<rparr>)))))"

definition applypatch_check ::
  "('w, 'c) env \<Rightarrow> string \<Rightarrow> string list \<Rightarrow> 'w prog \<Rightarrow> (int \<times> 'w prog) option" where
  "applypatch_check E filename patch_sha1_str s =
     Option.bind (LoadFileContents E filename uninit True s) (\<lambda>(r, fc, s).
     if r = 0 \<and> (patch_sha1_str = [] \<or> FindMatchingPatch (the (fc_sha1 fc)) patch_sha1_str \<noteq> None) then Some (0, s)
     else Option.bind (LoadFileContents E CACHE_TEMP_SOURCE (fc\<lparr>fc_data := None\<rparr>) True s) (\<lambda>(r, fc, s).
       if r \<noteq> 0 then Some (1, s)
       else if FindMatchingPatch (the (fc_sha1 fc)) patch_sha1_str = None then Some (1, s)
       else Some (0, s)))"

section \<open>Digests in hexadecimal\<close>

definition hex_char :: "int \<Rightarrow> char" where
  "hex_char n = (if n < 10 then char_of (48 + n) else char_of (87 + n))"

definition show_digest :: "byte list \<Rightarrow> string" where
  "show_digest d = concat (map (\<lambda>b. [hex_char (uint (drop_bit 4 b)), hex_char (uint (take_bit 4 b))]) d)"

lemma of_char_int: "0 \<le> n \<Longrightarrow> n < 256 \<Longrightarrow> (of_char (char_of n :: char) :: int) = n"
  by (simp add: take_bit_int_eq_self)

lemma hex_digit_char: "0 \<le> n \<Longrightarrow> n < 16 \<Longrightarrow> hex_digit (hex_char n) = Some n"
  unfolding hex_char_def hex_digit_def Let_def by (auto simp: of_char_int)

lemma nibbles:
  fixes b :: byte
  shows "or (push_bit 4 (drop_bit 4 b)) (take_bit 4 b) = b"
  by (rule bit_word_eqI) (auto simp: bit_or_iff bit_push_bit_iff bit_drop_bit_eq bit_take_bit_iff)

lemma nibble_range:
  fixes b :: byte
  shows "uint (drop_bit 4 b) < 16" "uint (take_bit 4 b) < 16"
proof -
  have "uint b < 256" using uint_lt2p [of b] by simp
  then show "uint (drop_bit 4 b) < 16" by (subst unsigned_drop_bit_eq) (simp add: drop_bit_eq_div take_bit_int_eq_self)
  show "uint (take_bit 4 b) < 16" by (subst unsigned_take_bit_eq) (simp add: take_bit_eq_mod)
qed

lemma parse_digits_show: "parse_digits (length d) (show_digest d @ r) = Some (d, r)"
proof (induction d)
  case (Cons b d)
  then show ?case by (simp add: show_digest_def hex_digit_char nibble_range nibbles)
qed (simp add: show_digest_def)

lemma parse_digits_Some: "parse_digits n s = Some (d, r) \<Longrightarrow> length d = n \<and> length s = 2 * n + length r"
  by (induction n s arbitrary: d r rule: parse_digits.induct) (auto split: list.splits option.splits prod.splits)

text \<open>
  \<open>ParseSha1\<close> reads back a digest written in hexadecimal, and accepts nothing but forty
  characters: in particular not a digest that is followed by a colon and more text.
\<close>

theorem ParseSha1_roundtrip:
  "(length d = SHA_DIGEST_SIZE \<longrightarrow> ParseSha1 (show_digest d) = Some d \<and> ParseSha1 (show_digest d @ '':'' @ rest) = None) \<and>
   (ParseSha1 s = Some d \<longrightarrow> length d = SHA_DIGEST_SIZE \<and> length s = 2 * SHA_DIGEST_SIZE)"
proof -
  have "parse_digits SHA_DIGEST_SIZE (show_digest d @ r) = Some (d, r)" if "length d = SHA_DIGEST_SIZE" for r
    using parse_digits_show [of d r] that by simp
  from this [of "[]"] this [of "'':'' @ rest"] show ?thesis
    by (auto simp: ParseSha1_def dest!: parse_digits_Some split: option.splits prod.splits list.splits)
qed

theorem ParseSha1_roundtrip_witness:
  "ParseSha1 (show_digest (replicate 20 0xAB)) = Some (replicate 20 0xAB) \<and>
   ParseSha1 (show_digest (replicate 20 0xAB) @ '':'' @ ''p'') = None \<and> length (replicate 20 (0xAB :: byte)) = SHA_DIGEST_SIZE"
  using ParseSha1_roundtrip [of "replicate 20 0xAB" "''p''" "[]"] by (simp add: SHA_DIGEST_SIZE_def)

section \<open>Partitions as byte sources\<close>

text \<open>
  What stdio documents for a stream open for reading: \<open>fread\<close> returns the next bytes, fewer only at the
  end.
\<close>

definition stream_law :: "'w os \<Rightarrow> int \<Rightarrow> ('w \<Rightarrow> byte list) \<Rightarrow> bool" where
  "stream_law sys f rest \<longleftrightarrow> (\<forall>n w. 0 \<le> n \<longrightarrow>
     fst (os_fread sys f n w) = take (nat n) (rest w) \<and> rest (snd (os_fread sys f n w)) = drop (nat n) (rest w))"

definition part_ready :: "'w os \<Rightarrow> 'w nand \<times> ('w \<Rightarrow> byte list) \<Rightarrow> handle \<Rightarrow> 'w \<Rightarrow> bool" where
  "part_ready sys V h w = (case h of MtdHandle ctx \<Rightarrow> mtd_ready sys (fst V) ctx w | DevHandle f \<Rightarrow> stream_law sys f (snd V))"

definition part_left :: "'w os \<Rightarrow> 'w nand \<times> ('w \<Rightarrow> byte list) \<Rightarrow> handle \<Rightarrow> 'w \<Rightarrow> byte list" where
  "part_left sys V h w = (case h of MtdHandle ctx \<Rightarrow> mtd_left sys (fst V) ctx w | DevHandle f \<Rightarrow> snd V w)"

interpretation part_source: byte_source partition_read part_ready part_left
proof (unfold_locales, goal_cases)
  case (1 sys V h w n)
  show ?case
  proof (cases h)
    case (MtdHandle ctx)
    with 1 mtd_source.read_full [of sys "fst V" ctx w n] show ?thesis
      by (auto simp: part_ready_def part_left_def partition_read_def)
  next
    case (DevHandle f)
    with 1 show ?thesis
      by (auto simp: part_ready_def part_left_def partition_read_def stream_law_def split_beta)
  qed
next
  case (2 sys V h w n)
  show ?case
  proof (cases h)
    case (MtdHandle ctx)
    with 2 mtd_source.read_short [of sys "fst V" ctx w n] show ?thesis
      by (auto simp: part_ready_def part_left_def partition_read_def)
  next
    case (DevHandle f)
    with 2 show ?thesis
      by (auto simp: part_ready_def part_left_def partition_read_def stream_law_def split_beta)
  qed
qed


text \<open>What is relied on of SHA-1: updating with two pieces is updating with both at once.\<close>

definition sha_stream :: "('w, 'c) env \<Rightarrow> bool" where
  "sha_stream E \<longleftrightarrow> (\<forall>c a b. SHA_update E (SHA_update E c a) b = SHA_update E c (a @ b)) \<and>
     (\<forall>c. SHA_update E c [] = c)"

text \<open>A pair that names a size and the digest of that many bytes of the contents.\<close>

definition names :: "('w, 'c) env \<Rightarrow> byte list \<Rightarrow> int \<times> string option \<Rightarrow> bool" where
  "names E content p \<longleftrightarrow> Option.bind (snd p) ParseSha1 = Some (SHA E (take (nat (fst p)) content))"

definition pair_ok :: "byte list \<Rightarrow> int \<times> string option \<Rightarrow> bool" where
  "pair_ok content p \<longleftrightarrow> 0 < fst p \<and> fst p \<le> int (length content) \<and> Option.bind (snd p) ParseSha1 \<noteq> None"

text \<open>The bytes up to the next size are read.\<close>

lemma read_up_to:
  assumes ready: "part_ready sys V h w" "part_left sys V h w = drop k content"
    and le: "int k \<le> sz" "sz \<le> int (length content)" "int (length content) \<le> LONG_MAX"
  shows "\<exists>h1 w1. (if 0 < sz - int k then Option.bind (partition_read sys h (sz - int k) w) (\<lambda>(r, d, h, w).
        if r mod 2 ^ 32 \<noteq> sz - int k then Some (None, h, w) else Some (Some d, h, w)) else Some (Some [], h, w))
      = Some (Some (take (nat (sz - int k)) (drop k content)), h1, w1)
      \<and> part_ready sys V h1 w1 \<and> part_left sys V h1 w1 = drop (nat sz) content"
proof (cases "0 < sz - int k")
  case True
  let ?n = "sz - int k"
  have n: "?n \<le> LONG_MAX" "?n \<le> int (length (part_left sys V h w))" "?n mod 2 ^ 32 = ?n"
    using le True ready(2) by (auto simp: LONG_MAX_def intro!: mod_pos_pos_trivial)
  from part_source.read_full [OF ready(1) _ n(1,2)] True obtain h1 w1 where
    r: "partition_read sys h ?n w = Some (?n, take (nat ?n) (part_left sys V h w), h1, w1)"
      "part_ready sys V h1 w1" "part_left sys V h1 w1 = drop (nat ?n) (part_left sys V h w)" by auto
  have "nat sz = nat ?n + k" using le(1) by linarith
  then show ?thesis using r True n(3) ready(2) by simp
next
  case False
  then have "nat sz = k" using le(1) by linarith
  then show ?thesis using False ready by simp
qed

lemma match_pairs_finds:
  assumes sha: "sha_stream E" and max: "int (length content) \<le> LONG_MAX"
  shows "part_ready (os_of E) V h w \<Longrightarrow> part_left (os_of E) V h w = drop (length data) content \<Longrightarrow>
    data = take (length data) content \<Longrightarrow> list_all (pair_ok content) ps \<Longrightarrow> sorted (map fst ps) \<Longrightarrow>
    (\<forall>p \<in> set ps. int (length data) \<le> fst p) \<Longrightarrow>
    \<exists>data' h' w'. match_pairs E ps h data (SHA_update E (SHA_init E) data) w =
        Some (Some (find (names E content) ps \<noteq> None), data', SHA_update E (SHA_init E) data', h', w') \<and>
      (case find (names E content) ps of None \<Rightarrow> True | Some p \<Rightarrow> data' = take (nat (fst p)) content)"
proof (induction ps arbitrary: h data w)
  case Nil
  then show ?case by simp
next
  case (Cons p ps)
  obtain sz shs where p: "p = (sz, Some shs)" and sz: "0 < sz" "sz \<le> int (length content)" and "ParseSha1 shs \<noteq> None"
    using Cons.prems(4) by (cases p; cases "snd p") (auto simp: pair_ok_def)
  then obtain dig where dig: "ParseSha1 shs = Some dig" by blast
  let ?next = "sz - int (length data)"
  define data1 where "data1 = take (nat sz) content"
  have le: "int (length data) \<le> sz" using Cons.prems(6) p by simp
  have d1: "data1 = data @ take (nat ?next) (drop (length data) content)" "int (length data1) = sz"
  proof -
    have "nat sz = length data + nat ?next" using le by simp
    then show "data1 = data @ take (nat ?next) (drop (length data) content)"
      unfolding data1_def using Cons.prems(3) by (simp add: take_add)
    show "int (length data1) = sz" using sz by (simp add: data1_def)
  qed
  have sz1: "nat sz = length data1" using d1(2) by simp
  from read_up_to [OF Cons.prems(1,2) le sz(2) max, unfolded sz1]
  obtain h1 w1 where s1: "(if 0 < ?next then Option.bind (partition_read (os_of E) h ?next w) (\<lambda>(r, d, h, w).
        if r mod 2 ^ 32 \<noteq> ?next then Some (None, h, w) else Some (Some d, h, w)) else Some (Some [], h, w))
      = Some (Some (take (nat ?next) (drop (length data) content)), h1, w1)"
      "part_ready (os_of E) V h1 w1" "part_left (os_of E) V h1 w1 = drop (length data1) content" by blast
  have ctx: "(if 0 < ?next then SHA_update E (SHA_update E (SHA_init E) data) (take (nat ?next) (drop (length data) content))
      else SHA_update E (SHA_init E) data) = SHA_update E (SHA_init E) data1"
    using sha le by (auto simp: sha_stream_def d1(1))
  have eq: "match_pairs E (p # ps) h data (SHA_update E (SHA_init E) data) w =
      (if SHA E data1 = dig then Some (Some True, data1, SHA_update E (SHA_init E) data1, h1, w1)
       else match_pairs E ps h1 data1 (SHA_update E (SHA_init E) data1) w1)"
    unfolding p match_pairs.simps Let_def s1(1) bind.simps prod.case option.case ctx dig
    by (simp add: SHA_def flip: d1(1))
  have hit: "names E content p \<longleftrightarrow> SHA E data1 = dig" using dig by (auto simp: names_def p data1_def)
  show ?case
  proof (cases "SHA E data1 = dig")
    case True
    then show ?thesis using eq hit by (simp add: p data1_def)
  next
    case False
    have "\<exists>data' h' w'. match_pairs E ps h1 data1 (SHA_update E (SHA_init E) data1) w1 =
        Some (Some (find (names E content) ps \<noteq> None), data', SHA_update E (SHA_init E) data', h', w') \<and>
      (case find (names E content) ps of None \<Rightarrow> True | Some p \<Rightarrow> data' = take (nat (fst p)) content)"
      using Cons.prems(4,5) s1(2,3) d1(2) by (intro Cons.IH) (auto simp: p data1_def)
    then show ?thesis using False eq hit by simp
  qed
qed


section \<open>The smallest matching prefix is loaded\<close>

text \<open>The names \<open>LoadPartitionContents\<close> expects: the tokens joined by colons.\<close>

fun colon_join :: "string list \<Rightarrow> string" where
  "colon_join [] = []"
| "colon_join [t] = t"
| "colon_join (t # u # ts) = t @ '':'' @ colon_join (u # ts)"

definition magic_of :: "PartitionType \<Rightarrow> string" where
  "magic_of type = (case type of MTD \<Rightarrow> ''MTD'' | EMMC \<Rightarrow> ''EMMC'')"

definition pair_tokens :: "(nat \<times> byte list) list \<Rightarrow> string list" where
  "pair_tokens ps = concat (map (\<lambda>(n, d). [show_nat n, show_digest d]) ps)"

definition token_ok :: "string \<Rightarrow> bool" where
  "token_ok t \<longleftrightarrow> t \<noteq> [] \<and> CHR '':'' \<notin> set t"

lemma split_colon_token:
  "CHR '':'' \<notin> set t \<Longrightarrow> split_colon (t @ '':'' @ s) = t # split_colon s" "CHR '':'' \<notin> set t \<Longrightarrow> split_colon t = [t]"
  by (induction t) auto

lemma strtok_colon_join: "list_all token_ok ts \<Longrightarrow> strtok_colon (colon_join ts) = ts"
  by (induction ts rule: colon_join.induct) (auto simp: strtok_colon_def token_ok_def split_colon_token [simplified])

lemma colons_join:
  "list_all token_ok ts \<Longrightarrow> length (filter (\<lambda>c. c = CHR '':'') (colon_join ts)) = length ts - 1"
  by (induction ts rule: colon_join.induct) (auto simp: token_ok_def filter_empty_conv)

lemma show_nat_token: "token_ok (show_nat n)"
  using show_nat_nonempty [of n] show_nat_digits [of n] by (auto simp: token_ok_def isdigit_def)

lemma show_digest_token:
  assumes "d \<noteq> []"
  shows "token_ok (show_digest d)"
proof -
  have "hex_char n \<noteq> CHR '':''" if "0 \<le> n" "n < 16" for n
    using hex_digit_char [OF that] by (auto simp: hex_digit_def)
  then show ?thesis using assms nibble_range by (cases d) (fastforce simp: token_ok_def show_digest_def)+
qed

lemma pair_tokens_ok: "list_all (\<lambda>(n, d). d \<noteq> []) ps \<Longrightarrow> list_all token_ok (pair_tokens ps)"
  using show_nat_token show_digest_token by (induction ps) (auto simp: pair_tokens_def)

lemma length_pair_tokens: "length (pair_tokens ps) = 2 * length ps"
  by (induction ps) (auto simp: pair_tokens_def)

lemma size_pairs_tokens:
  "list_all (\<lambda>(n, d). 0 < n \<and> int n \<le> LONG_MAX) ps \<Longrightarrow>
   size_pairs (length ps) (pair_tokens ps) = Some (Some (map (\<lambda>(n, d). (int n, Some (show_digest d))) ps))"
proof (induction ps)
  case (Cons p ps)
  obtain n d where p: "p = (n, d)" by fastforce
  have n: "0 < n" "int n \<le> LONG_MAX" using Cons.prems p by auto
  have "int n mod 2 ^ 32 = int n" using n by (intro mod_pos_pos_trivial) (auto simp: LONG_MAX_def)
  then show ?case using Cons n by (simp add: p pair_tokens_def strtol_show_nat)
qed simp

definition qsort_law :: "('w, 'c) env \<Rightarrow> bool" where
  "qsort_law E \<longleftrightarrow> (\<forall>f xs. mset (qsort E f xs) = mset xs \<and> sorted (map f (qsort E f xs)))"

lemma qsort_pairs:
  assumes "qsort_law E"
  shows "set (map ((!) ps) (qsort E (\<lambda>i. fst (ps ! i)) [0..<length ps])) = set ps"
    and "sorted (map fst (map ((!) ps) (qsort E (\<lambda>i. fst (ps ! i)) [0..<length ps])))"
proof -
  have m: "mset (qsort E (\<lambda>i. fst (ps ! i)) [0..<length ps]) = mset [0..<length ps]"
    and s: "sorted (map (\<lambda>i. fst (ps ! i)) (qsort E (\<lambda>i. fst (ps ! i)) [0..<length ps]))"
    using assms unfolding qsort_law_def by blast+
  then have "set (qsort E (\<lambda>i. fst (ps ! i)) [0..<length ps]) = {0..<length ps}"
    using mset_eq_setD [OF m] by simp
  then show "set (map ((!) ps) (qsort E (\<lambda>i. fst (ps ! i)) [0..<length ps])) = set ps"
    by (simp add: set_conv_nth [of ps] image_def atLeast0LessThan) blast
  show "sorted (map fst (map ((!) ps) (qsort E (\<lambda>i. fst (ps ! i)) [0..<length ps])))" using s by (simp add: comp_def)
qed

lemma find_sorted:
  "sorted (map fst xs) \<Longrightarrow> find Q xs = Some p \<Longrightarrow> p \<in> set xs \<and> Q p \<and> (\<forall>x \<in> set xs. Q x \<longrightarrow> fst p \<le> fst x)"
  by (induction xs) (auto split: if_splits)


lemma names_pair:
  "length d = SHA_DIGEST_SIZE \<Longrightarrow> names E content (int n, Some (show_digest d)) \<longleftrightarrow> d = SHA E (take n content)"
  using parse_digits_show [of d "[]"] by (simp add: names_def ParseSha1_def)

text \<open>
  C30: \<open>LoadPartitionContents\<close>, given a list of sizes and digests in any order, loads exactly the smallest
  prefix of the partition whose digest is listed with its size, and records that digest; when there is
  none it fails and loads nothing.
\<close>

theorem LoadPartitionContents_smallest:
  assumes laws: "sha_stream E" "qsort_law E" "malloc_law (os_of E)"
    and part: "token_ok part" and ps: "ps \<noteq> []" "list_all (\<lambda>(n, d). 0 < n \<and> n \<le> length content \<and> length d = SHA_DIGEST_SIZE) ps"
    and max: "int (length content) \<le> LONG_MAX"
    and opened: "open_partition (os_of E) type part s = Some (Some h, s1)"
    and ready: "part_ready (os_of E) V h (world s1)" "part_left (os_of E) V h (world s1) = content"
  shows "\<exists>r fc' s'. LoadPartitionContents E (colon_join (magic_of type # part # pair_tokens ps)) fc s = Some (r, fc', s') \<and>
    (if \<exists>n. (n, SHA E (take n content)) \<in> set ps
     then \<exists>n. (n, SHA E (take n content)) \<in> set ps \<and> (\<forall>m. (m, SHA E (take m content)) \<in> set ps \<longrightarrow> n \<le> m) \<and>
            r = 0 \<and> fc_data fc' = Some (take n content) \<and> fc_sha1 fc' = Some (SHA E (take n content))
     else r = - 1 \<and> fc_data fc' = None)"
proof -
  let ?P = "map (\<lambda>(n, d). (int n, Some (show_digest d))) ps"
  define f where "f = colon_join (magic_of type # part # pair_tokens ps)"
  define sorted' where "sorted' = map ((!) ?P) (qsort E (\<lambda>i. fst (?P ! i)) [0..<length ps])"
  have ok: "list_all token_ok (magic_of type # part # pair_tokens ps)"
  proof -
    have "list_all token_ok (pair_tokens ps)"
      by (rule pair_tokens_ok) (use ps(2) in \<open>auto simp: list_all_iff SHA_DIGEST_SIZE_def\<close>)
    moreover have "token_ok (magic_of type)" by (cases type) (auto simp: magic_of_def token_ok_def)
    ultimately show ?thesis using part by simp
  qed
  have toks: "strtok_colon f = magic_of type # part # pair_tokens ps" unfolding f_def using ok by (rule strtok_colon_join)
  have cols: "length (filter (\<lambda>c. c = CHR '':'') f) = 2 * length ps + 1"
    unfolding f_def colons_join [OF ok] by (simp add: length_pair_tokens)
  have mg: "partition_type (magic_of type) = Some type" by (cases type) (auto simp: magic_of_def partition_type_def)
  have sizes: "size_pairs (length ps) (pair_tokens ps) = Some (Some ?P)"
    using ps(2) max by (intro size_pairs_tokens) (auto simp: list_all_iff)
  note q = qsort_pairs [OF laws(2), of ?P, unfolded length_map, folded sorted'_def]
  have pok: "list_all (pair_ok content) sorted'"
  proof (unfold list_all_iff q(1), intro ballI)
    fix p assume "p \<in> set ?P"
    then obtain n d where nd: "(n, d) \<in> set ps" "p = (int n, Some (show_digest d))" by auto
    then have n: "0 < n" "n \<le> length content" "length d = SHA_DIGEST_SIZE" using ps(2) by (auto simp: list_all_iff)
    have "ParseSha1 (show_digest d) = Some d" using parse_digits_show [of d "[]"] n(3) by (simp add: ParseSha1_def)
    then show "pair_ok content p" using nd(2) n by (simp add: pair_ok_def)
  qed
  have upd: "SHA_update E (SHA_init E) [] = SHA_init E" using laws(1) by (simp add: sha_stream_def)
  have pos: "\<forall>p \<in> set sorted'. int (length []) \<le> fst p"
    using pok by (fastforce simp: pair_ok_def list_all_iff)
  have left: "part_left (os_of E) V h (world s1) = drop (length []) content" "[] = take (length []) content" using ready(2) by simp_all
  from match_pairs_finds [OF laws(1) max ready(1) left pok q(2) pos, unfolded upd] obtain data' h' w' where
    mp: "match_pairs E sorted' h [] (SHA_init E) (world s1) =
      Some (Some (find (names E content) sorted' \<noteq> None), data', SHA_update E (SHA_init E) data', h', w')"
    and fd: "case find (names E content) sorted' of None \<Rightarrow> True | Some p \<Rightarrow> data' = take (nat (fst p)) content"
    by blast
  have hits: "(\<exists>p \<in> set sorted'. names E content p \<and> fst p = int n) \<longleftrightarrow> (n, SHA E (take n content)) \<in> set ps" for n
    unfolding q(1) using ps(2) by (force simp: names_pair list_all_iff)
  have run: "LoadPartitionContents E f fc s = Some
      (if find (names E content) sorted' = None
       then (- 1, fc\<lparr>fc_data := None, fc_size := Some (int (length data'))\<rparr>, s1\<lparr>world := partition_close (os_of E) h' w'\<rparr>)
       else (0, fc\<lparr>fc_data := Some data', fc_size := Some (int (length data')), fc_sha1 := Some (SHA E data'), fc_st := Some (420, 0, 0)\<rparr>,
             s1\<lparr>world := partition_close (os_of E) h' w'\<rparr>))"
  proof -
    have "LoadPartitionContents E f fc s = load_matching E ?P h fc s1"
      using opened by (simp add: LoadPartitionContents_def toks mg cols sizes Let_def)
    moreover have "(os_malloc (os_of E) n w = None) = False" for n w using laws(3) by (simp add: malloc_law_def)
    ultimately show ?thesis
      using ps(1) mp by (simp add: load_matching_def Let_def SHA_def flip: sorted'_def)
  qed
  note run = run [unfolded f_def]
  show ?thesis
  proof (cases "find (names E content) sorted'")
    case None
    then have "\<not> (\<exists>n. (n, SHA E (take n content)) \<in> set ps)" using hits by (metis find_None_iff)
    then show ?thesis using run None by (auto simp del: colon_join.simps)
  next
    case (Some p)
    note p = find_sorted [OF q(2) Some]
    obtain n where n: "fst p = int n" using p q(1) by auto
    then have n_in: "(n, SHA E (take n content)) \<in> set ps" using hits [of n] p by blast
    moreover have "n \<le> m" if "(m, SHA E (take m content)) \<in> set ps" for m
      using hits [of m] that p n by fastforce
    ultimately show ?thesis using run Some fd n by (auto simp del: colon_join.simps)
  qed
qed


text \<open>A stream of three bytes, and a digest that is the data itself.\<close>

definition stream_os :: "byte list os" where
  "stream_os = null_os\<lparr>os_malloc := \<lambda>n w. Some (replicate (nat n) 0), os_fopen := \<lambda>p m w. (Some 4, w),
     os_fread := \<lambda>f n w. (take (nat n) w, drop (nat n) w), os_fclose := \<lambda>f w. (0, w)\<rparr>"

definition toy_env :: "'w os \<Rightarrow> ('w, byte list) env" where
  "toy_env sys = \<lparr>os_of = sys, SHA_init = [], SHA_update = (@), SHA_final = \<lambda>c. take 20 (c @ replicate 20 0),
     qsort = \<lambda>f xs. sort_key f xs\<rparr>"

lemma toy_env_laws: "sha_stream (toy_env sys)" "qsort_law (toy_env sys)" "os_of (toy_env sys) = sys"
  by (simp_all add: sha_stream_def toy_env_def qsort_law_def)

theorem LoadPartitionContents_smallest_witness:
  "\<exists>fc' s'. LoadPartitionContents (toy_env stream_os)
      (colon_join (''EMMC'' # ''/dev/p'' # pair_tokens [(3, replicate 20 9), (2, [1, 2] @ replicate 18 0)])) uninit
      \<lparr>mtd_partitions_scanned = False, mtd_state = g_mtd_state, world = [1, 2, 3]\<rparr> = Some (0, fc', s') \<and> fc_data fc' = Some [1, 2]"
proof -
  let ?s = "\<lparr>mtd_partitions_scanned = False, mtd_state = g_mtd_state, world = [1, 2, 3 :: byte]\<rparr>"
  let ?ps = "[(3, replicate 20 9), (2, [1, 2] @ replicate 18 (0 :: byte))]"
  have sha: "SHA (toy_env stream_os) d = take 20 (d @ replicate 20 0)" for d by (simp add: SHA_def toy_env_def)
  have "malloc_law stream_os" by (auto simp: malloc_law_def stream_os_def)
  moreover have "part_ready stream_os (undefined, id) (DevHandle 4) [1, 2, 3]"
    by (simp add: part_ready_def stream_law_def stream_os_def)
  moreover have "open_partition stream_os EMMC ''/dev/p'' ?s = Some (Some (DevHandle 4), ?s)"
    by (simp add: open_partition_def stream_os_def)
  moreover have "token_ok ''/dev/p''" by (simp add: token_ok_def)
  ultimately have "\<exists>r fc' s'. LoadPartitionContents (toy_env stream_os) (colon_join (magic_of EMMC # ''/dev/p'' # pair_tokens ?ps)) uninit ?s
      = Some (r, fc', s') \<and>
    (if \<exists>n. (n, SHA (toy_env stream_os) (take n [1, 2, 3])) \<in> set ?ps
     then \<exists>n. (n, SHA (toy_env stream_os) (take n [1, 2, 3])) \<in> set ?ps \<and>
            (\<forall>m. (m, SHA (toy_env stream_os) (take m [1, 2, 3])) \<in> set ?ps \<longrightarrow> n \<le> m) \<and>
            r = 0 \<and> fc_data fc' = Some (take n [1, 2, 3]) \<and> fc_sha1 fc' = Some (SHA (toy_env stream_os) (take n [1, 2, 3]))
     else r = - 1 \<and> fc_data fc' = None)"
    by (intro LoadPartitionContents_smallest [where V = "(undefined, id)" and h = "DevHandle 4" and ?s1.0 = ?s])
      (simp_all add: toy_env_laws SHA_DIGEST_SIZE_def LONG_MAX_def part_left_def)
  moreover have "(n, SHA (toy_env stream_os) (take n [1, 2, 3])) \<in> set ?ps \<longleftrightarrow> n = 2" for n
  proof -
    have "take 20 ([1, 2, 3] @ replicate 20 0) \<noteq> replicate 20 (9 :: byte)" by code_simp
    moreover have "take 20 ([1, 2] @ replicate 20 0) = [1, 2] @ replicate 18 (0 :: byte)" by code_simp
    ultimately show ?thesis by (auto simp: sha simp del: append.simps)
  qed
  ultimately show ?thesis by (auto simp: magic_of_def simp del: colon_join.simps)
qed

end
