(* ===== verification/Bspatch.thy ===== *)
theory Bspatch
  imports Byte_Codec Sinks
begin

text \<open>
  The patcher of \<^verbatim>\<open>applypatch/bspatch.c\<close>. The library \<open>libbz2\<close> is a parameter: \<open>bz_init\<close> opens a
  stream on its compressed bytes, \<open>dec\<close> is one call of \<open>BZ2_bzDecompress\<close> with room for \<open>n\<close>
  bytes and gives its return code, the bytes it stored and the stream after it. A call that does
  not return is \<open>None\<close>; one that reads or writes outside an object, or overflows a signed
  integer, is \<open>Undefined\<close>.
\<close>

section \<open>Model\<close>

definition BZ_OK :: int where "BZ_OK = 0"

definition BZ_STREAM_END :: int where "BZ_STREAM_END = 4"

type_synonym 's bz_call = "'s \<Rightarrow> nat \<Rightarrow> int \<times> byte list \<times> 's"

text \<open>\<open>FillBuffer\<close>: the return code, the bytes stored in the buffer and the stream.\<close>

partial_function (option) FillBuffer :: "'s bz_call \<Rightarrow> nat \<Rightarrow> 's \<Rightarrow> (int \<times> byte list \<times> 's) option" where
  "FillBuffer dec avail_out s =
     (if avail_out = 0 then Some (0, [], s)
      else case dec s avail_out of (bzerr, out, s') \<Rightarrow>
        if bzerr \<noteq> BZ_OK \<and> bzerr \<noteq> BZ_STREAM_END then Some (- 1, out, s')
        else Option.bind (FillBuffer dec (avail_out - length out) s')
               (\<lambda>(r, rest, s''). Some (r, out @ rest, s'')))"

datatype patch_result = Undefined | Fails int | Patched "byte list"

text \<open>The addition of the old data to \<open>diff\<close>, which starts at position \<open>oldpos\<close> of the old file.\<close>

definition add_old :: "byte list \<Rightarrow> int \<Rightarrow> byte list \<Rightarrow> byte list" where
  "add_old old oldpos diff =
     map (\<lambda>i. if 0 \<le> oldpos + int i \<and> oldpos + int i < int (length old)
               then diff ! i + old ! nat (oldpos + int i) else diff ! i) [0..<length diff]"

definition fits_off :: "int \<Rightarrow> bool" where
  "fits_off x \<longleftrightarrow> LONG_MIN \<le> x \<and> x \<le> LONG_MAX"

text \<open>
  The body of the loop of \<open>ApplyBSDiffPatchMem\<close>: \<open>Inl\<close> where it returns, \<open>Inr\<close> the variables for the
  next round. \<open>out\<close> is what has been written of the new file, so that \<open>newpos\<close> is its length. A
  negative length turns into a huge \<open>avail_out\<close>.
\<close>

definition patch_round ::
  "'s bz_call \<Rightarrow> byte list \<Rightarrow> int \<Rightarrow> int \<Rightarrow> byte list \<Rightarrow> 's \<Rightarrow> 's \<Rightarrow> 's
   \<Rightarrow> (patch_result + int \<times> byte list \<times> 's \<times> 's \<times> 's) option" where
  "patch_round dec old new_size oldpos out cstream dstream estream =
     (case FillBuffer dec 24 cstream of
        None \<Rightarrow> None
      | Some (r, buf, cstream') \<Rightarrow>
        if r \<noteq> 0 then Some (Inl (Fails 1))
        else case (offtin int32 buf, offtin int32 (drop 8 buf), offtin int32 (drop 16 buf)) of
          (Some ctrl0, Some ctrl1, Some ctrl2) \<Rightarrow>
            let newpos = int (length out) in
            if \<not> fits_off (newpos + ctrl0) then Some (Inl Undefined)
            else if newpos + ctrl0 > new_size then Some (Inl (Fails 1))
            else if ctrl0 < 0 then Some (Inl Undefined)
            else (case FillBuffer dec (nat ctrl0) dstream of
              None \<Rightarrow> None
            | Some (r, diff, dstream') \<Rightarrow>
              if r \<noteq> 0 then Some (Inl (Fails 1))
              else if \<not> fits_off (oldpos + ctrl0) then Some (Inl Undefined)
              else let out1 = out @ add_old old oldpos diff; newpos1 = newpos + ctrl0; oldpos1 = oldpos + ctrl0 in
                if \<not> fits_off (newpos1 + ctrl1) then Some (Inl Undefined)
                else if newpos1 + ctrl1 > new_size then Some (Inl (Fails 1))
                else if ctrl1 < 0 then Some (Inl Undefined)
                else (case FillBuffer dec (nat ctrl1) estream of
                  None \<Rightarrow> None
                | Some (r, extra, estream') \<Rightarrow>
                  if r \<noteq> 0 then Some (Inl (Fails 1))
                  else if \<not> fits_off (oldpos1 + ctrl2) then Some (Inl Undefined)
                  else Some (Inr (oldpos1 + ctrl2, out1 @ extra, cstream', dstream', estream'))))
        | _ \<Rightarrow> Some (Inl Undefined))"

partial_function (option) patch_loop ::
  "'s bz_call \<Rightarrow> byte list \<Rightarrow> int \<Rightarrow> int \<Rightarrow> byte list \<Rightarrow> 's \<Rightarrow> 's \<Rightarrow> 's \<Rightarrow> patch_result option" where
  "patch_loop dec old new_size oldpos out cstream dstream estream =
     (if int (length out) \<ge> new_size then Some (Patched out)
      else case patch_round dec old new_size oldpos out cstream dstream estream of
        None \<Rightarrow> None
      | Some (Inl r) \<Rightarrow> Some r
      | Some (Inr (oldpos', out', cstream', dstream', estream')) \<Rightarrow>
          patch_loop dec old new_size oldpos' out' cstream' dstream' estream')"

definition BSDIFF_MAGIC :: "byte list" where
  "BSDIFF_MAGIC = map of_char ''BSDIFF40''"

text \<open>
  \<open>ApplyBSDiffPatchMem\<close>. The three compressed blocks must lie in the patch: \<open>next_in\<close> and
  \<open>avail_in\<close> are computed from the header without a check.
\<close>

definition ApplyBSDiffPatchMem ::
  "(byte list \<Rightarrow> 's) \<Rightarrow> 's bz_call \<Rightarrow> (int \<Rightarrow> bool) \<Rightarrow> byte list \<Rightarrow> byte list \<Rightarrow> int \<Rightarrow> patch_result option" where
  "ApplyBSDiffPatchMem bz_init dec malloc_ok old patch patch_offset =
     (let header = drop (nat patch_offset) patch in
      if patch_offset < 0 \<or> length header < 8 then Some Undefined
      else if take 8 header \<noteq> BSDIFF_MAGIC then Some (Fails 1)
      else case (offtin int32 (drop 8 header), offtin int32 (drop 16 header), offtin int32 (drop 24 header)) of
        (Some ctrl_len, Some data_len, Some new_size) \<Rightarrow>
          if ctrl_len < 0 \<or> data_len < 0 \<or> new_size < 0 then Some (Fails 1)
          else if int (length header) < 32 + ctrl_len + data_len then Some Undefined
          else let cstream = bz_init (slice 32 (nat ctrl_len) header);
                   dstream = bz_init (slice (32 + nat ctrl_len) (nat data_len) header);
                   estream = bz_init (drop (32 + nat ctrl_len + nat data_len) header)
               in if \<not> malloc_ok new_size then Some (Fails 1)
                  else patch_loop dec old new_size 0 [] cstream dstream estream
      | _ \<Rightarrow> Some Undefined)"

text \<open>
  \<open>ApplyBSDiffPatch\<close>: the sink gets the whole new file and may take less of it; the SHA context,
  when there is one, is updated with it. \<open>Fails 0\<close> is success; the state is the pair of the sink's
  token and the context.
\<close>

definition sha_with :: "('c \<Rightarrow> byte list \<Rightarrow> 'c) \<Rightarrow> 'c option \<Rightarrow> byte list \<Rightarrow> 'c option" where
  "sha_with SHA_update ctx d = map_option (\<lambda>c. SHA_update c d) ctx"

definition ApplyBSDiffPatch ::
  "(byte list \<Rightarrow> 's) \<Rightarrow> 's bz_call \<Rightarrow> (int \<Rightarrow> bool) \<Rightarrow> 't sink \<Rightarrow> ('c \<Rightarrow> byte list \<Rightarrow> 'c)
   \<Rightarrow> byte list \<Rightarrow> byte list \<Rightarrow> int \<Rightarrow> 't \<Rightarrow> 'c option \<Rightarrow> (int option \<times> 't \<times> 'c option) option" where
  "ApplyBSDiffPatch bz_init dec malloc_ok sink SHA_update old patch patch_offset tok ctx =
     (case ApplyBSDiffPatchMem bz_init dec malloc_ok old patch patch_offset of
        None \<Rightarrow> None
      | Some Undefined \<Rightarrow> Some (None, tok, ctx)
      | Some (Fails r) \<Rightarrow> Some (Some (- 1), tok, ctx)
      | Some (Patched new_data) \<Rightarrow>
          (case sink new_data tok of (n, tok') \<Rightarrow>
             if n < int (length new_data) then Some (Some 1, tok', ctx)
             else Some (Some 0, tok', sha_with SHA_update ctx new_data)))"

section \<open>Streams\<close>

text \<open>
  What \<open>BZ2_bzDecompress\<close> documents for a valid stream that still holds data: it succeeds and
  stores a non-empty initial part of the remaining data that fits the room given.
\<close>

definition bz_law :: "'s bz_call \<Rightarrow> ('s \<Rightarrow> byte list) \<Rightarrow> bool" where
  "bz_law dec content \<longleftrightarrow> (\<forall>s n. 0 < n \<and> content s \<noteq> [] \<longrightarrow>
     (case dec s n of (r, out, s') \<Rightarrow> (r = BZ_OK \<or> r = BZ_STREAM_END) \<and> out \<noteq> [] \<and> length out \<le> n
        \<and> content s = out @ content s'))"

lemma bz_lawD:
  assumes "bz_law dec content" "0 < n" "content s \<noteq> []"
  obtains r out s' where "dec s n = (r, out, s')" "r = BZ_OK \<or> r = BZ_STREAM_END" "out \<noteq> []"
    "length out \<le> n" "content s = out @ content s'"
proof -
  obtain r out s' where d: "dec s n = (r, out, s')" by (cases "dec s n") auto
  with assms have "(r = BZ_OK \<or> r = BZ_STREAM_END) \<and> out \<noteq> [] \<and> length out \<le> n \<and> content s = out @ content s'"
    unfolding bz_law_def by fastforce
  with d that show thesis by blast
qed

text \<open>A stream that holds what is asked for fills the buffer, in however many calls.\<close>

lemma FillBuffer_fills:
  assumes law: "bz_law dec content"
  shows "n \<le> length (content s) \<Longrightarrow>
    \<exists>s'. FillBuffer dec n s = Some (0, take n (content s), s') \<and> content s' = drop n (content s)"
proof (induction n arbitrary: s rule: less_induct)
  case (less n)
  show ?case
  proof (cases "n = 0")
    case True
    then show ?thesis by (simp add: FillBuffer.simps)
  next
    case False
    with less.prems have "content s \<noteq> []" by auto
    with law False obtain r out s' where d: "dec s n = (r, out, s')" "r = BZ_OK \<or> r = BZ_STREAM_END"
      "out \<noteq> []" "length out \<le> n" "content s = out @ content s'"
      by (auto elim: bz_lawD)
    with False have lt: "n - length out < n" by (simp add: less_imp_diff_less)
    from less.prems d(5) have "n - length out \<le> length (content s')" by simp
    from less.IH [OF lt this] obtain s'' where
      "FillBuffer dec (n - length out) s' = Some (0, take (n - length out) (content s'), s'')"
      "content s'' = drop (n - length out) (content s')" by blast
    with False d show ?thesis by (auto simp: FillBuffer.simps [of dec n s])
  qed
qed

lemma FillBuffer_prefix:
  assumes "bz_law dec content" "content s = pre @ rest" "n = length pre"
  obtains s' where "FillBuffer dec n s = Some (0, pre, s')" "content s' = rest"
  using FillBuffer_fills [OF assms(1), of n s] assms(2,3) by auto

text \<open>However a call of \<open>FillBuffer\<close> ends, it succeeds only with the buffer full.\<close>

definition bz_bounded :: "'s bz_call \<Rightarrow> bool" where
  "bz_bounded dec \<longleftrightarrow> (\<forall>s n. length (fst (snd (dec s n))) \<le> n)"

lemma FillBuffer_full:
  assumes "bz_bounded dec" "FillBuffer dec n s = Some (r, out, s')"
  shows "length out \<le> n \<and> (r = 0 \<longrightarrow> length out = n)"
proof -
  have "(case (r, out, s') of (r, out, s') \<Rightarrow> length out \<le> n \<and> (r = 0 \<longrightarrow> length out = n))"
    using _ assms(2)
  proof (rule FillBuffer.raw_induct
      [where P = "\<lambda>d n s t. d = dec \<longrightarrow> (case t of (r, out, s') \<Rightarrow> length out \<le> n \<and> (r = 0 \<longrightarrow> length out = n))", THEN mp])
    fix fb d n and s :: 'a and t :: "int \<times> byte list \<times> 'a"
    assume IH: "\<And>d n s t. fb d n s = Some t \<Longrightarrow> d = dec \<longrightarrow> (case t of (r, out, s') \<Rightarrow> length out \<le> n \<and> (r = 0 \<longrightarrow> length out = n))"
      and eq: "(if n = 0 then Some (0, [], s)
      else case d s n of (bzerr, out, s') \<Rightarrow>
        if bzerr \<noteq> BZ_OK \<and> bzerr \<noteq> BZ_STREAM_END then Some (- 1, out, s')
        else Option.bind (fb d (n - length out) s') (\<lambda>(r, rest, s''). Some (r, out @ rest, s''))) = Some t"
    show "d = dec \<longrightarrow> (case t of (r, out, s') \<Rightarrow> length out \<le> n \<and> (r = 0 \<longrightarrow> length out = n))"
    proof
      assume "d = dec"
      obtain e out1 s1 where d: "dec s n = (e, out1, s1)" by (cases "dec s n") auto
      have "length out1 \<le> n" using assms(1) d by (metis bz_bounded_def fst_conv snd_conv)
      then show "case t of (r, out, s') \<Rightarrow> length out \<le> n \<and> (r = 0 \<longrightarrow> length out = n)"
        using eq d \<open>d = dec\<close>
        by (cases "fb dec (n - length out1) s1") (auto dest!: IH split: if_splits)
    qed
  qed simp
  then show ?thesis by simp
qed

section \<open>What a patch means\<close>

text \<open>
  The control block is a list of triples: bytes to add to the old file, bytes to copy, and how far
  to seek in the old file after that.
\<close>

type_synonym triple = "byte list \<times> byte list \<times> int"

fun patch_spec :: "byte list \<Rightarrow> int \<Rightarrow> triple list \<Rightarrow> byte list" where
  "patch_spec old pos [] = []"
| "patch_spec old pos ((d, e, z) # ts) =
     add_old old pos d @ e @ patch_spec old (pos + int (length d) + z) ts"

definition ctrl_bytes :: "triple list \<Rightarrow> byte list" where
  "ctrl_bytes ts = concat (map (\<lambda>(d, e, z). offtout (int (length d)) @ offtout (int (length e)) @ offtout z) ts)"

definition diff_bytes :: "triple list \<Rightarrow> byte list" where
  "diff_bytes ts = concat (map fst ts)"

definition extra_bytes :: "triple list \<Rightarrow> byte list" where
  "extra_bytes ts = concat (map (fst \<circ> snd) ts)"

text \<open>The positions in the old file stay in the range of \<open>off_t\<close>.\<close>

fun seeks_ok :: "int \<Rightarrow> triple list \<Rightarrow> bool" where
  "seeks_ok pos [] \<longleftrightarrow> True"
| "seeks_ok pos ((d, e, z) # ts) \<longleftrightarrow> \<bar>z\<bar> \<le> LONG_MAX \<and> fits_off (pos + int (length d))
     \<and> fits_off (pos + int (length d) + z) \<and> seeks_ok (pos + int (length d) + z) ts"

lemma length_add_old [simp]: "length (add_old old pos d) = length d"
  by (simp add: add_old_def)

lemma length_patch_spec: "length (patch_spec old pos ts) = length (diff_bytes ts) + length (extra_bytes ts)"
  by (induction old pos ts rule: patch_spec.induct) (auto simp: diff_bytes_def extra_bytes_def)

lemma offtout_shape: "\<exists>b0 b1 b2 b3 b4 b5 b6 b7. offtout x = [b0, b1, b2, b3, b4, b5, b6, b7]"
  unfolding offtout_def Let_def by (intro exI, rule refl)

lemma length_offtout [simp]: "length (offtout x) = 8"
  using offtout_shape [of x] by auto

lemma offtin_int32: "\<bar>x\<bar> \<le> LONG_MAX \<Longrightarrow> offtin int32 (offtout x @ rest) = Some x"
  by (rule offtin_offtout_core) (auto simp: LONG_MAX_def LONG_MIN_def intro!: int32_id)

lemma offtin_int32_end: "\<bar>x\<bar> \<le> LONG_MAX \<Longrightarrow> offtin int32 (offtout x) = Some x"
  using offtin_int32 [of x "[]"] by simp

section \<open>The loop applies the triples\<close>

lemma patch_loop_done:
  "new_size \<le> int (length out) \<Longrightarrow> patch_loop dec old new_size oldpos out cs ds es = Some (Patched out)"
  by (simp add: patch_loop.simps)

text \<open>One round of the loop on a triple that fits the new file.\<close>

lemma patch_loop_triple:
  assumes lt: "int (length out) < new_size"
    and c: "FillBuffer dec 24 cs = Some (0, offtout (int (length d)) @ offtout (int (length e)) @ offtout z, cs')"
    and d: "FillBuffer dec (length d) ds = Some (0, d, ds')"
    and e: "FillBuffer dec (length e) es = Some (0, e, es')"
    and fit: "int (length out) + int (length d) + int (length e) \<le> new_size" "new_size \<le> LONG_MAX"
    and seek: "\<bar>z\<bar> \<le> LONG_MAX" "fits_off (oldpos + int (length d))" "fits_off (oldpos + int (length d) + z)"
  shows "patch_loop dec old new_size oldpos out cs ds es =
    patch_loop dec old new_size (oldpos + int (length d) + z) (out @ add_old old oldpos d @ e) cs' ds' es'"
proof -
  from fit have len: "\<bar>int (length d)\<bar> \<le> LONG_MAX" "\<bar>int (length e)\<bar> \<le> LONG_MAX" by linarith+
  define buf where "buf = offtout (int (length d)) @ offtout (int (length e)) @ offtout z"
  have ctrl: "offtin int32 buf = Some (int (length d))" "offtin int32 (drop 8 buf) = Some (int (length e))"
    "offtin int32 (drop 16 buf) = Some z"
    using len seek(1) by (simp_all add: buf_def offtin_int32 offtin_int32_end)
  have over: "fits_off (int (length out) + int (length d))" "fits_off (int (length out) + int (length d) + int (length e))"
    using fit by (auto simp: fits_off_def LONG_MIN_def)
  show ?thesis
    using lt fit seek over
    by (subst patch_loop.simps)
      (simp add: patch_round_def c [folded buf_def] d e ctrl Let_def split del: if_split)
qed

lemma patch_loop_spec:
  assumes law: "bz_law dec content" and max: "new_size \<le> LONG_MAX"
  shows "content cs = ctrl_bytes ts @ rc \<Longrightarrow> content ds = diff_bytes ts @ rd \<Longrightarrow> content es = extra_bytes ts @ re \<Longrightarrow>
    int (length out) + int (length (diff_bytes ts)) + int (length (extra_bytes ts)) = new_size \<Longrightarrow> seeks_ok oldpos ts \<Longrightarrow>
    patch_loop dec old new_size oldpos out cs ds es = Some (Patched (out @ patch_spec old oldpos ts))"
proof (induction ts arbitrary: out oldpos cs ds es)
  case Nil
  then show ?case by (simp add: patch_loop_done diff_bytes_def extra_bytes_def)
next
  case (Cons t ts)
  obtain d e z where t: "t = (d, e, z)" by (cases t)
  show ?case
  proof (cases "int (length out) < new_size")
    case False
    with Cons.prems(4) have "length (patch_spec old oldpos (t # ts)) = 0"
      using length_patch_spec [of old oldpos "t # ts"] by linarith
    then have "patch_spec old oldpos (t # ts) = []" by (simp only: length_0_conv)
    with False show ?thesis by (simp add: patch_loop_done)
  next
    case True
    let ?c = "offtout (int (length d)) @ offtout (int (length e)) @ offtout z"
    have "content cs = ?c @ (ctrl_bytes ts @ rc)" using Cons.prems(1) by (simp add: t ctrl_bytes_def)
    with law obtain cs' where cs': "FillBuffer dec 24 cs = Some (0, ?c, cs')" "content cs' = ctrl_bytes ts @ rc"
      by (rule FillBuffer_prefix) simp
    have "content ds = d @ (diff_bytes ts @ rd)" using Cons.prems(2) by (simp add: t diff_bytes_def)
    with law obtain ds' where ds': "FillBuffer dec (length d) ds = Some (0, d, ds')" "content ds' = diff_bytes ts @ rd"
      by (rule FillBuffer_prefix) simp
    have "content es = e @ (extra_bytes ts @ re)" using Cons.prems(3) by (simp add: t extra_bytes_def)
    with law obtain es' where es': "FillBuffer dec (length e) es = Some (0, e, es')" "content es' = extra_bytes ts @ re"
      by (rule FillBuffer_prefix) simp
    have sum: "int (length (out @ add_old old oldpos d @ e)) + int (length (diff_bytes ts)) + int (length (extra_bytes ts)) = new_size"
      using Cons.prems(4) by (simp add: t diff_bytes_def extra_bytes_def)
    with Cons.prems(5) have "patch_loop dec old new_size oldpos out cs ds es =
      patch_loop dec old new_size (oldpos + int (length d) + z) (out @ add_old old oldpos d @ e) cs' ds' es'"
      by (intro patch_loop_triple [OF True cs'(1) ds'(1) es'(1) _ max]) (auto simp: t)
    also have "\<dots> = Some (Patched ((out @ add_old old oldpos d @ e) @ patch_spec old (oldpos + int (length d) + z) ts))"
      using cs'(2) ds'(2) es'(2) sum Cons.prems(5) by (intro Cons.IH) (auto simp: t)
    finally show ?thesis by (simp add: t)
  qed
qed

text \<open>A patch file, its three blocks compressed.\<close>

definition bsdiff_file :: "byte list \<Rightarrow> byte list \<Rightarrow> byte list \<Rightarrow> nat \<Rightarrow> byte list" where
  "bsdiff_file cz dz ez new_size =
     BSDIFF_MAGIC @ offtout (int (length cz)) @ offtout (int (length dz)) @ offtout (int new_size) @ cz @ dz @ ez"

lemma length_BSDIFF_MAGIC [simp]: "length BSDIFF_MAGIC = 8"
  by (simp add: BSDIFF_MAGIC_def)

lemma ApplyBSDiffPatchMem_spec:
  assumes law: "bz_law dec content"
    and blocks: "content (bz_init cz) = ctrl_bytes ts @ rc" "content (bz_init dz) = diff_bytes ts @ rd"
      "content (bz_init ez) = extra_bytes ts @ re"
    and size: "int (length cz) \<le> LONG_MAX" "int (length dz) \<le> LONG_MAX" "int (length (patch_spec old 0 ts)) \<le> LONG_MAX"
    and seeks: "seeks_ok 0 ts"
    and mem: "malloc_ok (int (length (patch_spec old 0 ts)))"
  shows "ApplyBSDiffPatchMem bz_init dec malloc_ok old
    (pre @ bsdiff_file cz dz ez (length (patch_spec old 0 ts))) (int (length pre)) = Some (Patched (patch_spec old 0 ts))"
proof -
  let ?n = "length (patch_spec old 0 ts)"
  let ?h = "bsdiff_file cz dz ez ?n"
  have h: "take 8 ?h = BSDIFF_MAGIC" "offtin int32 (drop 8 ?h) = Some (int (length cz))"
    "offtin int32 (drop 16 ?h) = Some (int (length dz))" "offtin int32 (drop 24 ?h) = Some (int ?n)"
    "slice 32 (length cz) ?h = cz" "slice (32 + length cz) (length dz) ?h = dz"
    "drop (32 + length cz + length dz) ?h = ez" "length ?h = 32 + length cz + length dz + length ez"
    using size by (simp_all add: bsdiff_file_def offtin_int32 slice_def)
  have "patch_loop dec old (int ?n) 0 [] (bz_init cz) (bz_init dz) (bz_init ez) = Some (Patched ([] @ patch_spec old 0 ts))"
    by (rule patch_loop_spec [OF law size(3) blocks _ seeks]) (simp add: length_patch_spec)
  with h mem show ?thesis
    by (simp add: ApplyBSDiffPatchMem_def Let_def)
qed


text \<open>A stream whose compressed form is the data itself.\<close>

definition stored_dec :: "byte list bz_call" where
  "stored_dec s n = (if s = [] then (- 1, [], []) else (BZ_OK, take n s, drop n s))"

lemma stored_dec_law: "bz_law stored_dec id"
  by (simp add: bz_law_def stored_dec_def)

definition sample_patch :: "byte list" where
  "sample_patch = [0, 0] @ bsdiff_file (ctrl_bytes [([1, 1], [7], - 1), ([0], [], 0)]) [1, 1, 0] [7] (Suc (Suc (Suc (Suc 0))))"

lemma sample_spec:
  "add_old [10, 20, 30] 0 [1, 1] = [11, 21 :: byte]" "add_old [10, 20, 30] 1 [0] = [20 :: byte]"
  by (simp_all add: add_old_def)

lemma sample_patched:
  "ApplyBSDiffPatchMem id stored_dec (\<lambda>_. True) [10, 20, 30] sample_patch 2 = Some (Patched [11, 21, 7, 20])"
  using ApplyBSDiffPatchMem_spec [OF stored_dec_law, where ts = "[([1, 1], [7], - 1), ([0], [], 0)]"
      and old = "[10, 20, 30]" and bz_init = id and cz = "ctrl_bytes [([1, 1], [7], - 1), ([0], [], 0)]"
      and dz = "[1, 1, 0]" and ez = "[7]" and rc = "[]" and rd = "[]" and re = "[]" and pre = "[0, 0]"
      and malloc_ok = "\<lambda>_. True"]
  by (simp add: sample_spec sample_patch_def diff_bytes_def extra_bytes_def ctrl_bytes_def LONG_MAX_def LONG_MIN_def fits_off_def)

text \<open>
  bspatch implements the patch format. If the three blocks of a patch decompress to the control
  triples, the diff bytes and the extra bytes of \<open>ts\<close> (and anything after them), the library does
  what it documents, and sizes and positions fit a 32-bit \<open>off_t\<close>, then \<open>ApplyBSDiffPatchMem\<close>
  terminates and the new file is what the format's description says: for every triple, the diff
  bytes added to the old file (where the old file has a byte), the extra bytes, a seek.
\<close>

theorem ApplyBSDiffPatchMem_applies:
  assumes law: "bz_law dec content"
    and blocks: "content (bz_init cz) = ctrl_bytes ts @ rc" "content (bz_init dz) = diff_bytes ts @ rd"
      "content (bz_init ez) = extra_bytes ts @ re"
    and size: "int (length cz) \<le> LONG_MAX" "int (length dz) \<le> LONG_MAX" "int (length (patch_spec old 0 ts)) \<le> LONG_MAX"
    and seeks: "seeks_ok 0 ts"
    and mem: "malloc_ok (int (length (patch_spec old 0 ts)))"
  shows "ApplyBSDiffPatchMem bz_init dec malloc_ok old
    (pre @ bsdiff_file cz dz ez (length (patch_spec old 0 ts))) (int (length pre)) = Some (Patched (patch_spec old 0 ts))"
  using assms by (rule ApplyBSDiffPatchMem_spec)

theorem ApplyBSDiffPatchMem_applies_witness:
  "ApplyBSDiffPatchMem id stored_dec (\<lambda>_. True) [10, 20, 30] sample_patch 2 = Some (Patched [11, 21, 7, 20])"
  using ApplyBSDiffPatchMem_applies [OF stored_dec_law, where ts = "[([1, 1], [7], - 1), ([0], [], 0)]"
      and old = "[10, 20, 30]" and bz_init = id and cz = "ctrl_bytes [([1, 1], [7], - 1), ([0], [], 0)]"
      and dz = "[1, 1, 0]" and ez = "[7]" and rc = "[]" and rd = "[]" and re = "[]" and pre = "[0, 0]"
      and malloc_ok = "\<lambda>_. True"]
  by (simp add: sample_spec sample_patch_def diff_bytes_def extra_bytes_def ctrl_bytes_def LONG_MAX_def LONG_MIN_def fits_off_def)

section \<open>Nothing is accepted half done\<close>

lemma patch_round_length:
  assumes "bz_bounded dec" "patch_round dec old new_size oldpos out cs ds es = Some (Inr (p, out', cs', ds', es'))"
  shows "int (length out') \<le> new_size"
proof -
  have full: "length b = n" if "FillBuffer dec n s = Some (0, b, s')" for n s b s'
    using FillBuffer_full [OF assms(1) that] by simp
  show ?thesis
    using assms(2)
    by (auto simp: patch_round_def Let_def split: if_splits option.splits dest!: full)
qed

lemma patch_round_not_Patched: "patch_round dec old new_size oldpos out cs ds es \<noteq> Some (Inl (Patched new))"
  by (auto simp: patch_round_def Let_def split: option.splits)

lemma patch_loop_complete:
  assumes "patch_loop dec old new_size oldpos out cs ds es = Some r"
  shows "bz_bounded dec \<longrightarrow> int (length out) \<le> new_size \<longrightarrow> (\<forall>new. r = Patched new \<longrightarrow> int (length new) = new_size)"
proof (rule patch_loop.raw_induct [OF _ assms, where P = "\<lambda>dec old new_size oldpos out cs ds es r.
    bz_bounded dec \<longrightarrow> int (length out) \<le> new_size \<longrightarrow> (\<forall>new. r = Patched new \<longrightarrow> int (length new) = new_size)"],
    goal_cases)
  case (1 loop dec old new_size oldpos out cs ds es r)
  from 1(2) show ?case
    by (auto simp: patch_round_not_Patched dest!: 1(1) dest: patch_round_length
        split: if_splits option.splits sum.splits)
qed

text \<open>
  C17: bspatch accepts a patch only when the new file is complete. Whatever the patch holds and
  whatever the library returns, as long as it does not write past the room it is given, a result
  of \<open>ApplyBSDiffPatchMem\<close> that is not an error has exactly the size the header announces.
\<close>

theorem ApplyBSDiffPatchMem_size:
  assumes "bz_bounded dec"
    and "ApplyBSDiffPatchMem bz_init dec malloc_ok old patch patch_offset = Some (Patched new_data)"
  shows "offtin int32 (drop (nat patch_offset + 24) patch) = Some (int (length new_data))
    \<and> slice (nat patch_offset) 8 patch = BSDIFF_MAGIC"
proof -
  from assms(2) obtain new_size cs ds es where
    "offtin int32 (drop 24 (drop (nat patch_offset) patch)) = Some new_size" "0 \<le> new_size"
    and magic: "take 8 (drop (nat patch_offset) patch) = BSDIFF_MAGIC"
    and loop: "patch_loop dec old new_size 0 [] cs ds es = Some (Patched new_data)"
    by (auto simp: ApplyBSDiffPatchMem_def Let_def split: if_splits option.splits)
  with patch_loop_complete [OF loop] assms(1) show ?thesis
    by (simp add: slice_def add.commute)
qed

lemma stored_dec_bounded: "bz_bounded stored_dec"
  by (simp add: bz_bounded_def stored_dec_def)

theorem ApplyBSDiffPatchMem_size_witness:
  "offtin int32 (drop (2 + 24) sample_patch) = Some 4 \<and> slice 2 8 sample_patch = BSDIFF_MAGIC"
  using ApplyBSDiffPatchMem_size [OF stored_dec_bounded sample_patched] by simp

text \<open>
  on a truncated block \<open>FillBuffer\<close> does not return: a stream whose input is exhausted before
  its end makes \<open>BZ2_bzDecompress\<close> report \<open>BZ_OK\<close> without storing a byte, and the loop asks again.
\<close>

theorem FillBuffer_hangs_on_truncated_stream:
  assumes "\<And>n. 0 < n \<Longrightarrow> dec s n = (BZ_OK, [], s)" "0 < n"
  shows "FillBuffer dec n s = None"
proof (rule ccontr)
  assume "FillBuffer dec n s \<noteq> None"
  then obtain r where r: "FillBuffer dec n s = Some r" by blast
  have "(\<forall>n > 0. dec s n = (BZ_OK, [], s)) \<longrightarrow> n = 0"
  proof (rule FillBuffer.raw_induct [OF _ r, where P = "\<lambda>dec n s r. (\<forall>n > 0. dec s n = (BZ_OK, [], s)) \<longrightarrow> n = 0"],
      goal_cases)
    case (1 fb dec n s r)
    show ?case
    proof
      assume "\<forall>n > 0. dec s n = (BZ_OK, [], s)"
      with 1 show "n = 0" by (auto split: if_splits simp: Option.bind_eq_Some_conv)
    qed
  qed
  with assms show False by blast
qed

theorem FillBuffer_hangs_on_truncated_stream_witness:
  "FillBuffer (\<lambda>s n. if s = [] then (BZ_OK, [], []) else (BZ_OK, take n s, drop n s)) 24 ([] :: byte list) = None"
  by (rule FillBuffer_hangs_on_truncated_stream) simp_all

end
