(* ===== verification/Imgpatch.thy ===== *)
theory Imgpatch
  imports Bspatch
begin

text \<open>
  The image patcher \<open>ApplyImagePatch\<close> of \<^verbatim>\<open>applypatch/imgpatch.c\<close>. The libraries it calls are
  the fields of the record \<open>img_libs\<close>: \<open>libbz2\<close> as in the theory \<open>Bspatch\<close>, \<open>inflate\<close> of \<open>zlib\<close> on
  a raw stream (the return code and the bytes it stored in the room given), a \<open>deflate\<close> stream
  opened with the parameters of a chunk, \<open>malloc\<close>, \<open>SHA_update\<close> and the sink.
\<close>

section \<open>Model\<close>

definition CHUNK_NORMAL :: int where "CHUNK_NORMAL = 0"
definition CHUNK_DEFLATE :: int where "CHUNK_DEFLATE = 2"
definition CHUNK_RAW :: int where "CHUNK_RAW = 3"

record ('s, 'z, 't, 'c) img_libs =
  lib_bz_init :: "byte list \<Rightarrow> 's"
  lib_bz_dec :: "'s bz_call"
  lib_malloc_ok :: "int \<Rightarrow> bool"
  lib_inflateInit2 :: "byte list \<Rightarrow> int"
  lib_inflate :: "byte list \<Rightarrow> nat \<Rightarrow> int \<times> byte list"
  lib_deflateInit2 :: "int \<Rightarrow> int \<Rightarrow> int \<Rightarrow> int \<Rightarrow> int \<Rightarrow> byte list \<Rightarrow> 'z"
  lib_deflate :: "'z \<Rightarrow> nat \<Rightarrow> int \<times> byte list \<times> 'z"
  lib_sink :: "'t sink"
  lib_SHA_update :: "'c \<Rightarrow> byte list \<Rightarrow> 'c"

text \<open>
  What a part of the patcher leaves: \<open>Returns\<close> a value of the C function, \<open>Continues\<close> with the next
  position in the patch, or undefined behaviour.
\<close>

datatype flow = Returns int | Continues int | Undef

text \<open>The value of a 64-bit field converted to the 32-bit \<open>size_t\<close>.\<close>

definition size_field :: "byte list \<Rightarrow> nat option" where
  "size_field p = map_option (\<lambda>v. nat (v mod 2 ^ 32)) (Read8 p)"

text \<open>\<open>CHUNK_NORMAL\<close>: the return value of \<open>ApplyBSDiffPatch\<close> is not looked at.\<close>

definition normal_chunk ::
  "('s, 'z, 't, 'c) img_libs \<Rightarrow> byte list \<Rightarrow> byte list \<Rightarrow> int \<Rightarrow> 't \<Rightarrow> 'c option \<Rightarrow> (flow \<times> 't \<times> 'c option) option" where
  "normal_chunk L old patch pos tok ctx =
     (if \<not> fits_off (pos + 24) then Some (Undef, tok, ctx)
      else if pos + 24 > int (length patch) then Some (Returns (- 1), tok, ctx)
      else let h = drop (nat pos) patch in
        case (size_field h, size_field (drop 8 h), size_field (drop 16 h)) of
          (Some src_start, Some src_len, Some patch_offset) \<Rightarrow>
            if src_start + src_len > length old then Some (Undef, tok, ctx)
            else (case ApplyBSDiffPatch (lib_bz_init L) (lib_bz_dec L) (lib_malloc_ok L) (lib_sink L) (lib_SHA_update L)
                        (slice src_start src_len old) patch (int32 (int patch_offset)) tok ctx of
                    None \<Rightarrow> None
                  | Some (None, tok', ctx') \<Rightarrow> Some (Undef, tok', ctx')
                  | Some (Some _, tok', ctx') \<Rightarrow> Some (Continues (pos + 24), tok', ctx'))
        | _ \<Rightarrow> Some (Undef, tok, ctx))"

text \<open>\<open>CHUNK_RAW\<close>: a negative length passes the check, and a NULL context is not tested for.\<close>

definition raw_chunk ::
  "('s, 'z, 't, 'c) img_libs \<Rightarrow> byte list \<Rightarrow> int \<Rightarrow> 't \<Rightarrow> 'c option \<Rightarrow> flow \<times> 't \<times> 'c option" where
  "raw_chunk L patch pos tok ctx =
     (if \<not> fits_off (pos + 4) then (Undef, tok, ctx)
      else if pos + 4 > int (length patch) then (Returns (- 1), tok, ctx)
      else case Read4 (drop (nat pos) patch) of
        None \<Rightarrow> (Undef, tok, ctx)
      | Some data_len \<Rightarrow>
          if \<not> fits_off (pos + 4 + data_len) then (Undef, tok, ctx)
          else if pos + 4 + data_len > int (length patch) then (Returns (- 1), tok, ctx)
          else if data_len < 0 \<or> ctx = None then (Undef, tok, ctx)
          else let d = slice (nat pos + 4) (nat data_len) patch; ctx' = sha_with (lib_SHA_update L) ctx d in
            case lib_sink L d tok of (n, tok') \<Rightarrow>
              if n \<noteq> data_len then (Returns (- 1), tok', ctx')
              else (Continues (pos + 4 + data_len), tok', ctx'))"

text \<open>The loop that compresses the target data into the sink, \<open>temp_size\<close> bytes at a time.\<close>

partial_function (option) deflate_loop ::
  "('z \<Rightarrow> nat \<Rightarrow> int \<times> byte list \<times> 'z) \<Rightarrow> 't sink \<Rightarrow> ('c \<Rightarrow> byte list \<Rightarrow> 'c) \<Rightarrow> nat \<Rightarrow> 'z \<Rightarrow> 't \<Rightarrow> 'c
   \<Rightarrow> (int \<times> 't \<times> 'c) option" where
  "deflate_loop deflate sink SHA_update temp_size strm tok ctx =
     (case deflate strm temp_size of (ret, out, strm') \<Rightarrow>
        case sink out tok of (n, tok') \<Rightarrow>
          if n \<noteq> int (length out) then Some (- 1, tok', ctx)
          else if ret \<noteq> Z_STREAM_END then deflate_loop deflate sink SHA_update temp_size strm' tok' (SHA_update ctx out)
          else Some (0, tok', SHA_update ctx out))"

text \<open>
  The source data of a \<open>CHUNK_DEFLATE\<close>, inflated to exactly \<open>expanded_len\<close> bytes with the bonus data
  at the end; \<open>None\<close> where the patcher gives up.
\<close>

definition expand_source ::
  "('s, 'z, 't, 'c) img_libs \<Rightarrow> byte list \<Rightarrow> nat \<Rightarrow> byte list \<Rightarrow> byte list option" where
  "expand_source L src expanded_len bonus =
     (if \<not> lib_malloc_ok L (int expanded_len) then None
      else if lib_inflateInit2 L src \<noteq> Z_OK then None
      else case lib_inflate L src expanded_len of (ret, out) \<Rightarrow>
        if ret \<noteq> Z_STREAM_END then None
        else if expanded_len - length out \<noteq> length bonus then None
        else Some (out @ bonus))"

text \<open>The bonus data belongs to the second chunk.\<close>

definition bonus_of :: "byte list option \<Rightarrow> nat \<Rightarrow> byte list" where
  "bonus_of bonus_data i = (if i = 1 then case bonus_data of None \<Rightarrow> [] | Some b \<Rightarrow> b else [])"

definition deflate_chunk ::
  "('s, 'z, 't, 'c) img_libs \<Rightarrow> byte list \<Rightarrow> byte list \<Rightarrow> byte list option \<Rightarrow> nat \<Rightarrow> int \<Rightarrow> 't \<Rightarrow> 'c option
   \<Rightarrow> (flow \<times> 't \<times> 'c option) option" where
  "deflate_chunk L old patch bonus_data i pos tok ctx =
     (if \<not> fits_off (pos + 60) then Some (Undef, tok, ctx)
      else if pos + 60 > int (length patch) then Some (Returns (- 1), tok, ctx)
      else let h = drop (nat pos) patch;
               bonus = bonus_of bonus_data i in
        case (size_field h, size_field (drop 8 h), size_field (drop 16 h), size_field (drop 24 h)) of
          (Some src_start, Some src_len, Some patch_offset, Some expanded_len) \<Rightarrow>
            (case (Read4 (drop 40 h), Read4 (drop 44 h), Read4 (drop 48 h), Read4 (drop 52 h), Read4 (drop 56 h)) of
              (Some level, Some meth, Some windowBits, Some memLevel, Some strategy) \<Rightarrow>
                if src_start + src_len > length old then Some (Undef, tok, ctx)
                else (case expand_source L (slice src_start src_len old) expanded_len bonus of
                  None \<Rightarrow> Some (Returns (- 1), tok, ctx)
                | Some expanded_source \<Rightarrow>
                  (case ApplyBSDiffPatchMem (lib_bz_init L) (lib_bz_dec L) (lib_malloc_ok L) expanded_source patch
                          (int32 (int patch_offset)) of
                     None \<Rightarrow> None
                   | Some Undefined \<Rightarrow> Some (Undef, tok, ctx)
                   | Some (Fails _) \<Rightarrow> Some (Returns (- 1), tok, ctx)
                   | Some (Patched target) \<Rightarrow>
                       let fresh = int32 (int expanded_len) < 32768;
                           temp_size = (if fresh then 32768 else expanded_len) in
                       (case ctx of
                          None \<Rightarrow> Some (Undef, tok, ctx)
                        | Some c \<Rightarrow>
                            if fresh \<and> \<not> lib_malloc_ok L 32768 then Some (Undef, tok, ctx)
                            else (case deflate_loop (lib_deflate L) (lib_sink L) (lib_SHA_update L) temp_size
                                         (lib_deflateInit2 L level meth windowBits memLevel strategy target) tok c of
                                    None \<Rightarrow> None
                                  | Some (r, tok', c') \<Rightarrow>
                                      Some (if r = 0 then Continues (pos + 60) else Returns (- 1), tok', Some c')))))
            | _ \<Rightarrow> Some (Undef, tok, ctx))
        | _ \<Rightarrow> Some (Undef, tok, ctx))"

text \<open>One round of the loop over the chunks: the record's type, then the chunk.\<close>

definition image_chunk ::
  "('s, 'z, 't, 'c) img_libs \<Rightarrow> byte list \<Rightarrow> byte list \<Rightarrow> byte list option \<Rightarrow> nat \<Rightarrow> int \<Rightarrow> 't \<Rightarrow> 'c option
   \<Rightarrow> (flow \<times> 't \<times> 'c option) option" where
  "image_chunk L old patch bonus_data i pos tok ctx =
     (if \<not> fits_off (pos + 4) then Some (Undef, tok, ctx)
      else if pos + 4 > int (length patch) then Some (Returns (- 1), tok, ctx)
      else case Read4 (drop (nat pos) patch) of
        None \<Rightarrow> Some (Undef, tok, ctx)
      | Some type \<Rightarrow>
          if type = CHUNK_NORMAL then normal_chunk L old patch (pos + 4) tok ctx
          else if type = CHUNK_RAW then Some (raw_chunk L patch (pos + 4) tok ctx)
          else if type = CHUNK_DEFLATE then deflate_chunk L old patch bonus_data i (pos + 4) tok ctx
          else Some (Returns (- 1), tok, ctx))"

text \<open>The loop, with the number of chunks left; \<open>i\<close> counts the chunks done.\<close>

fun image_chunks ::
  "('s, 'z, 't, 'c) img_libs \<Rightarrow> byte list \<Rightarrow> byte list \<Rightarrow> byte list option \<Rightarrow> nat \<Rightarrow> nat \<Rightarrow> int \<Rightarrow> 't \<Rightarrow> 'c option
   \<Rightarrow> (int option \<times> 't \<times> 'c option) option" where
  "image_chunks L old patch bonus_data 0 i pos tok ctx = Some (Some 0, tok, ctx)"
| "image_chunks L old patch bonus_data (Suc left) i pos tok ctx =
     (case image_chunk L old patch bonus_data i pos tok ctx of
        None \<Rightarrow> None
      | Some (Undef, tok', ctx') \<Rightarrow> Some (None, tok', ctx')
      | Some (Returns r, tok', ctx') \<Rightarrow> Some (Some r, tok', ctx')
      | Some (Continues pos', tok', ctx') \<Rightarrow> image_chunks L old patch bonus_data left (Suc i) pos' tok' ctx')"

definition IMGDIFF_MAGIC :: "byte list" where
  "IMGDIFF_MAGIC = map of_char ''IMGDIFF2''"

text \<open>
  \<open>ApplyImagePatch\<close>: the value returned (\<open>None\<close> inside where the behaviour is undefined), the sink's
  token and the SHA context; \<open>None\<close> outside where it does not return.
\<close>

definition ApplyImagePatch ::
  "('s, 'z, 't, 'c) img_libs \<Rightarrow> byte list \<Rightarrow> byte list \<Rightarrow> byte list option \<Rightarrow> 't \<Rightarrow> 'c option
   \<Rightarrow> (int option \<times> 't \<times> 'c option) option" where
  "ApplyImagePatch L old patch bonus_data tok ctx =
     (if length patch < 12 then Some (Some (- 1), tok, ctx)
      else if take 8 patch \<noteq> IMGDIFF_MAGIC then Some (Some (- 1), tok, ctx)
      else case Read4 (drop 8 patch) of
        None \<Rightarrow> Some (None, tok, ctx)
      | Some num_chunks \<Rightarrow> image_chunks L old patch bonus_data (nat num_chunks) 0 12 tok ctx)"

section \<open>The format\<close>

datatype chunk =
    Normal nat nat nat
  | Raw "byte list"
  | Deflate nat nat nat nat nat int int int int int

fun encode_chunk :: "chunk \<Rightarrow> byte list" where
  "encode_chunk (Normal src_start src_len patch_offset) =
     Write4 CHUNK_NORMAL @ Write8 (int src_start) @ Write8 (int src_len) @ Write8 (int patch_offset)"
| "encode_chunk (Raw d) = Write4 CHUNK_RAW @ Write4 (int (length d)) @ d"
| "encode_chunk (Deflate src_start src_len patch_offset expanded_len target_len level meth windowBits memLevel strategy) =
     Write4 CHUNK_DEFLATE @ Write8 (int src_start) @ Write8 (int src_len) @ Write8 (int patch_offset) @
     Write8 (int expanded_len) @ Write8 (int target_len) @
     Write4 level @ Write4 meth @ Write4 windowBits @ Write4 memLevel @ Write4 strategy"

text \<open>Every field fits the type it is read into.\<close>

fun chunk_ok :: "chunk \<Rightarrow> bool" where
  "chunk_ok (Normal s l off) \<longleftrightarrow> int s < 2 ^ 32 \<and> int l < 2 ^ 32 \<and> int off \<le> LONG_MAX"
| "chunk_ok (Raw d) \<longleftrightarrow> int (length d) \<le> LONG_MAX"
| "chunk_ok (Deflate s l off e t lv m w ml st) \<longleftrightarrow> int s < 2 ^ 32 \<and> int l < 2 ^ 32 \<and> int off \<le> LONG_MAX \<and>
     int e < 2 ^ 32 \<and> int t < 2 ^ 32 \<and> fits_off lv \<and> fits_off m \<and> fits_off w \<and> fits_off ml \<and> fits_off st"

definition image_patch :: "chunk list \<Rightarrow> byte list \<Rightarrow> byte list" where
  "image_patch cs blobs = IMGDIFF_MAGIC @ Write4 (int (length cs)) @ concat (map encode_chunk cs) @ blobs"

text \<open>The output a chunk stands for; \<open>deflated\<close> is all that a \<open>deflate\<close> stream will produce.\<close>

definition bs_output :: "('s, 'z, 't, 'c) img_libs \<Rightarrow> byte list \<Rightarrow> byte list \<Rightarrow> nat \<Rightarrow> byte list option" where
  "bs_output L old patch off =
     (case ApplyBSDiffPatchMem (lib_bz_init L) (lib_bz_dec L) (lib_malloc_ok L) old patch (int off) of
        Some (Patched new) \<Rightarrow> Some new | _ \<Rightarrow> None)"

fun chunk_output ::
  "('s, 'z, 't, 'c) img_libs \<Rightarrow> ('z \<Rightarrow> byte list) \<Rightarrow> byte list \<Rightarrow> byte list \<Rightarrow> byte list \<Rightarrow> chunk \<Rightarrow> byte list option" where
  "chunk_output L deflated old patch bonus (Normal s l off) =
     (if s + l \<le> length old then bs_output L (slice s l old) patch off else None)"
| "chunk_output L deflated old patch bonus (Raw d) = Some d"
| "chunk_output L deflated old patch bonus (Deflate s l off e t lv m w ml st) =
     (if s + l \<le> length old then
        case expand_source L (slice s l old) e bonus of
          None \<Rightarrow> None
        | Some src \<Rightarrow> map_option (\<lambda>target. deflated (lib_deflateInit2 L lv m w ml st target)) (bs_output L src patch off)
      else None)"

fun chunks_output ::
  "('s, 'z, 't, 'c) img_libs \<Rightarrow> ('z \<Rightarrow> byte list) \<Rightarrow> byte list \<Rightarrow> byte list \<Rightarrow> byte list option \<Rightarrow> nat \<Rightarrow> chunk list
   \<Rightarrow> byte list option" where
  "chunks_output L deflated old patch bonus_data i [] = Some []"
| "chunks_output L deflated old patch bonus_data i (c # cs) =
     (case chunk_output L deflated old patch (bonus_of bonus_data i) c of
        None \<Rightarrow> None
      | Some out \<Rightarrow> map_option (\<lambda>rest. out @ rest) (chunks_output L deflated old patch bonus_data (Suc i) cs))"

text \<open>
  What is used of \<open>zlib\<close>'s \<open>deflate\<close> with \<open>Z_FINISH\<close>: each call produces the next bytes of the
  compressed data, at least one unless it reports the end, which it does when all is produced; and
  of the SHA library: updating with two pieces is updating with their concatenation.
\<close>

definition deflate_law :: "('z \<Rightarrow> nat \<Rightarrow> int \<times> byte list \<times> 'z) \<Rightarrow> ('z \<Rightarrow> byte list) \<Rightarrow> bool" where
  "deflate_law deflate deflated \<longleftrightarrow> (\<forall>z n. 0 < n \<longrightarrow> (case deflate z n of (r, out, z') \<Rightarrow>
     deflated z = out @ deflated z' \<and> (if r = Z_STREAM_END then deflated z' = [] else out \<noteq> [])))"

definition sha_law :: "('c \<Rightarrow> byte list \<Rightarrow> 'c) \<Rightarrow> ('c \<Rightarrow> byte list) \<Rightarrow> bool" where
  "sha_law SHA_update hashed \<longleftrightarrow> (\<forall>c d. hashed (SHA_update c d) = hashed c @ d)"

section \<open>The patcher implements the format\<close>

lemma size_field_Write8: "int n < 2 ^ 32 \<Longrightarrow> size_field (Write8 (int n) @ rest) = Some n"
  by (simp add: size_field_def Read8_Write8)

lemma Read4_fits: "fits_off v \<Longrightarrow> Read4 (Write4 v @ rest) = Some v"
  by (simp add: fits_off_def Read4_Write4)

lemma bs_output_Some:
  "bs_output L old patch off = Some new \<Longrightarrow>
   ApplyBSDiffPatchMem (lib_bz_init L) (lib_bz_dec L) (lib_malloc_ok L) old patch (int off) = Some (Patched new)"
  by (auto simp: bs_output_def split: option.splits patch_result.splits)

lemma int32_nat: "int n \<le> LONG_MAX \<Longrightarrow> int32 (int n) = int n"
  by (rule int32_id) (simp_all add: LONG_MIN_def LONG_MAX_def)


lemma image_chunk_at:
  assumes "patch = pre @ Write4 type @ body" "fits_off type" "int (length patch) \<le> LONG_MAX"
  shows "image_chunk L old patch bonus i (int (length pre)) tok ctx =
    (let pos = int (length (pre @ Write4 type)) in
     if type = CHUNK_NORMAL then normal_chunk L old patch pos tok ctx
     else if type = CHUNK_RAW then Some (raw_chunk L patch pos tok ctx)
     else if type = CHUNK_DEFLATE then deflate_chunk L old patch bonus i pos tok ctx
     else Some (Returns (- 1), tok, ctx))"
proof -
  have "fits_off (int (length pre) + 4)" "int (length pre) + 4 \<le> int (length patch)"
    using assms by (auto simp: fits_off_def LONG_MIN_def)
  moreover have "Read4 (drop (nat (int (length pre))) patch) = Some type" using assms by (simp add: Read4_fits)
  ultimately show ?thesis by (simp add: image_chunk_def Let_def)
qed

lemma deflate_lawD:
  "deflate_law deflate deflated \<Longrightarrow> 0 < n \<Longrightarrow> deflate z n = (r, out, z') \<Longrightarrow>
   deflated z = out @ deflated z' \<and> (if r = Z_STREAM_END then deflated z' = [] else out \<noteq> [])"
  unfolding deflate_law_def by (drule spec [of _ z], drule spec [of _ n]) simp

lemma chunk_type_fits [simp]: "fits_off CHUNK_NORMAL" "fits_off CHUNK_RAW" "fits_off CHUNK_DEFLATE"
  by (simp_all add: fits_off_def CHUNK_NORMAL_def CHUNK_RAW_def CHUNK_DEFLATE_def LONG_MIN_def LONG_MAX_def)

lemma chunk_types_differ [simp]:
  "CHUNK_RAW \<noteq> CHUNK_NORMAL" "CHUNK_DEFLATE \<noteq> CHUNK_NORMAL" "CHUNK_DEFLATE \<noteq> CHUNK_RAW"
  by (simp_all add: CHUNK_NORMAL_def CHUNK_RAW_def CHUNK_DEFLATE_def)

context byte_sink
begin

definition sunk :: "('c \<Rightarrow> byte list) \<Rightarrow> byte list \<Rightarrow> 't \<Rightarrow> 'c \<Rightarrow> 't \<Rightarrow> 'c \<Rightarrow> bool" where
  "sunk hashed out t c t' c' \<longleftrightarrow> inv t' \<and> taken t' = taken t @ out \<and> room t' = room t - length out
     \<and> hashed c' = hashed c @ out"

lemma sunk_trans: "sunk h a t c t' c' \<Longrightarrow> sunk h b t' c' t'' c'' \<Longrightarrow> sunk h (a @ b) t c t'' c''"
  by (simp add: sunk_def)

lemma sink_sunk:
  assumes "sha_law SHA_update hashed" "inv t" "length d \<le> room t"
  obtains t' where "sink d t = (int (length d), t')" "sunk hashed d t c t' (SHA_update c d)"
  using assms sink_takesE by (metis sha_law_def sunk_def)

lemma deflate_loop_sinks:
  assumes law: "deflate_law deflate deflated" and sha: "sha_law SHA_update hashed" and n: "0 < n"
  shows "inv t \<Longrightarrow> length (deflated z) \<le> room t \<Longrightarrow>
    \<exists>t' c'. deflate_loop deflate sink SHA_update n z t c = Some (0, t', c') \<and> sunk hashed (deflated z) t c t' c'"
proof (induction "length (deflated z)" arbitrary: z t c rule: less_induct)
  case less
  obtain r out z' where d: "deflate z n = (r, out, z')" by (cases "deflate z n")
  note out = deflate_lawD [OF law n d, THEN conjunct1] deflate_lawD [OF law n d, THEN conjunct2]
  with less.prems obtain t' where t': "sink out t = (int (length out), t')" "sunk hashed out t c t' (SHA_update c out)"
    using sink_sunk [OF sha, of t out c] by auto
  show ?case
  proof (cases "r = Z_STREAM_END")
    case True
    with d out t' show ?thesis by (auto simp: deflate_loop.simps [of deflate _ _ _ z])
  next
    case False
    have "length (deflated z') < length (deflated z)" "inv t'" "length (deflated z') \<le> room t'"
      using False out t'(2) less.prems by (auto simp: sunk_def)
    from less.hyps [OF this, of "SHA_update c out"] obtain t'' c'' where
      "deflate_loop deflate sink SHA_update n z' t' (SHA_update c out) = Some (0, t'', c'')"
      "sunk hashed (deflated z') t' (SHA_update c out) t'' c''" by blast
    with False d out t' show ?thesis
      by (auto simp: deflate_loop.simps [of deflate _ _ _ z] intro: sunk_trans)
  qed
qed

lemma raw_chunk_sinks:
  assumes sha: "sha_law (lib_SHA_update L) hashed" and L: "lib_sink L = sink"
    and patch: "patch = pre @ encode_chunk (Raw d) @ rest" "int (length patch) \<le> LONG_MAX"
    and t: "inv t" "length d \<le> room t"
  shows "\<exists>t' c'. image_chunk L old patch bonus i (int (length pre)) t (Some c) =
    Some (Continues (int (length (pre @ encode_chunk (Raw d)))), t', Some c') \<and> sunk hashed d t c t' c'"
proof -
  from t obtain t' where t': "sink d t = (int (length d), t')" "sunk hashed d t c t' (lib_SHA_update L c d)"
    by (rule sink_sunk [OF sha])
  define q where "q = length (pre @ Write4 CHUNK_RAW)"
  have q: "drop q patch = Write4 (int (length d)) @ d @ rest" "slice (q + 4) (length d) patch = d"
    "q + 4 + length d \<le> length patch"
    using patch(1) by (simp_all add: q_def slice_def)
  have len: "fits_off (int (length d))" using patch by (auto simp: fits_off_def LONG_MIN_def)
  have "raw_chunk L patch (int q) t (Some c) =
      (Continues (int q + 4 + int (length d)), t', Some (lib_SHA_update L c d))"
    using q(3) patch(2) t'(1) Read4_fits [OF len]
    by (auto simp: raw_chunk_def q(1,2) L Let_def sha_with_def fits_off_def LONG_MIN_def nat_add_distrib)
  moreover have "patch = pre @ Write4 CHUNK_RAW @ (Write4 (int (length d)) @ d @ rest)" by (simp add: patch(1))
  ultimately show ?thesis using t'(2) patch(2)
    by (simp add: image_chunk_at q_def Let_def)
qed

lemma normal_chunk_sinks:
  assumes sha: "sha_law (lib_SHA_update L) hashed" and L: "lib_sink L = sink"
    and patch: "patch = pre @ encode_chunk (Normal s l off) @ rest" "int (length patch) \<le> LONG_MAX"
    and ok: "chunk_ok (Normal s l off)" "chunk_output L deflated old patch b (Normal s l off) = Some d"
    and t: "inv t" "length d \<le> room t"
  shows "\<exists>t' c'. image_chunk L old patch bonus i (int (length pre)) t (Some c) =
    Some (Continues (int (length (pre @ encode_chunk (Normal s l off)))), t', Some c') \<and> sunk hashed d t c t' c'"
proof -
  from t obtain t' where t': "sink d t = (int (length d), t')" "sunk hashed d t c t' (lib_SHA_update L c d)"
    by (rule sink_sunk [OF sha])
  define q where "q = length (pre @ Write4 CHUNK_NORMAL)"
  have q: "drop q patch = Write8 (int s) @ Write8 (int l) @ Write8 (int off) @ rest" "q + 24 \<le> length patch"
    using patch(1) by (simp_all add: q_def)
  have off: "int off < 2 ^ 32" using ok(1) by (simp add: LONG_MAX_def)
  have bs: "s + l \<le> length old" "ApplyBSDiffPatchMem (lib_bz_init L) (lib_bz_dec L) (lib_malloc_ok L) (slice s l old) patch (int off) = Some (Patched d)"
    using ok(2) by (auto split: if_splits dest!: bs_output_Some)
  have "normal_chunk L old patch (int q) t (Some c) = Some (Continues (int q + 24), t', Some (lib_SHA_update L c d))"
    using q(2) patch(2) t'(1) ok(1) off bs
    by (auto simp: normal_chunk_def q(1) L Let_def sha_with_def fits_off_def LONG_MIN_def size_field_Write8
        ApplyBSDiffPatch_def int32_nat)
  moreover have "patch = pre @ Write4 CHUNK_NORMAL @ (Write8 (int s) @ Write8 (int l) @ Write8 (int off) @ rest)"
    by (simp add: patch(1))
  ultimately show ?thesis using t'(2) patch(2)
    by (simp add: image_chunk_at q_def Let_def)
qed

lemma deflate_chunk_sinks:
  assumes sha: "sha_law (lib_SHA_update L) hashed" and L: "lib_sink L = sink" and law: "deflate_law (lib_deflate L) deflated"
    and mem: "lib_malloc_ok L 32768"
    and c: "ch = Deflate s l off e t lv m w ml st"
    and patch: "patch = pre @ encode_chunk ch @ rest" "int (length patch) \<le> LONG_MAX"
    and ok: "chunk_ok ch" "chunk_output L deflated old patch (bonus_of bonus i) ch = Some d"
    and tok: "inv tok" "length d \<le> room tok"
  shows "\<exists>t' c'. image_chunk L old patch bonus i (int (length pre)) tok (Some c) =
    Some (Continues (int (length (pre @ encode_chunk ch))), t', Some c') \<and> sunk hashed d tok c t' c'"
proof -
  define q where "q = length (pre @ Write4 CHUNK_DEFLATE)"
  define h where "h = Write8 (int s) @ Write8 (int l) @ Write8 (int off) @ Write8 (int e) @ Write8 (int t) @
     Write4 lv @ Write4 m @ Write4 w @ Write4 ml @ Write4 st @ rest"
  have q: "drop q patch = h" "q + 60 \<le> length patch"
    using patch(1) by (simp_all add: q_def c h_def)
  have off: "int off < 2 ^ 32" "int off \<le> LONG_MAX" using ok(1) by (simp_all add: LONG_MAX_def c)
  have sizes: "size_field h = Some s" "size_field (drop 8 h) = Some l" "size_field (drop 16 h) = Some off"
    "size_field (drop 24 h) = Some e"
    using ok(1) off by (simp_all add: h_def c size_field_Write8)
  have ints: "Read4 (drop 40 h) = Some lv" "Read4 (drop 44 h) = Some m" "Read4 (drop 48 h) = Some w"
    "Read4 (drop 52 h) = Some ml" "Read4 (drop 56 h) = Some st"
    using ok(1) by (simp_all add: h_def c Read4_fits)
  from ok(2) obtain src target where sl: "s + l \<le> length old"
    and src: "expand_source L (slice s l old) e (bonus_of bonus i) = Some src"
    and target: "bs_output L src patch off = Some target"
    and d: "d = deflated (lib_deflateInit2 L lv m w ml st target)"
    by (auto simp: c split: if_splits option.splits)
  define temp where "temp = (if int32 (int e) < 32768 then 32768 else e)"
  have "0 < temp" by (cases "e = 0") (auto simp: temp_def int32_def)
  then obtain t' c' where loop: "deflate_loop (lib_deflate L) sink (lib_SHA_update L) temp
      (lib_deflateInit2 L lv m w ml st target) tok c = Some (0, t', c')" "sunk hashed d tok c t' c'"
    using deflate_loop_sinks [OF law sha] tok unfolding d by blast
  have "fits_off (int q + 60)" using q(2) patch(2) by (auto simp: fits_off_def LONG_MIN_def)
  then have "deflate_chunk L old patch bonus i (int q) tok (Some c) = Some (Continues (int q + 60), t', Some c')"
    using q(2) sl loop(1) mem
    by (simp add: deflate_chunk_def q(1) sizes ints src bs_output_Some [OF target] int32_nat off(2)
        L Let_def flip: temp_def split del: if_split)
  moreover have "patch = pre @ Write4 CHUNK_DEFLATE @ h" by (simp add: patch(1) c h_def)
  ultimately show ?thesis using loop(2) patch(2)
    by (simp add: image_chunk_at q_def Let_def c)
qed

lemma image_chunk_sinks:
  assumes "sha_law (lib_SHA_update L) hashed" "lib_sink L = sink" "deflate_law (lib_deflate L) deflated"
    "lib_malloc_ok L 32768" "patch = pre @ encode_chunk ch @ rest" "int (length patch) \<le> LONG_MAX"
    "chunk_ok ch" "chunk_output L deflated old patch (bonus_of bonus i) ch = Some d" "inv tok" "length d \<le> room tok"
  shows "\<exists>t' c'. image_chunk L old patch bonus i (int (length pre)) tok (Some c) =
    Some (Continues (int (length (pre @ encode_chunk ch))), t', Some c') \<and> sunk hashed d tok c t' c'"
proof (cases ch)
  case (Normal s l off)
  then show ?thesis using normal_chunk_sinks [OF assms(1,2)] assms by blast
next
  case (Raw x)
  then show ?thesis using raw_chunk_sinks [OF assms(1,2)] assms by auto
next
  case (Deflate s l off e t lv m w ml st)
  then show ?thesis by (rule deflate_chunk_sinks [OF assms(1-4) _ assms(5-10)])
qed

lemma image_chunks_sinks:
  assumes "sha_law (lib_SHA_update L) hashed" "lib_sink L = sink" "deflate_law (lib_deflate L) deflated"
    "lib_malloc_ok L 32768" "int (length patch) \<le> LONG_MAX"
  shows "patch = pre @ concat (map encode_chunk cs) @ rest \<Longrightarrow> \<forall>ch \<in> set cs. chunk_ok ch \<Longrightarrow>
    chunks_output L deflated old patch bonus i cs = Some d \<Longrightarrow> inv tok \<Longrightarrow> length d \<le> room tok \<Longrightarrow>
    \<exists>t' c'. image_chunks L old patch bonus (length cs) i (int (length pre)) tok (Some c) = Some (Some 0, t', Some c')
      \<and> sunk hashed d tok c t' c'"
proof (induction cs arbitrary: pre i d tok c)
  case Nil
  then show ?case by (simp add: sunk_def)
next
  case (Cons ch cs)
  from Cons.prems(3) obtain out rest' where out: "chunk_output L deflated old patch (bonus_of bonus i) ch = Some out"
    and rest': "chunks_output L deflated old patch bonus (Suc i) cs = Some rest'" and d: "d = out @ rest'"
    by (auto split: option.splits)
  have "patch = pre @ encode_chunk ch @ (concat (map encode_chunk cs) @ rest)" using Cons.prems(1) by simp
  moreover have "chunk_ok ch" "length out \<le> room tok" using Cons.prems(2,5) d by simp_all
  ultimately obtain t' c' where one: "image_chunk L old patch bonus i (int (length pre)) tok (Some c) =
    Some (Continues (int (length (pre @ encode_chunk ch))), t', Some c')" "sunk hashed out tok c t' c'"
    using image_chunk_sinks [OF assms(1-4) _ assms(5) _ out Cons.prems(4), of pre "concat (map encode_chunk cs) @ rest" c]
    by blast
  have "inv t'" "length rest' \<le> room t'" using one(2) Cons.prems(5) d by (auto simp: sunk_def)
  with Cons.IH [of "pre @ encode_chunk ch" "Suc i" rest' t' c'] Cons.prems rest' obtain t'' c'' where
    "image_chunks L old patch bonus (length cs) (Suc i) (int (length (pre @ encode_chunk ch))) t' (Some c') = Some (Some 0, t'', Some c'')"
    "sunk hashed rest' t' c' t'' c''" by auto
  with one d show ?case by (auto intro: sunk_trans)
qed

lemma ApplyImagePatch_sinks:
  assumes laws: "sha_law (lib_SHA_update L) hashed" "lib_sink L = sink" "deflate_law (lib_deflate L) deflated"
    "lib_malloc_ok L 32768" and size: "int (length (image_patch cs blobs)) \<le> LONG_MAX"
    and out: "\<forall>ch \<in> set cs. chunk_ok ch" "chunks_output L deflated old (image_patch cs blobs) bonus 0 cs = Some d"
    and tok: "inv tok" "length d \<le> room tok"
  shows "\<exists>t' c'. ApplyImagePatch L old (image_patch cs blobs) bonus tok (Some c) = Some (Some 0, t', Some c')
    \<and> sunk hashed d tok c t' c'"
proof -
  let ?pre = "IMGDIFF_MAGIC @ Write4 (int (length cs))" and ?p = "image_patch cs blobs"
  have m: "length IMGDIFF_MAGIC = 8" by (simp add: IMGDIFF_MAGIC_def)
  have pre: "length ?pre = 12" by (simp add: m)
  have p: "?p = ?pre @ concat (map encode_chunk cs) @ blobs" by (simp add: image_patch_def)
  have enc: "4 \<le> length (encode_chunk ch)" for ch by (cases ch) simp_all
  have "length cs \<le> length (concat (map encode_chunk cs))" for cs
  proof (induction cs)
    case (Cons ch cs)
    then show ?case using enc [of ch] by simp
  qed simp
  from this [of cs] have "fits_off (int (length cs))"
    using size by (simp add: p m fits_off_def LONG_MIN_def)
  then have "Read4 (drop 8 ?p) = Some (int (length cs))" by (simp add: image_patch_def m Read4_fits)
  moreover have "12 \<le> length ?p" "take 8 ?p = IMGDIFF_MAGIC" by (simp_all add: image_patch_def m)
  moreover from image_chunks_sinks [OF laws size p out tok, of c] obtain t' c' where
    "image_chunks L old ?p bonus (length cs) 0 12 tok (Some c) = Some (Some 0, t', Some c')" "sunk hashed d tok c t' c'"
    unfolding pre by auto
  ultimately show ?thesis by (simp add: ApplyImagePatch_def)
qed

end

section \<open>Properties\<close>

text \<open>
  C15: imgpatch implements the image patch format. For a patch of the chunks \<open>cs\<close> whose fields fit
  their types, if every chunk has an output (the bsdiff patches it points to apply, the sources of
  deflated chunks inflate to the announced length, bonus data included), \<open>ApplyImagePatch\<close> into a
  memory buffer with room for it terminates and returns 0; the buffer then holds the outputs of the
  chunks in order, and the SHA context has seen exactly the same bytes.
\<close>

theorem ApplyImagePatch_applies:
  assumes "sha_law (lib_SHA_update L) hashed" "lib_sink L = MemorySink" "deflate_law (lib_deflate L) deflated"
    "lib_malloc_ok L 32768" "int (length (image_patch cs blobs)) \<le> LONG_MAX"
    and "\<forall>ch \<in> set cs. chunk_ok ch" "chunks_output L deflated old (image_patch cs blobs) bonus 0 cs = Some d"
    and "msi_inv tok" "length d \<le> msi_room tok"
  shows "\<exists>tok' c'. ApplyImagePatch L old (image_patch cs blobs) bonus tok (Some c) = Some (Some 0, tok', Some c')
    \<and> msi_inv tok' \<and> msi_taken tok' = msi_taken tok @ d \<and> hashed c' = hashed c @ d"
  using mem_sink.ApplyImagePatch_sinks [OF assms, of c] by (auto simp: mem_sink.sunk_def)

text \<open>Libraries that store data uncompressed.\<close>

definition stored_libs :: "(byte list, byte list, MemorySinkInfo, byte list) img_libs" where
  "stored_libs = \<lparr>lib_bz_init = id, lib_bz_dec = stored_dec, lib_malloc_ok = (\<lambda>_. True),
     lib_inflateInit2 = (\<lambda>_. Z_OK), lib_inflate = (\<lambda>src n. (Z_STREAM_END, take n src)),
     lib_deflateInit2 = (\<lambda>_ _ _ _ _ d. d),
     lib_deflate = (\<lambda>z n. (if length z \<le> n then Z_STREAM_END else Z_OK, take n z, drop n z)),
     lib_sink = MemorySink, lib_SHA_update = (@)\<rparr>"

definition sample_chunks :: "chunk list" where
  "sample_chunks = [Normal 0 3 113, Deflate 3 2 113 3 4 9 8 (- 15) 8 0, Raw [9]]"

definition sample_blob :: "byte list" where
  "sample_blob = bsdiff_file (ctrl_bytes [([1, 1], [7], - 1), ([0], [], 0)]) [1, 1, 0] [7] (Suc (Suc (Suc (Suc 0))))"

lemma sample_blob_applies:
  "bs_output stored_libs [10, 20, 30] (image_patch sample_chunks sample_blob) 113 = Some [11, 21, 7, 20]"
proof -
  define pre where "pre = IMGDIFF_MAGIC @ Write4 (int (length sample_chunks)) @ concat (map encode_chunk sample_chunks)"
  have "length pre = 113" by (simp add: pre_def sample_chunks_def IMGDIFF_MAGIC_def)
  then have "ApplyBSDiffPatchMem id stored_dec (\<lambda>_. True) [10, 20, 30] (pre @ sample_blob) 113 = Some (Patched [11, 21, 7, 20])"
    using ApplyBSDiffPatchMem_spec [OF stored_dec_law, where ts = "[([1, 1], [7], - 1), ([0], [], 0)]"
      and old = "[10, 20, 30]" and bz_init = id and cz = "ctrl_bytes [([1, 1], [7], - 1), ([0], [], 0)]"
      and dz = "[1, 1, 0]" and ez = "[7]" and rc = "[]" and rd = "[]" and re = "[]" and pre = pre
      and malloc_ok = "\<lambda>_. True"]
    by (simp add: sample_spec sample_blob_def diff_bytes_def extra_bytes_def ctrl_bytes_def LONG_MAX_def LONG_MIN_def fits_off_def)
  moreover have "image_patch sample_chunks sample_blob = pre @ sample_blob" by (simp add: image_patch_def pre_def)
  ultimately show ?thesis by (simp add: bs_output_def stored_libs_def)
qed

lemma stored_libs_laws:
  "sha_law (lib_SHA_update stored_libs) id" "deflate_law (lib_deflate stored_libs) id"
  by (auto simp: stored_libs_def sha_law_def deflate_law_def Z_STREAM_END_def Z_OK_def)

lemma sample_chunks_output:
  "chunks_output stored_libs id [10, 20, 30, 10, 20] (image_patch sample_chunks sample_blob) (Some [30]) 0 sample_chunks
   = Some [11, 21, 7, 20, 11, 21, 7, 20, 9]"
proof -
  have e: "expand_source stored_libs (slice 3 2 [10, 20, 30, 10, 20]) 3 [30] = Some [10, 20, 30]"
    by (simp add: expand_source_def stored_libs_def slice_def)
  have d: "lib_deflateInit2 stored_libs 9 8 (- 15) 8 0 x = x" for x by (simp add: stored_libs_def)
  have s: "slice 0 3 [10, 20, 30, 10, 20] = [10, 20, 30 :: byte]" by (simp add: slice_def)
  show ?thesis
    unfolding sample_chunks_def
    by (simp add: s e d bonus_of_def sample_blob_applies [unfolded sample_chunks_def])
qed

theorem ApplyImagePatch_applies_witness:
  "\<exists>tok' c'. ApplyImagePatch stored_libs [10, 20, 30, 10, 20] (image_patch sample_chunks sample_blob) (Some [30])
      \<lparr>msi_buffer = [0, 0, 0, 0, 0, 0, 0, 0, 0, 0], msi_size = 10, msi_pos = 0\<rparr> (Some []) = Some (Some 0, tok', Some c')
    \<and> msi_inv tok' \<and> msi_taken tok' = [11, 21, 7, 20, 11, 21, 7, 20, 9] \<and> c' = [11, 21, 7, 20, 11, 21, 7, 20, 9]"
proof -
  have "int (length (image_patch sample_chunks sample_blob)) \<le> LONG_MAX"
    by (simp add: image_patch_def sample_chunks_def sample_blob_def bsdiff_file_def ctrl_bytes_def IMGDIFF_MAGIC_def LONG_MAX_def)
  moreover have "\<forall>ch \<in> set sample_chunks. chunk_ok ch"
    by (simp add: sample_chunks_def fits_off_def LONG_MIN_def LONG_MAX_def)
  moreover have "lib_sink stored_libs = MemorySink" "lib_malloc_ok stored_libs 32768" by (simp_all add: stored_libs_def)
  ultimately show ?thesis
    using ApplyImagePatch_applies [OF stored_libs_laws(1) _ stored_libs_laws(2) _ _ _ sample_chunks_output,
        of "\<lparr>msi_buffer = [0, 0, 0, 0, 0, 0, 0, 0, 0, 0], msi_size = 10, msi_pos = 0\<rparr>" "[]"]
    by (auto simp: msi_inv_def msi_room_def msi_taken_def)
qed

text \<open>
  a normal chunk whose bsdiff patch is rejected is dropped without an error: \<open>ApplyImagePatch\<close>
  ignores what \<open>ApplyBSDiffPatch\<close> returns, so a patch of one such chunk succeeds with no output.
\<close>

theorem normal_chunk_failure_ignored:
  assumes "chunk_ok (Normal s l off)" "s + l \<le> length old"
    and "int (length (image_patch [Normal s l off] blobs)) \<le> LONG_MAX"
    and fails: "ApplyBSDiffPatchMem (lib_bz_init L) (lib_bz_dec L) (lib_malloc_ok L) (slice s l old)
      (image_patch [Normal s l off] blobs) (int off) = Some (Fails r)"
  shows "ApplyImagePatch L old (image_patch [Normal s l off] blobs) bonus tok ctx = Some (Some 0, tok, ctx)"
proof -
  define pre where "pre = IMGDIFF_MAGIC @ Write4 1"
  define h where "h = Write8 (int s) @ Write8 (int l) @ Write8 (int off) @ blobs"
  define p where "p = image_patch [Normal s l off] blobs"
  have p: "p = pre @ Write4 CHUNK_NORMAL @ h" by (simp add: p_def pre_def h_def image_patch_def)
  have pre: "length pre = 12" by (simp add: pre_def IMGDIFF_MAGIC_def)
  have off: "int off < 2 ^ 32" using assms(1) by (simp add: LONG_MAX_def)
  have "40 \<le> length p" by (simp add: p pre h_def)
  moreover have "drop 16 p = h" by (simp add: p pre)
  ultimately have "normal_chunk L old p 16 tok ctx = Some (Continues 40, tok, ctx)"
    using assms(1,2) fails [folded p_def] off
    by (simp add: normal_chunk_def h_def Let_def size_field_Write8 ApplyBSDiffPatch_def int32_nat fits_off_def LONG_MIN_def LONG_MAX_def)
  then have "image_chunk L old p bonus 0 12 tok ctx = Some (Continues 40, tok, ctx)"
    using image_chunk_at [OF p, of L old bonus 0 tok ctx] assms(3) by (simp add: pre p_def)
  moreover have "Read4 (drop 8 p) = Some 1" "take 8 p = IMGDIFF_MAGIC"
    using Read4_fits [of 1] by (simp_all add: p pre_def IMGDIFF_MAGIC_def fits_off_def LONG_MIN_def LONG_MAX_def)
  ultimately show ?thesis using \<open>40 \<le> length p\<close> by (simp add: ApplyImagePatch_def flip: p_def)
qed

theorem normal_chunk_failure_ignored_witness:
  "ApplyImagePatch stored_libs [10, 20, 30] (image_patch [Normal 0 3 0] []) None
     \<lparr>msi_buffer = [0], msi_size = 1, msi_pos = 0\<rparr> None
   = Some (Some 0, \<lparr>msi_buffer = [0], msi_size = 1, msi_pos = 0\<rparr>, None)"
  by (rule normal_chunk_failure_ignored [where r = 1])
    (simp_all add: image_patch_def IMGDIFF_MAGIC_def BSDIFF_MAGIC_def LONG_MAX_def ApplyBSDiffPatchMem_def Let_def)

end
