(* ===== verification/Applypatch.thy ===== *)
theory Applypatch
  imports Patch_Files Imgpatch
begin

text \<open>
  \<open>applypatch\<close> and \<open>GenerateTarget\<close> of \<^verbatim>\<open>applypatch/applypatch.c\<close>: choosing the source, making room,
  producing the target through a sink, checking its digest and installing it. The compression libraries
  are the record \<open>codecs\<close>; a patch is a value with the flag "is a blob" and its bytes.
\<close>

section \<open>Model\<close>

record ('s, 'z) codecs =
  cd_bz_init :: "byte list \<Rightarrow> 's"
  cd_bz_dec :: "'s bz_call"
  cd_malloc_ok :: "int \<Rightarrow> bool"
  cd_inflateInit2 :: "byte list \<Rightarrow> int"
  cd_inflate :: "byte list \<Rightarrow> nat \<Rightarrow> int \<times> byte list"
  cd_deflateInit2 :: "int \<Rightarrow> int \<Rightarrow> int \<Rightarrow> int \<Rightarrow> int \<Rightarrow> byte list \<Rightarrow> 'z"
  cd_deflate :: "'z \<Rightarrow> nat \<Rightarrow> int \<times> byte list \<times> 'z"

definition with_sink :: "('s, 'z) codecs \<Rightarrow> ('w, 'c) env \<Rightarrow> 't sink \<Rightarrow> ('s, 'z, 't, 'c) img_libs" where
  "with_sink C E sink = \<lparr>lib_bz_init = cd_bz_init C, lib_bz_dec = cd_bz_dec C, lib_malloc_ok = cd_malloc_ok C,
     lib_inflateInit2 = cd_inflateInit2 C, lib_inflate = cd_inflate C, lib_deflateInit2 = cd_deflateInit2 C,
     lib_deflate = cd_deflate C, lib_sink = sink, lib_SHA_update = SHA_update E\<rparr>"

type_synonym patch_value = "bool \<times> byte list"

text \<open>
  The type of the patch from its first bytes: the result of the patcher, the sink's token and the SHA
  context; \<open>Some None\<close> when the format is unknown, \<open>None\<close> for undefined behaviour or no return.
\<close>

definition apply_any ::
  "('s, 'z) codecs \<Rightarrow> ('w, 'c) env \<Rightarrow> 't sink \<Rightarrow> byte list \<Rightarrow> byte list \<Rightarrow> byte list option \<Rightarrow> 't
   \<Rightarrow> (int \<times> 't \<times> 'c) option option" where
  "apply_any C E sink source patch bonus_data tok =
     (let outcome = (\<lambda>r. case r of Some (Some n, tok, Some c) \<Rightarrow> Some (Some (n, tok, c)) | _ \<Rightarrow> None) in
      if 8 \<le> length patch \<and> take 8 patch = BSDIFF_MAGIC then
        outcome (ApplyBSDiffPatch (cd_bz_init C) (cd_bz_dec C) (cd_malloc_ok C) sink (SHA_update E)
                   source patch 0 tok (Some (SHA_init E)))
      else if 8 \<le> length patch \<and> take 8 patch = IMGDIFF_MAGIC then
        outcome (ApplyImagePatch (with_sink C E sink) source patch bonus_data tok (Some (SHA_init E)))
      else Some None)"

text \<open>The directory that stands for the target's file system: the name up to its second slash.\<close>

definition target_fs :: "string \<Rightarrow> string" where
  "target_fs target_filename =
     take 1 target_filename @ takeWhile (\<lambda>c. c \<noteq> CHR ''/'') (drop 1 target_filename)"

definition enough_room :: "'w os \<Rightarrow> string \<Rightarrow> int \<Rightarrow> 'w \<Rightarrow> bool" where
  "enough_room sys fs tgt_size w \<longleftrightarrow>
     (let free_space = FreeSpaceForFile sys fs w in
      256 * 1024 < free_space \<and> (tgt_size * 3) mod 2 ^ 32 div 2 < free_space)"

text \<open>
  Saving the source in the cache. A size that was never set is read uninitialized; the size of a file is
  converted to \<open>size_t\<close>.
\<close>

definition back_up :: "'w os \<Rightarrow> FileContents \<Rightarrow> 'w \<Rightarrow> (bool \<times> 'w) option" where
  "back_up sys source_file w =
     (case fc_size source_file of
        None \<Rightarrow> None
      | Some sz \<Rightarrow>
          (case MakeFreeSpaceOnCache sys (sz mod 2 ^ 32) w of (r, w) \<Rightarrow>
             if r < 0 then Some (False, w)
             else Option.bind (SaveFileContents sys CACHE_TEMP_SOURCE source_file w) (\<lambda>(r, w). Some (0 \<le> r, w))))"

text \<open>
  The first half of a round of \<open>GenerateTarget\<close>: whether there is room, and the copy in the cache.
  The result is \<open>retry\<close> and whether a copy was made, or \<open>None\<close> inside for the error return.
\<close>

definition make_room ::
  "'w os \<Rightarrow> FileContents \<Rightarrow> bool \<Rightarrow> string \<Rightarrow> string \<Rightarrow> int \<Rightarrow> nat \<Rightarrow> 'w \<Rightarrow> ((nat \<times> bool) option \<times> 'w) option" where
  "make_room sys source_file use_source source_filename target_filename tgt_size retry w =
     (if is_partition target_filename then
        Option.bind (back_up sys source_file w) (\<lambda>(ok, w). Some (if ok then Some (0, True) else None, w))
      else
        let enough_space = (0 < retry \<and> enough_room sys (target_fs target_filename) tgt_size w);
            retry = (if enough_space then retry else 0) in
        if \<not> enough_space \<and> use_source then
          if is_partition source_filename then Some (None, w)
          else Option.bind (back_up sys source_file w) (\<lambda>(ok, w).
            if ok then Some (Some (retry, True), snd (os_unlink sys source_filename w)) else Some (None, w))
        else Some (Some (retry, False), w))"

definition patch_suffix :: "string \<Rightarrow> string" where
  "patch_suffix target_filename = target_filename @ ''.patch''"

text \<open>What the patcher produced: in memory for a partition, in a file otherwise.\<close>

datatype product = InMemory MemorySinkInfo | InFile

text \<open>
  The second half of a round: the sink is opened, the patch applied. The result is the patcher's, or
  \<open>None\<close> inside for the error returns.
\<close>

definition run_patch ::
  "('s, 'z) codecs \<Rightarrow> ('w, 'c) env \<Rightarrow> byte list \<Rightarrow> patch_value \<Rightarrow> byte list option \<Rightarrow> string \<Rightarrow> int \<Rightarrow> 'w
   \<Rightarrow> ((int \<times> product \<times> 'c) option \<times> 'w) option" where
  "run_patch C E source patch bonus_data target_filename tgt_size w =
     (if \<not> fst patch then Some (None, w)
      else if is_partition target_filename then
        (case os_malloc (os_of E) tgt_size w of
           None \<Rightarrow> Some (None, w)
         | Some buffer \<Rightarrow>
             Option.bind
               (apply_any C E MemorySink source (snd patch) bonus_data
                  \<lparr>msi_buffer = buffer, msi_size = int32 tgt_size, msi_pos = 0\<rparr>)
               (\<lambda>r. case r of
                  None \<Rightarrow> Some (None, w)
                | Some (result, msi, ctx) \<Rightarrow> Some (Some (result, InMemory msi, ctx), w)))
      else
        (case os_open (os_of E) (patch_suffix target_filename) O_CREAT_TRUNC w of (output, w) \<Rightarrow>
           if output < 0 then Some (None, w)
           else Option.bind (apply_any C E (FileSink (os_write (os_of E) output)) source (snd patch) bonus_data w) (\<lambda>r.
             case r of
               None \<Rightarrow> Some (None, w)
             | Some (result, w, ctx) \<Rightarrow>
                 Some (Some (result, InFile, ctx),
                       snd (os_close (os_of E) output (os_fsync (os_of E) output w))))))"

lemma make_room_retry:
  "make_room sys fc use_source src tgt n retry w = Some (Some (retry', copied), w') \<Longrightarrow> retry' \<le> retry"
  by (auto simp: make_room_def Let_def bind_eq_Some_conv split: if_splits)

text \<open>
  The loop of \<open>GenerateTarget\<close>: a failed patch is tried once more, after making room. The result is what
  was produced, the SHA context and whether a copy is in the cache, or \<open>None\<close> inside for the error
  returns.
\<close>

function generate_loop ::
  "('s, 'z) codecs \<Rightarrow> ('w, 'c) env \<Rightarrow> FileContents \<Rightarrow> bool \<Rightarrow> byte list \<Rightarrow> patch_value \<Rightarrow> byte list option
   \<Rightarrow> string \<Rightarrow> string \<Rightarrow> int \<Rightarrow> nat \<Rightarrow> bool \<Rightarrow> 'w \<Rightarrow> ((product \<times> 'c \<times> bool) option \<times> 'w) option" where
  "generate_loop C E source_file use_source source patch bonus_data source_filename target_filename tgt_size retry made_copy w =
     (case make_room (os_of E) source_file use_source source_filename target_filename tgt_size retry w of
        None \<Rightarrow> None
      | Some (None, w) \<Rightarrow> Some (None, w)
      | Some (Some (retry', copied), w) \<Rightarrow>
          (case run_patch C E source patch bonus_data target_filename tgt_size w of
             None \<Rightarrow> None
           | Some (None, w) \<Rightarrow> Some (None, w)
           | Some (Some (result, out, ctx), w) \<Rightarrow>
               if result = 0 then Some (Some (out, ctx, made_copy \<or> copied), w)
               else if retry' = 0 then Some (None, w)
               else
                 generate_loop C E source_file use_source source patch bonus_data source_filename target_filename tgt_size
                   (retry' - 1) (made_copy \<or> copied)
                   (if is_partition target_filename then w else snd (os_unlink (os_of E) (patch_suffix target_filename) w))))"
  by pat_completeness auto
termination
  by (relation "measure (\<lambda>(C, E, sf, us, s, p, b, sn, tn, ts, retry, mc, w). retry)") (auto dest: make_room_retry)

declare generate_loop.simps [simp del]

text \<open>
  Installing the product: into the partition, or by renaming the patched file over the target after
  giving it the mode and owner of the source.
\<close>

definition install_product ::
  "('w, 'c) env \<Rightarrow> product \<Rightarrow> (int \<times> int \<times> int) option \<Rightarrow> string \<Rightarrow> 'w prog \<Rightarrow> (bool \<times> 'w prog) option" where
  "install_product E out st target_filename s =
     (case out of
        InMemory msi \<Rightarrow>
          Option.bind (WriteToPartition (os_of E) (take (nat (msi_pos msi)) (msi_buffer msi)) target_filename s) (\<lambda>(r, s).
          Some (r = 0, s))
      | InFile \<Rightarrow>
          (case st of
             None \<Rightarrow> None
           | Some (mode, uid, gid) \<Rightarrow>
               let outname = patch_suffix target_filename in
               (case os_chmod (os_of E) outname mode (world s) of (r, w) \<Rightarrow>
                  if r \<noteq> 0 then Some (False, s\<lparr>world := w\<rparr>)
                  else case os_chown (os_of E) outname uid gid w of (r, w) \<Rightarrow>
                    if r \<noteq> 0 then Some (False, s\<lparr>world := w\<rparr>)
                    else case os_rename (os_of E) outname target_filename w of (r, w) \<Rightarrow>
                      Some (r = 0, s\<lparr>world := w\<rparr>))))"

text \<open>
  \<open>GenerateTarget\<close>. \<open>use_source\<close> says that the patch matched the source file and not the copy.
\<close>

definition GenerateTarget ::
  "('s, 'z) codecs \<Rightarrow> ('w, 'c) env \<Rightarrow> FileContents \<Rightarrow> patch_value option \<Rightarrow> FileContents \<Rightarrow> patch_value option
   \<Rightarrow> string \<Rightarrow> string \<Rightarrow> byte list \<Rightarrow> int \<Rightarrow> byte list option \<Rightarrow> 'w prog \<Rightarrow> (int \<times> 'w prog) option" where
  "GenerateTarget C E source_file source_patch_value copy_file copy_patch_value source_filename target_filename
     target_sha1 tgt_size bonus_data s =
     (let use_source = (source_patch_value \<noteq> None);
          source_to_use = (if use_source then source_file else copy_file);
          patch = (if use_source then source_patch_value else copy_patch_value) in
      case (patch, fc_data source_to_use) of
        (Some patch, Some data) \<Rightarrow>
          Option.bind (generate_loop C E source_file use_source data patch bonus_data source_filename target_filename tgt_size
                         1 False (world s)) (\<lambda>(r, w).
          let s = s\<lparr>world := w\<rparr> in
          case r of
            None \<Rightarrow> Some (1, s)
          | Some (out, ctx, made_copy) \<Rightarrow>
              if SHA_final E ctx \<noteq> target_sha1 then Some (1, s)
              else Option.bind (install_product E out (fc_st source_to_use) target_filename s) (\<lambda>(ok, s).
                if \<not> ok then Some (1, s)
                else if made_copy then Some (0, s\<lparr>world := snd (os_unlink (os_of E) CACHE_TEMP_SOURCE (world s))\<rparr>)
                else Some (0, s)))
      | _ \<Rightarrow> None)"

text \<open>The patch for a loaded file: the one at the index of its digest, unless that is \<open>NULL\<close>.\<close>

definition patch_for :: "FileContents \<Rightarrow> string list \<Rightarrow> patch_value option list \<Rightarrow> patch_value option option" where
  "patch_for fc patch_sha1_str patch_data =
     (case FindMatchingPatch (the (fc_sha1 fc)) patch_sha1_str of
        None \<Rightarrow> Some None
      | Some to_use \<Rightarrow> if to_use < length patch_data then Some (patch_data ! to_use) else None)"

definition applypatch ::
  "('s, 'z) codecs \<Rightarrow> ('w, 'c) env \<Rightarrow> string \<Rightarrow> string \<Rightarrow> string \<Rightarrow> int \<Rightarrow> string list \<Rightarrow> patch_value option list
   \<Rightarrow> byte list option \<Rightarrow> 'w prog \<Rightarrow> (int \<times> 'w prog) option" where
  "applypatch C E source_filename target_filename target_sha1_str tgt_size patch_sha1_str patch_data bonus_data s =
     (let target_filename = (if target_filename = ''-'' then source_filename else target_filename) in
      case ParseSha1 target_sha1_str of
        None \<Rightarrow> Some (1, s)
      | Some target_sha1 \<Rightarrow>
          Option.bind (LoadFileContents E target_filename uninit True s) (\<lambda>(r, source_file, s).
          if r = 0 \<and> fc_sha1 source_file = Some target_sha1 then Some (0, s)
          else
            Option.bind
              (if fc_data source_file = None \<or> target_filename \<noteq> source_filename
               then Option.bind (LoadFileContents E source_filename (source_file\<lparr>fc_data := None\<rparr>) True s) (\<lambda>(_, fc, s). Some (fc, s))
               else Some (source_file, s))
              (\<lambda>(source_file, s).
            Option.bind (if fc_data source_file \<noteq> None then patch_for source_file patch_sha1_str patch_data else Some None) (\<lambda>source_patch.
            if source_patch \<noteq> None
            then GenerateTarget C E source_file source_patch uninit None source_filename target_filename target_sha1 tgt_size bonus_data s
            else
              Option.bind (LoadFileContents E CACHE_TEMP_SOURCE uninit True s) (\<lambda>(r, copy_file, s).
              if r < 0 then Some (1, s)
              else Option.bind (patch_for copy_file patch_sha1_str patch_data) (\<lambda>copy_patch.
                if copy_patch = None then Some (1, s)
                else GenerateTarget C E (source_file\<lparr>fc_data := None\<rparr>) None copy_file copy_patch
                       source_filename target_filename target_sha1 tgt_size bonus_data s))))))"

lemma image_chunk_Returns:
  "image_chunk L old patch bonus_data i pos tok ctx = Some (Returns r, tok', ctx') \<Longrightarrow> r = - 1"
  by (auto simp: image_chunk_def normal_chunk_def raw_chunk_def deflate_chunk_def Let_def
      split: if_splits option.splits prod.splits patch_result.splits)

section \<open>What the patchers do to their sink\<close>

text \<open>
  The patchers touch the sink's token only by calling the sink, so whatever one call keeps, a run of a
  patcher keeps, however it ends.
\<close>

locale sink_invariant =
  fixes sink :: "'t sink"
    and inv :: "'t \<Rightarrow> bool"
  assumes sink_keeps: "inv t \<Longrightarrow> sink d t = (n, t') \<Longrightarrow> inv t'"
begin

lemma ApplyBSDiffPatch_keeps:
  "inv tok \<Longrightarrow> ApplyBSDiffPatch bz_init dec malloc_ok sink upd old patch off tok ctx = Some (r, tok', ctx') \<Longrightarrow> inv tok'"
  by (auto simp: ApplyBSDiffPatch_def dest: sink_keeps split: option.splits patch_result.splits prod.splits if_splits)

lemma deflate_loop_keeps:
  assumes inv: "inv tok" and run: "deflate_loop deflate sink upd n strm tok c = Some (r, tok', c')"
  shows "inv tok'"
proof -
  have "sink = sink \<longrightarrow> inv tok \<longrightarrow> (case (r, tok', c') of (r, tok', c') \<Rightarrow> inv tok')"
  proof (rule deflate_loop.raw_induct [OF _ run, where P = "\<lambda>deflate sink' upd n strm tok c y. sink' = sink \<longrightarrow>
      inv tok \<longrightarrow> (case y of (r, tok', c') \<Rightarrow> inv tok')"], intro impI, goal_cases)
    case (1 loop deflate sink' upd n strm tok c y)
    obtain ret out strm' where d: "deflate strm n = (ret, out, strm')" by (cases "deflate strm n")
    obtain m tok1 where s: "sink out tok = (m, tok1)" by fastforce
    from sink_keeps [OF 1(4) s] have i: "inv tok1" .
    show ?case
    proof (cases "m = int (length out) \<and> ret \<noteq> Z_STREAM_END")
      case True
      with 1(2,3) d s have "loop deflate sink upd n strm' tok1 (upd c out) = Some y" by simp
      from 1(1) [OF this] i show ?thesis by simp
    qed (use 1(2,3) d s i in \<open>auto split: if_splits\<close>)
  qed
  with inv show ?thesis by simp
qed

lemma image_chunk_keeps:
  assumes "lib_sink L = sink" "inv tok" "image_chunk L old patch bonus_data i pos tok ctx = Some (f, tok', ctx')"
  shows "inv tok'"
proof -
  have "inv tok'" if "normal_chunk L old patch pos tok ctx = Some (f, tok', ctx')" for pos
    using that assms(1,2) ApplyBSDiffPatch_keeps
    by (auto simp: normal_chunk_def Let_def split: if_splits option.splits)
  moreover have "inv tok'" if "raw_chunk L patch pos tok ctx = (f, tok', ctx')" for pos
    using that assms(1,2) sink_keeps
    by (auto simp: raw_chunk_def Let_def split: if_splits option.splits prod.splits)
  moreover have "inv tok'" if "deflate_chunk L old patch bonus_data i pos tok ctx = Some (f, tok', ctx')" for pos
    using that assms(1,2) deflate_loop_keeps
    by (auto simp: deflate_chunk_def Let_def split: if_splits option.splits patch_result.splits)
  ultimately show ?thesis using assms(2,3) by (auto simp: image_chunk_def split: if_splits option.splits)
qed

lemma image_chunks_keep:
  assumes "lib_sink L = sink"
  shows "inv tok \<Longrightarrow> image_chunks L old patch bonus_data left i pos tok ctx = Some (r, tok', ctx') \<Longrightarrow> inv tok'"
proof (induction left arbitrary: i pos tok ctx)
  case (Suc left)
  from Suc.prems(2) obtain f tok1 ctx1 where ch: "image_chunk L old patch bonus_data i pos tok ctx = Some (f, tok1, ctx1)"
    by (auto split: option.splits)
  with image_chunk_keeps [OF assms Suc.prems(1)] have "inv tok1" .
  with Suc.IH Suc.prems(2) ch show ?case by (auto split: flow.splits)
qed simp

lemma apply_any_keeps:
  assumes "inv tok" "apply_any C E sink src patch bonus tok = Some (Some (r, tok', c'))"
  shows "inv tok'"
proof -
  have l: "lib_sink (with_sink C E sink) = sink" by (simp add: with_sink_def)
  consider (bsdiff) "ApplyBSDiffPatch (cd_bz_init C) (cd_bz_dec C) (cd_malloc_ok C) sink (SHA_update E) src patch 0 tok (Some (SHA_init E))
      = Some (Some r, tok', Some c')"
    | (image) "ApplyImagePatch (with_sink C E sink) src patch bonus tok (Some (SHA_init E)) = Some (Some r, tok', Some c')"
    using assms(2) by (auto simp: apply_any_def Let_def split: option.splits if_splits)
  then show ?thesis
  proof cases
    case image
    then show ?thesis using assms(1) image_chunks_keep [OF l]
      by (auto simp: ApplyImagePatch_def split: option.splits if_splits)
  qed (rule ApplyBSDiffPatch_keeps [OF assms(1)])
qed

end

section \<open>What is hashed is what is written\<close>

text \<open>
  A sink that takes all of a piece or none of it. The patchers hash each piece they hand to the sink; after
  a run that returned 0 over such a sink, the SHA context has seen exactly what the sink took.
\<close>

definition stream_update :: "('c \<Rightarrow> byte list \<Rightarrow> 'c) \<Rightarrow> bool" where
  "stream_update upd \<longleftrightarrow> (\<forall>c a b. upd (upd c a) b = upd c (a @ b)) \<and> (\<forall>c. upd c [] = c)"

locale atomic_sink = sink_invariant sink inv
  for sink :: "'t sink" and inv :: "'t \<Rightarrow> bool" +
  fixes taken :: "'t \<Rightarrow> byte list"
  assumes sink_atomic: "inv t \<Longrightarrow> sink d t = (n, t') \<Longrightarrow>
    n = int (length d) \<and> taken t' = taken t @ d \<or> n < int (length d) \<and> taken t' = taken t"
begin

text \<open>The token and the context have both seen the same bytes since \<open>tok\<close> and \<open>c\<close>.\<close>

definition agree :: "('c \<Rightarrow> byte list \<Rightarrow> 'c) \<Rightarrow> 't \<Rightarrow> 'c \<Rightarrow> 't \<Rightarrow> 'c option \<Rightarrow> bool" where
  "agree upd tok c tok' ctx' \<longleftrightarrow> inv tok' \<and> (\<exists>d. taken tok' = taken tok @ d \<and> ctx' = Some (upd c d))"

lemma agree_refl: "stream_update upd \<Longrightarrow> inv tok \<Longrightarrow> agree upd tok c tok (Some c)"
  unfolding agree_def by (rule conjI, assumption, rule exI [of _ "[]"]) (simp add: stream_update_def)

lemma agree_trans:
  assumes "stream_update upd" "agree upd tok c tok1 (Some c1)" "agree upd tok1 c1 tok2 ctx2"
  shows "agree upd tok c tok2 ctx2"
proof -
  from assms(2,3) obtain d e where "taken tok2 = (taken tok @ d) @ e" "ctx2 = Some (upd (upd c d) e)" "inv tok2"
    unfolding agree_def by fastforce
  then show ?thesis using assms(1) unfolding agree_def stream_update_def by (intro conjI exI [of _ "d @ e"]) simp_all
qed

lemma agree_sink:
  assumes "inv tok" "sink d tok = (n, tok')" "\<not> n < int (length d)"
  shows "agree upd tok c tok' (Some (upd c d))"
  using sink_atomic [OF assms(1,2)] sink_keeps [OF assms(1,2)] assms(3) by (auto simp: agree_def)

lemma ApplyBSDiffPatch_agrees:
  assumes upd: "stream_update upd" and inv: "inv tok"
    and run: "ApplyBSDiffPatch bz_init dec malloc_ok sink upd old patch off tok (Some c) = Some (Some r, tok', ctx')"
  shows "agree upd tok c tok' ctx'"
proof -
  obtain n t where s: "sink d tok = (n d, t d)" for d
    by (rule that [of "\<lambda>d. fst (sink d tok)" "\<lambda>d. snd (sink d tok)"]) simp
  have none: "agree upd tok c (t d) (Some c)" if "n d < int (length d)" for d
  proof -
    from sink_atomic [OF inv s [of d]] sink_keeps [OF inv s [of d]] that have "inv (t d)" "taken (t d) = taken tok" by auto
    with agree_refl [OF upd inv, of c] show ?thesis by (simp add: agree_def)
  qed
  show ?thesis using run agree_refl [OF upd inv, of c] none agree_sink [OF inv s]
    by (auto simp: ApplyBSDiffPatch_def s sha_with_def split: option.splits patch_result.splits if_splits)
qed

lemma deflate_loop_agrees:
  assumes upd: "stream_update upd" and inv: "inv tok"
    and run: "deflate_loop deflate sink upd n strm tok c = Some (0, tok', c')"
  shows "agree upd tok c tok' (Some c')"
proof -
  have "sink = sink \<longrightarrow> upd = upd \<longrightarrow> inv tok \<longrightarrow>
    (case (0 :: int, tok', c') of (r, tok', c') \<Rightarrow> r = 0 \<longrightarrow> agree upd tok c tok' (Some c'))"
  proof (rule deflate_loop.raw_induct [OF _ run, where P = "\<lambda>deflate sink' upd' n strm tok c y. sink' = sink \<longrightarrow> upd' = upd \<longrightarrow>
      inv tok \<longrightarrow> (case y of (r, tok', c') \<Rightarrow> r = 0 \<longrightarrow> agree upd tok c tok' (Some c'))"], intro impI, goal_cases)
    case (1 loop deflate sink' upd' n strm tok c y)
    obtain ret out strm' where d: "deflate strm n = (ret, out, strm')" by (cases "deflate strm n")
    obtain m tok1 where s: "sink out tok = (m, tok1)" by fastforce
    show ?case
    proof (cases "m = int (length out)")
      case True
      then have a: "agree upd tok c tok1 (Some (upd c out))" by (intro agree_sink [OF 1(5) s]) simp
      then have i: "inv tok1" by (simp add: agree_def)
      show ?thesis
      proof (cases "ret = Z_STREAM_END")
        case False
        with 1(2) 1(3,4) d s True have "loop deflate sink upd n strm' tok1 (upd c out) = Some y" by simp
        from 1(1) [OF this] i agree_trans [OF upd a] show ?thesis by auto
      qed (use 1(2) 1(3,4) d s True a in auto)
    qed (use 1(2) 1(3,4) d s in auto)
  qed
  with inv show ?thesis by simp
qed

lemma normal_chunk_agrees:
  assumes "stream_update (lib_SHA_update L)" "lib_sink L = sink" "inv tok"
    and "normal_chunk L old patch pos tok (Some c) = Some (Continues pos', tok', ctx')"
  shows "agree (lib_SHA_update L) tok c tok' ctx'"
proof -
  from assms(4) obtain src off r where
    "ApplyBSDiffPatch (lib_bz_init L) (lib_bz_dec L) (lib_malloc_ok L) (lib_sink L) (lib_SHA_update L) src patch off tok (Some c)
       = Some (Some r, tok', ctx')"
    by (auto simp: normal_chunk_def Let_def split: if_splits option.splits)
  with assms(1-3) show ?thesis using ApplyBSDiffPatch_agrees by metis
qed

lemma raw_chunk_agrees:
  assumes "lib_sink L = sink" "inv tok" and "raw_chunk L patch pos tok (Some c) = (Continues pos', tok', ctx')"
  shows "agree (lib_SHA_update L) tok c tok' ctx'"
proof -
  obtain data_len where r: "Read4 (drop (nat pos) patch) = Some data_len"
    using assms(3) by (cases "Read4 (drop (nat pos) patch)") (auto simp: raw_chunk_def split: if_splits)
  obtain n tok1 where s: "sink (slice (nat pos + 4) (nat data_len) patch) tok = (n, tok1)" by fastforce
  with assms(3) r have d: "0 \<le> data_len" "n = data_len" "tok1 = tok'"
    and c: "ctx' = Some (lib_SHA_update L c (slice (nat pos + 4) (nat data_len) patch))"
    by (auto simp: raw_chunk_def Let_def sha_with_def assms(1) split: if_splits)
  show ?thesis unfolding c by (rule agree_sink [OF assms(2) s [unfolded d(3)]]) (use d in \<open>simp add: slice_def\<close>)
qed

lemma deflate_chunk_agrees:
  assumes "stream_update (lib_SHA_update L)" "lib_sink L = sink" "inv tok"
    and "deflate_chunk L old patch bonus_data i pos tok (Some c) = Some (Continues pos', tok', ctx')"
  shows "agree (lib_SHA_update L) tok c tok' ctx'"
proof -
  from assms(4) obtain n strm c' where
    "deflate_loop (lib_deflate L) (lib_sink L) (lib_SHA_update L) n strm tok c = Some (0, tok', c')" "ctx' = Some c'"
    by (auto simp: deflate_chunk_def Let_def split: if_splits option.splits patch_result.splits)
  with assms(1-3) show ?thesis using deflate_loop_agrees by metis
qed

lemma image_chunk_agrees:
  assumes "stream_update (lib_SHA_update L)" "lib_sink L = sink" "inv tok"
    and "image_chunk L old patch bonus_data i pos tok (Some c) = Some (Continues pos', tok', ctx')"
  shows "agree (lib_SHA_update L) tok c tok' ctx'"
  using assms(4) normal_chunk_agrees [OF assms(1-3)] deflate_chunk_agrees [OF assms(1-3)] raw_chunk_agrees [OF assms(2,3)]
  by (auto simp: image_chunk_def split: if_splits option.splits)

lemma image_chunks_agree:
  assumes "stream_update (lib_SHA_update L)" "lib_sink L = sink"
  shows "inv tok \<Longrightarrow> image_chunks L old patch bonus_data left i pos tok (Some c) = Some (Some 0, tok', ctx') \<Longrightarrow>
    agree (lib_SHA_update L) tok c tok' ctx'"
proof (induction left arbitrary: i pos tok c)
  case 0
  then show ?case using agree_refl [OF assms(1)] by auto
next
  case (Suc left)
  from Suc.prems(2) obtain f tok1 ctx1 where ch: "image_chunk L old patch bonus_data i pos tok (Some c) = Some (f, tok1, ctx1)"
    by (auto split: option.splits)
  show ?case
  proof (cases f)
    case (Continues pos1)
    from image_chunk_agrees [OF assms Suc.prems(1) ch [unfolded Continues]]
    have a: "agree (lib_SHA_update L) tok c tok1 ctx1" .
    then obtain c1 where c1: "ctx1 = Some c1" "inv tok1" by (auto simp: agree_def)
    from Suc.prems(2) ch Continues c1 have "image_chunks L old patch bonus_data left (Suc i) pos1 tok1 (Some c1) = Some (Some 0, tok', ctx')"
      by simp
    from Suc.IH [OF c1(2) this] agree_trans [OF assms(1)] a c1(1) show ?thesis by blast
  next
    case (Returns r)
    then show ?thesis using Suc.prems(2) ch image_chunk_Returns by fastforce
  qed (use Suc.prems(2) ch in auto)
qed

lemma apply_any_agrees:
  assumes "stream_update (SHA_update E)" "inv tok" "apply_any C E sink src patch bonus tok = Some (Some (0, tok', c'))"
  shows "\<exists>d. taken tok' = taken tok @ d \<and> c' = SHA_update E (SHA_init E) d"
proof -
  have l: "lib_SHA_update (with_sink C E sink) = SHA_update E" "lib_sink (with_sink C E sink) = sink"
    by (simp_all add: with_sink_def)
  have "agree (SHA_update E) tok (SHA_init E) tok' (Some c')"
  proof (cases "8 \<le> length patch \<and> take 8 patch = BSDIFF_MAGIC")
    case True
    with assms(3) show ?thesis
      by (intro ApplyBSDiffPatch_agrees [OF assms(1,2)]) (auto simp: apply_any_def Let_def split: option.splits)
  next
    case False
    with assms(3) have "ApplyImagePatch (with_sink C E sink) src patch bonus tok (Some (SHA_init E)) = Some (Some 0, tok', Some c')"
      by (auto simp: apply_any_def Let_def split: option.splits if_splits)
    then obtain n where "image_chunks (with_sink C E sink) src patch bonus n 0 12 tok (Some (SHA_init E)) = Some (Some 0, tok', Some c')"
      by (auto simp: ApplyImagePatch_def split: option.splits if_splits)
    from image_chunks_agree [of "with_sink C E sink", unfolded l, OF assms(1) refl assms(2) this] show ?thesis .
  qed
  then show ?thesis by (auto simp: agree_def)
qed

end

interpretation mem_atomic: atomic_sink MemorySink msi_inv msi_taken
  by unfold_locales
    (auto simp: MemorySink_def msi_inv_def msi_taken_def nat_add_distrib split: if_splits)

section \<open>What reaches a partition\<close>

lemma run_patch_partition:
  assumes E: "sha_stream E" "malloc_law (os_of E)" and t: "is_partition target_filename" "0 \<le> tgt_size" "tgt_size \<le> LONG_MAX"
    and run: "run_patch C E src patch bonus target_filename tgt_size w = Some (Some (0, out, ctx), w')"
  obtains msi where "out = InMemory msi" "SHA E (msi_taken msi) = SHA_final E ctx"
proof -
  from run t(1) obtain buffer msi where m: "os_malloc (os_of E) tgt_size w = Some buffer" "out = InMemory msi"
    and a: "apply_any C E MemorySink src (snd patch) bonus \<lparr>msi_buffer = buffer, msi_size = int32 tgt_size, msi_pos = 0\<rparr>
      = Some (Some (0, msi, ctx))" (is "apply_any _ _ _ _ _ _ ?msi = _")
    by (auto simp: run_patch_def bind_eq_Some_conv split: if_splits option.splits)
  from E(2) m(1) t(2) have "int (length buffer) = tgt_size" by (auto simp: malloc_law_def)
  moreover have "int32 tgt_size = tgt_size" using t(2,3) by (intro int32_id) (simp_all add: LONG_MIN_def)
  ultimately have "msi_inv ?msi" using t(2) by (simp add: msi_inv_def)
  from mem_atomic.apply_any_agrees [OF _ this a] E(1) have "ctx = SHA_update E (SHA_init E) (msi_taken msi)"
    by (auto simp: sha_stream_def stream_update_def msi_taken_def)
  with m(2) that show thesis by (simp add: SHA_def)
qed

lemma generate_loop_last:
  "generate_loop C E fc use_source src patch bonus source_filename target_filename tgt_size retry made_copy w
     = Some (Some (out, ctx, copied), w') \<Longrightarrow>
   \<exists>w1. run_patch C E src patch bonus target_filename tgt_size w1 = Some (Some (0, out, ctx), w')"
proof (induction retry arbitrary: made_copy w rule: less_induct)
  case (less retry)
  from less.prems obtain retry' c w1 result out1 ctx1 w2 where
    m: "make_room (os_of E) fc use_source source_filename target_filename tgt_size retry w = Some (Some (retry', c), w1)"
    and r: "run_patch C E src patch bonus target_filename tgt_size w1 = Some (Some (result, out1, ctx1), w2)"
    by (auto simp: generate_loop.simps [of C E fc] split: option.splits)
  show ?case
  proof (cases "result = 0")
    case True
    with less.prems m r show ?thesis by (auto simp: generate_loop.simps [of C E fc])
  next
    case False
    with less.prems m r have "0 < retry'" by (auto simp: generate_loop.simps [of C E fc] split: if_splits)
    moreover from this make_room_retry [OF m] have "retry' - 1 < retry" by linarith
    ultimately show ?thesis using less.IH [of "retry' - 1"] less.prems m r False
      by (auto simp: generate_loop.simps [of C E fc _ _ _ _ _ _ _ retry])
  qed
qed

lemma GenerateTarget_inv:
  fixes s :: "'w prog"
  assumes run: "GenerateTarget C E source_file source_patch copy_file copy_patch source_filename target_filename
      target_sha1 tgt_size bonus s = Some (r, s')"
  defines "us \<equiv> source_patch \<noteq> None"
  obtains patch data g w where "(if us then source_patch else copy_patch) = Some patch"
    "fc_data (if us then source_file else copy_file) = Some data"
    "generate_loop C E source_file us data patch bonus source_filename target_filename tgt_size 1 False (world s) = Some (g, w)"
    "r = 1 \<and> s' = s\<lparr>world := w\<rparr> \<or>
     (\<exists>out ctx mc s2. g = Some (out, ctx, mc) \<and> SHA_final E ctx = target_sha1 \<and>
        (install_product E out (fc_st (if us then source_file else copy_file)) target_filename (s\<lparr>world := w\<rparr>) = Some (False, s2) \<and>
           r = 1 \<and> s' = s2 \<or>
         install_product E out (fc_st (if us then source_file else copy_file)) target_filename (s\<lparr>world := w\<rparr>) = Some (True, s2) \<and>
           r = 0 \<and> s' = (if mc then s2\<lparr>world := snd (os_unlink (os_of E) CACHE_TEMP_SOURCE (world s2))\<rparr> else s2)))"
proof -
  have run': "(case (if us then source_patch else copy_patch, fc_data (if us then source_file else copy_file)) of
        (Some patch, Some data) \<Rightarrow>
          Option.bind (generate_loop C E source_file us data patch bonus source_filename target_filename tgt_size
                         1 False (world s)) (\<lambda>(r, w).
          let s = s\<lparr>world := w\<rparr> in
          case r of
            None \<Rightarrow> Some (1, s)
          | Some (out, ctx, made_copy) \<Rightarrow>
              if SHA_final E ctx \<noteq> target_sha1 then Some (1, s)
              else Option.bind (install_product E out (fc_st (if us then source_file else copy_file)) target_filename s) (\<lambda>(ok, s).
                if \<not> ok then Some (1, s)
                else if made_copy then Some (0, s\<lparr>world := snd (os_unlink (os_of E) CACHE_TEMP_SOURCE (world s))\<rparr>)
                else Some (0, s)))
      | _ \<Rightarrow> None) = Some (r, s')"
    using run unfolding GenerateTarget_def us_def Let_def .
  obtain patch where p: "(if us then source_patch else copy_patch) = Some patch"
    using run' by (cases "if us then source_patch else copy_patch") simp_all
  obtain data where d: "fc_data (if us then source_file else copy_file) = Some data"
    using run' unfolding p by (cases "fc_data (if us then source_file else copy_file)") simp_all
  let ?G = "generate_loop C E source_file us data patch bonus source_filename target_filename tgt_size 1 False (world s)"
  obtain g w where g: "?G = Some (g, w)" using run' unfolding p d by (cases ?G) auto
  show thesis
  proof (rule that [OF p d g])
    show "r = 1 \<and> s' = s\<lparr>world := w\<rparr> \<or>
     (\<exists>out ctx mc s2. g = Some (out, ctx, mc) \<and> SHA_final E ctx = target_sha1 \<and>
        (install_product E out (fc_st (if us then source_file else copy_file)) target_filename (s\<lparr>world := w\<rparr>) = Some (False, s2) \<and>
           r = 1 \<and> s' = s2 \<or>
         install_product E out (fc_st (if us then source_file else copy_file)) target_filename (s\<lparr>world := w\<rparr>) = Some (True, s2) \<and>
           r = 0 \<and> s' = (if mc then s2\<lparr>world := snd (os_unlink (os_of E) CACHE_TEMP_SOURCE (world s2))\<rparr> else s2)))"
      using run' unfolding p d prod.case option.case g Option.bind.simps
      by (cases g) (auto simp: Let_def bind_eq_Some_conv split: if_splits simp del: prog.update_convs)
  qed
qed

text \<open>
  C31: nothing but the announced target reaches a partition. When \<open>GenerateTarget\<close> returns 0 for a target
  that is a partition, the last thing it did before removing its copy in the cache was to write to that
  partition, successfully, data whose SHA-1 is the target's, whatever the patch holds and whatever the
  libraries returned on the way.
\<close>

theorem partition_target_integrity:
  assumes E: "sha_stream E" "malloc_law (os_of E)" and t: "is_partition target_filename" "0 \<le> tgt_size" "tgt_size \<le> LONG_MAX"
    and run: "GenerateTarget C E source_file source_patch copy_file copy_patch source_filename target_filename
      target_sha1 tgt_size bonus s = Some (0, s')"
  shows "\<exists>data s1 s2. SHA E data = target_sha1 \<and> WriteToPartition (os_of E) data target_filename s1 = Some (0, s2) \<and>
    (s' = s2 \<or> s' = s2\<lparr>world := snd (os_unlink (os_of E) CACHE_TEMP_SOURCE (world s2))\<rparr>)"
proof (rule GenerateTarget_inv [OF run], goal_cases)
  case (1 patch data g w)
  from 1(4) obtain out ctx mc s2 st where g: "g = Some (out, ctx, mc)" "SHA_final E ctx = target_sha1"
    and i: "install_product E out st target_filename (s\<lparr>world := w\<rparr>) = Some (True, s2)"
    and s': "s' = (if mc then s2\<lparr>world := snd (os_unlink (os_of E) CACHE_TEMP_SOURCE (world s2))\<rparr> else s2)" by auto
  from generate_loop_last [OF 1(3) [unfolded g(1)]] obtain w1 where
    "run_patch C E data patch bonus target_filename tgt_size w1 = Some (Some (0, out, ctx), w)" by blast
  from run_patch_partition [OF E t this] obtain msi where m: "out = InMemory msi" "SHA E (msi_taken msi) = target_sha1"
    using g(2) by auto
  from i m(1) have "WriteToPartition (os_of E) (msi_taken msi) target_filename (s\<lparr>world := w\<rparr>) = Some (0, s2)"
    by (auto simp: install_product_def msi_taken_def bind_eq_Some_conv)
  with m(2) s' show ?case by (metis (full_types))
qed

text \<open>
  A machine on which every call succeeds, and an image patch of one raw chunk.
\<close>

definition willing_os :: "unit os" where
  "willing_os = null_os\<lparr>os_malloc := \<lambda>n w. Some (replicate (nat n) 0), os_open := \<lambda>p m w. (3, w), os_close := \<lambda>fd w. (0, w),
     os_write := \<lambda>fd d w. (int (length d), w), os_fopen := \<lambda>p m w. (Some 4, w), os_fwrite := \<lambda>fd d w. (int (length d), w),
     os_fclose := \<lambda>fd w. (0, w), os_statfs := \<lambda>p w. Some (1, 1000), os_chmod := \<lambda>p m w. (0, w), os_chown := \<lambda>p u g w. (0, w)\<rparr>"

definition no_codecs :: "(unit, unit) codecs" where
  "no_codecs = \<lparr>cd_bz_init = \<lambda>d. (), cd_bz_dec = \<lambda>s n. (0, [], s), cd_malloc_ok = \<lambda>n. True, cd_inflateInit2 = \<lambda>d. 0,
     cd_inflate = \<lambda>d n. (0, []), cd_deflateInit2 = \<lambda>a b c d e f. (), cd_deflate = \<lambda>z n. (0, [], z)\<rparr>"

definition raw_patch :: "byte list" where
  "raw_patch = IMGDIFF_MAGIC @ Write4 1 @ Write4 CHUNK_RAW @ Write4 2 @ [7, 9]"

definition sample_source :: FileContents where
  "sample_source = \<lparr>fc_sha1 = Some [5], fc_data = Some [5], fc_size = Some 1, fc_st = Some (420, 0, 0)\<rparr>"

definition sample_prog :: "unit prog" where
  "sample_prog = \<lparr>mtd_partitions_scanned = False, mtd_state = g_mtd_state, world = ()\<rparr>"

lemma sample_run:
  "GenerateTarget no_codecs (toy_env willing_os) sample_source (Some (True, raw_patch)) uninit None ''/a'' ''EMMC:/dev/p''
     ([7, 9] @ replicate 18 0) 2 None sample_prog = Some (0, sample_prog)"
  by code_simp

theorem partition_target_integrity_witness:
  "\<exists>data s1 s2. SHA (toy_env willing_os) data = [7, 9] @ replicate 18 0 \<and>
     WriteToPartition willing_os data ''EMMC:/dev/p'' s1 = Some (0, s2)"
proof -
  have "malloc_law willing_os" by (auto simp: malloc_law_def willing_os_def)
  from partition_target_integrity [OF toy_env_laws(1) _ _ _ _ sample_run] this show ?thesis
    by (fastforce simp: toy_env_laws is_partition_def LONG_MAX_def)
qed

end
