(* ===== verification/Patch_Safety.thy ===== *)
theory Patch_Safety
  imports Applypatch
begin

text \<open>
  What a run of \<open>GenerateTarget\<close> leaves in the file system. The system calls of the run are described by
  the laws below over a view of the machine: the contents of the files by name (no two names are links
  to one file) and the name behind each descriptor.
\<close>

section \<open>Files\<close>

type_synonym 'w files = "'w \<Rightarrow> string \<rightharpoonup> byte list"

definition append_to :: "(string \<rightharpoonup> byte list) \<Rightarrow> string \<Rightarrow> byte list \<Rightarrow> (string \<rightharpoonup> byte list)" where
  "append_to f p d = f(p := map_option (\<lambda>c. c @ d) (f p))"

lemma append_to_simps [simp]:
  "append_to f p [] = f" "append_to (append_to f p a) p b = append_to f p (a @ b)"
  "q \<noteq> p \<Longrightarrow> append_to f p d q = f q" "append_to f p d p = map_option (\<lambda>c. c @ d) (f p)"
  by (auto simp: append_to_def option.map_comp comp_def option.map_ident fun_upd_idem)

text \<open>
  \<open>open\<close> with \<open>O_CREAT | O_TRUNC\<close> leaves an empty file; \<open>write\<close> appends the part of the data it reports, or
  nothing when it fails; \<open>unlink\<close> removes the name or fails; \<open>rename\<close> moves the file when it returns 0;
  the other calls do not change the contents of any file.
\<close>

definition open_law :: "'w os \<Rightarrow> 'w files \<Rightarrow> ('w \<Rightarrow> int \<Rightarrow> string) \<Rightarrow> bool" where
  "open_law sys fs path \<longleftrightarrow> (\<forall>p w. let (fd, w') = os_open sys p O_CREAT_TRUNC w in
     if fd < 0 then fs w' = fs w else fs w' = (fs w)(p \<mapsto> []) \<and> path w' fd = p)"

definition append_law :: "'w os \<Rightarrow> 'w files \<Rightarrow> ('w \<Rightarrow> int \<Rightarrow> string) \<Rightarrow> bool" where
  "append_law sys fs path \<longleftrightarrow> (\<forall>fd d w. let (n, w') = os_write sys fd d w in
     path w' = path w \<and> n \<le> int (length d) \<and> fs w' = append_to (fs w) (path w fd) (take (nat n) d))"

definition quiet_law :: "'w os \<Rightarrow> 'w files \<Rightarrow> bool" where
  "quiet_law sys fs \<longleftrightarrow> (\<forall>fd p m u g w. fs (os_fsync sys fd w) = fs w \<and> fs (snd (os_close sys fd w)) = fs w \<and>
     fs (snd (os_chmod sys p m w)) = fs w \<and> fs (snd (os_chown sys p u g w)) = fs w)"

definition names_law :: "'w os \<Rightarrow> 'w files \<Rightarrow> bool" where
  "names_law sys fs \<longleftrightarrow> (\<forall>p q w. (fs (snd (os_unlink sys p w)) = fs w \<or> fs (snd (os_unlink sys p w)) = (fs w)(p := None)) \<and>
     fs (snd (os_rename sys p q w)) = (if fst (os_rename sys p q w) = 0 then (fs w)(q := fs w p, p := None) else fs w))"

definition files_law :: "'w os \<Rightarrow> 'w files \<Rightarrow> ('w \<Rightarrow> int \<Rightarrow> string) \<Rightarrow> bool" where
  "files_law sys fs path \<longleftrightarrow> open_law sys fs path \<and> append_law sys fs path \<and> quiet_law sys fs \<and> names_law sys fs"

lemma open_fs:
  "files_law sys fs path \<Longrightarrow> os_open sys p O_CREAT_TRUNC w = (fd, w') \<Longrightarrow>
   fs w' = (if fd < 0 then fs w else (fs w)(p \<mapsto> [])) \<and> (0 \<le> fd \<longrightarrow> path w' fd = p)"
  unfolding files_law_def open_law_def by (auto simp: Let_def split: prod.splits if_splits dest: spec [of _ p])

lemma write_fs:
  assumes "files_law sys fs path" "os_write sys fd d w = (n, w')"
  shows "path w' = path w \<and> n \<le> int (length d) \<and> fs w' = append_to (fs w) (path w fd) (take (nat n) d)"
proof -
  from assms(1) have "append_law sys fs path" by (simp add: files_law_def)
  from this [unfolded append_law_def, THEN spec [of _ fd], THEN spec [of _ d], THEN spec [of _ w]] assms(2)
  show ?thesis by simp
qed

lemma quiet_fs:
  assumes "files_law sys fs path"
  shows "fs (os_fsync sys fd w) = fs w" "fs (snd (os_close sys fd w)) = fs w"
    "fs (snd (os_chmod sys p m w)) = fs w" "fs (snd (os_chown sys p u g w)) = fs w"
  using assms by (auto simp: files_law_def quiet_law_def)

lemma unlink_fs: "files_law sys fs path \<Longrightarrow> q \<noteq> p \<Longrightarrow> fs (snd (os_unlink sys p w)) q = fs w q"
  unfolding files_law_def names_law_def by (metis fun_upd_other)

lemma rename_fs:
  "files_law sys fs path \<Longrightarrow> os_rename sys p q w = (r, w') \<Longrightarrow> fs w' = (if r = 0 then (fs w)(q := fs w p, p := None) else fs w)"
  unfolding files_law_def names_law_def by (metis fst_conv snd_conv)

lemma unlinks_fs: "files_law sys fs path \<Longrightarrow> q \<notin> set ps \<Longrightarrow> fs (unlinks sys ps w) q = fs w q"
  by (induction ps arbitrary: w) (auto simp: unlink_fs)

lemma FileSink_loop_fs:
  assumes law: "files_law sys fs path"
  shows "FileSink_loop (os_write sys fd) dn d w = (n, w') \<Longrightarrow>
    path w' = path w \<and> (\<exists>k \<le> length d. n = dn + int k \<and> fs w' = append_to (fs w) (path w fd) (take k d))"
proof (induction "os_write sys fd" dn d w arbitrary: n w' rule: FileSink_loop.induct)
  case (1 dn d w)
  show ?case
  proof (cases "d = []")
    case True
    with "1.prems" show ?thesis by (simp add: FileSink_loop.simps)
  next
    case False
    obtain m w1 where o: "os_write sys fd d w = (m, w1)" by fastforce
    note wr = write_fs [OF law o]
    show ?thesis
    proof (cases "m \<le> 0")
      case True
      with "1.prems" False o have "(n, w') = (dn, w1)" by (simp add: FileSink_loop.simps [of _ dn])
      with wr True show ?thesis by (auto intro: exI [of _ 0])
    next
      case m: False
      with "1.prems" False o have "FileSink_loop (os_write sys fd) (dn + m) (drop (nat m) d) w1 = (n, w')"
        by (simp add: FileSink_loop.simps [of _ dn])
      from "1.hyps" [OF False o [symmetric] m this] obtain k where "path w' = path w1" "k \<le> length d - nat m"
        "n = dn + m + int k" "fs w' = append_to (fs w1) (path w1 fd) (take k (drop (nat m) d))" by auto
      with wr m show ?thesis by (auto simp: take_add [symmetric] intro!: exI [of _ "nat m + k"])
    qed
  qed
qed

lemma FileSink_fs:
  "files_law sys fs path \<Longrightarrow> FileSink (os_write sys fd) d w = (n, w') \<Longrightarrow>
   path w' = path w \<and> (\<exists>k \<le> length d. n = int k \<and> fs w' = append_to (fs w) (path w fd) (take k d))"
  using FileSink_loop_fs [where dn = 0] by (fastforce simp: FileSink_def)

section \<open>The copy in the cache\<close>

lemma SaveFileContents_fs:
  assumes law: "files_law sys fs path" and run: "SaveFileContents sys p fc w = Some (r, w')"
    and fc: "fc_data fc = Some data" "fc_size fc = Some (int (length data))"
  shows "(\<forall>q. q \<noteq> p \<longrightarrow> fs w' q = fs w q) \<and> (0 \<le> r \<longrightarrow> fs w' p = Some data)"
proof -
  obtain fd w1 where o: "os_open sys p O_CREAT_TRUNC w = (fd, w1)" by fastforce
  obtain n w2 where s: "FileSink (os_write sys fd) data w1 = (n, w2)" by fastforce
  note o1 = open_fs [OF law o] and q = quiet_fs [OF law]
  show ?thesis
  proof (cases "fd < 0")
    case True
    with run o o1 show ?thesis by (simp add: SaveFileContents_def)
  next
    case False
    with FileSink_fs [OF law s] o1 obtain k where k: "k \<le> length data" "n = int k"
      "fs w2 = append_to ((fs w)(p \<mapsto> [])) p (take k data)" by auto
    have "fs w' = fs w2 \<and> (0 \<le> r \<longrightarrow> n = int (length data))"
      using run o s fc False q by (auto simp: SaveFileContents_def split_beta split: if_splits option.splits)
    with k show ?thesis by auto
  qed
qed

lemma deletable_cache: "deletable sys w p \<Longrightarrow> prefix ''/cache/'' p \<and> p \<noteq> CACHE_TEMP_SOURCE"
  by (auto simp: deletable_def CACHE_TEMP_SOURCE_def)

lemma MakeFreeSpaceOnCache_fs:
  assumes "files_law sys fs path" "MakeFreeSpaceOnCache sys n w = (r, w')" "\<not> prefix ''/cache/'' q \<or> q = CACHE_TEMP_SOURCE"
  shows "fs w' q = fs w q"
proof -
  from MakeFreeSpaceOnCache_run [of sys n w] assms(2) obtain paths where
    "w' = unlinks sys paths w" "list_all (\<lambda>p. deletable sys w p \<and> \<not> open_file sys w p) paths" by auto
  with assms(3) unlinks_fs [OF assms(1)] show ?thesis by (auto simp: list_all_iff dest!: deletable_cache)
qed

lemma back_up_fs:
  assumes law: "files_law sys fs path" and run: "back_up sys fc w = Some (ok, w')"
    and fc: "fc_data fc = Some data" "fc_size fc = Some (int (length data))"
  shows "(\<forall>q. \<not> prefix ''/cache/'' q \<longrightarrow> fs w' q = fs w q) \<and> (ok \<longrightarrow> fs w' CACHE_TEMP_SOURCE = Some data)"
proof -
  obtain r w1 where m: "MakeFreeSpaceOnCache sys (int (length data) mod 2 ^ 32) w = (r, w1)" by fastforce
  note m1 = MakeFreeSpaceOnCache_fs [OF law m]
  have c: "prefix ''/cache/'' CACHE_TEMP_SOURCE" by (simp add: CACHE_TEMP_SOURCE_def)
  show ?thesis
  proof (cases "r < 0")
    case True
    with run fc m have "ok = False" "w' = w1" by (auto simp: back_up_def)
    with m1 show ?thesis by simp
  next
    case False
    with run fc m obtain r' where "SaveFileContents sys CACHE_TEMP_SOURCE fc w1 = Some (r', w')" "ok = (0 \<le> r')"
      by (auto simp: back_up_def bind_eq_Some_conv)
    with SaveFileContents_fs [OF law _ fc] m1 c show ?thesis by fastforce
  qed
qed

section \<open>One round\<close>

text \<open>Names the run works on: the source and the target are files outside the cache, and the output's name is free.\<close>

definition file_names :: "string \<Rightarrow> string \<Rightarrow> bool" where
  "file_names source_filename target_filename \<longleftrightarrow> \<not> is_partition source_filename \<and> \<not> is_partition target_filename \<and>
     \<not> prefix ''/cache/'' source_filename \<and> \<not> prefix ''/cache/'' target_filename \<and>
     patch_suffix target_filename \<noteq> source_filename"

lemma file_names_D:
  assumes "file_names src tgt"
  shows "patch_suffix tgt \<noteq> CACHE_TEMP_SOURCE" "tgt \<noteq> CACHE_TEMP_SOURCE" "src \<noteq> CACHE_TEMP_SOURCE" "patch_suffix tgt \<noteq> src"
    "patch_suffix tgt \<noteq> tgt" "\<not> is_partition src" "\<not> is_partition tgt" "\<not> prefix ''/cache/'' src"
proof -
  show "patch_suffix tgt \<noteq> CACHE_TEMP_SOURCE"
  proof
    assume "patch_suffix tgt = CACHE_TEMP_SOURCE"
    then have "rev (patch_suffix tgt) = rev CACHE_TEMP_SOURCE" by simp
    then show False by (simp add: patch_suffix_def CACHE_TEMP_SOURCE_def)
  qed
qed (use assms in \<open>auto simp: file_names_def patch_suffix_def CACHE_TEMP_SOURCE_def\<close>)

lemma make_room_fs:
  assumes law: "files_law sys fs path" and n: "file_names src tgt"
    and run: "make_room sys fc use_source src tgt sz retry w = Some (res, w')"
    and fc: "use_source \<longrightarrow> fc_data fc = Some data \<and> fc_size fc = Some (int (length data))"
  shows "if use_source
    then (fs w' src = fs w src \<or> fs w' CACHE_TEMP_SOURCE = Some data) \<and> (\<forall>k c. res = Some (Suc k, c) \<longrightarrow> fs w' src = fs w src)
    else fs w' = fs w"
proof (cases "(0 < retry \<and> enough_room sys (target_fs tgt) sz w) \<or> \<not> use_source")
  case True
  with run file_names_D [OF n] have "w' = w" by (auto simp: make_room_def Let_def)
  then show ?thesis by simp
next
  case False
  with run file_names_D [OF n] obtain ok w1 where
    b: "back_up sys fc w = Some (ok, w1)" by (auto simp: make_room_def Let_def bind_eq_Some_conv split: if_splits)
  with run False file_names_D [OF n] have r: "res = (if ok then Some (0, True) else None)"
      "w' = (if ok then snd (os_unlink sys src w1) else w1)"
    by (auto simp: make_room_def Let_def split: if_splits)
  from back_up_fs [OF law b] fc False have "\<not> prefix ''/cache/'' src \<longrightarrow> fs w1 src = fs w src"
    "ok \<longrightarrow> fs w1 CACHE_TEMP_SOURCE = Some data" by auto
  moreover have "fs (snd (os_unlink sys src w1)) CACHE_TEMP_SOURCE = fs w1 CACHE_TEMP_SOURCE"
    using file_names_D(3) [OF n] by (intro unlink_fs [OF law]) simp
  ultimately show ?thesis using False r file_names_D(8) [OF n] by auto
qed

lemma run_patch_fs:
  assumes law: "files_law (os_of E) fs path" and t: "\<not> is_partition tgt"
    and run: "run_patch C E src patch bonus tgt sz w = Some (res, w')"
  shows "(\<forall>q. q \<noteq> patch_suffix tgt \<longrightarrow> fs w' q = fs w q) \<and> (\<forall>r out c. res = Some (r, out, c) \<longrightarrow> out = InFile)"
proof (cases "fst patch")
  case False
  with run show ?thesis by (simp add: run_patch_def)
next
  case True
  obtain fd w1 where o: "os_open (os_of E) (patch_suffix tgt) O_CREAT_TRUNC w = (fd, w1)" by fastforce
  note o1 = open_fs [OF law o]
  show ?thesis
  proof (cases "fd < 0")
    case f: True
    with True run t o o1 show ?thesis by (simp add: run_patch_def)
  next
    case f: False
    define inv where "inv w' \<longleftrightarrow> path w' fd = patch_suffix tgt \<and> (\<forall>q. q \<noteq> patch_suffix tgt \<longrightarrow> fs w' q = fs w q)" for w'
    have i: "sink_invariant (FileSink (os_write (os_of E) fd)) inv"
      by (rule sink_invariant.intro) (auto simp: inv_def dest!: FileSink_fs [OF law])
    have i1: "inv w1" using o1 f by (auto simp: inv_def)
    from True f run t o obtain r where a: "apply_any C E (FileSink (os_write (os_of E) fd)) src (snd patch) bonus w1 = Some r"
      by (auto simp: run_patch_def bind_eq_Some_conv split: if_splits)
    show ?thesis
    proof (cases r)
      case None
      with True f run t o a i1 show ?thesis by (simp add: run_patch_def inv_def)
    next
      case (Some x)
      then obtain r w2 c where x: "x = (r, w2, c)" by (cases x)
      from sink_invariant.apply_any_keeps [OF i i1 a [unfolded Some x]] have "inv w2" .
      with True f run t o a Some x show ?thesis
        by (auto simp: run_patch_def inv_def quiet_fs [OF law])
    qed
  qed
qed

section \<open>The whole run\<close>

lemma generate_loop_fs:
  assumes law: "files_law (os_of E) fs path" and n: "file_names src tgt"
    and fc: "use_source \<longrightarrow> fc_data fc = Some data \<and> fc_size fc = Some (int (length data))"
  shows "generate_loop C E fc use_source source patch bonus src tgt sz retry made_copy w = Some (res, w') \<Longrightarrow>
    (if use_source then fs w' src = fs w src \<or> fs w' CACHE_TEMP_SOURCE = Some data
     else fs w' src = fs w src \<and> fs w' CACHE_TEMP_SOURCE = fs w CACHE_TEMP_SOURCE) \<and>
    (\<forall>out c m. res = Some (out, c, m) \<longrightarrow> out = InFile)"
proof (induction retry arbitrary: made_copy w rule: less_induct)
  case (less retry)
  note D = file_names_D [OF n]
  from less.prems obtain res1 w1 where
    m: "make_room (os_of E) fc use_source src tgt sz retry w = Some (res1, w1)"
    by (auto simp: generate_loop.simps [of C E fc] split: option.splits)
  note mf = make_room_fs [OF law n m fc]
  show ?case
  proof (cases res1)
    case None
    with less.prems m mf show ?thesis by (auto simp: generate_loop.simps [of C E fc])
  next
    case (Some x)
    then obtain retry' copied where x: "x = (retry', copied)" by (cases x)
    with less.prems m Some obtain res2 w2 where r: "run_patch C E source patch bonus tgt sz w1 = Some (res2, w2)"
      by (auto simp: generate_loop.simps [of C E fc] split: option.splits)
    note rf = run_patch_fs [OF law D(7) r]
    have kept: "if use_source then (fs w2 src = fs w src \<or> fs w2 CACHE_TEMP_SOURCE = Some data) \<and> (0 < retry' \<longrightarrow> fs w2 src = fs w src)
      else fs w2 src = fs w src \<and> fs w2 CACHE_TEMP_SOURCE = fs w CACHE_TEMP_SOURCE"
      using mf rf D(1,4) Some x by (auto simp: gr0_conv_Suc)
    show ?thesis
    proof (cases "\<exists>result out ctx. res2 = Some (result, out, ctx) \<and> result \<noteq> 0 \<and> 0 < retry'")
      case False
      with less.prems m Some x r kept rf show ?thesis
        by (auto simp: generate_loop.simps [of C E fc] split: option.splits if_splits)
    next
      case True
      define w3 where "w3 = snd (os_unlink (os_of E) (patch_suffix tgt) w2)"
      have w3: "fs w3 q = fs w2 q" if "q \<noteq> patch_suffix tgt" for q unfolding w3_def using that by (rule unlink_fs [OF law])
      have lt: "retry' - 1 < retry" using make_room_retry m Some x True by fastforce
      from True less.prems m Some x r D(7)
      have "generate_loop C E fc use_source source patch bonus src tgt sz (retry' - 1) (made_copy \<or> copied) w3 = Some (res, w')"
        by (auto simp: generate_loop.simps [of C E fc _ _ _ _ _ _ _ retry] w3_def)
      from less.IH [OF lt this] kept True w3 D(1,4) show ?thesis by auto
    qed
  qed
qed

lemma install_file_fs:
  assumes law: "files_law (os_of E) fs path" and run: "install_product E InFile st tgt s = Some (ok, s')"
    and t: "patch_suffix tgt \<noteq> tgt"
  shows "if ok then fs (world s') = (fs (world s))(tgt := fs (world s) (patch_suffix tgt), patch_suffix tgt := None)
    else fs (world s') = fs (world s)"
proof -
  from run obtain mode uid gid where st: "st = Some (mode, uid, gid)" by (auto simp: install_product_def split: option.splits)
  obtain r1 w1 where 1: "os_chmod (os_of E) (patch_suffix tgt) mode (world s) = (r1, w1)" by fastforce
  obtain r2 w2 where 2: "os_chown (os_of E) (patch_suffix tgt) uid gid w1 = (r2, w2)" by fastforce
  obtain r3 w3 where 3: "os_rename (os_of E) (patch_suffix tgt) tgt w2 = (r3, w3)" by fastforce
  from quiet_fs(3) [OF law, of "patch_suffix tgt" mode "world s"] quiet_fs(4) [OF law, of "patch_suffix tgt" uid gid w1]
    rename_fs [OF law 3] 1 2 run st 3 show ?thesis
    by (auto simp: install_product_def Let_def split: if_splits)
qed

text \<open>
  C3: a patch that fails loses nothing. For files, whenever \<open>GenerateTarget\<close> does not return 0, either the
  source is still what it was or the saved copy in the cache is the data that was to be patched; when it
  worked from the saved copy, source and copy are both as they were. So the patch can be tried again,
  after whichever call the run failed at.
\<close>

theorem failed_patch_loses_nothing:
  assumes law: "files_law (os_of E) fs path" and n: "file_names source_filename target_filename"
    and fc: "fc_data source_file = None \<or> fc_size source_file = map_option (int \<circ> length) (fc_data source_file)"
    and run: "GenerateTarget C E source_file source_patch copy_file copy_patch source_filename target_filename
      target_sha1 tgt_size bonus s = Some (r, s')"
  shows "r = 0 \<or> r = 1 \<and>
    (if source_patch = None
     then fs (world s') source_filename = fs (world s) source_filename \<and> fs (world s') CACHE_TEMP_SOURCE = fs (world s) CACHE_TEMP_SOURCE
     else fs (world s') source_filename = fs (world s) source_filename \<or> fs (world s') CACHE_TEMP_SOURCE = fc_data source_file)"
proof (rule GenerateTarget_inv [OF run], goal_cases)
  case (1 patch data g w)
  from fc 1(2) have "source_patch \<noteq> None \<longrightarrow> fc_data source_file = Some data \<and> fc_size source_file = Some (int (length data))" by auto
  note gf = generate_loop_fs [OF law n this 1(3)]
  from 1(4) have "r = 0 \<or> r = 1 \<and> fs (world s') = fs w"
  proof (elim disjE exE conjE, goal_cases)
    case (2 out ctx mc s2)
    with gf have "out = InFile" by simp
    with 2 install_file_fs [OF law _ file_names_D(5) [OF n]] show ?case by fastforce
  qed auto
  with gf 1(2) show ?case by (auto split: if_splits)
qed

section \<open>What is installed\<close>

text \<open>
  A short write is reported to the image patcher, which ignores it for its normal chunks; so for image
  patches a \<open>write\<close> must take all of the data or fail.
\<close>

definition whole_writes :: "'w os \<Rightarrow> bool" where
  "whole_writes sys \<longleftrightarrow> (\<forall>fd d w. fst (os_write sys fd d w) = int (length d) \<or> fst (os_write sys fd d w) \<le> 0)"

definition is_bsdiff :: "patch_value option \<Rightarrow> bool" where
  "is_bsdiff p \<longleftrightarrow> (case p of None \<Rightarrow> True | Some (_, d) \<Rightarrow> 8 \<le> length d \<and> take 8 d = BSDIFF_MAGIC)"

lemma FileSink_whole:
  assumes "whole_writes sys" "FileSink (os_write sys fd) d w = (n, w')"
  shows "n = int (length d) \<or> n = 0"
proof (cases "d = []")
  case False
  obtain m w1 where o: "os_write sys fd d w = (m, w1)" by fastforce
  with assms(1) have "m = int (length d) \<or> m \<le> 0" unfolding whole_writes_def by (metis fst_conv)
  with assms(2) False o show ?thesis
    by (auto simp: FileSink_def FileSink_loop.simps [of _ 0 d] FileSink_loop.simps [of _ _ "[]"] split: if_splits)
qed (use assms(2) in \<open>simp add: FileSink_def FileSink_loop.simps\<close>)

lemma apply_any_hashed:
  assumes law: "files_law (os_of E) fs path" and E: "sha_stream E"
    and ok: "whole_writes (os_of E) \<or> 8 \<le> length patch \<and> take 8 patch = BSDIFF_MAGIC"
    and w: "path w fd = p" "fs w p = Some []"
    and run: "apply_any C E (FileSink (os_write (os_of E) fd)) src patch bonus w = Some (Some (0, w', c))"
  shows "\<exists>d. fs w' p = Some d \<and> c = SHA_update E (SHA_init E) d"
proof (cases "8 \<le> length patch \<and> take 8 patch = BSDIFF_MAGIC")
  case True
  with run have "ApplyBSDiffPatch (cd_bz_init C) (cd_bz_dec C) (cd_malloc_ok C) (FileSink (os_write (os_of E) fd)) (SHA_update E)
      src patch 0 w (Some (SHA_init E)) = Some (Some 0, w', Some c)"
    by (auto simp: apply_any_def Let_def split: option.splits)
  then obtain new n where s: "FileSink (os_write (os_of E) fd) new w = (n, w')" "\<not> n < int (length new)"
      "c = SHA_update E (SHA_init E) new"
    by (auto simp: ApplyBSDiffPatch_def sha_with_def split: option.splits patch_result.splits prod.splits if_splits)
  from FileSink_fs [OF law s(1)] s(2) w have "fs w' p = Some new" by auto
  with s(3) show ?thesis by blast
next
  case False
  define inv where "inv w \<longleftrightarrow> path w fd = p \<and> fs w p \<noteq> None" for w
  have a: "atomic_sink (FileSink (os_write (os_of E) fd)) inv (\<lambda>w. the (fs w p))"
  proof (rule atomic_sink.intro, goal_cases)
    case 1
    show ?case by (rule sink_invariant.intro) (auto simp: inv_def dest!: FileSink_fs [OF law])
  next
    case 2
    have "n = int (length d) \<and> the (fs t' p) = the (fs t p) @ d \<or> n < int (length d) \<and> the (fs t' p) = the (fs t p)"
      if "inv t" "FileSink (os_write (os_of E) fd) d t = (n, t')" for t d n t'
      using FileSink_fs [OF law that(2)] FileSink_whole [OF _ that(2)] ok False that(1) by (cases d) (auto simp: inv_def)
    then show ?case by (rule atomic_sink_axioms.intro)
  qed
  have "stream_update (SHA_update E)" using E by (simp add: sha_stream_def stream_update_def)
  moreover have "inv w" using w by (simp add: inv_def)
  ultimately have "\<exists>d. the (fs w' p) = the (fs w p) @ d \<and> c = SHA_update E (SHA_init E) d" "inv w'"
    using run by (blast intro: atomic_sink.apply_any_agrees [OF a] sink_invariant.apply_any_keeps [OF atomic_sink.axioms(1) [OF a]])+
  with w show ?thesis by (auto simp: inv_def)
qed


section \<open>The copy that is overwritten\<close>

text \<open>
  C32: a partition that was half written cannot be recovered from the copy made for it. When the source is
  bad, the patch matches the saved copy and the target is a partition, \<open>GenerateTarget\<close> first saves the
  bad source, whose data is \<open>NULL\<close>, over the copy: the copy is left empty and the run returns 1.
\<close>

theorem cached_copy_destroyed:
  assumes law: "files_law (os_of E) fs path" and t: "is_partition target_filename"
    and src: "fc_data source_file = None" "fc_size source_file = Some n" "0 < n"
    and copy: "fc_data copy_file = Some data"
    and space: "fst (MakeFreeSpaceOnCache (os_of E) (n mod 2 ^ 32) (world s)) = 0"
    and opens: "\<And>w. 0 \<le> fst (os_open (os_of E) CACHE_TEMP_SOURCE O_CREAT_TRUNC w)"
  shows "\<exists>s'. GenerateTarget C E source_file None copy_file (Some patch) source_filename target_filename
      target_sha1 tgt_size bonus s = Some (1, s') \<and> fs (world s') CACHE_TEMP_SOURCE = Some []"
proof -
  obtain w1 where m: "MakeFreeSpaceOnCache (os_of E) (n mod 2 ^ 32) (world s) = (0, w1)" using space by (metis prod.collapse)
  obtain fd w2 where o: "os_open (os_of E) CACHE_TEMP_SOURCE O_CREAT_TRUNC w1 = (fd, w2)" by fastforce
  with opens [of w1] have fd: "\<not> fd < 0" by simp
  define w3 where "w3 = snd (os_close (os_of E) fd w2)"
  have "SaveFileContents (os_of E) CACHE_TEMP_SOURCE source_file w1 = Some (- 1, w3)"
    using o fd src by (simp add: SaveFileContents_def w3_def split_beta)
  with m src have "back_up (os_of E) source_file (world s) = Some (False, w3)" by (simp add: back_up_def)
  with t have "generate_loop C E source_file False data patch bonus source_filename target_filename tgt_size 1 False (world s)
    = Some (None, w3)" by (simp add: generate_loop.simps make_room_def)
  then have "GenerateTarget C E source_file None copy_file (Some patch) source_filename target_filename
      target_sha1 tgt_size bonus s = Some (1, s\<lparr>world := w3\<rparr>)" using copy by (simp add: GenerateTarget_def)
  moreover have "fs w3 CACHE_TEMP_SOURCE = Some []" using open_fs [OF law o] fd quiet_fs(2) [OF law] by (simp add: w3_def)
  ultimately show ?thesis by auto
qed

section \<open>Runs\<close>

text \<open>A file system in memory whose only free space is on the cache.\<close>

type_synonym mem_files = "(string \<rightharpoonup> byte list) \<times> string"

definition file_os :: "mem_files os" where
  "file_os = null_os\<lparr>os_malloc := \<lambda>n w. Some (replicate (nat n) 0),
     os_open := \<lambda>p m (f, c). (3, f(p \<mapsto> []), p), os_write := \<lambda>fd d (f, c). (int (length d), append_to f c d, c),
     os_close := \<lambda>fd w. (0, w), os_statfs := \<lambda>p w. Some (1, if p = ''/cache'' then 1000 else 0),
     os_chmod := \<lambda>p m w. (0, w), os_chown := \<lambda>p u g w. (0, w), os_unlink := \<lambda>p (f, c). (0, f(p := None), c),
     os_rename := \<lambda>p q (f, c). (0, f(q := f p, p := None), c)\<rparr>"

lemma file_os_law: "files_law file_os fst (\<lambda>w fd. snd w)" "whole_writes file_os"
  by (auto simp: files_law_def open_law_def append_law_def quiet_law_def names_law_def whole_writes_def file_os_def
      null_os_def Let_def split: prod.splits)

definition file_prog :: "mem_files prog" where
  "file_prog = \<lparr>mtd_partitions_scanned = False, mtd_state = g_mtd_state, world = ([''/a/b'' \<mapsto> [5]], [])\<rparr>"

definition sample_target :: "byte list \<Rightarrow> (int \<times> mem_files prog) option" where
  "sample_target sha1 = GenerateTarget no_codecs (toy_env file_os) sample_source (Some (True, raw_patch)) uninit None
     ''/a/b'' ''/a/b'' sha1 2 None file_prog"

lemma sample_target_runs:
  "map_option fst (sample_target []) = Some 1" "map_option fst (sample_target ([7, 9] @ replicate 18 0)) = Some 0"
  by code_simp+

lemma sample_names: "file_names ''/a/b'' ''/a/b''"
  by (simp add: file_names_def is_partition_def patch_suffix_def)

theorem failed_patch_loses_nothing_witness:
  "\<exists>s'. sample_target [] = Some (1, s') \<and>
     (fst (world s') ''/a/b'' = Some [5] \<or> fst (world s') CACHE_TEMP_SOURCE = Some [5])"
proof -
  from sample_target_runs(1) obtain s' where r: "sample_target [] = Some (1, s')" by auto
  from failed_patch_loses_nothing [OF _ sample_names _ r [unfolded sample_target_def], of fst "\<lambda>w fd. snd w"] file_os_law
  show ?thesis using r by (auto simp: toy_env_laws sample_source_def file_prog_def)
qed


theorem cached_copy_destroyed_witness:
  "\<exists>s'. GenerateTarget no_codecs (toy_env file_os) \<lparr>fc_sha1 = None, fc_data = None, fc_size = Some 4, fc_st = None\<rparr> None sample_source
     (Some (True, raw_patch)) ''MTD:boot'' ''MTD:boot'' [] 2 None file_prog = Some (1, s') \<and>
     fst (world s') CACHE_TEMP_SOURCE = Some []"
proof (rule cached_copy_destroyed [where path = "\<lambda>w fd. snd w" and n = 4 and data = "[5]"])
  show "fst (MakeFreeSpaceOnCache (os_of (toy_env file_os)) (4 mod 2 ^ 32) (world file_prog)) = 0" by code_simp
  show "files_law (os_of (toy_env file_os)) fst (\<lambda>w fd. snd w)" by (simp add: toy_env_laws file_os_law)
qed (auto simp: toy_env_laws is_partition_def sample_source_def file_os_def split: prod.splits)

end
