(* ===== verification/C_Strings.thy ===== *)
theory C_Strings
  imports Recovery_Prelude
begin

text \<open>
  More of the C library on strings: \<open>strtok\<close>, the conversions \<open>%s\<close> of \<open>sscanf\<close>, \<open>strtoll\<close>, and the
  functions that write into a character array of fixed size, \<open>strlcpy\<close> and \<open>strlcat\<close>. An array of
  \<open>char\<close> is the list of all its elements; the string in it ends at the first NUL.
\<close>

section \<open>Characters and bytes\<close>

abbreviation NUL :: char where "NUL \<equiv> CHR 0x00"
abbreviation NL :: char where "NL \<equiv> CHR 0x0A"

definition text_of :: "byte list \<Rightarrow> string" where
  "text_of bs = map (\<lambda>b. char_of (unat b)) bs"

definition bytes_of :: "string \<Rightarrow> byte list" where
  "bytes_of s = map of_char s"

lemma unat_of_char: "unat (of_char c :: byte) = of_char c"
proof -
  have "(of_char c :: byte) = of_nat (of_char c)" by (simp only: of_nat_of_char)
  then have "unat (of_char c :: byte) = of_char c mod 256" by (simp only: unat_of_nat) simp
  then show ?thesis by simp
qed

lemma text_bytes [simp]: "text_of (bytes_of s) = s"
  by (simp add: text_of_def bytes_of_def comp_def unat_of_char)

lemma bytes_text [simp]: "bytes_of (text_of bs) = bs"
proof -
  have "of_char (char_of (unat b)) = b" for b :: byte
  proof -
    have "unat b < 2 ^ LENGTH(8)" by (rule unsigned_less)
    then have "(of_char (char_of (unat b) :: char) :: nat) = unat b" by simp
    then have "unat (of_char (char_of (unat b)) :: byte) = unat b" by (simp only: unat_of_char)
    then show ?thesis by (simp only: word_unat_eq_iff)
  qed
  then show ?thesis by (simp add: text_of_def bytes_of_def comp_def)
qed

lemma length_text_bytes [simp]: "length (text_of bs) = length bs" "length (bytes_of s) = length s"
  by (simp_all add: text_of_def bytes_of_def)

definition c_string :: "string \<Rightarrow> string" where
  "c_string buf = takeWhile (\<lambda>c. c \<noteq> NUL) buf"

lemma c_string_id [simp]: "NUL \<notin> set s \<Longrightarrow> c_string s = s"
  by (auto simp: c_string_def takeWhile_eq_all_conv)

lemma c_string_end [simp]: "NUL \<notin> set s \<Longrightarrow> c_string (s @ NUL # r) = s"
  unfolding c_string_def by (subst takeWhile_append2) auto

lemma c_string_no_NUL: "NUL \<notin> set (c_string s)"
  by (auto simp: c_string_def dest: set_takeWhileD)

section \<open>Arrays of characters\<close>

text \<open>\<open>strlcpy(dst, src, sizeof(dst))\<close> and \<open>strlcat(dst, src, sizeof(dst))\<close>.\<close>

definition strlcpy :: "string \<Rightarrow> string \<Rightarrow> string" where
  "strlcpy dst src =
     (if dst = [] then dst
      else let t = take (length dst - 1) src in t @ NUL # drop (length t + 1) dst)"

definition strlcat :: "string \<Rightarrow> string \<Rightarrow> string" where
  "strlcat dst src =
     (let n = length (c_string dst) in
      if length dst \<le> n then dst
      else let t = take (length dst - n - 1) src in take n dst @ t @ NUL # drop (n + length t + 1) dst)"

lemma length_strlcpy [simp]: "length (strlcpy dst src) = length dst"
  by (cases dst) (auto simp: strlcpy_def Let_def)

lemma length_strlcat [simp]: "length (strlcat dst src) = length dst"
  by (auto simp: strlcat_def Let_def)

lemma c_string_strlcpy:
  "dst \<noteq> [] \<Longrightarrow> NUL \<notin> set src \<Longrightarrow> c_string (strlcpy dst src) = take (length dst - 1) src"
  unfolding strlcpy_def Let_def by (subst if_not_P, simp, subst c_string_end) (auto dest: in_set_takeD)

lemma c_string_strlcat:
  assumes "length (c_string dst) < length dst" "NUL \<notin> set src"
  shows "c_string (strlcat dst src) = take (length dst - 1) (c_string dst @ src)"
proof -
  let ?n = "length (c_string dst)"
  have t: "take ?n dst = c_string dst" unfolding c_string_def by (metis takeWhile_eq_take)
  let ?t = "take (length dst - ?n - 1) src"
  have "strlcat dst src = (c_string dst @ ?t) @ NUL # drop (?n + length ?t + 1) dst"
    using assms(1) t by (simp add: strlcat_def Let_def)
  moreover have "NUL \<notin> set (c_string dst @ ?t)" using assms(2) c_string_no_NUL [of dst] by (auto dest: in_set_takeD)
  ultimately have "c_string (strlcat dst src) = c_string dst @ ?t" by (metis c_string_end)
  then show ?thesis using assms(1) by simp
qed

section \<open>Tokens\<close>

text \<open>
  \<open>strtok\<close> with the delimiters \<open>D\<close>: the next token and what it leaves for the next call. \<open>strtoks\<close> is
  the list of all the tokens.
\<close>

definition strtok :: "(char \<Rightarrow> bool) \<Rightarrow> string \<Rightarrow> (string \<times> string) option" where
  "strtok D s =
     (let s = dropWhile D s in
      if s = [] then None else Some (takeWhile (\<lambda>c. \<not> D c) s, drop 1 (dropWhile (\<lambda>c. \<not> D c) s)))"

lemma strtok_shorter: "strtok D s = Some (t, r) \<Longrightarrow> length r < length s"
proof -
  assume a: "strtok D s = Some (t, r)"
  let ?d = "dropWhile D s"
  from a have d: "?d \<noteq> []" and r: "r = drop 1 (dropWhile (\<lambda>c. \<not> D c) ?d)" by (auto simp: strtok_def Let_def split: if_splits)
  then obtain c cs where cs: "?d = c # cs" by (cases ?d) auto
  have "length ?d \<le> length s" by (rule length_dropWhile_le)
  moreover have "length r < length ?d"
  proof -
    have "length (dropWhile (\<lambda>c. \<not> D c) ?d) \<le> length ?d" by (rule length_dropWhile_le)
    then have "length r \<le> length ?d - 1" unfolding r by simp
    moreover have "0 < length ?d" using d by blast
    ultimately show ?thesis by linarith
  qed
  ultimately show ?thesis by linarith
qed

function strtoks :: "(char \<Rightarrow> bool) \<Rightarrow> string \<Rightarrow> string list" where
  "strtoks D s = (case strtok D s of None \<Rightarrow> [] | Some (t, r) \<Rightarrow> t # strtoks D r)"
  by pat_completeness auto
termination
  by (relation "measure (\<lambda>(D, s). length s)") (auto dest: strtok_shorter)

declare strtoks.simps [simp del]

definition is_token :: "(char \<Rightarrow> bool) \<Rightarrow> string \<Rightarrow> bool" where
  "is_token D t \<longleftrightarrow> t \<noteq> [] \<and> list_all (\<lambda>c. \<not> D c) t"

lemma strtok_token: "is_token D t \<Longrightarrow> D d \<Longrightarrow> strtok D (t @ d # r) = Some (t, r)"
proof -
  assume t: "is_token D t" and d: "D d"
  then have "dropWhile D (t @ d # r) = t @ d # r" by (cases t) (auto simp: is_token_def)
  moreover have "takeWhile (\<lambda>c. \<not> D c) (t @ d # r) = t" "dropWhile (\<lambda>c. \<not> D c) (t @ d # r) = d # r"
    using t d by (auto simp: is_token_def list_all_iff takeWhile_append2 dropWhile_append2)
  ultimately show ?thesis by (simp add: strtok_def Let_def)
qed

lemma strtok_last: "is_token D t \<Longrightarrow> strtok D t = Some (t, [])"
proof -
  assume t: "is_token D t"
  then have "dropWhile D t = t" by (cases t) (auto simp: is_token_def)
  moreover have "takeWhile (\<lambda>c. \<not> D c) t = t" "dropWhile (\<lambda>c. \<not> D c) t = []"
    using t by (auto simp: is_token_def list_all_iff takeWhile_eq_all_conv)
  ultimately show ?thesis using t unfolding strtok_def Let_def is_token_def by (metis drop_Nil)
qed

lemma strtoks_lines:
  assumes "D d" "list_all (is_token D) ts"
  shows "strtoks D (concat (map (\<lambda>t. t @ [d]) ts)) = ts"
  using assms(2)
proof (induction ts)
  case Nil
  then show ?case by (simp add: strtoks.simps [of D "[]"] strtok_def)
next
  case (Cons t ts)
  then show ?case using strtok_token [of D t d] assms(1) by (simp add: strtoks.simps [of D "t @ _"])
qed

lemma strtoks_cut: "is_token D t \<Longrightarrow> D d \<Longrightarrow> strtoks D (t @ d # r) = t # strtoks D r"
  by (simp add: strtoks.simps [of D "t @ d # r"] strtok_token)

section \<open>Conversions\<close>

text \<open>\<open>%s\<close> of \<open>sscanf\<close> with its width: white space is skipped, then at most \<open>width\<close> other characters are stored.\<close>

definition scan_s :: "nat \<Rightarrow> string \<Rightarrow> (string \<times> string) option" where
  "scan_s width s =
     (let s = dropWhile isspace s; t = take width (takeWhile (\<lambda>c. \<not> isspace c) s) in
      if t = [] then None else Some (t, drop (length t) s))"

lemma scan_s_token:
  assumes "is_token isspace t" "length t \<le> width" "r = [] \<or> isspace (hd r)"
  shows "scan_s width (t @ r) = Some (t, r)"
proof -
  from assms(1) have "dropWhile isspace (t @ r) = t @ r" by (cases t) (auto simp: is_token_def)
  moreover have "takeWhile (\<lambda>c. \<not> isspace c) (t @ r) = t"
    using assms(1,3) by (cases r) (auto simp: is_token_def list_all_iff takeWhile_append2 takeWhile_eq_all_conv)
  moreover have "take width t = t" "t \<noteq> []" using assms(1,2) by (auto simp: is_token_def)
  ultimately show ?thesis unfolding scan_s_def Let_def by simp
qed

lemma scan_s_space: "isspace c \<Longrightarrow> scan_s width (c # s) = scan_s width s"
  by (simp add: scan_s_def)

text \<open>\<open>strtoll\<close>: as \<open>strtol\<close> with the limits of a 64-bit type.\<close>

definition strtoll :: "string \<Rightarrow> int" where
  "strtoll s = (let (neg, r) = strtol_sign (dropWhile isspace s); ds = takeWhile isdigit r;
                    v = (if neg then - dec_val ds else dec_val ds)
                in max (- (2 ^ 63)) (min (2 ^ 63 - 1) v))"

end
