(* ===== verification/Mounts.thy ===== *)
theory Mounts
  imports Mtd_Flash C_Strings
begin

text \<open>
  The table of mounted volumes read from \<^verbatim>\<open>/proc/mounts\<close>: \<^verbatim>\<open>mounts.c\<close>. A pointer to a
  \<open>MountedVolume\<close> is its index in the array; \<open>None\<close> is a null pointer in a field and undefined
  behaviour in a result.
\<close>

section \<open>Model\<close>

record MountedVolume =
  mv_device :: "string option"
  mv_mount_point :: "string option"
  mv_filesystem :: "string option"
  mv_flags :: "string option"

record MountsState =
  volumes :: "MountedVolume list option"
  volume_count :: nat

definition g_mounts_state :: MountsState where
  "g_mounts_state = \<lparr>volumes = None, volume_count = 0\<rparr>"

definition NUMV :: nat where "NUMV = 32"

text \<open>\<open>free_volume_internals(volume, 1)\<close> leaves the structure zeroed.\<close>

definition free_volume_internals :: "MountedVolume \<Rightarrow> MountedVolume" where
  "free_volume_internals v = \<lparr>mv_device = None, mv_mount_point = None, mv_filesystem = None, mv_flags = None\<rparr>"

definition strdup :: "'w os \<Rightarrow> 'w \<Rightarrow> string \<Rightarrow> string option" where
  "strdup sys w s = (if os_malloc sys (int (length s) + 1) w = None then None else Some s)"

text \<open>The four conversions of \<^verbatim>\<open>"%63s %63s %63s %127s"\<close>.\<close>

definition scan_mount :: "string \<Rightarrow> (string \<times> string \<times> string \<times> string) option" where
  "scan_mount s =
     Option.bind (scan_s 63 s) (\<lambda>(device, s).
     Option.bind (scan_s 63 s) (\<lambda>(mount_point, s).
     Option.bind (scan_s 63 s) (\<lambda>(filesystem, s).
     Option.bind (scan_s 127 s) (\<lambda>(flags, s).
     Some (device, mount_point, filesystem, flags)))))"

text \<open>The loop over the lines; the array is written past its end without a check.\<close>

function scan_mounts :: "'w os \<Rightarrow> 'w \<Rightarrow> string \<Rightarrow> MountedVolume list \<Rightarrow> nat \<Rightarrow> (MountedVolume list \<times> nat) option" where
  "scan_mounts sys w s vs n =
     (if s = [] then Some (vs, n)
      else case scan_mount s of
        None \<Rightarrow> scan_mounts sys w (next_line s) vs n
      | Some (device, mount_point, filesystem, flags) \<Rightarrow>
          if length vs \<le> n then None
          else scan_mounts sys w (next_line s)
                 (vs[n := \<lparr>mv_device = strdup sys w device, mv_mount_point = strdup sys w mount_point,
                           mv_filesystem = strdup sys w filesystem, mv_flags = strdup sys w flags\<rparr>]) (Suc n))"
  by pat_completeness auto
termination
  by (relation "measure (\<lambda>(sys, w, s, vs, n). length s)") (auto intro: next_line_shorter)

declare scan_mounts.simps [simp del]

definition scan_mounted_volumes :: "'w os \<Rightarrow> MountsState \<Rightarrow> 'w \<Rightarrow> (int \<times> MountsState \<times> 'w) option" where
  "scan_mounted_volumes sys st w =
     (case (case volumes st of
              Some vs \<Rightarrow> Some (map free_volume_internals (take (volume_count st) vs) @ drop (volume_count st) vs)
            | None \<Rightarrow> if os_malloc sys (int NUMV * 16) w = None then None
                      else Some (replicate NUMV \<lparr>mv_device = None, mv_mount_point = None, mv_filesystem = None, mv_flags = None\<rparr>)) of
        None \<Rightarrow> Some (- 1, st, w)
      | Some vs \<Rightarrow>
          case os_open sys ''/proc/mounts'' O_RDONLY w of (fd, w1) \<Rightarrow>
            if fd < 0 then Some (- 1, \<lparr>volumes = Some vs, volume_count = 0\<rparr>, w1)
            else case os_read sys fd 2047 w1 of (nbytes, buf, w2) \<Rightarrow>
              case os_close sys fd w2 of (_, w3) \<Rightarrow>
                if nbytes < 0 then Some (- 1, \<lparr>volumes = Some vs, volume_count = 0\<rparr>, w3)
                else Option.bind (scan_mounts sys w3 (text_of buf) vs 0) (\<lambda>(vs, n).
                  Some (0, \<lparr>volumes = Some vs, volume_count = n\<rparr>, w3)))"

definition find_mounted_volume :: "(MountedVolume \<Rightarrow> string option) \<Rightarrow> MountsState \<Rightarrow> string \<Rightarrow> nat option" where
  "find_mounted_volume key st x =
     (case volumes st of
        None \<Rightarrow> None
      | Some vs \<Rightarrow> List.find (\<lambda>i. key (vs ! i) = Some x) [0..<volume_count st])"

definition find_mounted_volume_by_device :: "MountsState \<Rightarrow> string \<Rightarrow> nat option" where
  "find_mounted_volume_by_device st device = find_mounted_volume mv_device st device"

definition find_mounted_volume_by_mount_point :: "MountsState \<Rightarrow> string \<Rightarrow> nat option" where
  "find_mounted_volume_by_mount_point st mount_point = find_mounted_volume mv_mount_point st mount_point"

text \<open>The index must be one of the array; the structure is zeroed when \<open>umount\<close> succeeds.\<close>

definition unmount_mounted_volume :: "'w os \<Rightarrow> nat \<Rightarrow> MountsState \<Rightarrow> 'w \<Rightarrow> (int \<times> MountsState \<times> 'w) option" where
  "unmount_mounted_volume sys i st w =
     (case volumes st of
        None \<Rightarrow> None
      | Some vs \<Rightarrow>
          if length vs \<le> i then None
          else case os_umount sys (mv_mount_point (vs ! i)) w of (ret, w) \<Rightarrow>
            if ret = 0 then Some (0, st\<lparr>volumes := Some (vs[i := free_volume_internals (vs ! i)])\<rparr>, w)
            else Some (ret, st, w))"

definition remount_read_only :: "'w os \<Rightarrow> nat \<Rightarrow> MountsState \<Rightarrow> 'w \<Rightarrow> (int \<times> 'w) option" where
  "remount_read_only sys i st w =
     (case volumes st of
        None \<Rightarrow> None
      | Some vs \<Rightarrow>
          if length vs \<le> i then None
          else Some (os_remount sys (mv_device (vs ! i)) (mv_mount_point (vs ! i)) (mv_filesystem (vs ! i)) w))"

section \<open>Reading the table\<close>

text \<open>The lines of \<^verbatim>\<open>/proc/mounts\<close>: four fields that fit the buffers, and two dummy fields.\<close>

type_synonym mount_entry = "string \<times> string \<times> string \<times> string"

definition entry_ok :: "mount_entry \<Rightarrow> bool" where
  "entry_ok e \<longleftrightarrow> (case e of (d, p, f, o') \<Rightarrow> list_all (is_token isspace) [d, p, f, o'] \<and>
     length d \<le> 63 \<and> length p \<le> 63 \<and> length f \<le> 63 \<and> length o' \<le> 127)"

definition mount_line :: "mount_entry \<Rightarrow> string" where
  "mount_line e = (case e of (d, p, f, o') \<Rightarrow> d @ '' '' @ p @ '' '' @ f @ '' '' @ o' @ '' 0 0'' @ [NL])"

definition mount_text :: "mount_entry list \<Rightarrow> string" where
  "mount_text es = concat (map mount_line es)"

definition table_ok :: "mount_entry list \<Rightarrow> bool" where
  "table_ok es \<longleftrightarrow> list_all entry_ok es \<and> length es \<le> NUMV \<and> length (mount_text es) \<le> 2047"

definition volume_of :: "mount_entry \<Rightarrow> MountedVolume" where
  "volume_of e = (case e of (d, p, f, o') \<Rightarrow>
     \<lparr>mv_device = Some d, mv_mount_point = Some p, mv_filesystem = Some f, mv_flags = Some o'\<rparr>)"

definition state_ok :: "MountsState \<Rightarrow> bool" where
  "state_ok st \<longleftrightarrow> (case volumes st of None \<Rightarrow> True | Some vs \<Rightarrow> length vs = NUMV \<and> volume_count st \<le> NUMV)"

lemma isspace_consts [simp]: "isspace CHR '' ''" "isspace NL" "\<not> isspace CHR ''0''"
  by (simp_all add: isspace_def)

lemma scan_s_field:
  "is_token isspace t \<Longrightarrow> length t \<le> n \<Longrightarrow> scan_s n (t @ CHR '' '' # r) = Some (t, CHR '' '' # r)"
  by (rule scan_s_token) auto

lemma scan_mount_line: "entry_ok e \<Longrightarrow> scan_mount (mount_line e @ r) = Some e"
  by (cases e) (auto simp: entry_ok_def scan_mount_def mount_line_def scan_s_field scan_s_space)

lemma no_newline: "is_token isspace t \<Longrightarrow> NL \<notin> set t"
  by (auto simp: is_token_def list_all_iff)

lemma next_line_mount: "entry_ok e \<Longrightarrow> next_line (mount_line e @ r) = r"
proof -
  assume e: "entry_ok e"
  obtain d p f o' where e': "e = (d, p, f, o')" by (cases e)
  let ?l = "d @ '' '' @ p @ '' '' @ f @ '' '' @ o' @ '' 0 0''"
  have "NL \<notin> set ?l" using e no_newline by (auto simp: entry_ok_def e')
  then have "dropWhile (\<lambda>c. c \<noteq> NL) (?l @ NL # r) = NL # r" by (subst dropWhile_append2) auto
  moreover have "mount_line e @ r = ?l @ NL # r" by (simp add: mount_line_def e')
  ultimately show ?thesis by (simp only: next_line_def drop_Suc_Cons One_nat_def drop_0)
qed

lemma strdup_ok: "malloc_law sys \<Longrightarrow> strdup sys w s = Some s"
  by (auto simp: strdup_def malloc_law_def)

lemma scan_mounts_text:
  assumes law: "malloc_law sys"
  shows "list_all entry_ok es \<Longrightarrow> n + length es \<le> length vs \<Longrightarrow>
    \<exists>vs'. scan_mounts sys w (mount_text es) vs n = Some (vs', n + length es) \<and> length vs' = length vs \<and>
      take (n + length es) vs' = take n vs @ map volume_of es"
proof (induction es arbitrary: n vs)
  case Nil
  then show ?case by (simp add: mount_text_def scan_mounts.simps)
next
  case (Cons e es)
  obtain d p f o' where e: "e = (d, p, f, o')" by (cases e)
  let ?vs = "vs[n := volume_of e]"
  have t: "mount_text (e # es) = mount_line e @ mount_text es" "mount_line e \<noteq> []"
    by (auto simp: mount_text_def mount_line_def split: prod.split)
  have "scan_mounts sys w (mount_text (e # es)) vs n = scan_mounts sys w (mount_text es) ?vs (Suc n)"
    unfolding t(1) scan_mounts.simps [of sys w "mount_line e @ mount_text es"]
    using Cons.prems scan_mount_line [of e "mount_text es"] next_line_mount [of e "mount_text es"] t(2)
    by (simp add: volume_of_def strdup_ok [OF law] e)
  moreover from Cons.IH [of "Suc n" ?vs] Cons.prems obtain vs' where
    "scan_mounts sys w (mount_text es) ?vs (Suc n) = Some (vs', Suc n + length es)" "length vs' = length vs"
    "take (Suc n + length es) vs' = take (Suc n) ?vs @ map volume_of es" by auto
  ultimately show ?case using Cons.prems by (auto simp: take_Suc_conv_app_nth)
qed

text \<open>
  What the kernel provides under \<^verbatim>\<open>/proc/mounts\<close>: the text of the entries of the machine, in one read.
\<close>

definition proc_mounts_law :: "'w os \<Rightarrow> ('w \<Rightarrow> mount_entry list) \<Rightarrow> bool" where
  "proc_mounts_law sys entries \<longleftrightarrow> (\<forall>w. table_ok (entries w) \<and>
     (\<exists>fd w1 w2. os_open sys ''/proc/mounts'' O_RDONLY w = (fd, w1) \<and> 0 \<le> fd \<and>
       os_read sys fd 2047 w1 = (int (length (mount_text (entries w))), bytes_of (mount_text (entries w)), w2) \<and>
       entries (snd (os_close sys fd w2)) = entries w))"

definition mount_table :: "MountsState \<Rightarrow> MountedVolume list" where
  "mount_table st = (case volumes st of None \<Rightarrow> [] | Some vs \<Rightarrow> take (volume_count st) vs)"

lemma scan_mounted_volumes_run:
  assumes laws: "malloc_law sys" "proc_mounts_law sys entries" and st: "state_ok st"
  obtains st' w' where "scan_mounted_volumes sys st w = Some (0, st', w')" "state_ok st'" "volumes st' \<noteq> None"
    "mount_table st' = map volume_of (entries w)" "entries w' = entries w"
proof -
  from laws(2) obtain fd w1 w2 where t: "table_ok (entries w)"
    and o: "os_open sys ''/proc/mounts'' O_RDONLY w = (fd, w1)" "0 \<le> fd"
      "os_read sys fd 2047 w1 = (int (length (mount_text (entries w))), bytes_of (mount_text (entries w)), w2)"
      "entries (snd (os_close sys fd w2)) = entries w"
    unfolding proc_mounts_law_def by meson
  define vs where "vs = (case volumes st of
      Some vs \<Rightarrow> map free_volume_internals (take (volume_count st) vs) @ drop (volume_count st) vs
    | None \<Rightarrow> replicate NUMV \<lparr>mv_device = None, mv_mount_point = None, mv_filesystem = None, mv_flags = None\<rparr>)"
  have len: "length vs = NUMV" using st by (auto simp: vs_def state_ok_def split: option.splits)
  define w3 where "w3 = snd (os_close sys fd w2)"
  from t scan_mounts_text [OF laws(1), of "entries w" 0 vs w3] len obtain vs' where
    s: "scan_mounts sys w3 (mount_text (entries w)) vs 0 = Some (vs', length (entries w))" "length vs' = NUMV"
      "take (length (entries w)) vs' = map volume_of (entries w)" by (auto simp: table_ok_def)
  have "scan_mounted_volumes sys st w = Some (0, \<lparr>volumes = Some vs', volume_count = length (entries w)\<rparr>, w3)"
    using o s(1) laws(1) by (cases "volumes st")
      (simp_all add: scan_mounted_volumes_def vs_def malloc_law_def w3_def split_beta)
  moreover have "state_ok \<lparr>volumes = Some vs', volume_count = length (entries w)\<rparr>"
    using s(2) t by (simp add: state_ok_def table_ok_def)
  ultimately show thesis using that s(3) o(4) by (simp add: mount_table_def w3_def)
qed

lemma find_mounted_volume_table:
  assumes "state_ok st"
  shows "(\<exists>i. find_mounted_volume key st x = Some i) \<longleftrightarrow> (\<exists>v \<in> set (mount_table st). key v = Some x)"
    and "find_mounted_volume key st x = Some i \<Longrightarrow> i < length (mount_table st) \<and> key (mount_table st ! i) = Some x \<and>
      (\<forall>j < i. key (mount_table st ! j) \<noteq> Some x)"
proof -
  show "(\<exists>i. find_mounted_volume key st x = Some i) \<longleftrightarrow> (\<exists>v \<in> set (mount_table st). key v = Some x)"
  proof (cases "volumes st")
    case (Some vs)
    have "(\<exists>i. find_mounted_volume key st x = Some i) \<longleftrightarrow> (\<exists>i < volume_count st. key (vs ! i) = Some x)"
      using Some find_None_iff [of "\<lambda>i. key (vs ! i) = Some x" "[0..<volume_count st]"]
      by (auto simp: find_mounted_volume_def)
    moreover have "set (mount_table st) = (!) vs ` {0..<volume_count st}"
      using assms Some by (simp add: mount_table_def state_ok_def nth_image)
    ultimately show ?thesis by auto
  qed (simp add: find_mounted_volume_def mount_table_def)
  show "find_mounted_volume key st x = Some i \<Longrightarrow> i < length (mount_table st) \<and> key (mount_table st ! i) = Some x \<and>
      (\<forall>j < i. key (mount_table st ! j) \<noteq> Some x)"
    using assms by (auto simp: find_mounted_volume_def mount_table_def state_ok_def find_Some_iff split: option.splits)
qed

end
