(* ===== verification/Roots.thy ===== *)
theory Roots
  imports Mounts
begin

text \<open>
  The volumes of the device and how paths are mounted: \<^verbatim>\<open>roots.c\<close> without the formatting functions.
  The table is read from \<^verbatim>\<open>/etc/recovery.fstab\<close>.
\<close>

section \<open>The volume table\<close>

record Volume =
  v_mount_point :: string
  v_fs_type :: string
  v_device :: "string option"
  v_device2 :: "string option"
  v_length :: int
  v_fs_type2 :: "string option"
  v_fs_options :: "string option"
  v_fs_options2 :: "string option"
  v_lun :: "string option"

definition tmp_volume :: Volume where
  "tmp_volume = \<lparr>v_mount_point = ''/tmp'', v_fs_type = ''ramdisk'', v_device = None, v_device2 = None, v_length = 0,
     v_fs_type2 = None, v_fs_options = None, v_fs_options2 = None, v_lun = None\<rparr>"

text \<open>
  One option of a line. \<open>Some None\<close> is the error return; a null pointer for the type of the file system is
  undefined behaviour, because every later comparison reads it.
\<close>

definition parse_option :: "'w os \<Rightarrow> 'w \<Rightarrow> string \<Rightarrow> Volume \<Rightarrow> Volume option option" where
  "parse_option sys w opt v =
     (if take 7 opt = ''length='' then Some (Some (v\<lparr>v_length := strtoll (drop 7 opt)\<rparr>))
      else if take 8 opt = ''fstype2='' then
        Option.bind (strdup sys w (drop 8 opt)) (\<lambda>t. Some (Some (v\<lparr>v_fs_type2 := Some (v_fs_type v), v_fs_type := t\<rparr>)))
      else if take 11 opt = ''fs_options='' then Some (Some (v\<lparr>v_fs_options := strdup sys w (drop 11 opt)\<rparr>))
      else if take 12 opt = ''fs_options2='' then Some (Some (v\<lparr>v_fs_options2 := strdup sys w (drop 12 opt)\<rparr>))
      else if take 4 opt = ''lun='' then Some (Some (v\<lparr>v_lun := strdup sys w (drop 4 opt)\<rparr>))
      else Some None)"

fun parse_options :: "'w os \<Rightarrow> 'w \<Rightarrow> string list \<Rightarrow> Volume \<Rightarrow> Volume option option" where
  "parse_options sys w [] v = Some (Some v)"
| "parse_options sys w (opt # opts) v =
     (case parse_option sys w opt v of
        Some (Some v') \<Rightarrow> parse_options sys w opts v'
      | r \<Rightarrow> r)"

definition fstab_delim :: "char \<Rightarrow> bool" where
  "fstab_delim c \<longleftrightarrow> c = CHR '' '' \<or> c = CHR 0x09 \<or> c = NL"

text \<open>
  The fields of a line, or \<open>None\<close> when it is blank, a comment or has fewer than three: the mount point, the
  type, the device, the second device and the options. A fourth field that is not a path holds the options.
\<close>

definition fstab_fields :: "string \<Rightarrow> (string \<times> string \<times> string \<times> string option \<times> string option) option" where
  "fstab_fields buffer =
     (let s = dropWhile isspace buffer in
      if s = [] \<or> hd s = CHR ''#'' then None
      else case strtoks fstab_delim s of
        mp # ty # dev # [] \<Rightarrow> Some (mp, ty, dev, None, None)
      | mp # ty # dev # d # opts \<Rightarrow>
          if hd d = CHR ''/'' then Some (mp, ty, dev, Some d, if opts = [] then None else Some (hd opts))
          else Some (mp, ty, dev, None, Some d)
      | _ \<Rightarrow> None)"

text \<open>
  The volume of a line: \<open>Some None\<close> when its options are malformed. Without options the call
  \<open>strtok(NULL, ",")\<close> goes on with a line that has no more tokens.
\<close>

definition fstab_volume ::
  "'w os \<Rightarrow> 'w \<Rightarrow> string \<times> string \<times> string \<times> string option \<times> string option \<Rightarrow> Volume option option" where
  "fstab_volume sys w = (\<lambda>(mount_point, fs_type, device, device2, options).
     Option.bind (strdup sys w mount_point) (\<lambda>mp. Option.bind (strdup sys w fs_type) (\<lambda>ty.
     parse_options sys w (case options of None \<Rightarrow> [] | Some opts \<Rightarrow> strtoks (\<lambda>c. c = CHR '','') opts)
       \<lparr>v_mount_point = mp, v_fs_type = ty, v_device = strdup sys w device,
        v_device2 = Option.bind device2 (strdup sys w), v_length = 0, v_fs_type2 = None, v_fs_options = None,
        v_fs_options2 = None, v_lun = None\<rparr>)))"

text \<open>
  The loop over the lines; \<open>alloc\<close> is the size of the array, doubled when it is full. The results of
  \<open>malloc\<close> and \<open>realloc\<close> are not checked.
\<close>

partial_function (option) fstab_lines ::
  "'w os \<Rightarrow> int \<Rightarrow> int \<Rightarrow> Volume list \<Rightarrow> 'w \<Rightarrow> (Volume list \<times> 'w) option" where
  "fstab_lines sys f alloc vs w =
     (case os_fgets sys f 1023 w of
        (None, w) \<Rightarrow> Some (vs, w)
      | (Some buffer, w) \<Rightarrow>
          (case fstab_fields buffer of
             None \<Rightarrow> fstab_lines sys f alloc vs w
           | Some fs \<Rightarrow>
               let alloc' = (if int (length vs) < alloc then alloc else 2 * alloc) in
               if alloc' \<noteq> alloc \<and> os_malloc sys (alloc' * 40) w = None then None
               else Option.bind (fstab_volume sys w fs) (\<lambda>v.
                    fstab_lines sys f alloc' (case v of None \<Rightarrow> vs | Some v \<Rightarrow> vs @ [v]) w)))"

definition load_volume_table :: "'w os \<Rightarrow> 'w \<Rightarrow> (Volume list \<times> 'w) option" where
  "load_volume_table sys w =
     (if os_malloc sys (2 * 40) w = None then None
      else case os_fopen sys ''/etc/recovery.fstab'' False w of
        (None, w) \<Rightarrow> Some ([tmp_volume], w)
      | (Some f, w) \<Rightarrow>
          Option.bind (fstab_lines sys f 2 [tmp_volume] w) (\<lambda>(vs, w). Some (vs, snd (os_fclose sys f w))))"

definition volume_for_path :: "Volume list \<Rightarrow> string \<Rightarrow> Volume option" where
  "volume_for_path vs path =
     List.find (\<lambda>v. let len = length (v_mount_point v) in
       take len path = v_mount_point v \<and> (drop len path = [] \<or> hd (drop len path) = CHR ''/'')) vs"

section \<open>Mounting\<close>

text \<open>The static data of the recovery program, and the machine.\<close>

record 'w recovery =
  mtd :: MtdState
  mounts :: MountsState
  device_volumes :: "Volume list"
  machine :: 'w

definition mount_cmd :: "string \<Rightarrow> string \<Rightarrow> string \<Rightarrow> string \<Rightarrow> string" where
  "mount_cmd fs_type fs_options device mount_point =
     ''mount -t '' @ fs_type @ '' -o'' @ fs_options @ '' '' @ device @ '' '' @ mount_point"

definition try_mount ::
  "'w os \<Rightarrow> string option \<Rightarrow> string \<Rightarrow> string option \<Rightarrow> string option \<Rightarrow> 'w \<Rightarrow> int \<times> 'w" where
  "try_mount sys device mount_point fs_type fs_options w =
     (case (device, fs_type) of
        (Some device, Some fs_type) \<Rightarrow>
          (case fs_options of
             None \<Rightarrow> os_mount sys device mount_point fs_type False w
           | Some opts \<Rightarrow> os_system sys (mount_cmd fs_type opts device mount_point) w)
      | _ \<Rightarrow> (- 1, w))"

definition is_data_media :: "Volume list \<Rightarrow> bool" where
  "is_data_media vs \<longleftrightarrow> list_ex (\<lambda>v. v_fs_type v = ''datamedia'') vs"

definition setup_data_media :: "'w os \<Rightarrow> Volume list \<Rightarrow> 'w \<Rightarrow> 'w" where
  "setup_data_media sys vs w =
     (case List.find (\<lambda>v. v_fs_type v = ''datamedia'') vs of
        None \<Rightarrow> w
      | Some v \<Rightarrow>
          let w = snd (os_rmdir sys (v_mount_point v) w);
              w = snd (os_mkdir sys ''/data/media'' 493 w)
          in snd (os_symlink sys ''/data/media'' (v_mount_point v) w))"

text \<open>For an unknown path the volume is a null pointer that is dereferenced.\<close>

definition is_data_media_volume_path :: "Volume list \<Rightarrow> string \<Rightarrow> bool option" where
  "is_data_media_volume_path vs path = map_option (\<lambda>v. v_fs_type v = ''datamedia'') (volume_for_path vs path)"

text \<open>The last part of mounting a volume: by its type.\<close>

definition mount_yaffs2 :: "'w os \<Rightarrow> Volume \<Rightarrow> string \<Rightarrow> 'w recovery \<Rightarrow> (int \<times> 'w recovery) option" where
  "mount_yaffs2 sys v mount_point s =
     Option.bind (mtd_scan_partitions sys (mtd s) (machine s)) (\<lambda>(_, st, w).
     let s = s\<lparr>mtd := st, machine := w\<rparr> in
     case v_device v of
       None \<Rightarrow> None
     | Some dev \<Rightarrow>
         (case mtd_find_partition_by_name st dev of
            None \<Rightarrow> Some (- 1, s)
          | Some part \<Rightarrow>
              (case mtd_mount_partition sys part mount_point (v_fs_type v) False w of (r, w) \<Rightarrow> Some (r, s\<lparr>machine := w\<rparr>))))"

definition mount_block :: "'w os \<Rightarrow> Volume \<Rightarrow> string \<Rightarrow> 'w \<Rightarrow> int \<times> 'w" where
  "mount_block sys v mount_point w =
     (case try_mount sys (v_device v) mount_point (Some (v_fs_type v)) (v_fs_options v) w of (r, w) \<Rightarrow>
      if r = 0 then (0, w) else
      case try_mount sys (v_device2 v) mount_point (Some (v_fs_type v)) (v_fs_options v) w of (r, w) \<Rightarrow>
      if r = 0 then (0, w) else
      case try_mount sys (v_device v) mount_point (v_fs_type2 v) (v_fs_options2 v) w of (r, w) \<Rightarrow>
      if r = 0 then (0, w) else
      try_mount sys (v_device2 v) mount_point (v_fs_type2 v) (v_fs_options2 v) w)"

definition mount_by_type :: "'w os \<Rightarrow> Volume \<Rightarrow> string \<Rightarrow> 'w recovery \<Rightarrow> (int \<times> 'w recovery) option" where
  "mount_by_type sys v mount_point s =
     (let s = s\<lparr>machine := snd (os_mkdir sys mount_point 493 (machine s))\<rparr> in
      if v_fs_type v = ''yaffs2'' then mount_yaffs2 sys v mount_point s
      else if v_fs_type v \<in> {''ext4'', ''ext3'', ''rfs'', ''vfat''} then
        (case mount_block sys v mount_point (machine s) of (r, w) \<Rightarrow> Some (r, s\<lparr>machine := w\<rparr>))
      else
        (case os_system sys (''mount '' @ mount_point) (machine s) of (r, w) \<Rightarrow> Some (r, s\<lparr>machine := w\<rparr>)))"

text \<open>
  The call for \<^verbatim>\<open>/data\<close> does not return when that volume is itself of type \<open>datamedia\<close>.
\<close>

partial_function (option) ensure_path_mounted_at_mount_point ::
  "'w os \<Rightarrow> string \<Rightarrow> string option \<Rightarrow> 'w recovery \<Rightarrow> (int \<times> 'w recovery) option" where
  "ensure_path_mounted_at_mount_point sys path mount_point s =
     (case volume_for_path (device_volumes s) path of
        None \<Rightarrow> Some (- 1, s)
      | Some v \<Rightarrow>
          if v_fs_type v = ''datamedia'' then
            Option.bind (ensure_path_mounted_at_mount_point sys ''/data'' None s) (\<lambda>(ret, s).
              if ret \<noteq> 0 then Some (ret, s)
              else Some (0, s\<lparr>machine := setup_data_media sys (device_volumes s) (machine s)\<rparr>))
          else if v_fs_type v = ''ramdisk'' then Some (0, s)
          else
            Option.bind (scan_mounted_volumes sys (mounts s) (machine s)) (\<lambda>(result, st, w).
            let s = s\<lparr>mounts := st, machine := w\<rparr>;
                mount_point = (case mount_point of None \<Rightarrow> v_mount_point v | Some p \<Rightarrow> p) in
            if result < 0 then Some (- 1, s)
            else if find_mounted_volume_by_mount_point st mount_point \<noteq> None then Some (0, s)
            else mount_by_type sys v mount_point s))"

definition ensure_path_mounted :: "'w os \<Rightarrow> string \<Rightarrow> 'w recovery \<Rightarrow> (int \<times> 'w recovery) option" where
  "ensure_path_mounted sys path s = ensure_path_mounted_at_mount_point sys path None s"

partial_function (option) ensure_path_unmounted ::
  "'w os \<Rightarrow> string \<Rightarrow> 'w recovery \<Rightarrow> (int \<times> 'w recovery) option" where
  "ensure_path_unmounted sys path s =
     (if take 5 path = ''/data'' \<and> is_data_media (device_volumes s) then Some (0, s)
      else case volume_for_path (device_volumes s) path of
        None \<Rightarrow> Some (- 1, s)
      | Some v \<Rightarrow>
          if v_fs_type v = ''datamedia'' then ensure_path_unmounted sys ''/data'' s
          else if v_fs_type v = ''ramdisk'' then Some (- 1, s)
          else
            Option.bind (scan_mounted_volumes sys (mounts s) (machine s)) (\<lambda>(result, st, w).
            let s = s\<lparr>mounts := st, machine := w\<rparr> in
            if result < 0 then Some (- 1, s)
            else case find_mounted_volume_by_mount_point st (v_mount_point v) of
              None \<Rightarrow> Some (0, s)
            | Some mv \<Rightarrow>
                Option.bind (unmount_mounted_volume sys mv st w) (\<lambda>(r, st, w). Some (r, s\<lparr>mounts := st, machine := w\<rparr>))))"

declare ensure_path_mounted_at_mount_point.simps [code] ensure_path_unmounted.simps [code]

definition is_path_mounted :: "'w os \<Rightarrow> string \<Rightarrow> 'w recovery \<Rightarrow> (bool \<times> 'w recovery) option" where
  "is_path_mounted sys path s =
     (case volume_for_path (device_volumes s) path of
        None \<Rightarrow> Some (False, s)
      | Some v \<Rightarrow>
          if v_fs_type v = ''ramdisk'' then Some (True, s)
          else
            Option.bind (scan_mounted_volumes sys (mounts s) (machine s)) (\<lambda>(result, st, w).
            let s = s\<lparr>mounts := st, machine := w\<rparr> in
            if result < 0 then Some (False, s)
            else Some (find_mounted_volume_by_mount_point st (v_mount_point v) \<noteq> None, s)))"

section \<open>What is mounted\<close>

text \<open>
  The mount points of the machine, and what the calls do to them: \<open>mount\<close>, and the command \<open>mount\<close> run by
  a shell, leave the volume mounted when they succeed; \<open>umount\<close> removes it; the calls on files change
  nothing.
\<close>

definition mounted :: "('w \<Rightarrow> mount_entry list) \<Rightarrow> 'w \<Rightarrow> string set" where
  "mounted entries w = (fst \<circ> snd) ` set (entries w)"

definition mount_law :: "'w os \<Rightarrow> ('w \<Rightarrow> mount_entry list) \<Rightarrow> bool" where
  "mount_law sys entries \<longleftrightarrow>
     (\<forall>d p f ro w. 0 \<le> fst (os_mount sys d p f ro w) \<longrightarrow> p \<in> mounted entries (snd (os_mount sys d p f ro w))) \<and>
     (\<forall>p c w. (c = ''mount '' @ p \<or> (\<exists>t o' d. c = mount_cmd t o' d p)) \<and> fst (os_system sys c w) = 0 \<longrightarrow>
        p \<in> mounted entries (snd (os_system sys c w)))"

definition umount_law :: "'w os \<Rightarrow> ('w \<Rightarrow> mount_entry list) \<Rightarrow> bool" where
  "umount_law sys entries \<longleftrightarrow>
     (\<forall>p w. fst (os_umount sys (Some p) w) = 0 \<longrightarrow> p \<notin> mounted entries (snd (os_umount sys (Some p) w)))"

definition chmod_law :: "'w os \<Rightarrow> ('w \<Rightarrow> mount_entry list) \<Rightarrow> bool" where
  "chmod_law sys entries \<longleftrightarrow> (\<forall>p m w. entries (snd (os_chmod sys p m w)) = entries w)"

lemma try_mount_mounts:
  assumes "mount_law sys entries" "try_mount sys dev p ty opts w = (0, w')"
  shows "p \<in> mounted entries w'"
proof -
  from assms(2) obtain d t where "dev = Some d" "ty = Some t" by (auto simp: try_mount_def split: option.splits)
  with assms show ?thesis
    by (cases opts) (auto simp: try_mount_def mount_law_def, metis fst_conv snd_conv order_refl, metis fst_conv snd_conv)
qed

lemma mount_block_mounts:
  "mount_law sys entries \<Longrightarrow> mount_block sys v p w = (0, w') \<Longrightarrow> p \<in> mounted entries w'"
  by (auto simp: mount_block_def split: prod.splits if_splits intro: try_mount_mounts)

lemma mtd_mount_partition_mounts:
  assumes "mount_law sys entries" "chmod_law sys entries" "mtd_mount_partition sys part p ty False w = (0, w')"
  shows "p \<in> mounted entries w'"
proof -
  define dev where "dev = ''/dev/block/mtdblock'' @ show_int (device_index part)"
  obtain r1 w1 where m1: "os_mount sys dev p ty False w = (r1, w1)" by fastforce
  obtain r2 w2 where m2: "(if r1 < 0 then os_mount sys dev p ty True w1 else (r1, w1)) = (r2, w2)" by fastforce
  have "0 \<le> r2 \<Longrightarrow> p \<in> mounted entries w2"
    using assms(1) m1 m2 unfolding mount_law_def by (metis fst_conv snd_conv not_le)
  moreover have "0 \<le> r2 \<and> (w' = w2 \<or> (\<exists>m. os_chmod sys p m w2 = (0, w')))"
    using assms(3) m1 m2 unfolding mtd_mount_partition_def Let_def dev_def [symmetric] by (auto split: if_splits option.splits)
  moreover have "entries w' = entries w2" if "os_chmod sys p m w2 = (0, w')" for m
    using assms(2) that unfolding chmod_law_def by (metis snd_conv)
  ultimately show ?thesis unfolding mounted_def by metis
qed

lemma mount_by_type_mounts:
  assumes "mount_law sys entries" "chmod_law sys entries" "mount_by_type sys v p s = Some (0, s')"
  shows "p \<in> mounted entries (machine s')"
proof -
  consider (yaffs2) "v_fs_type v = ''yaffs2''" | (block) "v_fs_type v \<noteq> ''yaffs2''" "v_fs_type v \<in> {''ext4'', ''ext3'', ''rfs'', ''vfat''}"
    | (other) "v_fs_type v \<noteq> ''yaffs2''" "v_fs_type v \<notin> {''ext4'', ''ext3'', ''rfs'', ''vfat''}" by blast
  then show ?thesis
  proof cases
    case yaffs2
    define s1 where "s1 = s\<lparr>machine := snd (os_mkdir sys p 493 (machine s))\<rparr>"
    from yaffs2 assms(3) have "mount_yaffs2 sys v p s1 = Some (0, s')" by (simp add: mount_by_type_def Let_def s1_def)
    then obtain st w where m: "(case v_device v of None \<Rightarrow> None | Some dev \<Rightarrow>
        (case mtd_find_partition_by_name st dev of None \<Rightarrow> Some (- 1, s1\<lparr>mtd := st, machine := w\<rparr>)
         | Some part \<Rightarrow> (case mtd_mount_partition sys part p (v_fs_type v) False w of (r, w1) \<Rightarrow>
             Some (r, s1\<lparr>mtd := st, machine := w, machine := w1\<rparr>)))) = Some (0, s')"
      by (auto simp: mount_yaffs2_def Let_def bind_eq_Some_conv)
    then obtain dev where dev: "v_device v = Some dev" by (cases "v_device v") auto
    with m obtain part where part: "mtd_find_partition_by_name st dev = Some part" by (cases "mtd_find_partition_by_name st dev") auto
    obtain r w1 where "mtd_mount_partition sys part p (v_fs_type v) False w = (r, w1)" by fastforce
    with m dev part mtd_mount_partition_mounts [OF assms(1,2)] show ?thesis by auto
  next
    case block
    with assms(3) show ?thesis
      by (auto simp: mount_by_type_def Let_def split: prod.splits intro: mount_block_mounts [OF assms(1)])
  next
    case other
    define w where "w = snd (os_mkdir sys p 493 (machine s))"
    from other assms(3) have "fst (os_system sys (''mount '' @ p) w) = 0" "machine s' = snd (os_system sys (''mount '' @ p) w)"
      by (auto simp: mount_by_type_def Let_def w_def split: prod.splits)
    with assms(1) show ?thesis unfolding mount_law_def by metis
  qed
qed

lemma volume_of_mount_point [simp]: "mv_mount_point (volume_of e) = Some (fst (snd e))"
  by (simp add: volume_of_def split: prod.split)

lemma find_mount_point:
  assumes "state_ok st" "mount_table st = map volume_of (entries w)"
  shows "find_mounted_volume_by_mount_point st p \<noteq> None \<longleftrightarrow> p \<in> mounted entries w"
proof -
  have "find_mounted_volume_by_mount_point st p \<noteq> None \<longleftrightarrow> (\<exists>e \<in> set (entries w). fst (snd e) = p)"
    using find_mounted_volume_table(1) [OF assms(1), of mv_mount_point p]
    by (simp add: find_mounted_volume_by_mount_point_def assms(2))
  then show ?thesis by (auto simp: mounted_def)
qed

lemma unmount_mounted_volume_unmounts:
  assumes "umount_law sys entries" "state_ok st" "find_mounted_volume_by_mount_point st p = Some i"
    and "unmount_mounted_volume sys i st w = Some (0, st', w')"
  shows "p \<notin> mounted entries w'"
proof -
  obtain vs where vs: "volumes st = Some vs" using assms(4) by (auto simp: unmount_mounted_volume_def split: option.splits)
  from find_mounted_volume_table(2) [OF assms(2) assms(3) [unfolded find_mounted_volume_by_mount_point_def]]
  have "mv_mount_point (vs ! i) = Some p" by (auto simp: mount_table_def vs)
  with assms(4) vs have "os_umount sys (Some p) w = (0, w')"
    by (auto simp: unmount_mounted_volume_def split: if_splits prod.splits)
  with assms(1) show ?thesis unfolding umount_law_def by (metis fst_conv snd_conv)
qed


text \<open>A machine whose state is its table of mounts, and a device with one volume.\<close>

definition seen :: "mount_entry list \<Rightarrow> mount_entry list" where
  "seen w = filter entry_ok (take 1 w)"

definition mounts_os :: "mount_entry list os" where
  "mounts_os = null_os\<lparr>os_malloc := \<lambda>n w. Some (replicate (nat n) 0), os_open := \<lambda>p m w. (3, w), os_close := \<lambda>fd w. (0, w),
     os_read := \<lambda>fd n w. (int (length (mount_text (seen w))), bytes_of (mount_text (seen w)), w), os_chmod := \<lambda>p m w. (0, w),
     os_mount := \<lambda>d p f ro w. let e = (''d'', p, ''f'', ''rw'') in if entry_ok e then (0, [e]) else (- 1, w),
     os_umount := \<lambda>p w. (0, [])\<rparr>"

lemma seen_ok: "table_ok (seen w)"
proof -
  have "length (mount_line e) \<le> 2047" if "entry_ok e" for e
    using that by (auto simp: entry_ok_def mount_line_def split: prod.splits)
  then show ?thesis by (cases w) (auto simp: seen_def table_ok_def mount_text_def NUMV_def)
qed

lemma mounts_os_laws:
  "malloc_law mounts_os" "proc_mounts_law mounts_os seen" "mount_law mounts_os seen" "umount_law mounts_os seen" "chmod_law mounts_os seen"
  using seen_ok
  by (simp_all add: malloc_law_def proc_mounts_law_def mount_law_def umount_law_def chmod_law_def mounts_os_def null_os_def Let_def)
    (auto simp: mounted_def seen_def)

definition cache_volume :: Volume where
  "cache_volume = tmp_volume\<lparr>v_mount_point := ''/cache'', v_fs_type := ''ext4'', v_device := Some ''/dev/c''\<rparr>"

definition mounts_state :: "mount_entry list recovery" where
  "mounts_state = \<lparr>mtd = g_mtd_state, mounts = g_mounts_state, device_volumes = [tmp_volume, cache_volume], machine = []\<rparr>"

lemma sample_runs:
  "map_option fst (ensure_path_mounted mounts_os ''/cache/recovery'' mounts_state) = Some 0"
  "map_option fst (ensure_path_unmounted mounts_os ''/cache/recovery'' mounts_state) = Some 0"
  by code_simp+


section \<open>Reading the volume table\<close>

text \<open>The lines of \<^verbatim>\<open>recovery.fstab\<close>: the options, the entries and the comments.\<close>

datatype fstab_option = Length int | Fstype2 string | Fs_Options string | Fs_Options2 string | Lun string

fun show_option :: "fstab_option \<Rightarrow> string" where
  "show_option (Length n) = ''length='' @ show_int n"
| "show_option (Fstype2 s) = ''fstype2='' @ s"
| "show_option (Fs_Options s) = ''fs_options='' @ s"
| "show_option (Fs_Options2 s) = ''fs_options2='' @ s"
| "show_option (Lun s) = ''lun='' @ s"

fun set_option :: "fstab_option \<Rightarrow> Volume \<Rightarrow> Volume" where
  "set_option (Length n) v = v\<lparr>v_length := n\<rparr>"
| "set_option (Fstype2 s) v = v\<lparr>v_fs_type2 := Some (v_fs_type v), v_fs_type := s\<rparr>"
| "set_option (Fs_Options s) v = v\<lparr>v_fs_options := Some s\<rparr>"
| "set_option (Fs_Options2 s) v = v\<lparr>v_fs_options2 := Some s\<rparr>"
| "set_option (Lun s) v = v\<lparr>v_lun := Some s\<rparr>"

definition plain :: "string \<Rightarrow> bool" where
  "plain s \<longleftrightarrow> list_all (\<lambda>c. \<not> isspace c \<and> c \<noteq> CHR '','') s"

fun option_ok :: "fstab_option \<Rightarrow> bool" where
  "option_ok (Length n) \<longleftrightarrow> - (2 ^ 63) \<le> n \<and> n < 2 ^ 63"
| "option_ok (Fstype2 s) \<longleftrightarrow> plain s"
| "option_ok (Fs_Options s) \<longleftrightarrow> plain s"
| "option_ok (Fs_Options2 s) \<longleftrightarrow> plain s"
| "option_ok (Lun s) \<longleftrightarrow> plain s"

record fstab_entry =
  e_mount_point :: string
  e_fs_type :: string
  e_device :: string
  e_device2 :: "string option"
  e_options :: "fstab_option list"

definition entry_volume :: "fstab_entry \<Rightarrow> Volume" where
  "entry_volume e = fold set_option (e_options e)
     \<lparr>v_mount_point = e_mount_point e, v_fs_type = e_fs_type e, v_device = Some (e_device e), v_device2 = e_device2 e,
      v_length = 0, v_fs_type2 = None, v_fs_options = None, v_fs_options2 = None, v_lun = None\<rparr>"

fun comma_join :: "string list \<Rightarrow> string" where
  "comma_join [] = []"
| "comma_join [t] = t"
| "comma_join (t # ts) = t @ CHR '','' # comma_join ts"

definition entry_fields :: "fstab_entry \<Rightarrow> string list" where
  "entry_fields e = [e_mount_point e, e_fs_type e, e_device e] @ (case e_device2 e of None \<Rightarrow> [] | Some d \<Rightarrow> [d]) @
     (if e_options e = [] then [] else [comma_join (map show_option (e_options e))])"

definition fields_line :: "string list \<Rightarrow> string" where
  "fields_line ts = concat (map (\<lambda>t. t @ '' '') ts) @ [NL]"

definition fstab_entry_ok :: "fstab_entry \<Rightarrow> bool" where
  "fstab_entry_ok e \<longleftrightarrow> list_all (is_token isspace) [e_mount_point e, e_fs_type e, e_device e] \<and> hd (e_mount_point e) \<noteq> CHR ''#'' \<and>
     (case e_device2 e of None \<Rightarrow> True | Some d \<Rightarrow> is_token isspace d \<and> hd d = CHR ''/'') \<and> list_all option_ok (e_options e)"

lemma strtoks_Nil: "list_all D s \<Longrightarrow> strtoks D s = []"
proof -
  assume "list_all D s"
  then have "dropWhile D s = []" by (simp add: list_all_iff)
  then show ?thesis by (simp add: strtoks.simps [of D s] strtok_def)
qed

lemma strtoks_fields:
  assumes "D CHR '' ''" "D NL" "list_all (is_token D) ts"
  shows "strtoks D (fields_line ts) = ts"
  using assms(3)
proof (induction ts)
  case Nil
  then show ?case using assms(2) by (simp add: fields_line_def strtoks_Nil)
next
  case (Cons t ts)
  have "fields_line (t # ts) = t @ CHR '' '' # fields_line ts" by (simp add: fields_line_def)
  with Cons assms(1) show ?case by (simp add: strtoks_cut [of D t "CHR '' ''"])
qed

lemma strtoks_comma: "list_all (is_token (\<lambda>c. c = CHR '','')) ts \<Longrightarrow> strtoks (\<lambda>c. c = CHR '','') (comma_join ts) = ts"
proof (induction ts rule: comma_join.induct)
  case 1
  then show ?case by (simp add: strtoks_Nil)
next
  case (2 t)
  then show ?case using strtok_last [of "\<lambda>c. c = CHR '',''" t]
    by (simp add: strtoks.simps [of _ t] strtoks.simps [of _ "[]"] strtok_def)
next
  case (3 t u ts)
  then show ?case by (simp add: strtoks_cut)
qed

lemma show_int_chars: "c \<in> set (show_int n) \<Longrightarrow> isdigit c \<or> c = CHR ''-''"
  using show_nat_digits by (auto simp: show_int_def split: if_splits)

lemma strtoll_show_int:
  assumes "- (2 ^ 63) \<le> n" "n < 2 ^ 63"
  shows "strtoll (show_int n) = n"
proof -
  define m where "m = nat \<bar>n\<bar>"
  obtain c cs where s: "show_nat m = c # cs" using show_nat_nonempty by (cases "show_nat m") auto
  have dig: "\<forall>x \<in> set (show_nat m). isdigit x" by (rule show_nat_digits)
  then have t: "takeWhile isdigit (show_nat m) = show_nat m" by (auto simp: takeWhile_eq_all_conv)
  have c: "\<not> isspace c" "c \<noteq> CHR ''-''" "c \<noteq> CHR ''+''" using dig s isdigit_not_sign_space by auto
  have "strtol_sign (dropWhile isspace (show_int n)) = (n < 0, show_nat m)"
    using s c by (auto simp: show_int_def m_def strtol_sign_def isspace_def)
  moreover have "dec_val (show_nat m) = \<bar>n\<bar>" by (simp add: dec_val_show_nat m_def)
  ultimately show ?thesis using assms unfolding strtoll_def Let_def by (simp add: t del: takeWhile_eq_all_conv)
qed

lemma parse_option_show:
  assumes "malloc_law sys" "option_ok o'"
  shows "parse_option sys w (show_option o') v = Some (Some (set_option o' v))"
  using assms(2) by (cases o') (auto simp: parse_option_def strdup_ok [OF assms(1)] strtoll_show_int)

lemma parse_options_show:
  "malloc_law sys \<Longrightarrow> list_all option_ok os \<Longrightarrow> parse_options sys w (map show_option os) v = Some (Some (fold set_option os v))"
  by (induction os arbitrary: v) (auto simp: parse_option_show)

lemma show_option_token: "option_ok o' \<Longrightarrow> is_token (\<lambda>c. isspace c \<or> c = CHR '','') (show_option o')"
proof (cases o')
  case (Length n)
  have "\<not> isspace c \<and> c \<noteq> CHR '',''" if "c \<in> set (show_int n)" for c
    using show_int_chars [OF that] by (auto simp: isdigit_def isspace_def)
  then show ?thesis by (auto simp: Length is_token_def list_all_iff isspace_def)
qed (auto simp: is_token_def plain_def isspace_def list_all_iff)

lemma tokens_weaken: "is_token D t \<Longrightarrow> (\<And>c. E c \<Longrightarrow> D c) \<Longrightarrow> is_token E t"
  by (auto simp: is_token_def list_all_iff)

lemma comma_join_token:
  "ts \<noteq> [] \<Longrightarrow> list_all (is_token (\<lambda>c. isspace c \<or> c = CHR '','')) ts \<Longrightarrow> is_token isspace (comma_join ts)"
proof (induction ts rule: comma_join.induct)
  case (3 t u ts)
  let ?D = "\<lambda>c. isspace c \<or> c = CHR '',''"
  from 3 have "is_token isspace (comma_join (u # ts))" "is_token ?D t" by auto
  moreover have "\<not> isspace CHR '',''" by (simp add: isspace_def)
  ultimately show ?case by (auto simp: is_token_def list_all_iff)
qed (auto simp: is_token_def list_all_iff)

lemma options_tokens:
  assumes "list_all option_ok os"
  shows "list_all (is_token (\<lambda>c. isspace c \<or> c = CHR '','')) (map show_option os)"
  using assms by (auto simp: list_all_iff show_option_token)

lemma comma_options:
  assumes "list_all option_ok os"
  shows "strtoks (\<lambda>c. c = CHR '','') (comma_join (map show_option os)) = map show_option os"
  by (rule strtoks_comma) (use options_tokens [OF assms] in \<open>auto simp: list_all_iff intro: tokens_weaken\<close>)

lemma hd_comma_join: "os \<noteq> [] \<Longrightarrow> hd (comma_join (map show_option os)) \<noteq> CHR ''/''"
proof -
  assume "os \<noteq> []"
  then obtain o' os' where "os = o' # os'" by (cases os) auto
  then show ?thesis by (cases o'; cases os') auto
qed

lemma fstab_fields_entry:
  assumes law: "malloc_law sys" and e: "fstab_entry_ok e"
  shows "\<exists>fs. fstab_fields (fields_line (entry_fields e)) = Some fs \<and> fstab_volume sys w fs = Some (Some (entry_volume e))"
proof -
  let ?opts = "comma_join (map show_option (e_options e))"
  have os: "list_all option_ok (e_options e)" and t: "list_all (is_token isspace) (entry_fields e)"
    using e comma_join_token [OF _ options_tokens, of "e_options e"]
    by (auto simp: fstab_entry_ok_def entry_fields_def split: option.splits)
  have toks: "strtoks fstab_delim (fields_line (entry_fields e)) = entry_fields e"
  proof (rule strtoks_fields)
    show "list_all (is_token fstab_delim) (entry_fields e)"
    proof -
      have "isspace c" if "fstab_delim c" for c using that by (auto simp: fstab_delim_def isspace_def)
      then have "is_token fstab_delim t" if "is_token isspace t" for t using that by (rule tokens_weaken [rotated])
      then show ?thesis using t by (simp add: list_all_iff)
    qed
  qed (simp_all add: fstab_delim_def)
  obtain c cs where c: "e_mount_point e = c # cs" "\<not> isspace c" "c \<noteq> CHR ''#''"
    using e by (cases "e_mount_point e") (auto simp: fstab_entry_ok_def is_token_def)
  have s: "dropWhile isspace (fields_line (entry_fields e)) = fields_line (entry_fields e)" "fields_line (entry_fields e) \<noteq> []"
    "hd (fields_line (entry_fields e)) \<noteq> CHR ''#''"
    using c by (auto simp: fields_line_def entry_fields_def)
  show ?thesis
    using e s toks os comma_options [OF os] hd_comma_join [of "e_options e"] parse_options_show [OF law os]
    by (auto simp: fstab_fields_def fstab_volume_def Let_def entry_fields_def fstab_entry_ok_def strdup_ok [OF law] entry_volume_def
        split: option.splits)
qed

text \<open>\<open>fgets\<close> on a text file of lines that fit the buffer.\<close>

definition fgets_law :: "'w os \<Rightarrow> int \<Rightarrow> ('w \<Rightarrow> string list) \<Rightarrow> bool" where
  "fgets_law sys f rest \<longleftrightarrow> (\<forall>n w. (case rest w of [] \<Rightarrow> fst (os_fgets sys f n w) = None
     | l # ls \<Rightarrow> length l < n \<longrightarrow> fst (os_fgets sys f n w) = Some l \<and> rest (snd (os_fgets sys f n w)) = ls))"

datatype fstab_row = Comment string | Entry fstab_entry

fun row_line :: "fstab_row \<Rightarrow> string" where
  "row_line (Comment s) = CHR ''#'' # s @ [NL]"
| "row_line (Entry e) = fields_line (entry_fields e)"

fun row_ok :: "fstab_row \<Rightarrow> bool" where
  "row_ok (Comment s) \<longleftrightarrow> True"
| "row_ok (Entry e) \<longleftrightarrow> fstab_entry_ok e"

fun row_volumes :: "fstab_row \<Rightarrow> Volume list" where
  "row_volumes (Comment s) = []"
| "row_volumes (Entry e) = [entry_volume e]"

lemma fstab_lines_rows:
  assumes "malloc_law sys" "fgets_law sys f rest"
  shows "rest w = map row_line rs \<Longrightarrow> list_all (\<lambda>r. row_ok r \<and> length (row_line r) < 1023) rs \<Longrightarrow>
    \<exists>w'. fstab_lines sys f alloc vs w = Some (vs @ concat (map row_volumes rs), w')"
proof (induction rs arbitrary: alloc vs w)
  case Nil
  obtain b w' where g: "os_fgets sys f 1023 w = (b, w')" by fastforce
  from assms(2) Nil(1) have "b = None" unfolding fgets_law_def by (metis (mono_tags, lifting) fst_conv g list.map(1) list.simps(4))
  with g show ?case by (simp add: fstab_lines.simps)
next
  case (Cons r rs)
  obtain b w1 where g: "os_fgets sys f 1023 w = (b, w1)" by fastforce
  from assms(2) [unfolded fgets_law_def, rule_format, of 1023 w] Cons.prems g have b: "b = Some (row_line r)" "rest w1 = map row_line rs"
    by auto
  have m: "(os_malloc sys n w1 = None) = False" for n using assms(1) by (simp add: malloc_law_def)
  have "\<exists>alloc'. fstab_lines sys f alloc vs w = fstab_lines sys f alloc' (vs @ row_volumes r) w1"
  proof (cases r)
    case (Comment s)
    then have "fstab_fields (row_line r) = None" by (simp add: fstab_fields_def isspace_def)
    then have "fstab_lines sys f alloc vs w = fstab_lines sys f alloc (vs @ row_volumes r) w1"
      unfolding fstab_lines.simps [of sys f alloc vs w] using g b(1) Comment by simp
    then show ?thesis by blast
  next
    case (Entry e)
    define a where "a = (if int (length vs) < alloc then alloc else 2 * alloc)"
    obtain fs where "fstab_fields (row_line r) = Some fs" "fstab_volume sys w1 fs = Some (Some (entry_volume e))"
      using fstab_fields_entry [OF assms(1), of e w1] Cons.prems(2) Entry by auto
    then have "fstab_lines sys f alloc vs w = fstab_lines sys f a (vs @ row_volumes r) w1"
      unfolding fstab_lines.simps [of sys f alloc vs w] using g b(1) Entry by (simp add: Let_def a_def m)
    then show ?thesis by blast
  qed
  then obtain alloc' where a: "fstab_lines sys f alloc vs w = fstab_lines sys f alloc' (vs @ row_volumes r) w1" by blast
  from Cons.IH [OF b(2), of alloc' "vs @ row_volumes r"] Cons.prems(2) show ?case unfolding a by simp
qed

text \<open>
  C33: \<open>load_volume_table\<close> reads back the table that is written in \<^verbatim>\<open>/etc/recovery.fstab\<close>: the volumes are the
  RAM disk and those of the entries, in order, with the fields and options each entry states; comments
  are skipped.
\<close>

theorem load_volume_table_reads:
  assumes "malloc_law sys" "os_fopen sys ''/etc/recovery.fstab'' False w = (Some f, w1)" "fgets_law sys f rest"
    and "rest w1 = map row_line rs" "list_all (\<lambda>r. row_ok r \<and> length (row_line r) < 1023) rs"
  shows "\<exists>w'. load_volume_table sys w = Some (tmp_volume # concat (map row_volumes rs), w')"
proof -
  from fstab_lines_rows [OF assms(1,3,4,5), of 2 "[tmp_volume]"] obtain w2 where
    "fstab_lines sys f 2 [tmp_volume] w1 = Some (tmp_volume # concat (map row_volumes rs), w2)" by auto
  with assms(1,2) show ?thesis by (simp add: load_volume_table_def malloc_law_def)
qed

definition text_os :: "string list os" where
  "text_os = null_os\<lparr>os_malloc := \<lambda>n w. Some (replicate (nat n) 0), os_fopen := \<lambda>p m w. (Some 4, w),
     os_fgets := \<lambda>f n w. case w of [] \<Rightarrow> (None, []) | l # ls \<Rightarrow> (Some l, ls)\<rparr>"

definition sample_fstab :: "fstab_row list" where
  "sample_fstab = [Comment '' volumes'',
     Entry \<lparr>e_mount_point = ''/data'', e_fs_type = ''ext4'', e_device = ''/dev/d'', e_device2 = Some ''/dev/e'',
            e_options = [Length (- 16), Fstype2 ''vfat'']\<rparr>]"

theorem load_volume_table_reads_witness:
  "\<exists>w'. load_volume_table text_os (map row_line sample_fstab) = Some (tmp_volume # concat (map row_volumes sample_fstab), w')"
proof (rule load_volume_table_reads [where f = 4 and rest = id])
  show "list_all (\<lambda>r. row_ok r \<and> length (row_line r) < 1023) sample_fstab" by code_simp
qed (auto simp: malloc_law_def text_os_def fgets_law_def split: list.splits)

end
