(* ===== verification/Mmc_Utils.thy ===== *)
theory Mmc_Utils
  imports Roots Byte_Codec
begin

text \<open>
  Partitions of an eMMC card: \<^verbatim>\<open>mmcutils/mmcutils.c\<close>. The part table is read from the master boot record
  and the chain of extended boot records; raw partitions are copied to and from files.
\<close>

section \<open>The part table\<close>

record MmcPartition =
  mp_device_index :: "string option"
  mp_filesystem :: "string option"
  mp_name :: "string option"
  mp_dstatus :: int
  mp_dtype :: int
  mp_dfirstsec :: int
  mp_dsize :: int

definition empty_partition :: MmcPartition where
  "empty_partition = \<lparr>mp_device_index = None, mp_filesystem = None, mp_name = None, mp_dstatus = 0, mp_dtype = 0,
     mp_dfirstsec = 0, mp_dsize = 0\<rparr>"

record MmcState =
  mmc_partitions :: "MmcPartition list option"
  mmc_partition_count :: int
  ext3_count :: nat
  vfat_count :: nat

definition g_mmc_state :: MmcState where
  "g_mmc_state = \<lparr>mmc_partitions = None, mmc_partition_count = - 1, ext3_count = 0, vfat_count = 0\<rparr>"

definition ext3_partitions :: "string list" where
  "ext3_partitions = [''system'', ''userdata'', ''cache'', ''NONE'']"

definition vfat_partitions :: "string list" where
  "vfat_partitions = [''modem'', ''NONE'']"

definition MMC_DEVICENAME :: string where "MMC_DEVICENAME = ''/dev/block/mmcblk0''"
definition MAX_PARTITIONS :: nat where "MAX_PARTITIONS = 64"
definition TABLE_ENTRY_0 :: nat where "TABLE_ENTRY_0 = 446"
definition TABLE_ENTRY_1 :: nat where "TABLE_ENTRY_1 = 462"
definition TABLE_SIGNATURE :: nat where "TABLE_SIGNATURE = 510"
definition TABLE_ENTRY_SIZE :: nat where "TABLE_ENTRY_SIZE = 16"
definition OFFSET_STATUS :: nat where "OFFSET_STATUS = 0"
definition OFFSET_TYPE :: nat where "OFFSET_TYPE = 4"
definition OFFSET_FIRST_SEC :: nat where "OFFSET_FIRST_SEC = 8"
definition OFFSET_SIZE :: nat where "OFFSET_SIZE = 12"
definition MMC_BOOT_TYPE :: int where "MMC_BOOT_TYPE = 72"
definition MMC_RECOVERY_TYPE :: int where "MMC_RECOVERY_TYPE = 113"
definition MMC_EXT3_TYPE :: int where "MMC_EXT3_TYPE = 131"
definition MMC_VFAT_TYPE :: int where "MMC_VFAT_TYPE = 12"

text \<open>
  The name and file system by type; the counters are in the pair. An index past the array of names is
  undefined; the entry \<open>NONE\<close> at its end is never passed.
\<close>

definition mmc_partition_name ::
  "'w os \<Rightarrow> 'w \<Rightarrow> MmcPartition \<times> nat \<times> nat \<Rightarrow> int \<Rightarrow> (MmcPartition \<times> nat \<times> nat) option" where
  "mmc_partition_name sys w = (\<lambda>(mbr, ext3, vfat) type.
     if type = MMC_BOOT_TYPE then Some (mbr\<lparr>mp_name := strdup sys w ''boot''\<rparr>, ext3, vfat)
     else if type = MMC_RECOVERY_TYPE then Some (mbr\<lparr>mp_name := strdup sys w ''recovery''\<rparr>, ext3, vfat)
     else if type = MMC_EXT3_TYPE then
       if length ext3_partitions \<le> ext3 then None
       else if ext3_partitions ! ext3 \<noteq> ''NONE'' then
         Some (mbr\<lparr>mp_name := strdup sys w (ext3_partitions ! ext3), mp_filesystem := strdup sys w ''ext3''\<rparr>, ext3 + 1, vfat)
       else Some (mbr\<lparr>mp_filesystem := strdup sys w ''ext3''\<rparr>, ext3, vfat)
     else if type = MMC_VFAT_TYPE then
       if length vfat_partitions \<le> vfat then None
       else if vfat_partitions ! vfat \<noteq> ''NONE'' then
         Some (mbr\<lparr>mp_name := strdup sys w (vfat_partitions ! vfat), mp_filesystem := strdup sys w ''vfat''\<rparr>, ext3, vfat + 1)
       else Some (mbr\<lparr>mp_filesystem := strdup sys w ''vfat''\<rparr>, ext3, vfat)
     else Some (mbr, ext3, vfat))"

text \<open>One byte and one word of a sector.\<close>

definition byte_at :: "byte list \<Rightarrow> nat \<Rightarrow> int" where
  "byte_at buffer i = uint (buffer ! i)"

definition GET_LWORD_FROM_BYTE :: "byte list \<Rightarrow> nat \<Rightarrow> int" where
  "GET_LWORD_FROM_BYTE buffer i =
     byte_at buffer i + byte_at buffer (i + 1) * 2 ^ 8 + byte_at buffer (i + 2) * 2 ^ 16 + byte_at buffer (i + 3) * 2 ^ 24"

definition signed_sector :: "byte list \<Rightarrow> bool" where
  "signed_sector buffer \<longleftrightarrow> buffer ! TABLE_SIGNATURE = 0x55 \<and> buffer ! (TABLE_SIGNATURE + 1) = 0xAA"

text \<open>
  The state of the scan: the array, how many entries are used, the two counters of names. \<open>store_entry\<close>
  stores the entry of the table at \<open>at\<close> of a sector; \<open>current\<close> is added to its first sector. It writes
  outside the array when that is full.
\<close>

record mbr_scan =
  ms_array :: "MmcPartition list"
  ms_count :: nat
  ms_ext3 :: nat
  ms_vfat :: nat

definition store_entry :: "'w os \<Rightarrow> 'w \<Rightarrow> string \<Rightarrow> byte list \<Rightarrow> nat \<Rightarrow> int \<Rightarrow> mbr_scan \<Rightarrow> mbr_scan option" where
  "store_entry sys w device buffer at current m =
     (if length (ms_array m) \<le> ms_count m then None
      else
        let p = (ms_array m ! ms_count m)\<lparr>mp_dstatus := byte_at buffer (at + OFFSET_STATUS), mp_dtype := byte_at buffer (at + OFFSET_TYPE),
              mp_dfirstsec := (GET_LWORD_FROM_BYTE buffer (at + OFFSET_FIRST_SEC) + current) mod 2 ^ 32,
              mp_dsize := GET_LWORD_FROM_BYTE buffer (at + OFFSET_SIZE)\<rparr> in
        Option.bind (mmc_partition_name sys w (p, ms_ext3 m, ms_vfat m) (mp_dtype p)) (\<lambda>(p, ext3, vfat).
        let p = p\<lparr>mp_device_index := strdup sys w (device @ ''p'' @ show_int (int (ms_count m) + 1))\<rparr> in
        Some \<lparr>ms_array = (ms_array m)[ms_count m := p], ms_count = ms_count m + 1, ms_ext3 = ext3, ms_vfat = vfat\<rparr>))"

text \<open>The four entries of the master boot record.\<close>

fun store_primary :: "'w os \<Rightarrow> 'w \<Rightarrow> string \<Rightarrow> byte list \<Rightarrow> nat list \<Rightarrow> mbr_scan \<Rightarrow> mbr_scan option" where
  "store_primary sys w device buffer [] m = Some m"
| "store_primary sys w device buffer (i # is) m =
     Option.bind (store_entry sys w device buffer (TABLE_ENTRY_0 + i * TABLE_ENTRY_SIZE) 0 m) (\<lambda>m.
     if ms_count m = MAX_PARTITIONS then Some m else store_primary sys w device buffer is m)"

text \<open>
  The chain of extended boot records: \<open>Inl\<close> is the error of a read. The offsets are 32-bit unsigned; the
  position is passed as a \<open>long\<close>. The array holds \<open>MAX_PARTITIONS\<close>, so the chain ends even if the records
  form a cycle.
\<close>

function ebr_loop ::
  "'w os \<Rightarrow> int \<Rightarrow> string \<Rightarrow> int \<Rightarrow> int \<Rightarrow> byte list \<Rightarrow> mbr_scan \<Rightarrow> 'w \<Rightarrow> (bool \<times> mbr_scan \<times> 'w) option" where
  "ebr_loop sys fd device EBR_first_sec EBR_current_sec buffer m w =
     (if \<not> signed_sector buffer then Some (True, m, w)
      else case store_entry sys w device buffer TABLE_ENTRY_0 EBR_current_sec m of
        None \<Rightarrow> None
      | Some m \<Rightarrow>
          if ms_count m = MAX_PARTITIONS then Some (True, m, w)
          else
            let dfirstsec = GET_LWORD_FROM_BYTE buffer (TABLE_ENTRY_1 + OFFSET_FIRST_SEC) in
            if dfirstsec = 0 then Some (True, m, w)
            else
              let w = os_fseek sys fd (int32 ((EBR_first_sec + dfirstsec) * 512)) w in
              case os_fread sys fd 512 w of (buffer, w) \<Rightarrow>
                if length buffer \<noteq> 512 then Some (False, m, w)
                else ebr_loop sys fd device EBR_first_sec ((EBR_first_sec + dfirstsec) mod 2 ^ 32) buffer m w)"
  by pat_completeness auto
termination
  by (relation "measure (\<lambda>(sys, fd, device, f, c, buffer, m, w). length (ms_array m) - ms_count m)")
    (auto simp: store_entry_def Let_def bind_eq_Some_conv split: if_splits)

declare ebr_loop.simps [simp del]

definition mmc_read_mbr ::
  "'w os \<Rightarrow> string \<Rightarrow> mbr_scan \<Rightarrow> 'w \<Rightarrow> (int \<times> mbr_scan \<times> 'w) option" where
  "mmc_read_mbr sys device m w =
     (case os_fopen sys device False w of
        (None, w) \<Rightarrow> Some (- 1, m, w)
      | (Some fd, w) \<Rightarrow>
          (case os_fread sys fd 512 w of (buffer, w) \<Rightarrow>
             if length buffer \<noteq> 512 \<or> \<not> signed_sector buffer then Some (- 1, m, snd (os_fclose sys fd w))
             else
               Option.bind (store_primary sys w device buffer [0, 1, 2, 3] m) (\<lambda>m.
               let last = ms_array m ! 3 in
               if mp_dtype last \<noteq> 5 then Some (int (ms_count m), m, snd (os_fclose sys fd w))
               else
                 let w = os_fseek sys fd (int32 (mp_dfirstsec last * 512)) w in
                 case os_fread sys fd 512 w of (buffer, w) \<Rightarrow>
                   if length buffer \<noteq> 512 then Some (- 1, m, snd (os_fclose sys fd w))
                   else
                     Option.bind (ebr_loop sys fd device (mp_dfirstsec last) (mp_dfirstsec last) buffer m w) (\<lambda>(ok, m, w).
                     Some (if ok then int (ms_count m) else - 1, m, snd (os_fclose sys fd w))))))"

definition mmc_scan_partitions :: "'w os \<Rightarrow> MmcState \<Rightarrow> 'w \<Rightarrow> (int \<times> MmcState \<times> 'w) option" where
  "mmc_scan_partitions sys st w =
     (case (case mmc_partitions st of
              Some ps \<Rightarrow> Some ps
            | None \<Rightarrow> if os_malloc sys (int MAX_PARTITIONS * 28) w = None then None else Some (replicate MAX_PARTITIONS empty_partition)) of
        None \<Rightarrow> Some (- 1, st, w)
      | Some ps \<Rightarrow>
          let ps = map (\<lambda>p. p\<lparr>mp_device_index := None, mp_name := None, mp_filesystem := None\<rparr>) ps in
          Option.bind (mmc_read_mbr sys MMC_DEVICENAME \<lparr>ms_array = ps, ms_count = 0, ms_ext3 = 0, ms_vfat = 0\<rparr> w) (\<lambda>(n, m, w).
          Some (n, \<lparr>mmc_partitions = Some (ms_array m), mmc_partition_count = n, ext3_count = ms_ext3 m, vfat_count = ms_vfat m\<rparr>, w)))"

definition mmc_find :: "(MmcPartition \<Rightarrow> string option) \<Rightarrow> MmcState \<Rightarrow> string \<Rightarrow> MmcPartition option" where
  "mmc_find key st x =
     (case mmc_partitions st of
        None \<Rightarrow> None
      | Some ps \<Rightarrow> List.find (\<lambda>p. mp_device_index p \<noteq> None \<and> mp_name p \<noteq> None \<and> key p = Some x) ps)"

definition mmc_find_partition_by_device_index :: "MmcState \<Rightarrow> string \<Rightarrow> MmcPartition option" where
  "mmc_find_partition_by_device_index st dev = mmc_find mp_device_index st dev"

definition mmc_find_partition_by_name :: "MmcState \<Rightarrow> string \<Rightarrow> MmcPartition option" where
  "mmc_find_partition_by_name st name =
     (if take 1 name = ''/'' then mmc_find_partition_by_device_index st name else mmc_find mp_name st name)"

section \<open>File systems\<close>

definition MKE2FS_BIN :: string where "MKE2FS_BIN = ''/sbin/mke2fs''"
definition TUNE2FS_BIN :: string where "TUNE2FS_BIN = ''/sbin/tune2fs''"
definition E2FSCK_BIN :: string where "E2FSCK_BIN = ''/sbin/e2fsck''"

definition run_exec_process :: "'w os \<Rightarrow> string list \<Rightarrow> 'w \<Rightarrow> int \<times> 'w" where
  "run_exec_process sys argv w = (case os_exec sys argv w of (status, w) \<Rightarrow> (if status = Some 0 then 0 else 1, w))"

text \<open>The programs are run in order until one fails.\<close>

fun run_programs :: "'w os \<Rightarrow> string list list \<Rightarrow> 'w \<Rightarrow> int \<times> 'w" where
  "run_programs sys [] w = (0, w)"
| "run_programs sys (p # ps) w =
     (case run_exec_process sys p w of (r, w) \<Rightarrow> if r \<noteq> 0 then (- 1, w) else run_programs sys ps w)"

definition format_ext3_device :: "'w os \<Rightarrow> string \<Rightarrow> 'w \<Rightarrow> int \<times> 'w" where
  "format_ext3_device sys device w = run_programs sys
     [[MKE2FS_BIN, ''-j'', ''-q'', device], [TUNE2FS_BIN, ''-C'', ''1'', device], [E2FSCK_BIN, ''-fy'', device]] w"

definition format_ext2_device :: "'w os \<Rightarrow> string \<Rightarrow> 'w \<Rightarrow> int \<times> 'w" where
  "format_ext2_device sys device w = run_programs sys
     [[MKE2FS_BIN, device], [TUNE2FS_BIN, ''-C'', ''1'', device], [E2FSCK_BIN, ''-fy'', device]] w"

text \<open>A copy of the device name into an array of 128 characters: a longer one is undefined.\<close>

definition device_of :: "MmcPartition \<Rightarrow> string option" where
  "device_of p = (case mp_device_index p of Some d \<Rightarrow> if length d < 128 then Some d else None | None \<Rightarrow> None)"

definition mmc_format_ext3 :: "'w os \<Rightarrow> MmcPartition \<Rightarrow> 'w \<Rightarrow> (int \<times> 'w) option" where
  "mmc_format_ext3 sys p w = map_option (\<lambda>d. format_ext3_device sys d w) (device_of p)"

definition mmc_mount_partition :: "'w os \<Rightarrow> MmcPartition \<Rightarrow> string \<Rightarrow> bool \<Rightarrow> 'w \<Rightarrow> (int \<times> 'w) option" where
  "mmc_mount_partition sys p mount_point read_only w =
     Option.bind (device_of p) (\<lambda>devname.
     case mp_filesystem p of
       None \<Rightarrow> Some (- 1, w)
     | Some filesystem \<Rightarrow>
         (case (if read_only then (- 1, w) else os_mount sys devname mount_point filesystem False w) of (rv, w) \<Rightarrow>
            Some (if read_only \<or> rv < 0 then os_mount sys devname mount_point filesystem True w else (rv, w))))"

section \<open>Raw copies\<close>

text \<open>
  The loop that copies single characters until the end of the file or, when \<open>limit\<close> is given, that many
  of them; the results of \<open>fputc\<close> are not looked at. A limit of zero is never reached: the counter is
  increased before it is compared.
\<close>

partial_function (option) copy_chars :: "'w os \<Rightarrow> int \<Rightarrow> int \<Rightarrow> int option \<Rightarrow> 'w \<Rightarrow> 'w option" where
  "copy_chars sys fin fout limit w =
     (case os_fread sys fin 1 w of (ch, w) \<Rightarrow>
        if ch = [] then Some w
        else
          let w = snd (os_fwrite sys fout ch w) in
          if limit = Some 1 then Some w
          else copy_chars sys fin fout (map_option (\<lambda>n. n - 1) limit) w)"

declare copy_chars.simps [code]

fun copy_blocks :: "'w os \<Rightarrow> nat \<Rightarrow> int \<Rightarrow> int \<Rightarrow> 'w \<Rightarrow> bool \<times> 'w" where
  "copy_blocks sys 0 fin fout w = (True, w)"
| "copy_blocks sys (Suc n) fin fout w =
     (case os_fread sys fin 512 w of (buf, w) \<Rightarrow>
        if length buf \<noteq> 512 then (False, w)
        else case os_fwrite sys fout buf w of (k, w) \<Rightarrow>
          if k \<noteq> 512 then (False, w) else copy_blocks sys n fin fout w)"

text \<open>The size of a file, by seeking to its end and back.\<close>

definition stream_size :: "'w os \<Rightarrow> int \<Rightarrow> 'w \<Rightarrow> int \<times> 'w" where
  "stream_size sys f w =
     (let w = os_fseek_end sys f w in (os_ftell sys f w mod 2 ^ 32, os_fseek sys f 0 w))"

text \<open>
  What \<open>mmc_raw_copy\<close> and \<open>mmc_raw_dump_internal\<close> share: both streams are closed in the end, and the call
  \<open>fsync\<close> gets the stream for a descriptor, which does nothing.
\<close>

definition copy_sized ::
  "'w os \<Rightarrow> int \<Rightarrow> int \<Rightarrow> int \<Rightarrow> int option \<Rightarrow> 'w \<Rightarrow> (int \<times> 'w) option" where
  "copy_sized sys fin fout sz limit w =
     map_option (\<lambda>(ok, w). (if ok then 0 else - 1, snd (os_fclose sys fin (snd (os_fclose sys fout w)))))
       (if sz mod 512 \<noteq> 0 then map_option (\<lambda>w. (True, w)) (copy_chars sys fin fout limit w)
        else Some (copy_blocks sys (nat (sz div 512)) fin fout w))"

definition open_both :: "'w os \<Rightarrow> string \<Rightarrow> string \<Rightarrow> 'w \<Rightarrow> (int \<times> int) option \<times> 'w" where
  "open_both sys in_file out_file w =
     (case os_fopen sys in_file False w of
        (None, w) \<Rightarrow> (None, w)
      | (Some fin, w) \<Rightarrow>
          (case os_fopen sys out_file True w of
             (None, w) \<Rightarrow> (None, snd (os_fclose sys fin w))
           | (Some fout, w) \<Rightarrow> (Some (fin, fout), w)))"

definition mmc_raw_copy :: "'w os \<Rightarrow> MmcPartition \<Rightarrow> string \<Rightarrow> 'w \<Rightarrow> (int \<times> 'w) option" where
  "mmc_raw_copy sys p in_file w =
     Option.bind (mp_device_index p) (\<lambda>out_file.
     case open_both sys in_file out_file w of
       (None, w) \<Rightarrow> Some (- 1, w)
     | (Some (fin, fout), w) \<Rightarrow>
         (case stream_size sys fin w of (sz, w) \<Rightarrow> copy_sized sys fin fout sz None w))"

definition mmc_raw_dump_internal :: "'w os \<Rightarrow> string \<Rightarrow> string \<Rightarrow> int \<Rightarrow> 'w \<Rightarrow> (int \<times> 'w) option" where
  "mmc_raw_dump_internal sys in_file out_file size' w =
     (case open_both sys in_file out_file w of
        (None, w) \<Rightarrow> Some (- 1, w)
      | (Some (fin, fout), w) \<Rightarrow>
          (case (if size' = 0 then stream_size sys fin w else (size', w)) of (sz, w) \<Rightarrow> copy_sized sys fin fout sz (Some sz) w))"

definition mmc_raw_dump :: "'w os \<Rightarrow> MmcPartition \<Rightarrow> string \<Rightarrow> 'w \<Rightarrow> (int \<times> 'w) option" where
  "mmc_raw_dump sys p out_file w = Option.bind (mp_device_index p) (\<lambda>d. mmc_raw_dump_internal sys d out_file 0 w)"

text \<open>
  The data of a part from its start; the number of bytes read is not looked at, so the data are what
  the buffer held where the part is shorter.
\<close>

definition mmc_raw_read :: "'w os \<Rightarrow> MmcPartition \<Rightarrow> byte list \<Rightarrow> 'w \<Rightarrow> (int \<times> byte list \<times> 'w) option" where
  "mmc_raw_read sys p data w =
     Option.bind (mp_device_index p) (\<lambda>in_file.
     case os_fopen sys in_file False w of
       (None, w) \<Rightarrow> Some (- 1, data, w)
     | (Some fin, w) \<Rightarrow>
         (case stream_size sys fin w of (_, w) \<Rightarrow>
          case os_fread sys fin (int (length data)) w of (d, w) \<Rightarrow>
            Some (0, d @ drop (length d) data, snd (os_fclose sys fin w))))"

definition mmc_raw_write :: "'w os \<Rightarrow> MmcPartition \<Rightarrow> byte list \<Rightarrow> 'w \<Rightarrow> (int \<times> 'w) option" where
  "mmc_raw_write sys p data w =
     Option.bind (mp_device_index p) (\<lambda>out_file.
     case os_fopen sys out_file True w of
       (None, w) \<Rightarrow> Some (- 1, w)
     | (Some fout, w) \<Rightarrow> Some (0, snd (os_fclose sys fout (snd (os_fwrite sys fout data w)))))"

section \<open>Commands\<close>

definition mmc_lookup :: "'w os \<Rightarrow> string \<Rightarrow> MmcState \<Rightarrow> 'w \<Rightarrow> (MmcPartition option \<times> MmcState \<times> 'w) option" where
  "mmc_lookup sys name st w =
     Option.bind (mmc_scan_partitions sys st w) (\<lambda>(_, st, w). Some (mmc_find_partition_by_name st name, st, w))"

text \<open>Run \<open>f\<close> on the part of a name, or return \<open>-1\<close>.\<close>

definition on_partition ::
  "'w os \<Rightarrow> string \<Rightarrow> (MmcPartition \<Rightarrow> 'w \<Rightarrow> (int \<times> 'w) option) \<Rightarrow> MmcState \<Rightarrow> 'w \<Rightarrow> (int \<times> MmcState \<times> 'w) option" where
  "on_partition sys name f st w =
     Option.bind (mmc_lookup sys name st w) (\<lambda>(p, st, w).
     case p of None \<Rightarrow> Some (- 1, st, w) | Some p \<Rightarrow> map_option (\<lambda>(r, w). (r, st, w)) (f p w))"

definition cmd_mmc_restore_raw_partition ::
  "'w os \<Rightarrow> string \<Rightarrow> string \<Rightarrow> MmcState \<Rightarrow> 'w \<Rightarrow> (int \<times> MmcState \<times> 'w) option" where
  "cmd_mmc_restore_raw_partition sys part filename st w =
     (if take 1 part \<noteq> ''/'' then on_partition sys part (\<lambda>p. mmc_raw_copy sys p filename) st w
      else map_option (\<lambda>(r, w). (r, st, w)) (mmc_raw_dump_internal sys filename part 0 w))"

definition cmd_mmc_backup_raw_partition ::
  "'w os \<Rightarrow> string \<Rightarrow> string \<Rightarrow> MmcState \<Rightarrow> 'w \<Rightarrow> (int \<times> MmcState \<times> 'w) option" where
  "cmd_mmc_backup_raw_partition sys part filename st w =
     (if take 1 part \<noteq> ''/'' then on_partition sys part (\<lambda>p. mmc_raw_dump sys p filename) st w
      else map_option (\<lambda>(r, w). (r, st, w)) (mmc_raw_dump_internal sys part filename 0 w))"

definition cmd_mmc_erase_raw_partition :: "string \<Rightarrow> int" where
  "cmd_mmc_erase_raw_partition part = 0"

definition cmd_mmc_erase_partition ::
  "'w os \<Rightarrow> string \<Rightarrow> string \<Rightarrow> MmcState \<Rightarrow> 'w \<Rightarrow> (int \<times> MmcState \<times> 'w) option" where
  "cmd_mmc_erase_partition sys part filesystem st w = on_partition sys part (mmc_format_ext3 sys) st w"

definition cmd_mmc_mount_partition ::
  "'w os \<Rightarrow> string \<Rightarrow> string \<Rightarrow> string \<Rightarrow> bool \<Rightarrow> MmcState \<Rightarrow> 'w \<Rightarrow> (int \<times> MmcState \<times> 'w) option" where
  "cmd_mmc_mount_partition sys part mount_point filesystem read_only st w =
     on_partition sys part (\<lambda>p. mmc_mount_partition sys p mount_point read_only) st w"

definition cmd_mmc_get_partition_device ::
  "'w os \<Rightarrow> string \<Rightarrow> MmcState \<Rightarrow> 'w \<Rightarrow> ((int \<times> string option) \<times> MmcState \<times> 'w) option" where
  "cmd_mmc_get_partition_device sys part st w =
     Option.bind (mmc_lookup sys part st w) (\<lambda>(p, st, w).
     case p of None \<Rightarrow> Some ((- 1, None), st, w) | Some p \<Rightarrow> Some ((0, mp_device_index p), st, w))"

section \<open>The scan stays inside its tables\<close>

definition card_device :: "string \<Rightarrow> nat \<Rightarrow> string" where
  "card_device device i = device @ ''p'' @ show_int (int i + 1)"

definition parts_ok :: "string \<Rightarrow> MmcPartition list \<Rightarrow> bool" where
  "parts_ok device ps \<longleftrightarrow> length ps = MAX_PARTITIONS \<and>
     (\<forall>i<MAX_PARTITIONS. mp_device_index (ps ! i) = None \<or> mp_device_index (ps ! i) = Some (card_device device i))"

definition scan_ok :: "string \<Rightarrow> mbr_scan \<Rightarrow> bool" where
  "scan_ok device m \<longleftrightarrow> parts_ok device (ms_array m) \<and> ms_count m \<le> MAX_PARTITIONS \<and> ms_ext3 m < length ext3_partitions \<and>
     ms_vfat m < length vfat_partitions"

definition mmc_state_ok :: "MmcState \<Rightarrow> bool" where
  "mmc_state_ok st \<longleftrightarrow> (case mmc_partitions st of None \<Rightarrow> True | Some ps \<Rightarrow> parts_ok MMC_DEVICENAME ps)"

lemma ext3_next: "i < length ext3_partitions \<Longrightarrow> ext3_partitions ! i \<noteq> ''NONE'' \<Longrightarrow> i + 1 < length ext3_partitions"
  by (auto simp: ext3_partitions_def less_Suc_eq numeral_eq_Suc)

lemma vfat_next: "i < length vfat_partitions \<Longrightarrow> vfat_partitions ! i \<noteq> ''NONE'' \<Longrightarrow> i + 1 < length vfat_partitions"
  by (auto simp: vfat_partitions_def less_Suc_eq)

lemma mmc_partition_name_ok:
  assumes "e < length ext3_partitions" "v < length vfat_partitions"
  shows "\<exists>p' e' v'. mmc_partition_name sys w (p, e, v) t = Some (p', e', v') \<and> e' < length ext3_partitions \<and> v' < length vfat_partitions"
  using assms ext3_next [OF assms(1)] vfat_next [OF assms(2)] by (simp add: mmc_partition_name_def)

lemma store_entry_ok:
  assumes "scan_ok device m" "ms_count m < MAX_PARTITIONS"
  shows "\<exists>m'. store_entry sys w device buffer at cur m = Some m' \<and> scan_ok device m' \<and> ms_count m' = ms_count m + 1"
proof -
  let ?p = "(ms_array m ! ms_count m)\<lparr>mp_dstatus := byte_at buffer (at + OFFSET_STATUS), mp_dtype := byte_at buffer (at + OFFSET_TYPE),
              mp_dfirstsec := (GET_LWORD_FROM_BYTE buffer (at + OFFSET_FIRST_SEC) + cur) mod 2 ^ 32,
              mp_dsize := GET_LWORD_FROM_BYTE buffer (at + OFFSET_SIZE)\<rparr>"
  have "ms_ext3 m < length ext3_partitions" "ms_vfat m < length vfat_partitions" using assms(1) by (simp_all add: scan_ok_def)
  then obtain p' e' v' where n: "mmc_partition_name sys w (?p, ms_ext3 m, ms_vfat m) (mp_dtype ?p) = Some (p', e', v')"
    "e' < length ext3_partitions" "v' < length vfat_partitions"
    using mmc_partition_name_ok [of "ms_ext3 m" "ms_vfat m" sys w ?p "mp_dtype ?p"] by blast
  have "\<not> length (ms_array m) \<le> ms_count m" using assms by (simp add: scan_ok_def parts_ok_def)
  then have "store_entry sys w device buffer at cur m =
    Some \<lparr>ms_array = (ms_array m)[ms_count m := p'\<lparr>mp_device_index := strdup sys w (device @ ''p'' @ show_int (int (ms_count m) + 1))\<rparr>],
      ms_count = ms_count m + 1, ms_ext3 = e', ms_vfat = v'\<rparr>"
    unfolding store_entry_def Let_def n(1) by simp
  then show ?thesis using assms n(2,3) by (simp add: scan_ok_def parts_ok_def nth_list_update card_device_def strdup_def)
qed

lemma store_primary_ok:
  "scan_ok device m \<Longrightarrow> ms_count m + length is \<le> MAX_PARTITIONS \<Longrightarrow>
   \<exists>m'. store_primary sys w device buffer is m = Some m' \<and> scan_ok device m' \<and> ms_count m' = ms_count m + length is"
proof (induction "is" arbitrary: m)
  case (Cons i "is")
  then have "ms_count m < MAX_PARTITIONS" by simp
  with store_entry_ok [OF Cons.prems(1), of sys w buffer "TABLE_ENTRY_0 + i * TABLE_ENTRY_SIZE" 0] obtain m1 where
    "store_entry sys w device buffer (TABLE_ENTRY_0 + i * TABLE_ENTRY_SIZE) 0 m = Some m1" "scan_ok device m1" "ms_count m1 = ms_count m + 1"
    by auto
  with Cons.prems(2) Cons.IH [of m1] show ?case by auto
qed simp

lemma ebr_loop_ok:
  "scan_ok device m \<Longrightarrow> ms_count m < MAX_PARTITIONS \<Longrightarrow>
   \<exists>ok m' w'. ebr_loop sys fd device f c buffer m w = Some (ok, m', w') \<and> scan_ok device m'"
proof (induction sys fd device f c buffer m w rule: ebr_loop.induct)
  case (1 sys fd device f c buffer m w)
  obtain m1 where m1: "store_entry sys w device buffer TABLE_ENTRY_0 c m = Some m1" "scan_ok device m1" "ms_count m1 = ms_count m + 1"
    using store_entry_ok [OF 1(2,3), of sys w buffer TABLE_ENTRY_0 c] by auto
  note loop = ebr_loop.simps [of sys fd device f c buffer m w]
  define d where "d = GET_LWORD_FROM_BYTE buffer (TABLE_ENTRY_1 + OFFSET_FIRST_SEC)"
  define w1 where "w1 = os_fseek sys fd (int32 ((f + d) * 512)) w"
  obtain buffer1 w2 where r: "os_fread sys fd 512 w1 = (buffer1, w2)" by fastforce
  show ?case
  proof (cases "\<not> signed_sector buffer \<or> ms_count m1 = MAX_PARTITIONS \<or> d = 0 \<or> length buffer1 \<noteq> 512")
    case True
    then show ?thesis using m1 1(2) r unfolding loop d_def [symmetric] w1_def [symmetric]
      by (auto simp: d_def [symmetric] w1_def [symmetric] Let_def simp del: distrib_right_numeral)
  next
    case False
    then have "ms_count m1 < MAX_PARTITIONS" using m1(2) by (simp add: scan_ok_def)
    with 1(1) [OF _ m1(1) _ d_def _ w1_def r [symmetric]] False m1(2) obtain ok m' w' where
      "ebr_loop sys fd device f ((f + d) mod 2 ^ 32) buffer1 m1 w2 = Some (ok, m', w')" "scan_ok device m'" by auto
    then show ?thesis using False m1(1) r unfolding loop
      by (simp add: d_def [symmetric] w1_def [symmetric] Let_def del: distrib_right_numeral)
  qed
qed


lemma mmc_read_mbr_ok:
  assumes "scan_ok device m" "ms_count m = 0"
  shows "\<exists>n m' w'. mmc_read_mbr sys device m w = Some (n, m', w') \<and> scan_ok device m' \<and> - 1 \<le> n \<and> n \<le> int (ms_count m')"
proof (cases "os_fopen sys device False w")
  case (Pair fd w1)
  show ?thesis
  proof (cases fd)
    case None
    then show ?thesis using assms Pair by (simp add: mmc_read_mbr_def)
  next
    case (Some fd)
    obtain buffer w2 where r: "os_fread sys fd 512 w1 = (buffer, w2)" by fastforce
    show ?thesis
    proof (cases "length buffer \<noteq> 512 \<or> \<not> signed_sector buffer")
      case True
      then show ?thesis using assms Pair Some r by (auto simp: mmc_read_mbr_def)
    next
      case False
      have "ms_count m + length [0::nat, 1, 2, 3] \<le> MAX_PARTITIONS" using assms(2) by (simp add: MAX_PARTITIONS_def)
      from store_primary_ok [OF assms(1) this, of sys w2 buffer] obtain m1 where
        m1: "store_primary sys w2 device buffer [0, 1, 2, 3] m = Some m1" "scan_ok device m1" "ms_count m1 = 4" unfolding assms(2) by auto
      define last where "last = ms_array m1 ! 3"
      define w3 where "w3 = os_fseek sys fd (int32 (mp_dfirstsec last * 512)) w2"
      obtain buffer1 w4 where r1: "os_fread sys fd 512 w3 = (buffer1, w4)" by fastforce
      have "ms_count m1 < MAX_PARTITIONS" using m1(3) by (simp add: MAX_PARTITIONS_def)
      from ebr_loop_ok [OF m1(2) this, of sys fd "mp_dfirstsec last" "mp_dfirstsec last" buffer1 w4] obtain ok m2 w5 where
        "ebr_loop sys fd device (mp_dfirstsec last) (mp_dfirstsec last) buffer1 m1 w4 = Some (ok, m2, w5)" "scan_ok device m2" by auto
      then show ?thesis using False Pair Some r m1 r1 unfolding mmc_read_mbr_def
        by (auto simp: Let_def last_def [symmetric] w3_def [symmetric] simp del: store_primary.simps)
    qed
  qed
qed


lemma mmc_scan_partitions_ok:
  assumes "mmc_state_ok st"
  shows "\<exists>n st' w'. mmc_scan_partitions sys st w = Some (n, st', w') \<and> mmc_state_ok st' \<and> - 1 \<le> n \<and> n \<le> int MAX_PARTITIONS \<and>
    (n \<noteq> - 1 \<longrightarrow> mmc_partition_count st' = n)"
proof -
  define ps where "ps = (case mmc_partitions st of
      Some ps \<Rightarrow> Some ps
    | None \<Rightarrow> if os_malloc sys (int MAX_PARTITIONS * 28) w = None then None else Some (replicate MAX_PARTITIONS empty_partition))"
  note scan = mmc_scan_partitions_def [of sys st w, folded ps_def]
  show ?thesis
  proof (cases ps)
    case None
    then show ?thesis using assms unfolding scan by simp
  next
    case (Some qs)
    define m where "m = \<lparr>ms_array = map (\<lambda>p. p\<lparr>mp_device_index := None, mp_name := None, mp_filesystem := None\<rparr>) qs,
      ms_count = 0, ms_ext3 = 0, ms_vfat = 0\<rparr>"
    have "length qs = MAX_PARTITIONS"
      using Some assms by (auto simp: ps_def mmc_state_ok_def parts_ok_def split: option.splits if_splits)
    then have "scan_ok MMC_DEVICENAME m" "ms_count m = 0" by (simp_all add: scan_ok_def parts_ok_def m_def ext3_partitions_def vfat_partitions_def)
    from mmc_read_mbr_ok [OF this, of sys w] obtain n m' w' where
      "mmc_read_mbr sys MMC_DEVICENAME m w = Some (n, m', w')" "scan_ok MMC_DEVICENAME m'" "- 1 \<le> n" "n \<le> int (ms_count m')" by auto
    then show ?thesis unfolding scan Some by (auto simp: Let_def m_def [symmetric] mmc_state_ok_def scan_ok_def)
  qed
qed


lemma show_int_small:
  assumes "i < 100"
  shows "length (show_int (int i)) \<le> 2"
proof -
  have "i div 10 < 10" using assms by simp
  then show ?thesis by (simp add: show_int_def show_nat.simps [of i] show_nat.simps [of "i div 10"])
qed

lemma find_card_part:
  assumes "mmc_state_ok st" "mmc_find_partition_by_name st name = Some p"
  shows "\<exists>i<MAX_PARTITIONS. mp_device_index p = Some (card_device MMC_DEVICENAME i)"
proof -
  obtain key where "mmc_find key st (if False then [] else name) = Some p"
    using assms(2) by (auto simp: mmc_find_partition_by_name_def mmc_find_partition_by_device_index_def split: if_splits)
  then obtain ps i where "mmc_partitions st = Some ps" "i < length ps" "p = ps ! i" "mp_device_index p \<noteq> None"
    by (auto simp: mmc_find_def find_Some_iff split: option.splits)
  then show ?thesis using assms(1) by (auto simp: mmc_state_ok_def parts_ok_def)
qed

lemma device_of_card_part:
  assumes "i < MAX_PARTITIONS" "mp_device_index p = Some (card_device MMC_DEVICENAME i)"
  shows "device_of p = Some (card_device MMC_DEVICENAME i)"
proof -
  have "length (show_int (int i + 1)) \<le> 2" using show_int_small [of "i + 1"] assms(1) by (simp add: MAX_PARTITIONS_def add.commute)
  then show ?thesis using assms(2) by (simp add: device_of_def card_device_def MMC_DEVICENAME_def)
qed

text \<open>
  C38: Whatever the card holds, the scan returns with at most 64 entries, and \<open>erase\<close> either does not find
  the part or formats a part of the card.
\<close>

theorem mmc_scan_partitions_total:
  assumes "mmc_state_ok st"
  shows "\<exists>n st' w'. mmc_scan_partitions sys st w = Some (n, st', w') \<and> mmc_state_ok st' \<and> - 1 \<le> n \<and> n \<le> 64 \<and>
    cmd_mmc_erase_partition sys part fs st w =
      (case mmc_find_partition_by_name st' part of
         None \<Rightarrow> Some (- 1, st', w')
       | Some p \<Rightarrow> Some (fst (format_ext3_device sys (the (mp_device_index p)) w'), st', snd (format_ext3_device sys (the (mp_device_index p)) w'))) \<and>
    (\<forall>p. mmc_find_partition_by_name st' part = Some p \<longrightarrow> (\<exists>i<64. mp_device_index p = Some (card_device MMC_DEVICENAME i)))"
proof -
  obtain n st' w' where s: "mmc_scan_partitions sys st w = Some (n, st', w')" "mmc_state_ok st'" "- 1 \<le> n" "n \<le> int MAX_PARTITIONS"
    using mmc_scan_partitions_ok [OF assms, of sys w] by blast
  note found = find_card_part [OF s(2), of part]
  have "cmd_mmc_erase_partition sys part fs st w =
      (case mmc_find_partition_by_name st' part of
         None \<Rightarrow> Some (- 1, st', w')
       | Some p \<Rightarrow> Some (fst (format_ext3_device sys (the (mp_device_index p)) w'), st', snd (format_ext3_device sys (the (mp_device_index p)) w')))"
    using found device_of_card_part s(1)
    by (auto simp: cmd_mmc_erase_partition_def on_partition_def mmc_lookup_def mmc_format_ext3_def split_beta split: option.splits)
  then show ?thesis using s found by (auto simp: MAX_PARTITIONS_def)
qed


definition ring_card :: "unit os" where
  "ring_card = null_os\<lparr>os_malloc := (\<lambda>n w. Some (replicate (nat n) 0)), os_fopen := (\<lambda>p m w. (Some 3, w)),
     os_fread := (\<lambda>fd n w. ((replicate 512 0)[450 := 5, 454 := 1, 466 := 5, 470 := 1, 498 := 5, 502 := 1, 510 := 0x55, 511 := 0xAA], w))\<rparr>"

theorem mmc_scan_partitions_total_witness:
  "mmc_state_ok g_mmc_state \<and> (\<exists>n st' w'. mmc_scan_partitions ring_card g_mmc_state () = Some (n, st', w') \<and> mmc_state_ok st' \<and> n \<le> 64)"
proof -
  have "mmc_state_ok g_mmc_state" by (simp add: mmc_state_ok_def g_mmc_state_def)
  then show ?thesis using mmc_scan_partitions_total [of g_mmc_state ring_card "()" "''boot''" "''ext3''"] by blast
qed

section \<open>The copies are complete\<close>

text \<open>
  \<open>src w\<close> is what is left to read of the input, \<open>out w\<close> what the output holds. The law is that of streams
  on which nothing fails.
\<close>

definition copy_law :: "'w os \<Rightarrow> int \<Rightarrow> int \<Rightarrow> ('w \<Rightarrow> byte list) \<Rightarrow> ('w \<Rightarrow> byte list) \<Rightarrow> bool" where
  "copy_law sys fin fout src out \<longleftrightarrow>
     (\<forall>n w. 0 \<le> n \<longrightarrow> (\<exists>w'. os_fread sys fin n w = (take (nat n) (src w), w') \<and> src w' = drop (nat n) (src w) \<and> out w' = out w)) \<and>
     (\<forall>d w. \<exists>w'. os_fwrite sys fout d w = (int (length d), w') \<and> src w' = src w \<and> out w' = out w @ d) \<and>
     (\<forall>f w. out (snd (os_fclose sys f w)) = out w)"

lemma copy_law_read:
  assumes "copy_law sys fin fout src out" "0 \<le> n"
  obtains w' where "os_fread sys fin n w = (take (nat n) (src w), w')" "src w' = drop (nat n) (src w)" "out w' = out w"
  using assms unfolding copy_law_def by meson

lemma copy_law_write:
  assumes "copy_law sys fin fout src out"
  obtains w' where "os_fwrite sys fout d w = (int (length d), w')" "src w' = src w" "out w' = out w @ d"
  using assms unfolding copy_law_def by meson

lemma copy_chars_all:
  assumes law: "copy_law sys fin fout src out"
  shows "limit = None \<or> limit = Some (int (length (src w))) \<and> src w \<noteq> [] \<Longrightarrow>
    \<exists>w'. copy_chars sys fin fout limit w = Some w' \<and> out w' = out w @ src w"
proof (induction "length (src w)" arbitrary: w limit)
  case 0
  from copy_law_read [OF law, of 1 w] obtain w1 where "os_fread sys fin 1 w = (take (nat 1) (src w), w1)" "out w1 = out w" by auto
  then show ?case using 0 unfolding copy_chars.simps [of sys fin fout limit w] by simp
next
  case (Suc n)
  then obtain c cs where c: "src w = c # cs" "length cs = n" by (cases "src w") auto
  from copy_law_read [OF law, of 1 w] obtain w1 where r: "os_fread sys fin 1 w = (take (nat 1) (src w), w1)" "src w1 = drop (nat 1) (src w)"
    "out w1 = out w" by auto
  from copy_law_write [OF law, of "[c]" w1] obtain w2 where w2: "os_fwrite sys fout [c] w1 = (int (length [c]), w2)" "src w2 = src w1"
    "out w2 = out w1 @ [c]" by auto
  note step = copy_chars.simps [of sys fin fout limit w]
  show ?case
  proof (cases "limit = Some 1")
    case True
    then show ?thesis using Suc.prems c r w2 unfolding step by (simp add: Let_def)
  next
    case False
    have "map_option (\<lambda>n. n - 1) limit = None \<or> map_option (\<lambda>n. n - 1) limit = Some (int (length (src w2))) \<and> src w2 \<noteq> []"
      using Suc.prems False c r(2) w2(2) by auto
    from Suc.hyps(1) [OF _ this] obtain w' where
      "copy_chars sys fin fout (map_option (\<lambda>n. n - 1) limit) w2 = Some w'" "out w' = out w2 @ src w2" using c r(2) w2(2) by auto
    then show ?thesis using False c r w2 unfolding step by (simp add: Let_def)
  qed
qed

lemma copy_blocks_all:
  assumes law: "copy_law sys fin fout src out"
  shows "length (src w) = n * 512 \<Longrightarrow> \<exists>w'. copy_blocks sys n fin fout w = (True, w') \<and> out w' = out w @ src w"
proof (induction n arbitrary: w)
  case (Suc n)
  from copy_law_read [OF law, of 512 w] obtain w1 where r: "os_fread sys fin 512 w = (take (nat 512) (src w), w1)"
    "src w1 = drop (nat 512) (src w)" "out w1 = out w" by auto
  define d where "d = take (nat 512) (src w)"
  have d: "length d = 512" "src w = d @ src w1" using Suc.prems r(2) by (simp_all add: d_def)
  from copy_law_write [OF law, of d w1] obtain w2 where w2: "os_fwrite sys fout d w1 = (int (length d), w2)" "src w2 = src w1"
    "out w2 = out w1 @ d" by auto
  have "length (src w2) = n * 512" using Suc.prems d w2(2) by simp
  from Suc.IH [OF this] obtain w' where "copy_blocks sys n fin fout w2 = (True, w')" "out w' = out w2 @ src w2" by auto
  then show ?case using r(1,3) [folded d_def] d w2 by simp
qed auto

text \<open>
  C39: A copy is complete on both of its paths, by characters and by blocks, and with either limit: the output
  is the input and the result is zero.
\<close>

theorem copy_sized_complete:
  assumes law: "copy_law sys fin fout src out" and sz: "limit = None \<or> limit = Some (int (length (src w)))"
  shows "\<exists>w'. copy_sized sys fin fout (int (length (src w))) limit w = Some (0, w') \<and> out w' = out w @ src w"
proof -
  have close: "out (snd (os_fclose sys fin (snd (os_fclose sys fout w)))) = out w" for w using law by (simp add: copy_law_def)
  show ?thesis
  proof (cases "int (length (src w)) mod 512 = 0")
    case True
    then have "512 dvd length (src w)" by presburger
    then obtain n where n: "length (src w) = n * 512" by (auto simp: dvd_def mult.commute)
    from copy_blocks_all [OF law this] obtain w' where "copy_blocks sys n fin fout w = (True, w')" "out w' = out w @ src w" by auto
    then show ?thesis using True n close by (simp add: copy_sized_def)
  next
    case False
    then have "src w \<noteq> []" by auto
    with sz copy_chars_all [OF law, of limit w] obtain w' where "copy_chars sys fin fout limit w = Some w'" "out w' = out w @ src w" by auto
    then show ?thesis using False close by (simp add: copy_sized_def)
  qed
qed

definition copy_os :: "(byte list \<times> byte list) os" where
  "copy_os = null_os\<lparr>os_fread := (\<lambda>f n (s, d). (take (nat n) s, drop (nat n) s, d)),
     os_fwrite := (\<lambda>f b (s, d). (int (length b), s, d @ b))\<rparr>"

theorem copy_sized_complete_witness:
  "\<exists>w'. copy_sized copy_os 3 4 (int (length (fst ([1, 2, 3], [])))) None ([1, 2, 3], []) = Some (0, w') \<and> snd w' = [1, 2, 3]"
proof -
  have "copy_law copy_os 3 4 fst snd" by (auto simp: copy_law_def copy_os_def null_os_def)
  from copy_sized_complete [OF this, of None "([1, 2, 3], [])"] show ?thesis by simp
qed

end
