(* ===== verification/Mtd_Table.thy ===== *)
theory Mtd_Table
  imports Mtd_Flash C_Strings
begin

text \<open>
  The table of flash partitions: what \<open>mtd_scan_partitions\<close> of \<^verbatim>\<open>mtdutils/mtdutils.c\<close> makes of the text
  the kernel gives under \<^verbatim>\<open>/proc/mtd\<close>.
\<close>

section \<open>Numbers in hexadecimal\<close>

definition hex_char :: "int \<Rightarrow> char" where
  "hex_char d = char_of (nat (if d < 10 then 48 + d else 87 + d))"

fun show_hex :: "nat \<Rightarrow> int \<Rightarrow> string" where
  "show_hex 0 v = []"
| "show_hex (Suc n) v = show_hex n (v div 16) @ [hex_char (v mod 16)]"

lemma digit_of_hex_char: "0 \<le> d \<Longrightarrow> d < 16 \<Longrightarrow> hex_digit (hex_char d) = Some d"
proof -
  assume "0 \<le> d" "d < 16"
  then have "(of_char (hex_char d) :: nat) = nat (if d < 10 then 48 + d else 87 + d)" by (simp add: hex_char_def)
  then have "(of_char (hex_char d) :: int) = (if d < 10 then 48 + d else 87 + d)"
    using \<open>0 \<le> d\<close> unfolding of_nat_of_char [symmetric, where 'a = int] by (simp split: if_splits)
  then show ?thesis using \<open>0 \<le> d\<close> \<open>d < 16\<close> by (auto simp: hex_digit_def Let_def)
qed

lemma length_show_hex [simp]: "length (show_hex n v) = n"
  by (induction n arbitrary: v) auto

lemma show_hex_digits: "c \<in> set (show_hex n v) \<Longrightarrow> hex_digit c \<noteq> None"
  by (induction n arbitrary: v) (auto simp: digit_of_hex_char)

lemma hex_val_show_hex: "0 \<le> v \<Longrightarrow> v < 16 ^ n \<Longrightarrow> hex_val (show_hex n v) = v"
proof (induction n arbitrary: v)
  case (Suc n)
  then have "hex_val (show_hex n (v div 16)) = v div 16" by (auto simp: div_less_iff_less_mult int_div_less_self pos_imp_zdiv_nonneg_iff)
  then show ?case by (simp add: hex_val_def digit_of_hex_char)
qed (simp add: hex_val_def)

lemma hex_digit_plain: "hex_digit c \<noteq> None \<Longrightarrow> \<not> isspace c \<and> c \<notin> {CHR ''-'', CHR ''+'', CHR ''x'', CHR ''X''}"
  unfolding hex_digit_def Let_def of_nat_of_char [symmetric, where 'a = int]
  by (auto simp: isspace_def split: if_splits)

lemma length_8: "length xs = 8 \<Longrightarrow> (\<And>a b c cs. xs = a # b # c # cs \<Longrightarrow> thesis) \<Longrightarrow> thesis"
  by (cases xs; cases "tl xs"; cases "tl (tl xs)") auto

lemma scan_x_show_hex:
  assumes "0 \<le> v" "v < 2 ^ 32" "hex_digit d = None"
  shows "scan_x (CHR '' '' # show_hex 8 v @ d # r) = Some (int32 v, d # r)"
proof -
  obtain a b c cs where h: "show_hex 8 v = a # b # c # cs" using length_show_hex [of 8 v]
    by (rule length_8)
  have dig: "\<forall>x \<in> set (show_hex 8 v). hex_digit x \<noteq> None" using show_hex_digits by blast
  then have a: "\<not> isspace a" "a \<noteq> CHR ''-''" "a \<noteq> CHR ''+''" "b \<noteq> CHR ''x''" "b \<noteq> CHR ''X''"
    using hex_digit_plain [of a] hex_digit_plain [of b] by (auto simp: h)
  let ?s = "show_hex 8 v @ d # r"
  have "strtol_sign (dropWhile isspace (CHR '' '' # ?s)) = (False, ?s)"
  proof -
    have "isspace CHR '' ''" by (simp add: isspace_def)
    with a show ?thesis by (simp add: h strtol_sign_def)
  qed
  moreover have "strip_0x ?s = ?s" using a by (simp add: h strip_0x_def)
  moreover have "takeWhile (\<lambda>c. hex_digit c \<noteq> None) ?s = show_hex 8 v" "dropWhile (\<lambda>c. hex_digit c \<noteq> None) ?s = d # r"
    using dig assms(3) by (auto simp: takeWhile_append2 dropWhile_append2)
  moreover have "hex_val (show_hex 8 v) = v" "show_hex 8 v \<noteq> []" using hex_val_show_hex [of v 8] assms(1,2) by (auto simp: h)
  ultimately show ?thesis using assms(2) unfolding scan_x_def by (simp add: Let_def)
qed

lemma scan_d_show_int:
  assumes "0 \<le> n" "n \<le> LONG_MAX" "\<not> isdigit d"
  shows "scan_d (show_int n @ d # r) = Some (n, d # r)"
proof -
  define m where "m = nat n"
  have s: "show_int n = show_nat m" using assms(1) by (simp add: show_int_def m_def)
  obtain c cs where h: "show_nat m = c # cs" using show_nat_nonempty by (cases "show_nat m") auto
  have dig: "\<forall>x \<in> set (show_nat m). isdigit x" by (rule show_nat_digits)
  then have c: "\<not> isspace c" "c \<noteq> CHR ''-''" "c \<noteq> CHR ''+''" using h isdigit_not_sign_space by auto
  have "strtol_sign (dropWhile isspace (show_nat m @ d # r)) = (False, show_nat m @ d # r)" using c by (simp add: h strtol_sign_def)
  moreover have "takeWhile isdigit (show_nat m @ d # r) = show_nat m" "dropWhile isdigit (show_nat m @ d # r) = d # r"
    using dig assms(3) by (auto simp: takeWhile_append2 dropWhile_append2)
  moreover have "dec_val (show_nat m) = n" using assms(1) by (simp add: dec_val_show_nat m_def)
  ultimately have "strtol (show_int n @ d # r) = (n, d # r)"
    using assms(1,2) show_nat_nonempty by (simp add: s strtol_def Let_def LONG_MIN_def)
  then show ?thesis using show_nat_nonempty by (simp add: scan_d_def s)
qed

section \<open>The text of the table\<close>

text \<open>A partition by number, size, erase size and name.\<close>

type_synonym mtd_entry = "int \<times> int \<times> int \<times> string"

definition mtd_line :: "mtd_entry \<Rightarrow> string" where
  "mtd_line = (\<lambda>(n, size, es, name).
     ''mtd'' @ show_int n @ '': '' @ show_hex 8 size @ '' '' @ show_hex 8 es @ '' '' @ CHR 0x22 # name @ [CHR 0x22, NL])"

definition mtd_header :: string where
  "mtd_header = ''dev:    size   erasesize  name'' @ [NL]"

definition mtd_text :: "mtd_entry list \<Rightarrow> string" where
  "mtd_text es = mtd_header @ concat (map mtd_line es)"

definition mtd_entry_ok :: "mtd_entry \<Rightarrow> bool" where
  "mtd_entry_ok = (\<lambda>(n, size, es, name). 0 \<le> n \<and> n < int NUMP \<and> 0 \<le> size \<and> size < 2 ^ 32 \<and> 0 \<le> es \<and> es < 2 ^ 32 \<and>
     name \<noteq> [] \<and> length name \<le> 63 \<and> list_all (\<lambda>c. c \<noteq> CHR 0x22 \<and> c \<noteq> NL) name)"

definition mtd_part :: "mtd_entry \<Rightarrow> MtdPartition" where
  "mtd_part = (\<lambda>(n, size, es, name). \<lparr>device_index = n, part_size = size, erase_size = es, part_name = Some name\<rparr>)"

lemma scan_set_name:
  assumes "name \<noteq> []" "length name \<le> 63" "list_all (\<lambda>c. c \<noteq> q) name"
  shows "scan_set 63 (\<lambda>c. c \<noteq> q) (name @ q # r) = Some (name, q # r)"
proof -
  have "takeWhile (\<lambda>c. c \<noteq> q) (name @ q # r) = name" using assms(3) by (subst takeWhile_append2) (auto simp: list_all_iff)
  then show ?thesis using assms(1,2) by (simp add: scan_set_def)
qed

lemma scan_partition_line:
  assumes "mtd_entry_ok (n, sz, es, name)"
  shows "scan_partition (mtd_line (n, sz, es, name) @ r) = Some (n, int32 sz, int32 es, name)"
proof -
  have h: "hex_digit CHR '' '' = None" by (simp add: hex_digit_def)
  have n: "0 \<le> n" "n \<le> LONG_MAX" "\<not> isdigit CHR '':''" using assms by (auto simp: mtd_entry_ok_def NUMP_def LONG_MAX_def isdigit_def)
  have nm: "name \<noteq> []" "length name \<le> 63" "list_all (\<lambda>c. c \<noteq> CHR 0x22) name" "0 \<le> sz" "sz < 2 ^ 32" "0 \<le> es" "es < 2 ^ 32"
    using assms by (auto simp: mtd_entry_ok_def list_all_iff)
  note scan_d_show_int [OF n] scan_x_show_hex [OF nm(4,5) h] scan_x_show_hex [OF nm(6,7) h] scan_set_name [OF nm(1-3)]
  then show ?thesis by (simp add: scan_partition_def mtd_line_def isspace_def del: show_hex.simps)
qed


lemma next_line_append: "NL \<notin> set l \<Longrightarrow> next_line (l @ NL # r) = r"
  unfolding next_line_def by (subst dropWhile_append2) auto

lemma next_line_mtd: "mtd_entry_ok e \<Longrightarrow> next_line (mtd_line e @ r) = r"
proof -
  assume e: "mtd_entry_ok e"
  obtain n sz es name where e': "e = (n, sz, es, name)" by (cases e)
  let ?l = "''mtd'' @ show_int n @ '': '' @ show_hex 8 sz @ '' '' @ show_hex 8 es @ '' '' @ CHR 0x22 # name @ [CHR 0x22]"
  have "NL \<notin> set (show_int n)" using e show_nat_digits [of "nat n"] by (auto simp: show_int_def e' mtd_entry_ok_def isdigit_def)
  moreover have "NL \<notin> set (show_hex 8 v)" for v using show_hex_digits [of NL 8 v] by (auto simp: hex_digit_def)
  moreover have "NL \<notin> set name" using e by (auto simp: e' mtd_entry_ok_def list_all_iff)
  ultimately have "NL \<notin> set ?l" by (simp del: show_hex.simps)
  then have "next_line (?l @ NL # r) = r" by (rule next_line_append)
  moreover have "mtd_line e @ r = ?l @ NL # r" by (simp add: mtd_line_def e')
  ultimately show ?thesis by simp
qed

text \<open>The table the loop builds: one slot per number.\<close>

definition put_part :: "mtd_entry \<Rightarrow> MtdPartition list \<Rightarrow> MtdPartition list" where
  "put_part e ps = ps[nat (fst e) := mtd_part e]"

lemma length_fold_put [simp]: "length (fold put_part es ps) = length ps"
  by (induction es arbitrary: ps) (auto simp: put_part_def)

lemma int32_mod: "0 \<le> v \<Longrightarrow> v < 2 ^ 32 \<Longrightarrow> int32 v mod 2 ^ 32 = v"
  using take_bit_signed_take_bit [of 32 31 v] by (simp add: int32_def take_bit_eq_mod)

lemma part_eq:
  "p\<lparr>device_index := n, part_size := s, erase_size := e, part_name := x\<rparr> = \<lparr>device_index = n, part_size = s, erase_size = e, part_name = x\<rparr>"
  by (cases p) simp

lemma scan_lines_entries:
  assumes law: "malloc_law sys"
  shows "list_all mtd_entry_ok es \<Longrightarrow> length ps = NUMP \<Longrightarrow>
    scan_lines sys w (concat (map mtd_line es)) (ps, k) = Some (Inr (fold put_part es ps, k + int (length es)))"
proof (induction es arbitrary: ps k)
  case Nil
  then show ?case by (simp add: scan_lines.simps)
next
  case (Cons e es)
  obtain n sz er name where e: "e = (n, sz, er, name)" by (cases e)
  let ?r = "concat (map mtd_line es)"
  have ok: "mtd_entry_ok (n, sz, er, name)" using Cons.prems e by simp
  then have v: "int32 sz mod 2 ^ 32 = sz" "int32 er mod 2 ^ 32 = er" "0 \<le> n" "n < int NUMP"
    using int32_mod by (auto simp: mtd_entry_ok_def)
  have s: "scan_line sys w (mtd_line e @ ?r) (ps, k) = Some (Inr (put_part e ps, k + 1))"
    using scan_partition_line [OF ok, of ?r] v Cons.prems(2) law
    by (simp add: scan_line_def e put_part_def mtd_part_def malloc_law_def Let_def part_eq)
  have ne: "mtd_line e @ ?r \<noteq> []" by (simp add: mtd_line_def e)
  have "scan_lines sys w (mtd_line e @ ?r) (ps, k) = scan_lines sys w ?r (put_part e ps, k + 1)"
    unfolding scan_lines.simps [of sys w "mtd_line e @ ?r"] using ne s next_line_mtd [of e ?r] ok by (simp only: e if_False option.case sum.case)
  also have "\<dots> = Some (Inr (fold put_part es (put_part e ps), k + 1 + int (length es)))"
    using Cons.prems by (intro Cons.IH) (auto simp: put_part_def)
  finally show ?case by simp
qed

lemma scan_lines_text:
  assumes "malloc_law sys" "list_all mtd_entry_ok es" "length ps = NUMP"
  shows "scan_lines sys w (mtd_text es) (ps, 0) = Some (Inr (fold put_part es ps, int (length es)))"
proof -
  have "scan_line sys w (mtd_text es) (ps, 0) = Some (Inr (ps, 0))"
    by (simp add: scan_line_def scan_partition_def mtd_text_def mtd_header_def)
  moreover have "next_line (mtd_text es) = concat (map mtd_line es)"
    unfolding mtd_text_def mtd_header_def by (simp add: next_line_def)
  moreover have "mtd_text es \<noteq> []" by (simp add: mtd_text_def mtd_header_def)
  ultimately have "scan_lines sys w (mtd_text es) (ps, 0) = scan_lines sys w (concat (map mtd_line es)) (ps, 0)"
    unfolding scan_lines.simps [of sys w "mtd_text es"] by simp
  then show ?thesis using scan_lines_entries [OF assms, of w 0] by simp
qed

section \<open>Looking up a partition\<close>

definition mtd_table_ok :: "mtd_entry list \<Rightarrow> bool" where
  "mtd_table_ok es \<longleftrightarrow> list_all mtd_entry_ok es \<and> distinct (map fst es) \<and> distinct (map (snd \<circ> snd \<circ> snd) es) \<and> length (mtd_text es) \<le> 2047"

lemma fold_put_part_other: "i \<notin> nat ` fst ` set es \<Longrightarrow> fold put_part es ps ! i = ps ! i"
  by (induction es arbitrary: ps) (auto simp: put_part_def)

lemma fold_put_part_at:
  "e \<in> set es \<Longrightarrow> distinct (map fst es) \<Longrightarrow> list_all mtd_entry_ok es \<Longrightarrow> length ps = NUMP \<Longrightarrow>
   fold put_part es ps ! nat (fst e) = mtd_part e"
proof (induction es arbitrary: ps)
  case (Cons x es)
  have ok: "0 \<le> fst e'" "fst e' < int NUMP" if "e' \<in> set (x # es)" for e'
    using Cons.prems(3) that by (cases e'; auto simp: list_all_iff mtd_entry_ok_def)+
  show ?case
  proof (cases "e = x")
    case True
    have "nat (fst e) \<notin> nat ` fst ` set es"
    proof
      assume "nat (fst e) \<in> nat ` fst ` set es"
      then obtain e' where "e' \<in> set es" "nat (fst e) = nat (fst e')" by auto
      with ok [of e] ok [of e'] Cons.prems(1) have "fst e = fst e'" by (simp add: eq_nat_nat_iff)
      with Cons.prems(2) True \<open>e' \<in> set es\<close> show False by (auto simp: image_iff)
    qed
    then have "fold put_part (x # es) ps ! nat (fst e) = put_part x ps ! nat (fst e)" by (simp add: fold_put_part_other)
    also have "\<dots> = mtd_part e" using True ok [of e] Cons.prems by (simp add: put_part_def)
    finally show ?thesis .
  qed (use Cons in \<open>auto simp: put_part_def\<close>)
qed simp

lemma find_unique:
  assumes "x \<in> set xs" "P x" "\<And>y. y \<in> set xs \<Longrightarrow> P y \<Longrightarrow> y = x"
  shows "List.find P xs = Some x"
proof (cases "List.find P xs")
  case None
  then show ?thesis using assms(1,2) by (auto simp: find_None_iff)
next
  case (Some y)
  then have "y \<in> set xs" "P y" by (auto simp: find_Some_iff)
  then show ?thesis using Some assms(3) by blast
qed

lemma find_in_table:
  assumes "mtd_table_ok es" "(n, sz, er, name) \<in> set es" "length ps = NUMP" "\<forall>p \<in> set ps. device_index p < 0"
  shows "List.find (\<lambda>p. device_index p \<ge> 0 \<and> part_name p = Some name) (fold put_part es ps) = Some (mtd_part (n, sz, er, name))"
proof (rule find_unique)
  note ok = assms(1) [unfolded mtd_table_ok_def]
  have at: "fold put_part es ps ! nat (fst e) = mtd_part e" if "e \<in> set es" for e
    using fold_put_part_at [OF that] ok assms(3) by blast
  have "mtd_entry_ok (n, sz, er, name)" using ok assms(2) by (auto simp: list_all_iff)
  then have "nat n < length (fold put_part es ps)" "0 \<le> n" using assms(3) by (auto simp: mtd_entry_ok_def)
  then show "mtd_part (n, sz, er, name) \<in> set (fold put_part es ps)"
    using at [OF assms(2)] by (metis fst_conv nth_mem)
  show "0 \<le> device_index (mtd_part (n, sz, er, name)) \<and> part_name (mtd_part (n, sz, er, name)) = Some name"
    using \<open>0 \<le> n\<close> by (simp add: mtd_part_def)
  fix p assume p: "p \<in> set (fold put_part es ps)" "0 \<le> device_index p \<and> part_name p = Some name"
  then obtain i where i: "i < NUMP" "p = fold put_part es ps ! i" by (auto simp: in_set_conv_nth assms(3))
  show "p = mtd_part (n, sz, er, name)"
  proof (cases "i \<in> nat ` fst ` set es")
    case True
    then obtain e where e: "e \<in> set es" "p = mtd_part e" using at i(2) by auto
    with p(2) have "(snd \<circ> snd \<circ> snd) e = (snd \<circ> snd \<circ> snd) (n, sz, er, name)" by (cases e) (simp add: mtd_part_def)
    with ok e(1) assms(2) have "e = (n, sz, er, name)" by (metis distinct_map inj_on_def)
    with e(2) show ?thesis by simp
  next
    case False
    then have "p = ps ! i" using i fold_put_part_other by metis
    with p(2) i(1) assms(3,4) show ?thesis by (metis linorder_not_less nth_mem)
  qed
qed

text \<open>
  The kernel gives the text of the table in one read; what the program does to read it changes nothing of
  the view \<open>view\<close> of the machine.
\<close>

definition proc_mtd_law :: "'w os \<Rightarrow> mtd_entry list \<Rightarrow> ('w \<Rightarrow> 'v) \<Rightarrow> bool" where
  "proc_mtd_law sys es view \<longleftrightarrow> mtd_table_ok es \<and> (\<forall>w. \<exists>fd w1 w2. os_open sys ''/proc/mtd'' O_RDONLY w = (fd, w1) \<and> 0 \<le> fd \<and>
     os_read sys fd 2047 w1 = (int (length (mtd_text es)), bytes_of (mtd_text es), w2) \<and> view (snd (os_close sys fd w2)) = view w)"

definition mtd_state_ok :: "MtdState \<Rightarrow> bool" where
  "mtd_state_ok st \<longleftrightarrow> (case partitions st of None \<Rightarrow> True | Some ps \<Rightarrow> length ps = NUMP)"

lemma g_mtd_state_ok [simp]: "mtd_state_ok g_mtd_state"
  by (simp add: mtd_state_ok_def g_mtd_state_def)

lemma mtd_scan_partitions_run:
  assumes laws: "malloc_law sys" "proc_mtd_law sys es view" and st: "mtd_state_ok st"
  obtains st' w' where "mtd_scan_partitions sys st w = Some (int (length es), st', w')" "mtd_state_ok st'" "view w' = view w"
    "\<And>n sz er name. (n, sz, er, name) \<in> set es \<Longrightarrow> mtd_find_partition_by_name st' name = Some (mtd_part (n, sz, er, name))"
proof -
  from laws(2) obtain fd w1 w2 where es: "mtd_table_ok es" and o: "os_open sys ''/proc/mtd'' O_RDONLY w = (fd, w1)" "0 \<le> fd"
     "os_read sys fd 2047 w1 = (int (length (mtd_text es)), bytes_of (mtd_text es), w2)" "view (snd (os_close sys fd w2)) = view w"
    unfolding proc_mtd_law_def by meson
  define w3 where "w3 = snd (os_close sys fd w2)"
  define ps0 where "ps0 = (case partitions st of Some ps \<Rightarrow> ps
    | None \<Rightarrow> replicate NUMP \<lparr>device_index = 0, part_size = 0, erase_size = 0, part_name = None\<rparr>)"
  define ps where "ps = map (\<lambda>p. p\<lparr>part_name := None, device_index := - 1\<rparr>) ps0"
  have len: "length ps = NUMP" "\<forall>p \<in> set ps. device_index p < 0"
    using st by (auto simp: ps_def ps0_def mtd_state_ok_def split: option.splits)
  let ?ps = "fold put_part es ps"
  have "scan_lines sys w3 (mtd_text es) (ps, 0) = Some (Inr (?ps, int (length es)))"
    using es scan_lines_text [OF laws(1) _ len(1)] by (simp add: mtd_table_ok_def)
  moreover have "map (\<lambda>b. char_of (unat b)) (bytes_of (mtd_text es)) = mtd_text es"
    using text_bytes [of "mtd_text es"] by (simp add: text_of_def)
  ultimately have "mtd_scan_partitions sys st w = Some (int (length es), \<lparr>partitions = Some ?ps, partition_count = int (length es)\<rparr>, w3)"
    using o laws(1) unfolding mtd_scan_partitions_def ps_def ps0_def w3_def
    by (cases "partitions st") (simp_all add: malloc_law_def split_beta Let_def)
  moreover have "mtd_find_partition_by_name \<lparr>partitions = Some ?ps, partition_count = int (length es)\<rparr> name = Some (mtd_part (n, sz, er, name))"
    if "(n, sz, er, name) \<in> set es" for n sz er name
    using find_in_table [OF es that len] by (simp add: mtd_find_partition_by_name_def)
  ultimately show thesis using that o(4) len by (simp add: mtd_state_ok_def w3_def)
qed

end
