(* ===== verification/Bootloader.thy ===== *)
theory Bootloader
  imports Roots Mtd_Table Byte_Codec
begin

text \<open>
  The messages between recovery and the bootloader: \<^verbatim>\<open>bootloader.c\<close>. A message is stored in the second page
  of the partition of the volume \<^verbatim>\<open>/misc\<close> on raw flash, or at the beginning of its block device; a firmware
  update is stored in the partition \<^verbatim>\<open>cache\<close>, its header last.
\<close>

section \<open>The message\<close>

text \<open>The three fields are character arrays; \<open>message_ok\<close> states their sizes.\<close>

record bootloader_message =
  bm_command :: string
  bm_status :: string
  bm_recovery :: string

definition message_ok :: "bootloader_message \<Rightarrow> bool" where
  "message_ok m \<longleftrightarrow> length (bm_command m) = 32 \<and> length (bm_status m) = 32 \<and> length (bm_recovery m) = 1024"

definition message_size :: int where "message_size = 1088"

definition message_bytes :: "bootloader_message \<Rightarrow> byte list" where
  "message_bytes m = bytes_of (bm_command m @ bm_status m @ bm_recovery m)"

definition message_of :: "byte list \<Rightarrow> bootloader_message" where
  "message_of bs =
     (let s = text_of bs in \<lparr>bm_command = take 32 s, bm_status = take 32 (drop 32 s), bm_recovery = take 1024 (drop 64 s)\<rparr>)"

section \<open>Raw flash\<close>

definition MISC_PAGES :: int where "MISC_PAGES = 3"
definition MISC_COMMAND_PAGE :: int where "MISC_COMMAND_PAGE = 1"

text \<open>
  The part that reading and setting a message have in common: the pages of the partition. \<open>Some (None, s)\<close>
  is the return of \<open>-1\<close>; an array of no positive size is undefined.
\<close>

definition read_misc_pages ::
  "'w os \<Rightarrow> Volume \<Rightarrow> 'w recovery \<Rightarrow> ((MtdPartition \<times> int \<times> byte list) option \<times> 'w recovery) option" where
  "read_misc_pages sys v s =
     Option.bind (mtd_scan_partitions sys (mtd s) (machine s)) (\<lambda>(_, st, w).
     let s = s\<lparr>mtd := st, machine := w\<rparr> in
     Option.bind (v_device v) (\<lambda>device.
     case mtd_find_partition_by_name st device of
       None \<Rightarrow> Some (None, s)
     | Some part \<Rightarrow>
         (case mtd_partition_info sys part w of
            (None, w) \<Rightarrow> Some (None, s\<lparr>machine := w\<rparr>)
          | (Some info, w) \<Rightarrow>
              (case mtd_read_partition sys part w of
                 (None, w) \<Rightarrow> Some (None, s\<lparr>machine := w\<rparr>)
               | (Some ctx, w) \<Rightarrow>
                   let write_size = info_writesize info; size = int32 (write_size * MISC_PAGES) in
                   if size \<le> 0 then None
                   else Option.bind (mtd_read_data sys ctx size w) (\<lambda>(r, data, ctx, w).
                        let s = s\<lparr>machine := mtd_read_close sys ctx w\<rparr> in
                        if r \<noteq> size then Some (None, s) else Some (Some (part, write_size, data), s))))))"

text \<open>The copy of the message reads past the array when a page is smaller than half a message.\<close>

definition get_bootloader_message_mtd ::
  "'w os \<Rightarrow> Volume \<Rightarrow> 'w recovery \<Rightarrow> (bootloader_message option \<times> 'w recovery) option" where
  "get_bootloader_message_mtd sys v s =
     Option.bind (read_misc_pages sys v s) (\<lambda>(r, s).
     case r of
       None \<Rightarrow> Some (None, s)
     | Some (part, write_size, data) \<Rightarrow>
         let at = write_size * MISC_COMMAND_PAGE in
         if int (length data) < at + message_size then None
         else Some (Some (message_of (slice (nat at) (nat message_size) data)), s))"

definition set_bootloader_message_mtd ::
  "'w os \<Rightarrow> bootloader_message \<Rightarrow> Volume \<Rightarrow> 'w recovery \<Rightarrow> (int \<times> 'w recovery) option" where
  "set_bootloader_message_mtd sys m v s =
     Option.bind (read_misc_pages sys v s) (\<lambda>(r, s).
     case r of
       None \<Rightarrow> Some (- 1, s)
     | Some (part, write_size, data) \<Rightarrow>
         let at = write_size * MISC_COMMAND_PAGE in
         if int (length data) < at + message_size then None
         else
           let data = put_buffer data at (message_bytes m) in
           case mtd_write_partition sys part (machine s) of
             (None, w) \<Rightarrow> Some (- 1, s\<lparr>machine := w\<rparr>)
           | (Some ctx, w) \<Rightarrow>
               Option.bind (mtd_write_data sys ctx data w) (\<lambda>(n, ctx, w).
               Option.bind (mtd_write_close sys ctx w) (\<lambda>(c, w).
               Some (if n \<noteq> int (length data) \<or> c \<noteq> 0 then - 1 else 0, s\<lparr>machine := w\<rparr>))))"

section \<open>Block devices\<close>

text \<open>At most ten tries, a second apart.\<close>

fun stat_tries :: "nat \<Rightarrow> 'w os \<Rightarrow> string \<Rightarrow> 'w \<Rightarrow> 'w" where
  "stat_tries 0 sys fn w = w"
| "stat_tries (Suc n) sys fn w = (if os_stat sys fn w = None then stat_tries n sys fn (os_sleep sys w) else w)"

definition wait_for_device :: "'w os \<Rightarrow> string \<Rightarrow> 'w \<Rightarrow> 'w" where
  "wait_for_device sys fn w = stat_tries 10 sys fn w"

definition get_bootloader_message_block ::
  "'w os \<Rightarrow> Volume \<Rightarrow> 'w \<Rightarrow> (bootloader_message option \<times> 'w) option" where
  "get_bootloader_message_block sys v w =
     Option.bind (v_device v) (\<lambda>device.
     case os_fopen sys device False (wait_for_device sys device w) of
       (None, w) \<Rightarrow> Some (None, w)
     | (Some f, w) \<Rightarrow>
         (case os_fread sys f message_size w of (temp, w) \<Rightarrow>
            if int (length temp) \<noteq> message_size then Some (None, w)
            else case os_fclose sys f w of (c, w) \<Rightarrow> Some (if c \<noteq> 0 then None else Some (message_of temp), w)))"

definition set_bootloader_message_block ::
  "'w os \<Rightarrow> bootloader_message \<Rightarrow> Volume \<Rightarrow> 'w \<Rightarrow> (int \<times> 'w) option" where
  "set_bootloader_message_block sys m v w =
     Option.bind (v_device v) (\<lambda>device.
     case os_fopen sys device True (wait_for_device sys device w) of
       (None, w) \<Rightarrow> Some (- 1, w)
     | (Some f, w) \<Rightarrow>
         (case os_fwrite sys f (message_bytes m) w of (n, w) \<Rightarrow>
            if n \<noteq> message_size then Some (- 1, w)
            else case os_fclose sys f w of (c, w) \<Rightarrow> Some (if c \<noteq> 0 then - 1 else 0, w)))"

section \<open>By the type of the volume\<close>

definition get_bootloader_message ::
  "'w os \<Rightarrow> 'w recovery \<Rightarrow> (bootloader_message option \<times> 'w recovery) option" where
  "get_bootloader_message sys s =
     (case volume_for_path (device_volumes s) ''/misc'' of
        None \<Rightarrow> Some (None, s)
      | Some v \<Rightarrow>
          if v_fs_type v = ''mtd'' then get_bootloader_message_mtd sys v s
          else if v_fs_type v = ''emmc'' then
            map_option (\<lambda>(m, w). (m, s\<lparr>machine := w\<rparr>)) (get_bootloader_message_block sys v (machine s))
          else Some (None, s))"

definition set_bootloader_message ::
  "'w os \<Rightarrow> bootloader_message \<Rightarrow> 'w recovery \<Rightarrow> (int \<times> 'w recovery) option" where
  "set_bootloader_message sys m s =
     (case volume_for_path (device_volumes s) ''/misc'' of
        None \<Rightarrow> Some (- 1, s)
      | Some v \<Rightarrow>
          if v_fs_type v = ''mtd'' then set_bootloader_message_mtd sys m v s
          else if v_fs_type v = ''emmc'' then
            map_option (\<lambda>(r, w). (r, s\<lparr>machine := w\<rparr>)) (set_bootloader_message_block sys m v (machine s))
          else Some (- 1, s))"

section \<open>Firmware updates\<close>

record update_header =
  uh_MAGIC :: "byte list"
  uh_version :: int
  uh_size :: int
  uh_image_offset :: int
  uh_image_length :: int
  uh_bitmap_width :: int
  uh_bitmap_height :: int
  uh_bitmap_bpp :: int
  uh_busy_bitmap_offset :: int
  uh_busy_bitmap_length :: int
  uh_fail_bitmap_offset :: int
  uh_fail_bitmap_length :: int

definition UPDATE_MAGIC :: string where "UPDATE_MAGIC = ''MSM-RADIO-UPDATE''"
definition UPDATE_VERSION :: int where "UPDATE_VERSION = 65536"
definition header_size :: int where "header_size = 60"

definition zero_header :: update_header where
  "zero_header = \<lparr>uh_MAGIC = replicate 16 0, uh_version = 0, uh_size = 0, uh_image_offset = 0, uh_image_length = 0,
     uh_bitmap_width = 0, uh_bitmap_height = 0, uh_bitmap_bpp = 0, uh_busy_bitmap_offset = 0, uh_busy_bitmap_length = 0,
     uh_fail_bitmap_offset = 0, uh_fail_bitmap_length = 0\<rparr>"

text \<open>The object in memory: the eleven \<open>unsigned\<close> members are little-endian on this machine.\<close>

definition header_bytes :: "update_header \<Rightarrow> byte list" where
  "header_bytes h = uh_MAGIC h @ concat (map (\<lambda>v. bytes4LE (word_of_int v))
     [uh_version h, uh_size h, uh_image_offset h, uh_image_length h, uh_bitmap_width h, uh_bitmap_height h, uh_bitmap_bpp h,
      uh_busy_bitmap_offset h, uh_busy_bitmap_length h, uh_fail_bitmap_offset h, uh_fail_bitmap_length h])"

text \<open>
  One section: its data, which on a short write is an error after closing (\<open>Inl\<close>), and the block
  boundary after it.
\<close>

definition write_section ::
  "'w os \<Rightarrow> byte list \<Rightarrow> MtdWriteContext \<Rightarrow> 'w \<Rightarrow> ('w + MtdWriteContext \<times> 'w) option" where
  "write_section sys data ctx w =
     Option.bind (mtd_write_data sys ctx data w) (\<lambda>(n, ctx, w).
     if n \<noteq> int (length data) then Option.bind (mtd_write_close sys ctx w) (\<lambda>(_, w). Some (Inl w))
     else Some (Inr (ctx, w)))"

text \<open>\<open>(bitmap_bpp + 7) / 8\<close>, rounded towards zero.\<close>

definition bytes_per_pixel :: "int \<Rightarrow> int" where
  "bytes_per_pixel bpp = (if 0 \<le> bpp + 7 then (bpp + 7) div 8 else - ((- (bpp + 7)) div 8))"

text \<open>
  The bitmap that is passed, \<open>len\<close> bytes of it: a null pointer and a shorter bitmap are read past their
  ends, and a length that is not an \<open>int\<close> or is negative is no length.
\<close>

definition bitmap_data :: "byte list option \<Rightarrow> int \<Rightarrow> byte list option" where
  "bitmap_data bitmap len =
     (if len < 0 \<or> LONG_MAX < len then None
      else case bitmap of
        None \<Rightarrow> if len = 0 then Some [] else None
      | Some b \<Rightarrow> if len \<le> int (length b) then Some (take (nat len) b) else None)"

text \<open>
  The sections: the zero header, the image and the two bitmaps, each starting on a block; the header that
  describes them, with where they start. The tests of the offsets against \<open>-1\<close> come before the offsets
  are stored and never hold.
\<close>

definition write_sections ::
  "'w os \<Rightarrow> byte list \<Rightarrow> int \<Rightarrow> int \<Rightarrow> int \<Rightarrow> byte list option \<Rightarrow> byte list option \<Rightarrow> MtdWriteContext \<Rightarrow> 'w \<Rightarrow>
     ('w + update_header \<times> int \<times> MtdWriteContext \<times> 'w) option" where
  "write_sections sys update bitmap_width bitmap_height bitmap_bpp busy_bitmap fail_bitmap ctx w =
     Option.bind (write_section sys (header_bytes zero_header) ctx w) (case_sum (\<lambda>w. Some (Inl w)) (\<lambda>(ctx, w).
     let header = zero_header\<lparr>uh_MAGIC := bytes_of UPDATE_MAGIC, uh_version := UPDATE_VERSION, uh_size := header_size\<rparr> in
     Option.bind (mtd_erase_blocks sys ctx 0 w) (\<lambda>(image_start_pos, ctx, w).
     let header = header\<lparr>uh_image_length := int (length update)\<rparr> in
     Option.bind (write_section sys update ctx w) (case_sum (\<lambda>w. Some (Inl w)) (\<lambda>(ctx, w).
     Option.bind (mtd_erase_blocks sys ctx 0 w) (\<lambda>(busy_start_pos, ctx, w).
     let bitmap_length = bytes_per_pixel bitmap_bpp * bitmap_width * bitmap_height;
         header = header\<lparr>uh_image_offset := mtd_find_write_start ctx image_start_pos, uh_bitmap_width := bitmap_width,
           uh_bitmap_height := bitmap_height, uh_bitmap_bpp := bitmap_bpp,
           uh_busy_bitmap_length := (if busy_bitmap \<noteq> None then bitmap_length else 0)\<rparr> in
     Option.bind (bitmap_data busy_bitmap bitmap_length) (\<lambda>busy.
     Option.bind (write_section sys busy ctx w) (case_sum (\<lambda>w. Some (Inl w)) (\<lambda>(ctx, w).
     Option.bind (mtd_erase_blocks sys ctx 0 w) (\<lambda>(fail_start_pos, ctx, w).
     let header = header\<lparr>uh_busy_bitmap_offset := mtd_find_write_start ctx busy_start_pos,
           uh_fail_bitmap_length := (if fail_bitmap \<noteq> None then bitmap_length else 0)\<rparr> in
     Option.bind (bitmap_data fail_bitmap bitmap_length) (\<lambda>fail.
     Option.bind (write_section sys fail ctx w) (case_sum (\<lambda>w. Some (Inl w)) (\<lambda>(ctx, w).
     Option.bind (mtd_erase_blocks sys ctx 0 w) (\<lambda>(_, ctx, w).
     Some (Inr (header\<lparr>uh_fail_bitmap_offset := mtd_find_write_start ctx fail_start_pos\<rparr>, image_start_pos, ctx, w))))))))))))))))"

text \<open>The header is written again, after everything it refers to.\<close>

definition rewrite_header ::
  "'w os \<Rightarrow> MtdPartition \<Rightarrow> update_header \<Rightarrow> int \<Rightarrow> 'w \<Rightarrow> (int \<times> 'w) option" where
  "rewrite_header sys part header image_start_pos w =
     (case mtd_write_partition sys part w of
        (None, w) \<Rightarrow> Some (- 1, w)
      | (Some ctx, w) \<Rightarrow>
          Option.bind (write_section sys (header_bytes header) ctx w) (case_sum (\<lambda>w. Some (- 1, w)) (\<lambda>(ctx, w).
          Option.bind (mtd_erase_blocks sys ctx 0 w) (\<lambda>(pos, ctx, w).
          Option.bind (mtd_write_close sys ctx w) (\<lambda>(c, w).
          Some (if pos \<noteq> image_start_pos \<or> c \<noteq> 0 then - 1 else 0, w))))))"

definition write_update_for_bootloader ::
  "'w os \<Rightarrow> byte list \<Rightarrow> int \<Rightarrow> int \<Rightarrow> int \<Rightarrow> byte list option \<Rightarrow> byte list option \<Rightarrow> 'w recovery \<Rightarrow>
     (int \<times> 'w recovery) option" where
  "write_update_for_bootloader sys update bitmap_width bitmap_height bitmap_bpp busy_bitmap fail_bitmap s =
     Option.bind (ensure_path_unmounted sys ''/cache'' s) (\<lambda>(r, s).
     if r \<noteq> 0 then Some (- 1, s)
     else case mtd_find_partition_by_name (mtd s) ''cache'' of
       None \<Rightarrow> Some (- 1, s)
     | Some part \<Rightarrow>
         (case mtd_write_partition sys part (machine s) of
            (None, w) \<Rightarrow> Some (- 1, s\<lparr>machine := w\<rparr>)
          | (Some ctx, w) \<Rightarrow>
              Option.bind (write_sections sys update bitmap_width bitmap_height bitmap_bpp busy_bitmap fail_bitmap ctx w)
                (case_sum (\<lambda>w. Some (- 1, s\<lparr>machine := w\<rparr>)) (\<lambda>(header, image_start_pos, ctx, w).
              Option.bind (mtd_write_close sys ctx w) (\<lambda>(c, w).
              if c \<noteq> 0 then Some (- 1, s\<lparr>machine := w\<rparr>)
              else map_option (\<lambda>(r, w). (r, s\<lparr>machine := w\<rparr>)) (rewrite_header sys part header image_start_pos w))))))"


section \<open>The message as the bootloader sees it\<close>

lemma message_bytes_length: "message_ok m \<Longrightarrow> int (length (message_bytes m)) = message_size"
  by (simp add: message_ok_def message_bytes_def message_size_def)

lemma message_of_bytes: "message_ok m \<Longrightarrow> message_of (message_bytes m) = m"
  by (simp add: message_ok_def message_of_def message_bytes_def Let_def)

lemma message_of_ok: "int (length bs) = message_size \<Longrightarrow> message_ok (message_of bs)"
  by (simp add: message_ok_def message_of_def message_size_def Let_def)

text \<open>
  The store of the message: the flash partition with the table it is listed in and the size of its pages,
  or a block device with what it holds.
\<close>

record 'w misc_flash =
  mf_part :: MtdPartition
  mf_good :: "nat \<Rightarrow> bool"
  mf_pos :: "int \<Rightarrow> 'w \<Rightarrow> int"
  mf_blk :: "'w \<Rightarrow> nat \<Rightarrow> byte list"
  mf_page :: int
  mf_table :: "mtd_entry list"

datatype 'w misc = Misc_Flash "'w misc_flash" | Misc_Block string "'w \<Rightarrow> byte list"

definition page_law :: "'w os \<Rightarrow> MtdPartition \<Rightarrow> int \<Rightarrow> bool" where
  "page_law sys part page \<longleftrightarrow> (\<forall>w. case os_open sys (dev_name part) O_RDONLY w of (fd, w') \<Rightarrow>
     map_option info_writesize (os_meminfo sys fd w') = Some page)"

definition misc_flash_law :: "'w os \<Rightarrow> 'w misc_flash \<Rightarrow> bool" where
  "misc_flash_law sys f \<longleftrightarrow> flash_device sys (mf_part f) (mf_good f) (mf_pos f) (mf_blk f) \<and>
     proc_mtd_law sys (mf_table f) (mf_blk f) \<and> mf_part f \<in> mtd_part ` set (mf_table f) \<and> page_law sys (mf_part f) (mf_page f) \<and>
     message_size \<le> 2 * mf_page f \<and> 3 * mf_page f \<le> LONG_MAX \<and> 3 * mf_page f \<le> good_bytes (mf_part f) (mf_good f)"

text \<open>
  A block device holds at least a message; opening does not truncate it, a write after opening replaces its
  beginning, a read after opening returns it; waiting changes nothing.
\<close>

definition disk_law :: "'w os \<Rightarrow> string \<Rightarrow> ('w \<Rightarrow> byte list) \<Rightarrow> bool" where
  "disk_law sys dev content \<longleftrightarrow>
     (\<forall>w. message_size \<le> int (length (content w)) \<and> content (os_sleep sys w) = content w) \<and>
     (\<forall>w. \<exists>f w1 w2 w3. os_fopen sys dev False w = (Some f, w1) \<and> os_fread sys f message_size w1 = (take (nat message_size) (content w), w2) \<and>
        os_fclose sys f w2 = (0, w3) \<and> content w3 = content w) \<and>
     (\<forall>w d. int (length d) = message_size \<longrightarrow> (\<exists>f w1 w2 w3. os_fopen sys dev True w = (Some f, w1) \<and>
        os_fwrite sys f d w1 = (message_size, w2) \<and> os_fclose sys f w2 = (0, w3) \<and> content w3 = d @ drop (length d) (content w)))"

fun misc_law :: "'w os \<Rightarrow> 'w misc \<Rightarrow> bool" where
  "misc_law sys (Misc_Flash f) = misc_flash_law sys f"
| "misc_law sys (Misc_Block dev content) = disk_law sys dev content"

fun misc_volume :: "'w misc \<Rightarrow> Volume \<Rightarrow> bool" where
  "misc_volume (Misc_Flash f) v \<longleftrightarrow> v_fs_type v = ''mtd'' \<and> v_device v = part_name (mf_part f)"
| "misc_volume (Misc_Block dev content) v \<longleftrightarrow> v_fs_type v = ''emmc'' \<and> v_device v = Some dev"

definition misc_usable :: "'w os \<times> 'w misc \<Rightarrow> 'w recovery \<Rightarrow> bool" where
  "misc_usable = (\<lambda>(sys, D) s. misc_law sys D \<and> mtd_state_ok (mtd s) \<and>
     (\<exists>v. volume_for_path (device_volumes s) ''/misc'' = Some v \<and> misc_volume D v))"

fun misc_bytes :: "'w misc \<Rightarrow> 'w \<Rightarrow> byte list" where
  "misc_bytes (Misc_Flash f) w = slice (nat (mf_page f)) (nat message_size) (contents (mf_part f) (mf_good f) (mf_blk f) w)"
| "misc_bytes (Misc_Block dev content) w = take (nat message_size) (content w)"

definition misc_message :: "'w os \<times> 'w misc \<Rightarrow> 'w recovery \<Rightarrow> bootloader_message" where
  "misc_message = (\<lambda>(sys, D) s. message_of (misc_bytes D (machine s)))"

text \<open>The pages of the partition.\<close>

lemma mtd_partition_info_page:
  assumes dev: "flash_device sys part good pos blk" and page: "page_law sys part page"
  obtains i w' where "mtd_partition_info sys part w = (Some i, w')" "info_writesize i = page" "blk w' = blk w"
proof -
  obtain fd w1 where o: "os_open sys (dev_name part) O_RDONLY w = (fd, w1)" by fastforce
  note d = flash_deviceD [OF dev o]
  from page [unfolded page_law_def, THEN spec [of _ w]] obtain i where i: "os_meminfo sys fd w1 = Some i" "info_writesize i = page"
    by (auto simp: o)
  have "blk (snd (os_close sys fd w1)) = blk w" using nand_closeD [OF d(4), of w1] d(3) by simp
  moreover have "mtd_partition_info sys part w = (Some i, snd (os_close sys fd w1))"
    using o d(1) i(1) by (simp add: mtd_partition_info_def split_beta)
  ultimately show thesis using that i(2) by blast
qed

lemma read_misc_pages_run:
  assumes law: "misc_flash_law sys f" and st: "mtd_state_ok (mtd s)" and v: "v_device v = part_name (mf_part f)"
  obtains s' where "read_misc_pages sys v s = Some (Some (mf_part f, mf_page f,
      take (nat (3 * mf_page f)) (contents (mf_part f) (mf_good f) (mf_blk f) (machine s))), s')"
    "mf_blk f (machine s') = mf_blk f (machine s)" "mtd_state_ok (mtd s')" "device_volumes s' = device_volumes s"
proof -
  note l = law [unfolded misc_flash_law_def]
  have dev: "flash_device sys (mf_part f) (mf_good f) (mf_pos f) (mf_blk f)" and page: "page_law sys (mf_part f) (mf_page f)"
    and proc: "proc_mtd_law sys (mf_table f) (mf_blk f)" and pg: "message_size \<le> 2 * mf_page f" "3 * mf_page f \<le> LONG_MAX"
      "3 * mf_page f \<le> good_bytes (mf_part f) (mf_good f)"
    using l by blast+
  obtain n sz er name where e: "(n, sz, er, name) \<in> set (mf_table f)" "mf_part f = mtd_part (n, sz, er, name)" using l by auto
  obtain st' w1 where sc: "mtd_scan_partitions sys (mtd s) (machine s) = Some (int (length (mf_table f)), st', w1)"
    "mtd_state_ok st'" "mf_blk f w1 = mf_blk f (machine s)" "mtd_find_partition_by_name st' name = Some (mf_part f)"
    using mtd_scan_partitions_run [OF device_ok(1) [OF dev] proc st, of "machine s"] e by metis
  have name: "v_device v = Some name" using v e(2) by (simp add: mtd_part_def)
  obtain i w2 where i: "mtd_partition_info sys (mf_part f) w1 = (Some i, w2)" "info_writesize i = mf_page f" "mf_blk f w2 = mf_blk f w1"
    by (rule mtd_partition_info_page [OF dev page])
  have c: "contents (mf_part f) (mf_good f) (mf_blk f) w2 = contents (mf_part f) (mf_good f) (mf_blk f) (machine s)"
    using i(3) sc(3) by (intro contents_cong) simp
  have p0: "0 < 3 * mf_page f" using pg(1) by (simp add: message_size_def)
  have p1: "3 * mf_page f \<le> int (length (contents (mf_part f) (mf_good f) (mf_blk f) w2))"
    using pg(3) length_contents [OF dev] by simp
  obtain ctx w3 ctx1 w4 where r: "mtd_read_partition sys (mf_part f) w2 = (Some ctx, w3)"
    "mtd_read_data sys ctx (3 * mf_page f) w3 = Some (3 * mf_page f, take (nat (3 * mf_page f)) (contents (mf_part f) (mf_good f) (mf_blk f) w2), ctx1, w4)"
    "mf_blk f (mtd_read_close sys ctx1 w4) = mf_blk f w2"
    by (rule read_contents [OF dev less_imp_le [OF p0] pg(2) p1])
  have i32: "int32 (mf_page f * MISC_PAGES) = 3 * mf_page f"
    using p0 pg(2) int32_id [of "3 * mf_page f"] by (simp add: MISC_PAGES_def LONG_MIN_def mult.commute)
  define s' where "s' = s\<lparr>mtd := st', machine := mtd_read_close sys ctx1 w4\<rparr>"
  have "read_misc_pages sys v s = Some (Some (mf_part f, mf_page f,
      take (nat (3 * mf_page f)) (contents (mf_part f) (mf_good f) (mf_blk f) (machine s))), s')"
    using sc(1,4) name i(1) r(1,2) p0 i(2) i32 c by (simp add: read_misc_pages_def Let_def s'_def)
  moreover have "mf_blk f (machine s') = mf_blk f (machine s)" using r(3) i(3) sc(3) by (simp add: s'_def)
  ultimately show thesis using sc(2) that by (simp add: s'_def)
qed

lemma slice_take: "k + n \<le> m \<Longrightarrow> slice k n (take m xs) = slice k n xs"
  by (simp add: slice_def drop_take min_def)

lemma get_message_flash:
  assumes law: "misc_flash_law sys f" and st: "mtd_state_ok (mtd s)" and v: "v_device v = part_name (mf_part f)"
  shows "\<exists>s'. get_bootloader_message_mtd sys v s = Some (Some (message_of (misc_bytes (Misc_Flash f) (machine s))), s') \<and>
    mf_blk f (machine s') = mf_blk f (machine s) \<and> mtd_state_ok (mtd s') \<and> device_volumes s' = device_volumes s"
proof -
  let ?c = "contents (mf_part f) (mf_good f) (mf_blk f) (machine s)"
  obtain s' where r: "read_misc_pages sys v s = Some (Some (mf_part f, mf_page f, take (nat (3 * mf_page f)) ?c), s')"
    "mf_blk f (machine s') = mf_blk f (machine s)" "mtd_state_ok (mtd s')" "device_volumes s' = device_volumes s"
    by (rule read_misc_pages_run [OF assms])
  have pg: "message_size \<le> 2 * mf_page f" "3 * mf_page f \<le> int (length ?c)"
    using law length_contents [of sys "mf_part f"] by (auto simp: misc_flash_law_def)
  then have "slice (nat (mf_page f)) (nat message_size) (take (nat (3 * mf_page f)) ?c) = slice (nat (mf_page f)) (nat message_size) ?c"
    by (intro slice_take) (simp add: message_size_def)
  then show ?thesis using r pg by (simp add: get_bootloader_message_mtd_def MISC_COMMAND_PAGE_def Let_def)
qed

lemma set_message_flash:
  assumes law: "misc_flash_law sys f" and st: "mtd_state_ok (mtd s)" and v: "v_device v = part_name (mf_part f)" and m: "message_ok m"
  shows "\<exists>s'. set_bootloader_message_mtd sys m v s = Some (0, s') \<and> misc_bytes (Misc_Flash f) (machine s') = message_bytes m \<and>
    mtd_state_ok (mtd s') \<and> device_volumes s' = device_volumes s"
proof -
  let ?c = "contents (mf_part f) (mf_good f) (mf_blk f) (machine s)"
  obtain s1 where r: "read_misc_pages sys v s = Some (Some (mf_part f, mf_page f, take (nat (3 * mf_page f)) ?c), s1)"
    "mf_blk f (machine s1) = mf_blk f (machine s)" "mtd_state_ok (mtd s1)" "device_volumes s1 = device_volumes s"
    by (rule read_misc_pages_run [OF law st v])
  have dev: "flash_device sys (mf_part f) (mf_good f) (mf_pos f) (mf_blk f)" and pg: "message_size \<le> 2 * mf_page f"
    "3 * mf_page f \<le> int (length ?c)" "3 * mf_page f \<le> LONG_MAX" "3 * mf_page f \<le> good_bytes (mf_part f) (mf_good f)"
    using law length_contents [of sys "mf_part f"] by (auto simp: misc_flash_law_def)
  define d where "d = put_buffer (take (nat (3 * mf_page f)) ?c) (mf_page f) (message_bytes m)"
  have ml: "length (message_bytes m) = nat message_size" using message_bytes_length [OF m] by simp
  have dl: "int (length d) = 3 * mf_page f"
    using pg ml by (auto simp: d_def put_buffer_def message_size_def min_def)
  have ds: "slice (nat (mf_page f)) (nat message_size) (d @ r) = message_bytes m" for r
  proof -
    have "nat (mf_page f) < length ?c" "nat (mf_page f) \<le> nat (3 * mf_page f)" using pg by (simp_all add: message_size_def)
    then show ?thesis using ml by (simp add: d_def put_buffer_def slice_def min_absorb1 min_absorb2)
  qed
  have fits: "int (length (concat [d])) \<le> good_bytes (mf_part f) (mf_good f)" "int (length (concat [d])) \<le> LONG_MAX"
    using dl pg by simp_all
  obtain ctx w1 ctx1 w2 w3 r' where wr: "mtd_write_partition sys (mf_part f) (machine s1) = (Some ctx, w1)"
    "write_pieces sys ctx [d] w1 = Some (ctx1, w2)" "mtd_write_close sys ctx1 w2 = Some (0, w3)"
    "contents (mf_part f) (mf_good f) (mf_blk f) w3 = concat [d] @ r'"
    by (rule write_close_contents [OF dev fits])
  from wr(2) have "mtd_write_data sys ctx d w1 = Some (int (length d), ctx1, w2)"
    by (auto split: bind_splits if_splits)
  then have "set_bootloader_message_mtd sys m v s = Some (0, s1\<lparr>machine := w3\<rparr>)"
    using r(1) wr(1,3) pg by (simp add: set_bootloader_message_mtd_def MISC_COMMAND_PAGE_def Let_def d_def [symmetric])
  moreover have "misc_bytes (Misc_Flash f) w3 = message_bytes m" using wr(4) ds by simp
  ultimately show ?thesis using r(3,4) by simp
qed

lemma wait_for_device_keeps: "disk_law sys dev content \<Longrightarrow> content (wait_for_device sys fn w) = content w"
proof -
  assume law: "disk_law sys dev content"
  have "content (stat_tries n sys fn w) = content w" for n
    by (induction n arbitrary: w) (use law in \<open>auto simp: disk_law_def\<close>)
  then show ?thesis by (simp add: wait_for_device_def)
qed

lemma get_message_block:
  assumes law: "disk_law sys dev content" and v: "v_device v = Some dev"
  shows "\<exists>w'. get_bootloader_message_block sys v w = Some (Some (message_of (take (nat message_size) (content w))), w') \<and> content w' = content w"
proof -
  let ?w = "wait_for_device sys dev w"
  from law [unfolded disk_law_def, THEN conjunct2, THEN conjunct1, THEN spec [of _ ?w]] obtain f w1 w2 w3 where
    "os_fopen sys dev False ?w = (Some f, w1)" "os_fread sys f message_size w1 = (take (nat message_size) (content ?w), w2)"
    "os_fclose sys f w2 = (0, w3)" "content w3 = content ?w" by blast
  moreover have "content ?w = content w" using wait_for_device_keeps [OF law] .
  moreover have "message_size \<le> int (length (content w))" using law by (simp add: disk_law_def)
  ultimately show ?thesis using v by (simp add: get_bootloader_message_block_def message_size_def min_def)
qed

lemma set_message_block:
  assumes law: "disk_law sys dev content" and v: "v_device v = Some dev" and m: "message_ok m"
  shows "\<exists>w'. set_bootloader_message_block sys m v w = Some (0, w') \<and> take (nat message_size) (content w') = message_bytes m"
proof -
  let ?w = "wait_for_device sys dev w"
  have ml: "int (length (message_bytes m)) = message_size" by (rule message_bytes_length [OF m])
  from law [unfolded disk_law_def, THEN conjunct2, THEN conjunct2, THEN spec [of _ ?w], THEN spec [of _ "message_bytes m"]] ml
  obtain f w1 w2 w3 where "os_fopen sys dev True ?w = (Some f, w1)" "os_fwrite sys f (message_bytes m) w1 = (message_size, w2)"
    "os_fclose sys f w2 = (0, w3)" "content w3 = message_bytes m @ drop (length (message_bytes m)) (content ?w)" by blast
  then show ?thesis using v ml [symmetric] by (simp add: set_bootloader_message_block_def)
qed

section \<open>A store of messages\<close>

text \<open>
  What the recovery program relies on: a usable store keeps the last message that was set, and reading it
  does not change it.
\<close>

locale message_store =
  fixes get_msg :: "'e \<Rightarrow> 's \<Rightarrow> (bootloader_message option \<times> 's) option"
    and set_msg :: "'e \<Rightarrow> bootloader_message \<Rightarrow> 's \<Rightarrow> (int \<times> 's) option"
    and usable :: "'e \<Rightarrow> 's \<Rightarrow> bool"
    and stored :: "'e \<Rightarrow> 's \<Rightarrow> bootloader_message"
  assumes get_stored: "usable e s \<Longrightarrow> \<exists>s'. get_msg e s = Some (Some (stored e s), s') \<and> usable e s' \<and> stored e s' = stored e s"
    and set_stored: "usable e s \<Longrightarrow> message_ok m \<Longrightarrow> \<exists>s'. set_msg e m s = Some (0, s') \<and> usable e s' \<and> stored e s' = m"
    and stored_ok: "usable e s \<Longrightarrow> message_ok (stored e s)"
begin

lemma set_get:
  assumes "usable e s" "message_ok m"
  shows "\<exists>s1 s2. set_msg e m s = Some (0, s1) \<and> get_msg e s1 = Some (Some m, s2) \<and> usable e s2 \<and> stored e s2 = m"
  using set_stored [OF assms] get_stored by fastforce

text \<open>Setting twice is setting once.\<close>

lemma set_set:
  assumes "usable e s" "message_ok m" "message_ok m'" "set_msg e m s = Some (r, s1)" "set_msg e m' s1 = Some (r', s2)"
  shows "stored e s2 = m'"
  using set_stored [OF assms(1,2)] set_stored [of e s1, OF _ assms(3)] assms(4,5) by auto

end

lemma misc_message_ok:
  assumes "misc_usable e s"
  shows "message_ok (misc_message e s)"
proof -
  obtain sys D where e: "e = (sys, D)" by (cases e)
  have law: "misc_law sys D" using assms by (simp add: misc_usable_def e)
  have "int (length (misc_bytes D (machine s))) = message_size"
  proof (cases D)
    case (Misc_Flash f)
    have c: "int (length (contents (mf_part f) (mf_good f) (mf_blk f) (machine s))) = good_bytes (mf_part f) (mf_good f)"
      using law Misc_Flash by (intro length_contents [of sys _ _ "mf_pos f"]) (simp add: misc_flash_law_def)
    then show ?thesis using law Misc_Flash by (auto simp: misc_flash_law_def slice_def message_size_def)
  next
    case (Misc_Block dev content)
    then show ?thesis using law by (auto simp: disk_law_def message_size_def)
  qed
  then show ?thesis by (simp add: misc_message_def e message_of_ok)
qed

interpretation misc_store: message_store "\<lambda>e. get_bootloader_message (fst e)" "\<lambda>e. set_bootloader_message (fst e)" misc_usable misc_message
proof (unfold_locales, goal_cases)
  case (1 e s)
  obtain sys D where e: "e = (sys, D)" by (cases e)
  from 1 obtain v where v: "volume_for_path (device_volumes s) ''/misc'' = Some v" "misc_volume D v" "misc_law sys D" "mtd_state_ok (mtd s)"
    by (auto simp: misc_usable_def e)
  show ?case
  proof (cases D)
    case (Misc_Flash f)
    with v get_message_flash [of sys f s v] obtain s' where
      "get_bootloader_message_mtd sys v s = Some (Some (message_of (misc_bytes D (machine s))), s')"
      "mf_blk f (machine s') = mf_blk f (machine s)" "mtd_state_ok (mtd s')" "device_volumes s' = device_volumes s" by auto
    moreover from this have "misc_bytes D (machine s') = misc_bytes D (machine s)" using Misc_Flash
      by (simp add: contents_cong [of "mf_blk f" "machine s'" "machine s"])
    ultimately show ?thesis using v Misc_Flash by (simp add: e get_bootloader_message_def misc_message_def misc_usable_def del: misc_bytes.simps)
  next
    case (Misc_Block dev content)
    with v get_message_block [of sys dev content v "machine s"] show ?thesis
      by (auto simp: e get_bootloader_message_def misc_message_def misc_usable_def)
  qed
next
  case (2 e s m)
  obtain sys D where e: "e = (sys, D)" by (cases e)
  from 2 obtain v where v: "volume_for_path (device_volumes s) ''/misc'' = Some v" "misc_volume D v" "misc_law sys D" "mtd_state_ok (mtd s)"
    by (auto simp: misc_usable_def e)
  show ?case
  proof (cases D)
    case (Misc_Flash f)
    with v 2(2) set_message_flash [of sys f s v m] obtain s' where
      "set_bootloader_message_mtd sys m v s = Some (0, s')" "misc_bytes D (machine s') = message_bytes m"
      "mtd_state_ok (mtd s')" "device_volumes s' = device_volumes s" by (auto simp del: misc_bytes.simps)
    then show ?thesis using v Misc_Flash 2(2)
      by (simp add: e set_bootloader_message_def misc_message_def misc_usable_def message_of_bytes del: misc_bytes.simps)
  next
    case (Misc_Block dev content)
    with v 2(2) set_message_block [of sys dev content v m "machine s"] show ?thesis
      by (auto simp: e set_bootloader_message_def misc_message_def misc_usable_def message_of_bytes)
  qed
next
  case (3 e s)
  then show ?case by (rule misc_message_ok)
qed

text \<open>
  C35: a message that is set is the message that is read, whether the volume \<^verbatim>\<open>/misc\<close> is raw flash with bad
  blocks or a block device; both calls succeed, and the message stays.
\<close>

theorem bootloader_message_roundtrip:
  assumes "misc_usable (sys, D) s" "message_ok m"
  shows "\<exists>s1 s2. set_bootloader_message sys m s = Some (0, s1) \<and> get_bootloader_message sys s1 = Some (Some m, s2) \<and>
    misc_usable (sys, D) s2 \<and> misc_message (sys, D) s2 = m"
  using misc_store.set_get [OF assms] by simp

text \<open>A flash device of two blocks, the first one bad, and its table.\<close>

definition misc_es :: int where "misc_es = 1632"

definition misc_part :: MtdPartition where
  "misc_part = \<lparr>device_index = 0, part_size = 2 * misc_es, erase_size = misc_es, part_name = Some ''misc''\<rparr>"

definition misc_blk :: "chip \<Rightarrow> nat \<Rightarrow> byte list" where
  "misc_blk w i = take (nat misc_es) (snd w i @ replicate (nat misc_es) 0)"

definition misc_table :: "mtd_entry list" where
  "misc_table = [(0, 2 * misc_es, misc_es, ''misc'')]"

definition misc_os :: "chip os" where
  "misc_os = null_os\<lparr>os_malloc := \<lambda>n w. Some (replicate (nat n) 0), os_lseek := chip_seek, os_ecc := \<lambda>fd w. (0, 0), os_close := \<lambda>fd w. (0, w),
     os_open := \<lambda>p m w. (if p = ''/proc/mtd'' then 4 else 3, (0, snd w)),
     os_read := \<lambda>fd n w. if fd = 4 then (int (length (mtd_text misc_table)), bytes_of (mtd_text misc_table), w)
       else (misc_es, misc_blk w (nat (fst w div misc_es)), (fst w + misc_es, snd w)),
     os_write := \<lambda>fd d w. (misc_es, (fst w + misc_es, (snd w)(nat (fst w div misc_es) := d))),
     os_meminfo := \<lambda>fd w. Some \<lparr>info_size = 2 * misc_es, info_erasesize = misc_es, info_writesize = 544\<rparr>,
     os_badblock := \<lambda>fd pos w. (if pos = 0 then 1 else 0, False),
     os_erase := \<lambda>fd pos n w. (0, (fst w, (snd w)(nat (pos div misc_es) := replicate (nat misc_es) (- 1))))\<rparr>"

definition misc_sample :: "chip misc_flash" where
  "misc_sample = \<lparr>mf_part = misc_part, mf_good = \<lambda>i. i \<noteq> 0, mf_pos = \<lambda>fd w. fst w, mf_blk = misc_blk, mf_page = 544, mf_table = misc_table\<rparr>"

lemma misc_blocks: "block_count misc_part = 2" "erase_size misc_part = misc_es" "part_size misc_part = 2 * misc_es" "0 < misc_es"
  by (simp_all add: block_count_def misc_part_def misc_es_def)

lemma misc_device: "flash_device misc_os misc_part (\<lambda>i. i \<noteq> 0) (\<lambda>fd w. fst w) misc_blk"
proof -
  let ?V = "\<lparr>nd_good = \<lambda>i. i \<noteq> 0, nd_pos = fst, nd_blk = misc_blk\<rparr>"
  have "partition_ok misc_part" by (simp add: partition_ok_def misc_blocks LONG_MAX_def) (simp add: misc_es_def)
  moreover have "seek_law misc_os 3 misc_part ?V"
    by (auto simp: seek_law_def misc_os_def chip_seek_def misc_blk_def)
  moreover have "block_read_law misc_os 3 misc_part ?V"
    using misc_blocks(4) by (auto simp: block_read_law_def misc_os_def misc_blk_def misc_blocks distrib_right)
  moreover have "int (length (misc_blk w i)) = misc_es" for w i using misc_blocks(4) by (simp add: misc_blk_def)
  then have "block_state_law misc_os 3 misc_part ?V"
    using misc_blocks(4) by (auto simp: block_state_law_def misc_os_def misc_blocks(1-3))
  moreover have "block_write_law misc_os 3 misc_part ?V"
    using misc_blocks(4) by (auto simp: block_write_law_def misc_os_def misc_blocks misc_blk_def erased_def)
  moreover have "malloc_law misc_os" by (auto simp: malloc_law_def misc_os_def)
  ultimately have "nand_writes misc_os 3 misc_part ?V" by (simp add: nand_writes_def nand_reads_def)
  moreover have "os_open misc_os (dev_name misc_part) = (\<lambda>m w. (3, (0, snd w)))" by (simp add: misc_os_def dev_name_def)
  moreover have "misc_blk (0, snd w) = misc_blk w" for w by (rule ext) (simp add: misc_blk_def)
  ultimately show ?thesis by (simp add: flash_device_def)
qed

lemma misc_table_listed: "proc_mtd_law misc_os misc_table misc_blk"
proof -
  have "mtd_table_ok misc_table" by code_simp
  moreover have "misc_blk (0, snd w) = misc_blk w" for w by (rule ext) (simp add: misc_blk_def)
  ultimately show ?thesis by (simp add: proc_mtd_law_def misc_os_def)
qed

definition misc_state :: "chip recovery" where
  "misc_state = \<lparr>mtd = g_mtd_state, mounts = g_mounts_state,
     device_volumes = [tmp_volume\<lparr>v_mount_point := ''/misc'', v_fs_type := ''mtd'', v_device := Some ''misc''\<rparr>],
     machine = (0, \<lambda>_. [])\<rparr>"

lemma misc_sample_law: "misc_flash_law misc_os misc_sample"
proof -
  have "page_law misc_os misc_part 544" by (simp add: page_law_def misc_os_def)
  moreover have "misc_part \<in> mtd_part ` set misc_table" by (simp add: misc_part_def misc_table_def mtd_part_def)
  moreover have "3 * 544 \<le> good_bytes misc_part (\<lambda>i. i \<noteq> 0)" by (simp add: good_bytes_def misc_blocks numeral_2_eq_2) (simp add: misc_es_def)
  ultimately show ?thesis using misc_device misc_table_listed
    by (simp add: misc_flash_law_def misc_sample_def message_size_def LONG_MAX_def)
qed

lemma misc_sample_usable: "misc_usable (misc_os, Misc_Flash misc_sample) misc_state"
  using misc_sample_law by (simp add: misc_usable_def misc_state_def volume_for_path_def misc_sample_def misc_part_def)

definition wipe_message :: bootloader_message where
  "wipe_message = \<lparr>bm_command = strlcpy (replicate 32 NUL) ''boot-recovery'', bm_status = replicate 32 NUL,
     bm_recovery = strlcpy (replicate 1024 NUL) (''recovery'' @ NL # ''--wipe_data'' @ [NL])\<rparr>"

lemma wipe_message_ok: "message_ok wipe_message"
  unfolding message_ok_def wipe_message_def bootloader_message.simps length_strlcpy length_replicate by simp

theorem bootloader_message_roundtrip_witness:
  "\<exists>s1 s2. set_bootloader_message misc_os wipe_message misc_state = Some (0, s1) \<and>
     get_bootloader_message misc_os s1 = Some (Some wipe_message, s2)"
  using bootloader_message_roundtrip [OF misc_sample_usable wipe_message_ok] by blast

end
