(* ===== verification/DirUtil.thy ===== *)
theory DirUtil
  imports Recovery_Prelude
begin

text \<open>
  Creating directories: \<open>getPathDirStatus\<close> and \<open>dirCreateHierarchy\<close> of \<^verbatim>\<open>minzip/DirUtil.c\<close>. The file
  system is a parameter: the record \<open>fs_ops\<close> holds the system calls on a state \<open>'w\<close>. The SELinux label
  that surrounds \<open>mkdir\<close> is part of that call.
\<close>

section \<open>Model\<close>

datatype stat_result = NoEntry | StatError | IsDir | NotDir

record 'w fs_ops =
  fs_stat :: "string \<Rightarrow> 'w \<Rightarrow> stat_result"
  fs_mkdir :: "string \<Rightarrow> int \<Rightarrow> 'w \<Rightarrow> bool \<times> 'w"
  fs_utime :: "string \<Rightarrow> 'w \<Rightarrow> bool \<times> 'w"

datatype DirStatus = DMISSING | DDIR | DILLEGAL

definition getPathDirStatus :: "'w fs_ops \<Rightarrow> string \<Rightarrow> 'w \<Rightarrow> DirStatus" where
  "getPathDirStatus fs path w =
     (case fs_stat fs path w of IsDir \<Rightarrow> DDIR | NotDir \<Rightarrow> DILLEGAL | StatError \<Rightarrow> DILLEGAL | NoEntry \<Rightarrow> DMISSING)"

text \<open>The path up to its last slash, unless that is its first character.\<close>

definition strip_filename :: "string \<Rightarrow> string option" where
  "strip_filename path =
     (let dir = rev (dropWhile (\<lambda>c. c \<noteq> CHR ''/'') (rev path))
      in if length dir \<le> 1 then None else Some dir)"

lemma tail_shorter:
  assumes "dropWhile (\<lambda>c. c = CHR ''/'') rest \<noteq> []"
  shows "length (dropWhile (\<lambda>c. c \<noteq> CHR ''/'') (dropWhile (\<lambda>c. c = CHR ''/'') rest)) < length rest"
proof -
  obtain c r where r: "dropWhile (\<lambda>c. c = CHR ''/'') rest = c # r" using assms by (cases "dropWhile (\<lambda>c. c = CHR ''/'') rest") auto
  then have "c \<noteq> CHR ''/''" by (metis (mono_tags, lifting) dropWhile_eq_Cons_conv)
  then have "length (dropWhile (\<lambda>c. c \<noteq> CHR ''/'') (c # r)) \<le> length r" by (simp add: length_dropWhile_le)
  moreover have "length (c # r) \<le> length rest" using length_dropWhile_le r by metis
  ultimately show ?thesis using r by simp
qed

text \<open>
  The walk over the components: \<open>dn\<close> is the part of \<open>cpath\<close> before \<open>p\<close>, \<open>rest\<close> the part from \<open>p\<close>.
  Running over the end of the string is \<open>None\<close>.
\<close>

function make_levels :: "'w fs_ops \<Rightarrow> int \<Rightarrow> bool \<Rightarrow> string \<Rightarrow> string \<Rightarrow> 'w \<Rightarrow> (int \<times> 'w) option" where
  "make_levels fs mode timestamp dn rest w =
     (let slashes = takeWhile (\<lambda>c. c = CHR ''/'') rest;
          rest = dropWhile (\<lambda>c. c = CHR ''/'') rest in
      if rest = [] then Some (0, w)
      else let component = takeWhile (\<lambda>c. c \<noteq> CHR ''/'') rest;
               tail = dropWhile (\<lambda>c. c \<noteq> CHR ''/'') rest;
               cpath = dn @ slashes @ component in
        if tail = [] then None
        else case getPathDirStatus fs cpath w of
          DILLEGAL \<Rightarrow> Some (- 1, w)
        | DDIR \<Rightarrow> make_levels fs mode timestamp cpath tail w
        | DMISSING \<Rightarrow>
            (case fs_mkdir fs cpath mode w of (ok, w1) \<Rightarrow>
               if \<not> ok then Some (- 1, w1)
               else if timestamp then
                 (case fs_utime fs cpath w1 of (ok, w2) \<Rightarrow>
                    if \<not> ok then Some (- 1, w2) else make_levels fs mode timestamp cpath tail w2)
               else make_levels fs mode timestamp cpath tail w1))"
  by pat_completeness auto

termination
  by (relation "measure (\<lambda>(fs, mode, ts, dn, rest, w). length rest)") (auto intro: tail_shorter)

declare make_levels.simps [simp del]

text \<open>\<open>timestamp\<close> says whether a time stamp is given, \<open>malloc_ok\<close> whether the copy of the path can be made.\<close>

definition dirCreateHierarchy ::
  "'w fs_ops \<Rightarrow> bool \<Rightarrow> string \<Rightarrow> int \<Rightarrow> bool \<Rightarrow> bool \<Rightarrow> 'w \<Rightarrow> (int \<times> 'w) option" where
  "dirCreateHierarchy fs malloc_ok path mode timestamp stripFileName w =
     (if path = [] then Some (- 1, w)
      else if \<not> malloc_ok then Some (- 1, w)
      else case (if stripFileName then strip_filename path else Some (path @ ''/'')) of
        None \<Rightarrow> Some (- 1, w)
      | Some cpath \<Rightarrow>
          (case getPathDirStatus fs cpath w of
             DDIR \<Rightarrow> Some (0, w)
           | DILLEGAL \<Rightarrow> Some (- 1, w)
           | DMISSING \<Rightarrow> make_levels fs mode timestamp [] cpath w))"

section \<open>Every level is there afterwards\<close>

text \<open>The directories a path goes through: its prefixes that end before a slash, empty ones left out.\<close>

function levels :: "string \<Rightarrow> string \<Rightarrow> string list" where
  "levels dn rest =
     (let slashes = takeWhile (\<lambda>c. c = CHR ''/'') rest;
          rest = dropWhile (\<lambda>c. c = CHR ''/'') rest in
      if rest = [] then []
      else let cpath = dn @ slashes @ takeWhile (\<lambda>c. c \<noteq> CHR ''/'') rest
           in cpath # levels cpath (dropWhile (\<lambda>c. c \<noteq> CHR ''/'') rest))"
  by pat_completeness auto
termination
  by (relation "measure (\<lambda>(dn, rest). length rest)") (auto intro: tail_shorter)

declare levels.simps [simp del]

text \<open>
  What is relied on of the system calls: a successful \<open>mkdir\<close> makes the path a directory, and neither
  call removes one.
\<close>

definition fs_law :: "'w fs_ops \<Rightarrow> bool" where
  "fs_law fs \<longleftrightarrow>
     (\<forall>p mode w. fst (fs_mkdir fs p mode w) \<longrightarrow> fs_stat fs p (snd (fs_mkdir fs p mode w)) = IsDir) \<and>
     (\<forall>p q mode w. fs_stat fs q w = IsDir \<longrightarrow> fs_stat fs q (snd (fs_mkdir fs p mode w)) = IsDir) \<and>
     (\<forall>p q w. fs_stat fs q w = IsDir \<longrightarrow> fs_stat fs q (snd (fs_utime fs p w)) = IsDir)"

lemma DDIR_iff: "getPathDirStatus fs p w = DDIR \<longleftrightarrow> fs_stat fs p w = IsDir"
  by (simp add: getPathDirStatus_def split: stat_result.splits)

lemma fs_lawD:
  assumes "fs_law fs"
  shows "fs_mkdir fs p mode w = (True, w') \<Longrightarrow> fs_stat fs p w' = IsDir"
    and "fs_stat fs q w = IsDir \<Longrightarrow> fs_mkdir fs p mode w = (b, w') \<Longrightarrow> fs_stat fs q w' = IsDir"
    and "fs_stat fs q w = IsDir \<Longrightarrow> fs_utime fs p w = (b, w') \<Longrightarrow> fs_stat fs q w' = IsDir"
  using assms unfolding fs_law_def by (metis fst_conv snd_conv)+

definition dirs_kept :: "'w fs_ops \<Rightarrow> 'w \<Rightarrow> 'w \<Rightarrow> bool" where
  "dirs_kept fs w w' \<longleftrightarrow> (\<forall>q. fs_stat fs q w = IsDir \<longrightarrow> fs_stat fs q w' = IsDir)"

lemma make_levels_creates:
  assumes law: "fs_law fs"
  shows "make_levels fs mode timestamp dn rest w = Some (0, w') \<Longrightarrow>
   dirs_kept fs w w' \<and> (\<forall>l \<in> set (levels dn rest). fs_stat fs l w' = IsDir)"
proof (induction "length rest" arbitrary: dn rest w rule: less_induct)
  case less
  define r where "r = dropWhile (\<lambda>c. c = CHR ''/'') rest"
  define tl where "tl = dropWhile (\<lambda>c. c \<noteq> CHR ''/'') r"
  define cp where "cp = dn @ takeWhile (\<lambda>c. c = CHR ''/'') rest @ takeWhile (\<lambda>c. c \<noteq> CHR ''/'') r"
  note eqs = make_levels.simps [of fs mode timestamp dn rest w, unfolded Let_def, folded r_def, folded tl_def cp_def]
    levels.simps [of dn rest, unfolded Let_def, folded r_def, folded tl_def cp_def]
  show ?case
  proof (cases "r = []")
    case True
    with less.prems show ?thesis by (simp add: eqs dirs_kept_def)
  next
    case False
    have short: "length tl < length rest" unfolding tl_def r_def using False tail_shorter by (simp add: r_def)
    have step: "\<exists>w1. fs_stat fs cp w1 = IsDir \<and> dirs_kept fs w w1 \<and> make_levels fs mode timestamp cp tl w1 = Some (0, w')"
    proof (cases "getPathDirStatus fs cp w")
      case DDIR
      then have "fs_stat fs cp w = IsDir" by (simp only: DDIR_iff)
      with DDIR False less.prems show ?thesis by (auto simp: eqs dirs_kept_def split: if_splits)
    next
      case DILLEGAL
      with False less.prems show ?thesis by (auto simp: eqs split: if_splits)
    next
      case DMISSING
      obtain ok w1 where mk: "fs_mkdir fs cp mode w = (ok, w1)" by (cases "fs_mkdir fs cp mode w")
      obtain ok2 w2 where ut: "fs_utime fs cp w1 = (ok2, w2)" by (cases "fs_utime fs cp w1")
      have "ok" using False less.prems DMISSING mk by (auto simp: eqs split: if_splits)
      have mk': "fs_stat fs cp w1 = IsDir" using fs_lawD(1) [OF law] mk \<open>ok\<close> by simp
      have k1: "dirs_kept fs w w1" unfolding dirs_kept_def using fs_lawD(2) [OF law _ mk] by blast
      have k2: "dirs_kept fs w1 w2" unfolding dirs_kept_def using fs_lawD(3) [OF law _ ut] by blast
      have "make_levels fs mode timestamp cp tl (if timestamp then w2 else w1) = Some (0, w')"
        using less.prems [unfolded eqs(1)] False DMISSING mk ut \<open>ok\<close> by (auto split: if_splits)
      moreover have "dirs_kept fs w (if timestamp then w2 else w1)" "fs_stat fs cp (if timestamp then w2 else w1) = IsDir"
        using mk' k1 k2 by (auto simp: dirs_kept_def)
      ultimately show ?thesis by blast
    qed
    then obtain w1 where w1: "fs_stat fs cp w1 = IsDir" "dirs_kept fs w w1"
      "make_levels fs mode timestamp cp tl w1 = Some (0, w')" by blast
    from less.hyps [OF short w1(3)] w1(1,2) False show ?thesis by (auto simp: eqs dirs_kept_def)
  qed
qed

lemma last_dropWhile: "dropWhile P xs \<noteq> [] \<Longrightarrow> last (dropWhile P xs) = last xs"
  by (induction xs) auto

lemma make_levels_returns:
  "rest = [] \<or> last rest = CHR ''/'' \<Longrightarrow> make_levels fs mode timestamp dn rest w \<noteq> None"
proof (induction "length rest" arbitrary: dn rest w rule: less_induct)
  case less
  define r where "r = dropWhile (\<lambda>c. c = CHR ''/'') rest"
  define tl where "tl = dropWhile (\<lambda>c. c \<noteq> CHR ''/'') r"
  define cp where "cp = dn @ takeWhile (\<lambda>c. c = CHR ''/'') rest @ takeWhile (\<lambda>c. c \<noteq> CHR ''/'') r"
  note eq = make_levels.simps [of fs mode timestamp dn rest w, unfolded Let_def, folded r_def, folded tl_def cp_def]
  show ?case
  proof (cases "r = []")
    case True
    then show ?thesis by (simp add: eq)
  next
    case False
    have short: "length tl < length rest" unfolding tl_def r_def using False tail_shorter by (simp add: r_def)
    have "rest \<noteq> []" using False by (auto simp: r_def)
    have "last r = last rest" using False unfolding r_def by (rule last_dropWhile)
    then have l: "last r = CHR ''/''" using less.prems \<open>rest \<noteq> []\<close> by simp
    have "tl \<noteq> []" using l last_in_set [OF False] unfolding tl_def by (auto simp: dropWhile_eq_Nil_conv)
    moreover have "last tl = CHR ''/''" using l \<open>tl \<noteq> []\<close> unfolding tl_def by (metis last_dropWhile)
    ultimately show ?thesis
      using less.hyps [OF short] by (auto simp: eq split: DirStatus.splits prod.splits)
  qed
qed

section \<open>Properties\<close>

lemma strip_filename_slash: "strip_filename path = Some dir \<Longrightarrow> last dir = CHR ''/''"
proof -
  assume "strip_filename path = Some dir"
  then have dir: "dir = rev (dropWhile (\<lambda>c. c \<noteq> CHR ''/'') (rev path))" "1 < length dir"
    by (auto simp: strip_filename_def Let_def split: if_splits)
  then obtain c r where cr: "dropWhile (\<lambda>c. c \<noteq> CHR ''/'') (rev path) = c # r"
    by (cases "dropWhile (\<lambda>c. c \<noteq> CHR ''/'') (rev path)") auto
  then have "c = CHR ''/''" by (metis (mono_tags, lifting) dropWhile_eq_Cons_conv)
  with cr dir(1) show ?thesis by simp
qed

text \<open>
  C24: \<open>dirCreateHierarchy\<close> always returns and stays inside its copy of the path; when it returns 0,
  either the directory was there already or every level of the path (of the directory part, when
  the file name is stripped) is a directory afterwards, and no directory was lost.
\<close>

theorem dirCreateHierarchy_creates:
  assumes "fs_law fs"
  shows "\<exists>r w'. dirCreateHierarchy fs malloc_ok path mode timestamp stripFileName w = Some (r, w')
    \<and> (r = 0 \<longrightarrow> dirs_kept fs w w' \<and> (\<exists>cpath. (if stripFileName then strip_filename path = Some cpath else cpath = path @ ''/'')
         \<and> (fs_stat fs cpath w = IsDir \<or> (\<forall>l \<in> set (levels [] cpath). fs_stat fs l w' = IsDir))))"
proof (cases "path = [] \<or> \<not> malloc_ok \<or> (stripFileName \<and> strip_filename path = None)")
  case True
  then show ?thesis by (auto simp: dirCreateHierarchy_def)
next
  case False
  define cp where "cp = (if stripFileName then the (strip_filename path) else path @ ''/'')"
  have cp: "if stripFileName then strip_filename path = Some cp else cp = path @ ''/''"
    using False by (auto simp: cp_def)
  then have c: "(if stripFileName then strip_filename path else Some (path @ ''/'')) = Some cp"
    by (cases stripFileName) auto
  have "last cp = CHR ''/''" using cp strip_filename_slash by (cases stripFileName) auto
  then obtain r w' where m: "make_levels fs mode timestamp [] cp w = Some (r, w')"
    using make_levels_returns [of cp] by fastforce
  have kept: "dirs_kept fs w w" by (simp add: dirs_kept_def)
  have d: "dirCreateHierarchy fs malloc_ok path mode timestamp stripFileName w =
      (case getPathDirStatus fs cp w of DDIR \<Rightarrow> Some (0, w) | DILLEGAL \<Rightarrow> Some (- 1, w) | DMISSING \<Rightarrow> Some (r, w'))"
    using False by (simp add: dirCreateHierarchy_def c m split: DirStatus.split)
  show ?thesis
  proof (cases "getPathDirStatus fs cp w")
    case DMISSING
    with d m make_levels_creates [OF assms, of mode timestamp "[]" cp w w'] cp show ?thesis by auto
  next
    case DDIR
    then have "fs_stat fs cp w = IsDir" by (simp only: DDIR_iff)
    with DDIR d kept cp show ?thesis by auto
  next
    case DILLEGAL
    with d show ?thesis by simp
  qed
qed

text \<open>A file system in which every path can be made a directory.\<close>

definition set_fs :: "string set fs_ops" where
  "set_fs = \<lparr>fs_stat = (\<lambda>p w. if p \<in> w then IsDir else NoEntry), fs_mkdir = (\<lambda>p mode w. (True, insert p w)),
     fs_utime = (\<lambda>p w. (True, w))\<rparr>"

theorem dirCreateHierarchy_creates_witness:
  "\<exists>w'. dirCreateHierarchy set_fs True ''/a/b/f'' 493 True True {} = Some (0, w')
    \<and> list_all (\<lambda>l. fs_stat set_fs l w' = IsDir) (levels [] ''/a/b/'') \<and> levels [] ''/a/b/'' = [''/a'', ''/a/b'']"
proof -
  have law: "fs_law set_fs" by (simp add: fs_law_def set_fs_def)
  have run: "map_option fst (dirCreateHierarchy set_fs True ''/a/b/f'' 493 True True {}) = Some 0"
    and strip: "strip_filename ''/a/b/f'' = Some ''/a/b/''" and st: "fs_stat set_fs ''/a/b/'' {} = NoEntry"
    and lv: "levels [] ''/a/b/'' = [''/a'', ''/a/b'']"
    by code_simp+
  from dirCreateHierarchy_creates [OF law, of True "''/a/b/f''" 493 True True "{}"] run strip st lv
  show ?thesis by (auto simp: list_all_iff)
qed

end
