(* ===== verification/Recovery_Boot.thy ===== *)
theory Recovery_Boot
  imports Bootloader DirUtil
begin

text \<open>
  The arguments of the recovery program and the end of a run: \<open>get_args\<close>, \<open>finish_recovery\<close> and the
  functions they call, from \<^verbatim>\<open>recovery.c\<close>, and \<open>device_flash_type\<close> of \<^verbatim>\<open>flashutils/flashutils.c\<close>. The calls on
  directories are the second parameter, \<open>fs\<close>.
\<close>

section \<open>The kind of flash\<close>

datatype flash_type = UNSUPPORTED | UNKNOWN | MTD | MMC | BML

text \<open>The static variables of the program: those of the volumes, the flash type and the offset in the log.\<close>

record 'w session =
  base :: "'w recovery"
  the_flash_type :: flash_type
  tmplog_offset :: int

abbreviation world_of :: "'w session \<Rightarrow> 'w" where "world_of s \<equiv> machine (base s)"

definition put_world :: "'w \<Rightarrow> 'w session \<Rightarrow> 'w session" where
  "put_world w s = s\<lparr>base := (base s)\<lparr>machine := w\<rparr>\<rparr>"

definition BOARD_BML_BOOT :: string where "BOARD_BML_BOOT = ''/dev/block/bml7''"

definition device_flash_type :: "'w os \<Rightarrow> 'w session \<Rightarrow> flash_type \<times> 'w session" where
  "device_flash_type sys s =
     (let t = (if the_flash_type s = UNKNOWN then
                 if os_access sys BOARD_BML_BOOT (world_of s) then BML
                 else if os_access sys ''/proc/emmc'' (world_of s) then MMC
                 else if os_access sys ''/proc/mtd'' (world_of s) then MTD
                 else UNSUPPORTED
               else the_flash_type s)
      in (t, s\<lparr>the_flash_type := t\<rparr>))"

section \<open>Files by path\<close>

definition COMMAND_FILE :: string where "COMMAND_FILE = ''/cache/recovery/command''"
definition INTENT_FILE :: string where "INTENT_FILE = ''/cache/recovery/intent''"
definition LOG_FILE :: string where "LOG_FILE = ''/cache/recovery/log''"
definition LAST_LOG_FILE :: string where "LAST_LOG_FILE = ''/sdcard/cotrecovery/recovery_log''"
definition TEMPORARY_LOG_FILE :: string where "TEMPORARY_LOG_FILE = ''/tmp/recovery.log''"

datatype fmode = Mode_r | Mode_w | Mode_a

definition fopen_mode :: "'w os \<Rightarrow> string \<Rightarrow> fmode \<Rightarrow> 'w \<Rightarrow> int option \<times> 'w" where
  "fopen_mode sys path m w =
     (case m of Mode_r \<Rightarrow> os_fopen sys path False w | Mode_w \<Rightarrow> os_fopen sys path True w | Mode_a \<Rightarrow> os_fappend sys path w)"

text \<open>The result of \<open>dirCreateHierarchy\<close> is not used.\<close>

definition fopen_path ::
  "'w os \<Rightarrow> 'w fs_ops \<Rightarrow> string \<Rightarrow> fmode \<Rightarrow> 'w recovery \<Rightarrow> (int option \<times> 'w recovery) option" where
  "fopen_path sys fs path m s =
     Option.bind (ensure_path_mounted sys path s) (\<lambda>(r, s).
     if r \<noteq> 0 then Some (None, s)
     else
       Option.bind (if m \<noteq> Mode_r
                    then map_option snd (dirCreateHierarchy fs (os_malloc sys (int (length path) + 1) (machine s) \<noteq> None)
                           path 511 False True (machine s))
                    else Some (machine s)) (\<lambda>w.
       case fopen_mode sys path m w of (f, w) \<Rightarrow> Some (f, s\<lparr>machine := w\<rparr>)))"

definition check_and_fclose :: "'w os \<Rightarrow> int \<Rightarrow> 'w \<Rightarrow> 'w" where
  "check_and_fclose sys f w = snd (os_fclose sys f w)"

section \<open>The arguments\<close>

definition MAX_ARGS :: nat where "MAX_ARGS = 100"
definition MAX_ARG_LENGTH :: nat where "MAX_ARG_LENGTH = 4096"

definition is_nl :: "char \<Rightarrow> bool" where "is_nl c \<longleftrightarrow> c = NL"
definition is_crnl :: "char \<Rightarrow> bool" where "is_crnl c \<longleftrightarrow> c = CHR 0x0D \<or> c = NL"

text \<open>What \<open>k\<close> calls of \<open>strtok\<close> leave in the array: a NUL in place of the delimiter after each token.\<close>

fun strtok_marks :: "(char \<Rightarrow> bool) \<Rightarrow> nat \<Rightarrow> string \<Rightarrow> string" where
  "strtok_marks D 0 s = s"
| "strtok_marks D (Suc k) s =
     (let r = dropWhile D s; rest = dropWhile (\<lambda>c. \<not> D c) r in
      takeWhile D s @ takeWhile (\<lambda>c. \<not> D c) r @ (case rest of [] \<Rightarrow> [] | d # ds \<Rightarrow> NUL # strtok_marks D k ds))"

lemma length_strtok_marks [simp]: "length (strtok_marks D k s) = length s"
proof (induction k arbitrary: s)
  case (Suc k)
  let ?r = "dropWhile D s"
  have "length s = length (takeWhile D s) + length ?r" by (metis length_append takeWhile_dropWhile_id)
  moreover have "length ?r = length (takeWhile (\<lambda>c. \<not> D c) ?r) + length (dropWhile (\<lambda>c. \<not> D c) ?r)"
    by (metis length_append takeWhile_dropWhile_id)
  moreover have "dropWhile (\<lambda>c. \<not> D c) ?r = d # ds \<Longrightarrow> length (strtok_marks D k ds) = length ds" for d ds by (rule Suc.IH)
  ultimately show ?case by (auto simp: Let_def split: list.split)
qed simp

text \<open>
  The arguments in a message: the lines after \<open>recovery\<close>, at most \<open>MAX_ARGS\<close> with it; and the array as
  \<open>strtok\<close> leaves it. The last element of the array is made NUL first.
\<close>

definition ended :: "string \<Rightarrow> string" where
  "ended r = r[length r - 1 := NUL]"

definition message_args :: "string \<Rightarrow> string list option" where
  "message_args r = (case strtoks is_nl (c_string (ended r)) of
     arg # args \<Rightarrow> if arg = ''recovery'' then Some (take MAX_ARGS (arg # args)) else None
   | [] \<Rightarrow> None)"

definition message_marked :: "string \<Rightarrow> string" where
  "message_marked r =
     (let s = c_string (ended r); k = (case message_args r of None \<Rightarrow> 1 | Some _ \<Rightarrow> MAX_ARGS) in
      strtok_marks is_nl k s @ drop (length s) (ended r))"

text \<open>
  The lines of the command file: at most \<open>MAX_ARGS\<close> arguments with the first; a line without characters
  other than line ends is not counted. \<open>strdup\<close> is not checked; a null pointer is read later.
\<close>

partial_function (option) command_args ::
  "'w os \<Rightarrow> int \<Rightarrow> string list \<Rightarrow> 'w \<Rightarrow> (string list \<times> 'w) option" where
  "command_args sys f argv w =
     (if length argv < MAX_ARGS then
        (case os_fgets sys f MAX_ARG_LENGTH w of
           (None, w) \<Rightarrow> Some (argv, w)
         | (Some buf, w) \<Rightarrow>
             (case strtok is_crnl buf of
                None \<Rightarrow> command_args sys f argv w
              | Some (token, _) \<Rightarrow> Option.bind (strdup sys w token) (\<lambda>t. command_args sys f (argv @ [t]) w)))
      else Some (argv, w))"

declare command_args.simps [code]

definition zero_message :: bootloader_message where
  "zero_message = \<lparr>bm_command = replicate 32 NUL, bm_status = replicate 32 NUL, bm_recovery = replicate 1024 NUL\<rparr>"

text \<open>The arguments after the program name, one per line, appended to the message.\<close>

definition append_arg :: "string \<Rightarrow> string \<Rightarrow> string" where
  "append_arg arg r = strlcat (strlcat r arg) [NL]"

definition boot_message :: "string list \<Rightarrow> bootloader_message \<Rightarrow> bootloader_message" where
  "boot_message args m =
     m\<lparr>bm_command := strlcpy (bm_command m) ''boot-recovery'',
       bm_recovery := fold append_arg args (strlcpy (bm_recovery m) (''recovery'' @ [NL]))\<rparr>"

text \<open>
  The three sources of arguments in order. \<open>argv\<close> is the list of \<open>argc\<close> strings. The results of \<open>malloc\<close>
  are not checked, so a failure is undefined; so is a program without a name that reads the command file.
\<close>

definition args_from_message ::
  "'w os \<Rightarrow> string list \<Rightarrow> bootloader_message \<Rightarrow> 'w \<Rightarrow> (string list \<times> bootloader_message) option" where
  "args_from_message sys argv boot w =
     (if length argv \<le> 1 \<and> os_stat sys ''/tmp/.ignorebootmessage'' w = None then
        (case message_args (bm_recovery boot) of
           None \<Rightarrow> Some (argv, boot\<lparr>bm_recovery := message_marked (bm_recovery boot)\<rparr>)
         | Some args \<Rightarrow>
             if os_malloc sys (4 * int MAX_ARGS) w = None \<or> list_ex (\<lambda>a. strdup sys w a = None) args then None
             else Some (args, boot\<lparr>bm_recovery := message_marked (bm_recovery boot)\<rparr>))
      else Some (argv, boot))"

definition args_from_file ::
  "'w os \<Rightarrow> 'w fs_ops \<Rightarrow> string list \<Rightarrow> 'w recovery \<Rightarrow> (string list \<times> 'w recovery) option" where
  "args_from_file sys fs argv s =
     (if length argv \<le> 1 then
        Option.bind (fopen_path sys fs COMMAND_FILE Mode_r s) (\<lambda>(f, s).
        case f of
          None \<Rightarrow> Some (argv, s)
        | Some f \<Rightarrow>
            if argv = [] \<or> os_malloc sys (4 * int MAX_ARGS) (machine s) = None then None
            else Option.bind (command_args sys f argv (machine s)) (\<lambda>(argv, w).
                 Some (argv, s\<lparr>machine := check_and_fclose sys f w\<rparr>)))
      else Some (argv, s))"

definition get_args ::
  "'w os \<Rightarrow> 'w fs_ops \<Rightarrow> string list \<Rightarrow> 'w session \<Rightarrow> (string list \<times> 'w session) option" where
  "get_args sys fs argv s =
     (case device_flash_type sys s of (t, s) \<Rightarrow>
      Option.bind (if t = MTD \<or> t = MMC then get_bootloader_message sys (base s) else Some (None, base s)) (\<lambda>(m, b).
      let boot = (case m of None \<Rightarrow> zero_message | Some m \<Rightarrow> m) in
      Option.bind (args_from_message sys argv boot (machine b)) (\<lambda>(argv, boot).
      Option.bind (args_from_file sys fs argv b) (\<lambda>(argv, b).
      Option.bind (set_bootloader_message sys (boot_message (drop 1 argv) boot) b) (\<lambda>(_, b).
      Some (argv, s\<lparr>base := b\<rparr>))))))"

definition set_sdcard_update_bootloader_message :: "'w os \<Rightarrow> 'w recovery \<Rightarrow> 'w recovery option" where
  "set_sdcard_update_bootloader_message sys s =
     map_option snd (set_bootloader_message sys (zero_message\<lparr>bm_command := strlcpy (replicate 32 NUL) ''boot-recovery'',
       bm_recovery := strlcpy (replicate 1024 NUL) (''recovery'' @ [NL])\<rparr>) s)"

section \<open>The end of a run\<close>

partial_function (option) copy_lines :: "'w os \<Rightarrow> int \<Rightarrow> int \<Rightarrow> 'w \<Rightarrow> 'w option" where
  "copy_lines sys from_f to_f w =
     (case os_fgets sys from_f 4096 w of
        (None, w) \<Rightarrow> Some w
      | (Some buf, w) \<Rightarrow> copy_lines sys from_f to_f (os_fputs sys to_f buf w))"

declare copy_lines.simps [code]

definition copy_log_file ::
  "'w os \<Rightarrow> 'w fs_ops \<Rightarrow> string \<Rightarrow> bool \<Rightarrow> 'w session \<Rightarrow> 'w session option" where
  "copy_log_file sys fs destination app s =
     Option.bind (fopen_path sys fs destination (if app then Mode_a else Mode_w) (base s)) (\<lambda>(log, b).
     let s = s\<lparr>base := b\<rparr> in
     case log of
       None \<Rightarrow> Some s
     | Some log \<Rightarrow>
         (case os_fopen sys TEMPORARY_LOG_FILE False (world_of s) of
            (None, w) \<Rightarrow> Some (put_world (check_and_fclose sys log w) s)
          | (Some tmplog, w) \<Rightarrow>
              let w = (if app then os_fseek sys tmplog (tmplog_offset s) w else w) in
              Option.bind (copy_lines sys tmplog log w) (\<lambda>w.
              let s = (if app then s\<lparr>tmplog_offset := os_ftell sys tmplog w\<rparr> else s) in
              Some (put_world (check_and_fclose sys log (check_and_fclose sys tmplog w)) s))))"

definition write_intent :: "'w os \<Rightarrow> 'w fs_ops \<Rightarrow> string option \<Rightarrow> 'w recovery \<Rightarrow> 'w recovery option" where
  "write_intent sys fs send_intent s =
     (case send_intent of
        None \<Rightarrow> Some s
      | Some intent \<Rightarrow>
          Option.bind (fopen_path sys fs INTENT_FILE Mode_w s) (\<lambda>(f, s).
          case f of
            None \<Rightarrow> Some s
          | Some f \<Rightarrow> Some (s\<lparr>machine := check_and_fclose sys f (os_fputs sys f intent (machine s))\<rparr>)))"

definition finish_recovery :: "'w os \<Rightarrow> 'w fs_ops \<Rightarrow> string option \<Rightarrow> 'w session \<Rightarrow> 'w session option" where
  "finish_recovery sys fs send_intent s =
     Option.bind (write_intent sys fs send_intent (base s)) (\<lambda>b.
     Option.bind (copy_log_file sys fs LOG_FILE True (s\<lparr>base := b\<rparr>)) (\<lambda>s.
     Option.bind (copy_log_file sys fs LAST_LOG_FILE False s) (\<lambda>s.
     let s = put_world (snd (os_chmod sys LAST_LOG_FILE 416 (world_of s))) s in
     Option.bind (set_bootloader_message sys zero_message (base s)) (\<lambda>(_, b).
     Option.bind (ensure_path_mounted sys COMMAND_FILE b) (\<lambda>(r, b).
     let w = (if r \<noteq> 0 then machine b else snd (os_unlink sys COMMAND_FILE (machine b))) in
     Some (s\<lparr>base := b\<lparr>machine := os_sync sys w\<rparr>\<rparr>))))))"

section \<open>Scripts\<close>

definition SCRIPT_FILE_CACHE :: string where "SCRIPT_FILE_CACHE = ''/cache/recovery/openrecoveryscript''"
definition SCRIPT_FILE_TMP :: string where "SCRIPT_FILE_TMP = ''/tmp/openrecoveryscript''"

definition check_for_script_file :: "'w os \<Rightarrow> 'w \<Rightarrow> bool \<times> 'w" where
  "check_for_script_file sys w =
     (case os_fopen sys SCRIPT_FILE_CACHE False w of
        (None, w) \<Rightarrow> (False, w)
      | (Some f, w) \<Rightarrow>
          let w = snd (os_fclose sys f w);
              w = snd (os_system sys (''cp '' @ SCRIPT_FILE_CACHE @ '' '' @ SCRIPT_FILE_TMP) w)
          in (True, snd (os_system sys (''rm '' @ SCRIPT_FILE_CACHE) w)))"

section \<open>Restarting\<close>

text \<open>What a message says the arguments are.\<close>

definition arg_lines :: "string list \<Rightarrow> string" where
  "arg_lines args = concat (map (\<lambda>a. a @ [NL]) args)"

definition message_says :: "string list \<Rightarrow> bootloader_message \<Rightarrow> bool" where
  "message_says args m \<longleftrightarrow> message_ok m \<and> c_string (bm_recovery m) = arg_lines (''recovery'' # args) \<and>
     c_string (bm_command m) = ''boot-recovery''"

definition args_ok :: "string list \<Rightarrow> bool" where
  "args_ok args \<longleftrightarrow> list_all (\<lambda>a. is_token is_nl a \<and> NUL \<notin> set a) args \<and> length args < MAX_ARGS \<and>
     length (arg_lines (''recovery'' # args)) \<le> 1023"

lemma c_string_append_arg:
  assumes "length (c_string r) < length r" "NUL \<notin> set a" "length (c_string r @ a @ [NL]) < length r"
  shows "c_string (append_arg a r) = c_string r @ a @ [NL]" "length (append_arg a r) = length r"
proof -
  have 1: "c_string (strlcat r a) = c_string r @ a" using c_string_strlcat [OF assms(1,2)] assms(3) by simp
  have 2: "c_string (strlcat (strlcat r a) [NL]) = take (length r - 1) (c_string (strlcat r a) @ [NL])"
    using c_string_strlcat [of "strlcat r a" "[NL]"] 1 assms(3) by simp
  show "c_string (append_arg a r) = c_string r @ a @ [NL]" using 2 1 assms(3) by (simp add: append_arg_def)
qed (simp add: append_arg_def)

lemma c_string_append_args:
  "list_all (\<lambda>a. NUL \<notin> set a) args \<Longrightarrow> length (c_string r @ arg_lines args) < length r \<Longrightarrow>
   c_string (fold append_arg args r) = c_string r @ arg_lines args \<and> length (fold append_arg args r) = length r"
proof (induction args arbitrary: r)
  case (Cons a args)
  have "length (c_string r) < length r" "NUL \<notin> set a" "length (c_string r @ a @ [NL]) < length r"
    using Cons.prems by (auto simp: arg_lines_def)
  note s = c_string_append_arg [OF this]
  with Cons.IH [of "append_arg a r"] Cons.prems show ?case by (simp add: arg_lines_def)
qed (simp add: arg_lines_def)

lemma boot_message_says:
  assumes "message_ok m" "args_ok args"
  shows "message_says args (boot_message args m)"
proof -
  let ?r = "strlcpy (bm_recovery m) (''recovery'' @ [NL])"
  have len: "length (bm_recovery m) = 1024" "length (bm_command m) = 32" "length (bm_status m) = 32"
    using assms(1) by (simp_all add: message_ok_def)
  then have ne: "bm_recovery m \<noteq> []" "bm_command m \<noteq> []" by auto
  have c: "c_string ?r = ''recovery'' @ [NL]" using c_string_strlcpy [OF ne(1), of "''recovery'' @ [NL]"] len by simp
  have "c_string (fold append_arg args ?r) = c_string ?r @ arg_lines args \<and> length (fold append_arg args ?r) = length ?r"
    using assms(2) len c by (intro c_string_append_args) (auto simp: args_ok_def list_all_iff arg_lines_def)
  moreover have "c_string (strlcpy (bm_command m) ''boot-recovery'') = ''boot-recovery''"
    using c_string_strlcpy [OF ne(2), of "''boot-recovery''"] len by simp
  ultimately show ?thesis using len c by (simp add: message_says_def boot_message_def message_ok_def arg_lines_def)
qed

lemma c_string_ended: "length (c_string r) < length r \<Longrightarrow> c_string (ended r) = c_string r"
proof -
  assume l: "length (c_string r) < length r"
  let ?n = "length (c_string r)"
  have r: "r = c_string r @ NUL # drop (Suc ?n) r"
  proof -
    have "r ! ?n = NUL" using nth_length_takeWhile [of "\<lambda>c. c \<noteq> NUL" r] l by (simp add: c_string_def)
    moreover have "take ?n r = c_string r" unfolding c_string_def by (metis takeWhile_eq_take)
    ultimately show ?thesis using l by (metis id_take_nth_drop)
  qed
  have "ended r = (c_string r @ NUL # drop (Suc ?n) r)[length r - 1 := NUL]" using r by (simp add: ended_def)
  also have "\<dots> = c_string r @ (NUL # drop (Suc ?n) r)[length r - 1 - ?n := NUL]"
    using l by (subst list_update_append) (simp only: if_not_P not_less)
  also have "\<dots> = c_string r @ NUL # tl ((NUL # drop (Suc ?n) r)[length r - 1 - ?n := NUL])"
    by (cases "length r - 1 - ?n") auto
  finally show ?thesis using c_string_end [OF c_string_no_NUL] by metis
qed

lemma message_args_says:
  assumes "message_says args m" "args_ok args"
  shows "message_args (bm_recovery m) = Some (''recovery'' # args)"
proof -
  have c: "c_string (bm_recovery m) = arg_lines (''recovery'' # args)" and "length (bm_recovery m) = 1024"
    using assms(1) by (auto simp: message_says_def message_ok_def)
  then have e: "c_string (ended (bm_recovery m)) = arg_lines (''recovery'' # args)"
    using assms(2) c_string_ended [of "bm_recovery m"] by (simp add: args_ok_def)
  have "strtoks is_nl (arg_lines (''recovery'' # args)) = ''recovery'' # args"
    unfolding arg_lines_def by (rule strtoks_lines) (use assms(2) in \<open>auto simp: is_nl_def args_ok_def is_token_def list_all_iff\<close>)
  moreover have "take MAX_ARGS (''recovery'' # args) = ''recovery'' # args" using assms(2) by (simp add: args_ok_def)
  ultimately show ?thesis unfolding message_args_def e by simp
qed

subsection \<open>What mounting keeps\<close>

lemma scan_line_length:
  "scan_line sys w s (ps, n) = Some (Inr (ps', n')) \<Longrightarrow> length ps' = length ps"
  "scan_line sys w s (ps, n) = Some (Inl ps') \<Longrightarrow> length ps' = length ps"
  by (auto simp: scan_line_def Let_def split: option.splits if_splits)

lemma scan_lines_length:
  "(scan_lines sys w s tab = Some (Inr (ps', n')) \<longrightarrow> length ps' = length (fst tab)) \<and>
   (scan_lines sys w s tab = Some (Inl ps'') \<longrightarrow> length ps'' = length (fst tab))"
proof (induction sys w s tab rule: scan_lines.induct)
  case (1 sys w s tab)
  obtain ps n where tab: "tab = (ps, n)" by (cases tab)
  show ?case
  proof (cases "s = [] \<or> scan_line sys w s tab = None")
    case True
    then show ?thesis by (auto simp: scan_lines.simps [of sys w s tab])
  next
    case False
    then obtain x where x: "scan_line sys w s tab = Some x" by auto
    show ?thesis
    proof (cases x)
      case (Inl ps1)
      with x False have "scan_lines sys w s tab = Some (Inl ps1)" by (simp add: scan_lines.simps [of sys w s tab])
      then show ?thesis using x Inl scan_line_length(2) by (auto simp: tab)
    next
      case (Inr tab1)
      obtain ps1 n1 where tab1: "tab1 = (ps1, n1)" by (cases tab1)
      have "length ps1 = length ps" using x Inr scan_line_length(1) by (simp add: tab tab1)
      moreover have "scan_lines sys w s tab = scan_lines sys w (next_line s) tab1"
        using x False Inr by (simp add: scan_lines.simps [of sys w s tab])
      moreover note "1.IH" [OF _ x Inr]
      ultimately show ?thesis using False by (simp add: tab tab1)
    qed
  qed
qed

lemma mtd_scan_partitions_ok:
  assumes "mtd_scan_partitions sys st w = Some (r, st', w')" "mtd_state_ok st"
  shows "mtd_state_ok st'"
proof -
  define ps0 where "ps0 = (case partitions st of
      Some ps \<Rightarrow> Some ps
    | None \<Rightarrow> if os_malloc sys (int NUMP * 16) w = None then None
              else Some (replicate NUMP \<lparr>device_index = 0, part_size = 0, erase_size = 0, part_name = None\<rparr>))"
  show ?thesis
  proof (cases ps0)
    case None
    with assms show ?thesis by (simp add: mtd_scan_partitions_def ps0_def [symmetric])
  next
    case (Some ps)
    have len: "length ps = NUMP" using Some assms(2) by (auto simp: ps0_def mtd_state_ok_def split: option.splits if_splits)
    define qs where "qs = map (\<lambda>p. p\<lparr>part_name := None, device_index := - 1\<rparr>) ps"
    obtain fd w1 where o: "os_open sys ''/proc/mtd'' O_RDONLY w = (fd, w1)" by fastforce
    obtain n buf w2 where r: "os_read sys fd 2047 w1 = (n, buf, w2)" by (cases "os_read sys fd 2047 w1")
    obtain c w3 where c: "os_close sys fd w2 = (c, w3)" by fastforce
    have "\<exists>qs'. partitions st' = Some qs' \<and> length qs' = length qs"
    proof (cases "scan_lines sys w3 (map (\<lambda>b. char_of (unat b)) buf) (qs, 0)")
      case None
      with assms(1) Some o r c show ?thesis
        by (auto simp: mtd_scan_partitions_def ps0_def [symmetric] qs_def [symmetric] Let_def split: if_splits)
    next
      case (Some x)
      have "x = Inl qs' \<or> x = Inr (qs', k) \<Longrightarrow> length qs' = length qs" for qs' k
        using scan_lines_length [of sys w3 "map (\<lambda>b. char_of (unat b)) buf" "(qs, 0)"] Some by auto
      with assms(1) \<open>ps0 = Some ps\<close> Some o r c show ?thesis
        by (cases x) (auto simp: mtd_scan_partitions_def ps0_def [symmetric] qs_def [symmetric] Let_def split: if_splits)
    qed
    with len show ?thesis by (auto simp: mtd_state_ok_def qs_def)
  qed
qed

text \<open>The volumes stay, and the table of partitions stays well formed.\<close>

definition kept :: "'w recovery \<Rightarrow> 'w recovery \<Rightarrow> bool" where
  "kept s s' \<longleftrightarrow> device_volumes s' = device_volumes s \<and> (mtd_state_ok (mtd s) \<longrightarrow> mtd_state_ok (mtd s'))"

lemma kept_refl [simp]: "kept s s" "kept s (s\<lparr>machine := w\<rparr>)" "kept s (s\<lparr>mounts := m, machine := w\<rparr>)"
  by (simp_all add: kept_def)

lemma kept_trans: "kept s s' \<Longrightarrow> kept s' s'' \<Longrightarrow> kept s s''"
  by (simp add: kept_def)

lemma kept_usable: "kept s s' \<Longrightarrow> misc_usable e s \<Longrightarrow> misc_usable e s'"
  by (cases e) (simp add: kept_def misc_usable_def)

lemma mount_by_type_kept:
  assumes "mount_by_type sys v p s = Some (r, s')"
  shows "kept s s'"
proof (cases "v_fs_type v = ''yaffs2''")
  case True
  let ?w = "snd (os_mkdir sys p 493 (machine s))"
  from assms True obtain r1 st w where sc: "mtd_scan_partitions sys (mtd s) ?w = Some (r1, st, w)"
    by (cases "mtd_scan_partitions sys (mtd s) ?w") (auto simp: mount_by_type_def mount_yaffs2_def)
  have "mtd_state_ok (mtd s) \<longrightarrow> mtd_state_ok st" using mtd_scan_partitions_ok [OF sc] by blast
  with assms True sc show ?thesis
    by (auto simp: mount_by_type_def mount_yaffs2_def kept_def Let_def split: option.splits prod.splits)
next
  case False
  with assms show ?thesis by (auto simp: mount_by_type_def kept_def Let_def split: if_splits prod.splits)
qed

text \<open>A view of the machine that the calls for mounting and for removing a file leave alone.\<close>

definition quiet_law :: "'w os \<Rightarrow> ('w \<Rightarrow> 'v) \<Rightarrow> bool" where
  "quiet_law sys view \<longleftrightarrow>
     (\<forall>p w. view (snd (os_open sys p O_RDONLY w)) = view w) \<and> (\<forall>fd n w. view (snd (snd (os_read sys fd n w))) = view w) \<and>
     (\<forall>fd w. view (snd (os_close sys fd w)) = view w) \<and> (\<forall>p m w. view (snd (os_mkdir sys p m w)) = view w) \<and>
     (\<forall>p w. view (snd (os_rmdir sys p w)) = view w) \<and> (\<forall>p q w. view (snd (os_symlink sys p q w)) = view w) \<and>
     (\<forall>d p f ro w. view (snd (os_mount sys d p f ro w)) = view w) \<and> (\<forall>p m w. view (snd (os_chmod sys p m w)) = view w) \<and>
     (\<forall>c w. take 6 c = ''mount '' \<longrightarrow> view (snd (os_system sys c w)) = view w) \<and>
     (\<forall>p w. view (snd (os_unlink sys p w)) = view w) \<and> (\<forall>w. view (os_sync sys w) = view w)"

lemma quietD:
  assumes "quiet_law sys view"
  shows "os_open sys p O_RDONLY w = (fd, w') \<Longrightarrow> view w' = view w" "os_read sys fd n w = (k, d, w') \<Longrightarrow> view w' = view w"
    "os_close sys fd w = (c, w') \<Longrightarrow> view w' = view w" "view (snd (os_mkdir sys p m w)) = view w"
    "os_mount sys dv p f ro w = (c, w') \<Longrightarrow> view w' = view w" "os_chmod sys p m w = (c, w') \<Longrightarrow> view w' = view w"
    "take 6 cmd = ''mount '' \<Longrightarrow> os_system sys cmd w = (c, w') \<Longrightarrow> view w' = view w"
  using assms unfolding quiet_law_def by (metis snd_conv)+

lemma mtd_scan_partitions_quiet:
  assumes "quiet_law sys view" "mtd_scan_partitions sys st w = Some (r, st', w')"
  shows "view w' = view w"
proof -
  obtain fd w1 where o: "os_open sys ''/proc/mtd'' O_RDONLY w = (fd, w1)" by fastforce
  obtain n buf w2 where r: "os_read sys fd 2047 w1 = (n, buf, w2)" by (cases "os_read sys fd 2047 w1")
  obtain c w3 where c: "os_close sys fd w2 = (c, w3)" by fastforce
  have "view w1 = view w" "view w3 = view w" using quietD(1-3) [OF assms(1)] o r c by metis+
  moreover have "w' = w \<or> w' = w1 \<or> w' = w3" using assms(2) o r c
    by (auto simp: mtd_scan_partitions_def Let_def split: option.splits if_splits sum.splits)
  ultimately show ?thesis by auto
qed

lemma scan_mounted_volumes_quiet:
  assumes "quiet_law sys view" "scan_mounted_volumes sys st w = Some (r, st', w')"
  shows "view w' = view w"
proof -
  obtain fd w1 where o: "os_open sys ''/proc/mounts'' O_RDONLY w = (fd, w1)" by fastforce
  obtain n buf w2 where r: "os_read sys fd 2047 w1 = (n, buf, w2)" by (cases "os_read sys fd 2047 w1")
  obtain c w3 where c: "os_close sys fd w2 = (c, w3)" by fastforce
  have "view w1 = view w" "view w3 = view w" using quietD(1-3) [OF assms(1)] o r c by metis+
  moreover have "w' = w \<or> w' = w1 \<or> w' = w3" using assms(2) o r c
    by (auto simp: scan_mounted_volumes_def Let_def bind_eq_Some_conv split: option.splits if_splits)
  ultimately show ?thesis by auto
qed

lemma try_mount_quiet:
  assumes q: "quiet_law sys view"
  shows "view (snd (try_mount sys dev p ty opts w)) = view w"
proof -
  have "take 6 (mount_cmd t o' d p) = ''mount ''" for t o' d by (simp add: mount_cmd_def)
  then show ?thesis using q unfolding quiet_law_def by (auto simp: try_mount_def split: option.splits)
qed

lemma mount_block_quiet: "quiet_law sys view \<Longrightarrow> view (snd (mount_block sys v p w)) = view w"
  unfolding mount_block_def split_beta by (simp add: try_mount_quiet)

lemma mtd_mount_partition_quiet: "quiet_law sys view \<Longrightarrow> view (snd (mtd_mount_partition sys part p f ro w)) = view w"
  unfolding quiet_law_def mtd_mount_partition_def Let_def by (auto simp: split_beta split: option.splits)

lemma mount_by_type_quiet:
  assumes q: "quiet_law sys view" and m: "mount_by_type sys v p s = Some (r, s')"
  shows "view (machine s') = view (machine s)"
proof -
  define w where "w = snd (os_mkdir sys p 493 (machine s))"
  have w: "view w = view (machine s)" using q by (simp add: quiet_law_def w_def)
  have sy: "view (snd (os_system sys (''mount '' @ p) w)) = view w" using q by (simp add: quiet_law_def)
  show ?thesis
  proof (cases "v_fs_type v = ''yaffs2''")
    case True
    with m obtain r1 st w1 where sc: "mtd_scan_partitions sys (mtd s) w = Some (r1, st, w1)"
      by (cases "mtd_scan_partitions sys (mtd s) w") (auto simp: mount_by_type_def mount_yaffs2_def w_def)
    with m True have "machine s' = w1 \<or> (\<exists>part. machine s' = snd (mtd_mount_partition sys part p (v_fs_type v) False w1))"
      by (auto simp: mount_by_type_def mount_yaffs2_def w_def [symmetric] Let_def split_beta split: option.splits)
    then show ?thesis using mtd_scan_partitions_quiet [OF q sc] mtd_mount_partition_quiet [OF q] w by auto
  next
    case False
    with m w sy mount_block_quiet [OF q] show ?thesis
      by (auto simp: mount_by_type_def w_def [symmetric] Let_def split_beta split: if_splits)
  qed
qed

lemma setup_data_media_quiet: "quiet_law sys view \<Longrightarrow> view (setup_data_media sys vs w) = view w"
  by (auto simp: setup_data_media_def quiet_law_def Let_def split: option.split)

lemma ensure_path_mounted_at_kept:
  assumes "ensure_path_mounted_at_mount_point sys path mp s = Some y"
  shows "kept s (snd y) \<and> (quiet_law sys view \<longrightarrow> view (machine (snd y)) = view (machine s))"
proof (rule ensure_path_mounted_at_mount_point.raw_induct [OF _ assms, where
      P = "\<lambda>sys path mp s y. kept s (snd y) \<and> (quiet_law sys view \<longrightarrow> view (machine (snd y)) = view (machine s))"], goal_cases)
  case (1 f sys path mp s y)
  show ?case
  proof (cases "volume_for_path (device_volumes s) path")
    case None
    with 1(2) show ?thesis by auto
  next
    case (Some v)
    show ?thesis
    proof (cases "v_fs_type v = ''datamedia''")
      case True
      with 1(2) Some obtain r s1 where f: "f sys ''/data'' None s = Some (r, s1)" by (cases "f sys ''/data'' None s") auto
      from 1(1) [OF f] have "kept s s1" "quiet_law sys view \<longrightarrow> view (machine s1) = view (machine s)" by simp_all
      moreover have "y = (r, s1) \<or> y = (0, s1\<lparr>machine := setup_data_media sys (device_volumes s1) (machine s1)\<rparr>)"
        using 1(2) Some True f by (auto split: if_splits)
      ultimately show ?thesis using setup_data_media_quiet [of sys view] by (auto simp: kept_def)
    next
      case nd: False
      show ?thesis
      proof (cases "v_fs_type v = ''ramdisk'' \<or> scan_mounted_volumes sys (mounts s) (machine s) = None")
        case True
        with 1(2) Some nd show ?thesis by (auto split: if_splits)
      next
        case False
        then obtain r st w where sc: "scan_mounted_volumes sys (mounts s) (machine s) = Some (r, st, w)" by auto
        define s1 where "s1 = s\<lparr>mounts := st, machine := w\<rparr>"
        have s1: "kept s s1" "quiet_law sys view \<longrightarrow> view (machine s1) = view (machine s)"
          using scan_mounted_volumes_quiet sc by (auto simp: s1_def)
        obtain p where "y = (- 1, s1) \<or> y = (0, s1) \<or> mount_by_type sys v p s1 = Some y"
          using 1(2) Some nd False sc by (auto simp: s1_def Let_def split: if_splits)
        then show ?thesis
        proof (elim disjE)
          assume m: "mount_by_type sys v p s1 = Some y"
          obtain r2 s2 where y: "y = (r2, s2)" by (cases y)
          from mount_by_type_kept mount_by_type_quiet m y have "kept s1 s2" "quiet_law sys view \<longrightarrow> view (machine s2) = view (machine s1)"
            by blast+
          then show ?thesis using s1 kept_trans y by auto
        qed (use s1 in auto)
      qed
    qed
  qed
qed

lemma ensure_path_mounted_kept: "ensure_path_mounted sys path s = Some (r, s') \<Longrightarrow> kept s s'"
  unfolding ensure_path_mounted_def by (drule ensure_path_mounted_at_kept [where view = id]) simp

lemma ensure_path_mounted_quiet:
  "quiet_law sys view \<Longrightarrow> ensure_path_mounted sys path s = Some (r, s') \<Longrightarrow> view (machine s') = view (machine s)"
  unfolding ensure_path_mounted_def by (drule ensure_path_mounted_at_kept [where view = view]) simp

lemma fopen_path_kept:
  assumes "fopen_path sys fs path m s = Some (f, s')"
  shows "kept s s'"
proof -
  from assms obtain r s1 where e: "ensure_path_mounted sys path s = Some (r, s1)"
    by (cases "ensure_path_mounted sys path s") (auto simp: fopen_path_def)
  have "kept s1 s'" using assms e by (auto simp: fopen_path_def kept_def bind_eq_Some_conv split_beta split: if_splits)
  with ensure_path_mounted_kept [OF e] show ?thesis by (rule kept_trans)
qed

lemma args_from_file_kept: "args_from_file sys fs argv s = Some (argv', s') \<Longrightarrow> kept s s'"
proof (cases "length argv \<le> 1")
  case True
  assume a: "args_from_file sys fs argv s = Some (argv', s')"
  with True obtain f s1 where o: "fopen_path sys fs COMMAND_FILE Mode_r s = Some (f, s1)"
    by (cases "fopen_path sys fs COMMAND_FILE Mode_r s") (auto simp: args_from_file_def)
  have "kept s1 s'" using a True o
    by (cases f) (auto simp: args_from_file_def kept_def bind_eq_Some_conv split: if_splits)
  with fopen_path_kept [OF o] show ?thesis by (rule kept_trans)
qed (simp add: args_from_file_def)

lemma message_marked_length: "length (message_marked r) = length r"
proof -
  have "length (c_string (ended r)) \<le> length (ended r)" unfolding c_string_def by (rule length_takeWhile_le)
  then show ?thesis by (simp add: message_marked_def Let_def ended_def)
qed

lemma args_from_message_ok:
  "args_from_message sys argv boot w = Some (argv', boot') \<Longrightarrow> message_ok boot \<Longrightarrow> message_ok boot'"
  by (auto simp: args_from_message_def message_ok_def message_marked_length split: if_splits option.splits)

lemma zero_message_ok: "message_ok zero_message"
  unfolding message_ok_def zero_message_def bootloader_message.simps length_replicate by simp

text \<open>The kinds of flash on which a message is read.\<close>

definition reads_messages :: "'w os \<Rightarrow> 'w session \<Rightarrow> bool" where
  "reads_messages sys s \<longleftrightarrow> fst (device_flash_type sys s) \<in> {MTD, MMC}"

lemma device_flash_type_base [simp]: "base (snd (device_flash_type sys s)) = base s"
  by (simp add: device_flash_type_def Let_def)

text \<open>The message that is left behind says what the arguments are.\<close>

lemma get_args_leaves:
  assumes u: "misc_usable (sys, D) (base s)" and g: "get_args sys fs argv s = Some (args, s1)" and ok: "args_ok (drop 1 args)"
  shows "misc_usable (sys, D) (base s1) \<and> message_says (drop 1 args) (misc_message (sys, D) (base s1))"
proof -
  obtain t s0 where t: "device_flash_type sys s = (t, s0)" by fastforce
  have b0: "base s0 = base s" using device_flash_type_base [of sys s] by (simp add: t)
  define G where "G = (if t = MTD \<or> t = MMC then get_bootloader_message sys (base s0) else Some (None, base s0))"
  from misc_store.get_stored [OF u] obtain b where
    gm: "get_bootloader_message sys (base s) = Some (Some (misc_message (sys, D) (base s)), b)" "misc_usable (sys, D) b" by auto
  obtain m b where G: "G = Some (m, b)" "misc_usable (sys, D) b" "message_ok (case m of None \<Rightarrow> zero_message | Some m \<Rightarrow> m)"
    using gm u b0 zero_message_ok misc_store.stored_ok [OF u] by (cases "t = MTD \<or> t = MMC") (auto simp: G_def)
  from g G(1) obtain argv1 boot where a: "args_from_message sys argv (case m of None \<Rightarrow> zero_message | Some m \<Rightarrow> m) (machine b) = Some (argv1, boot)"
    by (auto simp: get_args_def t G_def [symmetric] Let_def bind_eq_Some_conv)
  have boot: "message_ok boot" using args_from_message_ok [OF a G(3)] .
  from g G(1) a obtain b1 r b2 where f: "args_from_file sys fs argv1 b = Some (args, b1)"
    and st: "set_bootloader_message sys (boot_message (drop 1 args) boot) b1 = Some (r, b2)" and s1: "s1 = s0\<lparr>base := b2\<rparr>"
    by (auto simp: get_args_def t G_def [symmetric] Let_def bind_eq_Some_conv)
  note says = boot_message_says [OF boot ok]
  have u1: "misc_usable (sys, D) b1" using args_from_file_kept [OF f] G(2) by (rule kept_usable)
  from misc_store.set_stored [OF u1, of "boot_message (drop 1 args) boot"] says st
  show ?thesis by (auto simp: s1 message_says_def)
qed

text \<open>And the next run finds them there.\<close>

lemma get_args_resumes:
  assumes law: "malloc_law sys" and u: "misc_usable (sys, D) (base s)" and says: "message_says args (misc_message (sys, D) (base s))"
    and args: "args_ok args" "args \<noteq> []" and fl: "reads_messages sys s"
    and ign: "\<And>w. os_stat sys ''/tmp/.ignorebootmessage'' w = None"
  shows "\<exists>s1. get_args sys fs [prog] s = Some (''recovery'' # args, s1)"
proof -
  obtain t s0 where t: "device_flash_type sys s = (t, s0)" by fastforce
  have b0: "base s0 = base s" using device_flash_type_base [of sys s] by (simp add: t)
  have t2: "t = MTD \<or> t = MMC" using fl by (auto simp: reads_messages_def t)
  let ?m = "misc_message (sys, D) (base s)"
  from misc_store.get_stored [OF u] obtain b where
    gm: "get_bootloader_message sys (base s) = Some (Some ?m, b)" "misc_usable (sys, D) b" by auto
  define boot where "boot = ?m\<lparr>bm_recovery := message_marked (bm_recovery ?m)\<rparr>"
  have mal: "os_malloc sys n w \<noteq> None" for n w using law by (simp add: malloc_law_def)
  have a: "args_from_message sys [prog] ?m (machine b) = Some (''recovery'' # args, boot)"
    using message_args_says [OF says args(1)] ign mal strdup_ok [OF law] by (simp add: args_from_message_def boot_def list_ex_iff)
  have f: "args_from_file sys fs (''recovery'' # args) b = Some (''recovery'' # args, b)"
    using args(2) by (cases args) (auto simp: args_from_file_def)
  have "message_ok boot" using args_from_message_ok [OF a] says by (simp add: message_says_def)
  then have "message_ok (boot_message args boot)" using boot_message_says [OF _ args(1)] by (simp add: message_says_def)
  from misc_store.set_stored [OF gm(2) this] obtain b2 where
    "set_bootloader_message sys (boot_message args boot) b = Some (0, b2)" by auto
  then show ?thesis using t t2 gm(1) a f by (simp add: get_args_def b0 Let_def)
qed

lemma fopen_path_base:
  "write_intent sys fs intent s = Some s' \<Longrightarrow> kept s s'"
  "copy_log_file sys fs d app t = Some t' \<Longrightarrow> kept (base t) (base t')"
proof -
  assume a: "write_intent sys fs intent s = Some s'"
  show "kept s s'"
  proof (cases intent)
    case (Some i)
    with a obtain f s1 where o: "fopen_path sys fs INTENT_FILE Mode_w s = Some (f, s1)"
      by (cases "fopen_path sys fs INTENT_FILE Mode_w s") (auto simp: write_intent_def)
    with a Some have "kept s1 s'" by (cases f) (auto simp: write_intent_def kept_def)
    with fopen_path_kept [OF o] show ?thesis by (rule kept_trans)
  qed (use a in \<open>simp add: write_intent_def\<close>)
next
  assume a: "copy_log_file sys fs d app t = Some t'"
  then obtain f b where o: "fopen_path sys fs d (if app then Mode_a else Mode_w) (base t) = Some (f, b)"
    by (cases "fopen_path sys fs d (if app then Mode_a else Mode_w) (base t)") (auto simp: copy_log_file_def)
  with a have "kept b (base t')"
    by (cases f) (auto simp: copy_log_file_def kept_def put_world_def Let_def bind_eq_Some_conv split: option.splits prod.splits)
  with fopen_path_kept [OF o] show "kept (base t) (base t')" by (rule kept_trans)
qed

lemma finish_recovery_message:
  assumes u: "misc_usable (sys, D) (base s)" and q: "quiet_law sys (misc_bytes D)" and f: "finish_recovery sys fs intent s = Some s1"
  shows "misc_usable (sys, D) (base s1) \<and> misc_message (sys, D) (base s1) = zero_message"
proof -
  from f obtain b where i: "write_intent sys fs intent (base s) = Some b"
    by (auto simp: finish_recovery_def bind_eq_Some_conv)
  with f obtain s2 s3 where l: "copy_log_file sys fs LOG_FILE True (s\<lparr>base := b\<rparr>) = Some s2" "copy_log_file sys fs LAST_LOG_FILE False s2 = Some s3"
    by (auto simp: finish_recovery_def bind_eq_Some_conv)
  define b4 where "b4 = base (put_world (snd (os_chmod sys LAST_LOG_FILE 416 (world_of s3))) s3)"
  from f i l obtain r5 b5 r6 b6 where st: "set_bootloader_message sys zero_message b4 = Some (r5, b5)"
    and e: "ensure_path_mounted sys COMMAND_FILE b5 = Some (r6, b6)"
    and s1: "base s1 = b6\<lparr>machine := os_sync sys (if r6 \<noteq> 0 then machine b6 else snd (os_unlink sys COMMAND_FILE (machine b6)))\<rparr>"
    by (auto simp: finish_recovery_def bind_eq_Some_conv Let_def b4_def)
  have "kept (base s) b4" using fopen_path_base(1) [OF i] fopen_path_base(2) [OF l(1)] fopen_path_base(2) [OF l(2)]
    by (simp add: kept_def b4_def put_world_def)
  then have u4: "misc_usable (sys, D) b4" using u by (rule kept_usable)
  from misc_store.set_stored [OF u4 zero_message_ok] st have u5: "misc_usable (sys, D) b5" "misc_message (sys, D) b5 = zero_message" by auto
  have "kept b5 (base s1)" using ensure_path_mounted_kept [OF e] by (simp add: kept_def s1)
  then have "misc_usable (sys, D) (base s1)" using u5(1) by (rule kept_usable)
  moreover have "misc_bytes D (world_of s1) = misc_bytes D (machine b5)"
    using ensure_path_mounted_quiet [OF q e] q by (simp add: s1 quiet_law_def)
  ultimately show ?thesis using u5(2) by (simp add: misc_message_def)
qed

lemma zero_message_args: "message_args (bm_recovery zero_message) = None"
proof -
  have "ended (replicate 1024 NUL) = replicate 1024 NUL" unfolding ended_def by (metis list_update_id length_replicate nth_replicate list_update_beyond not_less)
  moreover have "c_string (replicate n NUL) = []" for n by (cases n) (simp_all add: c_string_def)
  ultimately show ?thesis by (simp add: message_args_def zero_message_def strtoks.simps [of _ "[]"] strtok_def)
qed


text \<open>Arguments on the command line need no file.\<close>

lemma get_args_given:
  assumes u: "misc_usable (sys, D) (base s)" and argv: "1 < length argv" and ok: "args_ok (drop 1 argv)"
  shows "\<exists>s1. get_args sys fs argv s = Some (argv, s1)"
proof -
  obtain t s0 where t: "device_flash_type sys s = (t, s0)" by fastforce
  have b0: "base s0 = base s" using device_flash_type_base [of sys s] by (simp add: t)
  from misc_store.get_stored [OF u] obtain b where
    gm: "get_bootloader_message sys (base s) = Some (Some (misc_message (sys, D) (base s)), b)" "misc_usable (sys, D) b" by auto
  have r: "\<exists>b2. set_bootloader_message sys (boot_message (drop 1 argv) m) b' = Some (0, b2)" if "misc_usable (sys, D) b'" "message_ok m" for b' m
  proof -
    have "message_ok (boot_message (drop 1 argv) m)" using boot_message_says [OF that(2) ok] by (simp add: message_says_def)
    from misc_store.set_stored [OF that(1) this] show ?thesis by auto
  qed
  show ?thesis
    using t gm(1) argv r [OF gm(2) misc_store.stored_ok [OF u]] r [OF u zero_message_ok]
    by (cases "t = MTD \<or> t = MMC") (auto simp: get_args_def b0 Let_def args_from_message_def args_from_file_def)
qed

text \<open>
  C6: a run is restartable. Once \<open>get_args\<close> has returned arguments that fit the message, every later start of
  recovery on a machine where the message is still there gets the same arguments, however it is started
  and whatever became of the command file, and leaves the message so again.
\<close>

theorem get_args_restartable:
  assumes "malloc_law sys" and "misc_usable (sys, D) (base s)" and "get_args sys fs argv s = Some (args, s1)"
    and "args_ok (drop 1 args)" "drop 1 args \<noteq> []"
    and "misc_usable (sys, D) (base s2)" "misc_message (sys, D) (base s2) = misc_message (sys, D) (base s1)" "reads_messages sys s2"
    and "\<And>w. os_stat sys ''/tmp/.ignorebootmessage'' w = None"
  shows "\<exists>s3. get_args sys fs [prog] s2 = Some (''recovery'' # drop 1 args, s3) \<and>
    message_says (drop 1 args) (misc_message (sys, D) (base s3))"
proof -
  have "message_says (drop 1 args) (misc_message (sys, D) (base s2))" using get_args_leaves [OF assms(2-4)] assms(7) by simp
  from get_args_resumes [OF assms(1,6) this assms(4,5,8,9)] obtain s3 where
    g: "get_args sys fs [prog] s2 = Some (''recovery'' # drop 1 args, s3)" by blast
  with get_args_leaves [OF assms(6) g] assms(4) show ?thesis by auto
qed

text \<open>
  C34: \<open>finish_recovery\<close>, when it returns, has cleared the message, so a later start takes no arguments from
  it; and it can be called again.
\<close>

theorem finish_recovery_clears:
  assumes "misc_usable (sys, D) (base s)" "quiet_law sys (misc_bytes D)" "finish_recovery sys fs intent s = Some s1"
  shows "misc_usable (sys, D) (base s1) \<and> misc_message (sys, D) (base s1) = zero_message \<and>
    message_args (bm_recovery (misc_message (sys, D) (base s1))) = None"
  using finish_recovery_message [OF assms] zero_message_args by simp

definition misc_session :: "chip session" where
  "misc_session = \<lparr>base = misc_state, the_flash_type = MTD, tmplog_offset = 0\<rparr>"

definition no_fs :: "'w fs_ops" where
  "no_fs = \<lparr>fs_stat = \<lambda>p w. NoEntry, fs_mkdir = \<lambda>p m w. (False, w), fs_utime = \<lambda>p w. (False, w)\<rparr>"

lemma wipe_args_ok: "args_ok [''--wipe_data'']"
  by code_simp

theorem get_args_restartable_witness:
  "\<exists>s1 s3. get_args misc_os no_fs [''/sbin/recovery'', ''--wipe_data''] misc_session = Some ([''/sbin/recovery'', ''--wipe_data''], s1) \<and>
     get_args misc_os no_fs [''/sbin/recovery''] s1 = Some ([''recovery'', ''--wipe_data''], s3)"
proof -
  let ?argv = "[''/sbin/recovery'', ''--wipe_data'']"
  have u: "misc_usable (misc_os, Misc_Flash misc_sample) (base misc_session)" using misc_sample_usable by (simp add: misc_session_def)
  obtain s1 where g: "get_args misc_os no_fs ?argv misc_session = Some (?argv, s1)"
    using get_args_given [OF u, of ?argv] wipe_args_ok by auto
  have u1: "misc_usable (misc_os, Misc_Flash misc_sample) (base s1)" using get_args_leaves [OF u g] wipe_args_ok by simp
  have "malloc_law misc_os" using device_ok(1) [OF misc_device] .
  moreover have "reads_messages misc_os s1" using g
    by (auto simp: reads_messages_def device_flash_type_def get_args_def misc_session_def Let_def bind_eq_Some_conv)
  moreover have "os_stat misc_os p w = None" for p w by (simp add: misc_os_def null_os_def)
  ultimately show ?thesis
    using get_args_restartable [OF _ u g _ _ u1 refl, of "''/sbin/recovery''"] wipe_args_ok g by auto
qed

lemma misc_quiet: "quiet_law misc_os (misc_bytes (Misc_Flash misc_sample))"
proof -
  have b: "misc_blk (x, snd w) = misc_blk w" for x w by (rule ext) (simp add: misc_blk_def)
  have c: "contents p g misc_blk (x, snd w) = contents p g misc_blk w" for p g x w by (rule contents_cong) (rule b)
  have d: "contents p g misc_blk (x + misc_es, y) = contents p g misc_blk (x, y)" for p g x y using c [of p g "x + misc_es" "(x, y)"] by simp
  show ?thesis by (simp add: quiet_law_def misc_sample_def misc_os_def null_os_def c d)
qed

theorem finish_recovery_clears_witness:
  "\<exists>s1. finish_recovery misc_os no_fs None misc_session = Some s1 \<and>
     misc_message (misc_os, Misc_Flash misc_sample) (base s1) = zero_message"
proof -
  have u: "misc_usable (misc_os, Misc_Flash misc_sample) (base misc_session)" using misc_sample_usable by (simp add: misc_session_def)
  have vol: "device_volumes s = device_volumes misc_state \<Longrightarrow> p \<in> {LOG_FILE, LAST_LOG_FILE, COMMAND_FILE} \<Longrightarrow>
      ensure_path_mounted misc_os p s = Some (- 1, s)" for p s
  proof -
    assume "device_volumes s = device_volumes misc_state" "p \<in> {LOG_FILE, LAST_LOG_FILE, COMMAND_FILE}"
    moreover have "volume_for_path (device_volumes misc_state) q = None" if "q \<in> {LOG_FILE, LAST_LOG_FILE, COMMAND_FILE}" for q
      using that by (auto simp: volume_for_path_def misc_state_def LOG_FILE_def LAST_LOG_FILE_def COMMAND_FILE_def)
    ultimately show ?thesis by (simp add: ensure_path_mounted_def ensure_path_mounted_at_mount_point.simps)
  qed
  have log: "copy_log_file misc_os no_fs p app s = Some s" if "p \<in> {LOG_FILE, LAST_LOG_FILE}" "base s = misc_state" for p app s
    using vol [of "base s" p] that by (auto simp: copy_log_file_def fopen_path_def)
  have "os_chmod misc_os = (\<lambda>p m w. (- 1, w))" by (simp add: misc_os_def null_os_def)
  moreover obtain b where "set_bootloader_message misc_os zero_message misc_state = Some (0, b)" "device_volumes b = device_volumes misc_state"
  proof -
    define v where "v = tmp_volume\<lparr>v_mount_point := ''/misc'', v_fs_type := ''mtd'', v_device := Some ''misc''\<rparr>"
    have v: "volume_for_path (device_volumes misc_state) ''/misc'' = Some v" "v_fs_type v = ''mtd''" "v_device v = part_name (mf_part misc_sample)"
      by (simp_all add: volume_for_path_def misc_state_def v_def misc_sample_def misc_part_def)
    have "mtd_state_ok (mtd misc_state)" by (simp add: misc_state_def)
    from set_message_flash [OF misc_sample_law this v(3) zero_message_ok] that show thesis
      by (auto simp: set_bootloader_message_def v(1,2))
  qed
  ultimately have "\<exists>s1. finish_recovery misc_os no_fs None misc_session = Some s1"
    using log vol by (simp add: finish_recovery_def write_intent_def misc_session_def put_world_def Let_def)
  then show ?thesis using finish_recovery_clears [OF u misc_quiet] by blast
qed

end
