(* ===== verification/Flash_Utils.thy ===== *)
theory Flash_Utils
  imports Mmc_Utils Recovery_Boot
begin

text \<open>
  Raw partitions on any kind of flash: \<^verbatim>\<open>bmlutils/bmlutils.c\<close>, for the block management layer of Samsung
  devices, and \<^verbatim>\<open>flashutils/flashutils.c\<close>, which finds out the kind of flash and calls the functions for it.
\<close>

section \<open>The block management layer\<close>

definition BML_UNLOCK_ALL :: int where "BML_UNLOCK_ALL = 0x8A29"
definition BOARD_BML_RECOVERY :: string where "BOARD_BML_RECOVERY = ''/dev/block/bml8''"
definition BML_BLOCK :: nat where "BML_BLOCK = 4096"

text \<open>
  The loop of \<open>restore_internal\<close>. A short block is filled with zeros and is the last one; when the read
  fails, \<open>memset\<close> starts before the buffer, which is undefined.
\<close>

partial_function (option) bml_copy :: "'w os \<Rightarrow> int \<Rightarrow> int \<Rightarrow> 'w \<Rightarrow> (bool \<times> 'w) option" where
  "bml_copy sys srcfd dstfd w =
     (case os_read sys srcfd (int BML_BLOCK) w of (bytes_read, d, w) \<Rightarrow>
        if bytes_read = 0 then Some (True, w)
        else if bytes_read < 0 then None
        else
          case os_write sys dstfd (d @ replicate (BML_BLOCK - length d) 0) w of (n, w) \<Rightarrow>
            if n < int BML_BLOCK then Some (False, w)
            else if bytes_read = int BML_BLOCK then bml_copy sys srcfd dstfd w
            else Some (True, w))"

declare bml_copy.simps [code]

text \<open>Without a file name the input is the standard input.\<close>

definition restore_internal :: "'w os \<Rightarrow> string \<Rightarrow> string option \<Rightarrow> 'w \<Rightarrow> (int \<times> 'w) option" where
  "restore_internal sys bml filename w =
     (case (case filename of None \<Rightarrow> (0, w) | Some f \<Rightarrow> os_open sys f O_RDONLY w) of (srcfd, w) \<Rightarrow>
        if srcfd < 0 then Some (2, w)
        else case os_open sys bml O_RDWR w of (dstfd, w) \<Rightarrow>
          if dstfd < 0 then Some (3, w)
          else case os_ioctl sys dstfd BML_UNLOCK_ALL w of (r, w) \<Rightarrow>
            if r \<noteq> 0 then Some (4, w)
            else Option.bind (bml_copy sys srcfd dstfd w) (\<lambda>(ok, w).
              if \<not> ok then Some (5, w)
              else Some (0, snd (os_close sys srcfd (snd (os_close sys dstfd w))))))"

definition cmd_bml_restore_raw_partition :: "'w os \<Rightarrow> string \<Rightarrow> string option \<Rightarrow> 'w \<Rightarrow> (int \<times> 'w) option" where
  "cmd_bml_restore_raw_partition sys part filename w =
     (if part \<noteq> ''boot'' \<and> part \<noteq> ''recovery'' \<and> part \<noteq> ''recoveryonly'' \<and> take 1 part \<noteq> ''/'' then Some (6, w)
      else
        Option.bind (if part \<noteq> ''recoveryonly'' then restore_internal sys BOARD_BML_BOOT filename w else Some (- 1, w)) (\<lambda>(ret, w).
        if part \<noteq> ''recoveryonly'' \<and> ret \<noteq> 0 then Some (ret, w)
        else
          Option.bind (if part = ''recovery'' \<or> part = ''recoveryonly'' then restore_internal sys BOARD_BML_RECOVERY filename w
                       else Some (ret, w)) (\<lambda>(ret, w).
          if take 1 part = ''/'' then restore_internal sys part filename w else Some (ret, w))))"

definition cmd_bml_backup_raw_partition :: "'w os \<Rightarrow> string \<Rightarrow> string \<Rightarrow> 'w \<Rightarrow> (int \<times> 'w) option" where
  "cmd_bml_backup_raw_partition sys part out_file w =
     (case (if part = ''boot'' then Some BOARD_BML_BOOT
            else if part = ''recovery'' then Some BOARD_BML_RECOVERY
            else if take 1 part = ''/'' then Some part else None) of
        None \<Rightarrow> Some (- 1, w)
      | Some bml \<Rightarrow>
          (case open_both sys bml out_file w of
             (None, w) \<Rightarrow> Some (- 1, w)
           | (Some (fin, fout), w) \<Rightarrow>
               (case stream_size sys fin w of (sz, w) \<Rightarrow> copy_sized sys fin fout sz None w)))"

definition cmd_bml_erase_raw_partition :: "string \<Rightarrow> int" where
  "cmd_bml_erase_raw_partition part = 0"

definition cmd_bml_erase_partition :: "string \<Rightarrow> string \<Rightarrow> int" where
  "cmd_bml_erase_partition part filesystem = - 1"

definition cmd_bml_mount_partition :: "string \<Rightarrow> string \<Rightarrow> string \<Rightarrow> bool \<Rightarrow> int" where
  "cmd_bml_mount_partition part mount_point filesystem read_only = - 1"

definition cmd_bml_get_partition_device :: "string \<Rightarrow> int" where
  "cmd_bml_get_partition_device part = - 1"

text \<open>A command line that does not fit its array is undefined.\<close>

definition system_cmd :: "'w os \<Rightarrow> string \<Rightarrow> 'w \<Rightarrow> (int \<times> 'w) option" where
  "system_cmd sys cmd w = (if PATH_MAX \<le> length cmd then None else Some (os_system sys cmd w))"

definition format_rfs_device :: "'w os \<Rightarrow> string \<Rightarrow> string \<Rightarrow> 'w \<Rightarrow> (int \<times> 'w) option" where
  "format_rfs_device sys device path w =
     (let fatsize = (if path = ''/datadata'' \<or> path = ''/cache'' then ''16'' else ''32'');
          sectorsize = ''1'' in
      Option.bind (system_cmd sys (''/sbin/dd if=/dev/zero of='' @ device @ '' bs=4096 count=10'') w) (\<lambda>(r, w).
      if r \<noteq> 0 then Some (- 1, w)
      else
        Option.bind (system_cmd sys (''/sbin/fat.format -F '' @ fatsize @ '' -S 4096 -s '' @ sectorsize @ '' '' @ device) w) (\<lambda>(r, w).
        Some (if r \<noteq> 0 then - 1 else 0, w))))"

section \<open>Any kind of flash\<close>

text \<open>The static variables of the program with those of the eMMC cards and \<open>handle_data_media\<close>.\<close>

record 'w phone =
  ses :: "'w session"
  mmc :: MmcState
  handle_data_media :: bool

abbreviation ph_base :: "'w phone \<Rightarrow> 'w recovery" where "ph_base s \<equiv> base (ses s)"

abbreviation ph_world :: "'w phone \<Rightarrow> 'w" where "ph_world s \<equiv> machine (base (ses s))"

definition set_base :: "'w recovery \<Rightarrow> 'w phone \<Rightarrow> 'w phone" where
  "set_base b s = s\<lparr>ses := (ses s)\<lparr>base := b\<rparr>\<rparr>"

definition set_world :: "'w \<Rightarrow> 'w phone \<Rightarrow> 'w phone" where
  "set_world w s = set_base ((ph_base s)\<lparr>machine := w\<rparr>) s"

text \<open>Calls on a part of the state: the volumes, the table of one kind of flash, the machine alone.\<close>

definition on_base :: "('w recovery \<Rightarrow> ('a \<times> 'w recovery) option) \<Rightarrow> 'w phone \<Rightarrow> ('a \<times> 'w phone) option" where
  "on_base f s = map_option (\<lambda>(r, b). (r, set_base b s)) (f (ph_base s))"

definition on_mtd :: "(MtdState \<Rightarrow> 'w \<Rightarrow> ('a \<times> MtdState \<times> 'w) option) \<Rightarrow> 'w phone \<Rightarrow> ('a \<times> 'w phone) option" where
  "on_mtd f s = map_option (\<lambda>(r, st, w). (r, set_base ((ph_base s)\<lparr>mtd := st, machine := w\<rparr>) s)) (f (mtd (ph_base s)) (ph_world s))"

definition on_mmc :: "(MmcState \<Rightarrow> 'w \<Rightarrow> ('a \<times> MmcState \<times> 'w) option) \<Rightarrow> 'w phone \<Rightarrow> ('a \<times> 'w phone) option" where
  "on_mmc f s = map_option (\<lambda>(r, st, w). (r, set_world w s\<lparr>mmc := st\<rparr>)) (f (mmc s) (ph_world s))"

definition on_world :: "('w \<Rightarrow> ('a \<times> 'w) option) \<Rightarrow> 'w phone \<Rightarrow> ('a \<times> 'w phone) option" where
  "on_world f s = map_option (\<lambda>(r, w). (r, set_world w s)) (f (ph_world s))"

definition flash_type_of :: "'w os \<Rightarrow> 'w phone \<Rightarrow> flash_type \<times> 'w phone" where
  "flash_type_of sys s = (case device_flash_type sys (ses s) of (t, x) \<Rightarrow> (t, s\<lparr>ses := x\<rparr>))"

definition get_default_filesystem :: "'w os \<Rightarrow> 'w phone \<Rightarrow> string \<times> 'w phone" where
  "get_default_filesystem sys s = (case flash_type_of sys s of (t, s) \<Rightarrow> (if t = MMC then ''ext3'' else ''yaffs2'', s))"

definition get_flash_type :: "string \<Rightarrow> flash_type" where
  "get_flash_type partitionType =
     (if partitionType = ''mtd'' then MTD else if partitionType = ''emmc'' then MMC else if partitionType = ''bml'' then BML
      else UNSUPPORTED)"

definition detect_partition :: "'w os \<Rightarrow> string option \<Rightarrow> string \<Rightarrow> 'w phone \<Rightarrow> flash_type \<times> 'w phone" where
  "detect_partition sys partitionType part s =
     (case flash_type_of sys s of (t, s) \<Rightarrow>
        let t = (if strstr part ''/dev/block/mtd'' then MTD
                 else if strstr part ''/dev/block/mmc'' then MMC
                 else if strstr part ''/dev/block/bml'' then BML else t)
        in (case partitionType of None \<Rightarrow> t | Some ty \<Rightarrow> get_flash_type ty, s))"

definition restore_raw_partition ::
  "'w os \<Rightarrow> string option \<Rightarrow> string \<Rightarrow> string \<Rightarrow> 'w phone \<Rightarrow> (int \<times> 'w phone) option" where
  "restore_raw_partition sys partitionType part filename s =
     (case detect_partition sys partitionType part s of
        (MTD, s) \<Rightarrow> on_mtd (cmd_mtd_restore_raw_partition sys part filename) s
      | (MMC, s) \<Rightarrow> on_mmc (cmd_mmc_restore_raw_partition sys part filename) s
      | (BML, s) \<Rightarrow> on_world (cmd_bml_restore_raw_partition sys part (Some filename)) s
      | (_, s) \<Rightarrow> Some (- 1, s))"

definition backup_raw_partition ::
  "'w os \<Rightarrow> string option \<Rightarrow> string \<Rightarrow> string \<Rightarrow> 'w phone \<Rightarrow> (int \<times> 'w phone) option" where
  "backup_raw_partition sys partitionType part filename s =
     (case detect_partition sys partitionType part s of
        (MTD, s) \<Rightarrow> on_mtd (cmd_mtd_backup_raw_partition sys part filename) s
      | (MMC, s) \<Rightarrow> on_mmc (cmd_mmc_backup_raw_partition sys part filename) s
      | (BML, s) \<Rightarrow> on_world (cmd_bml_backup_raw_partition sys part filename) s
      | (_, s) \<Rightarrow> Some (- 1, s))"

definition erase_raw_partition :: "'w os \<Rightarrow> string option \<Rightarrow> string \<Rightarrow> 'w phone \<Rightarrow> (int \<times> 'w phone) option" where
  "erase_raw_partition sys partitionType part s =
     (case detect_partition sys partitionType part s of
        (MTD, s) \<Rightarrow> on_mtd (cmd_mtd_erase_raw_partition sys part) s
      | (MMC, s) \<Rightarrow> Some (cmd_mmc_erase_raw_partition part, s)
      | (BML, s) \<Rightarrow> Some (cmd_bml_erase_raw_partition part, s)
      | (_, s) \<Rightarrow> Some (- 1, s))"

definition erase_partition :: "'w os \<Rightarrow> string \<Rightarrow> string \<Rightarrow> 'w phone \<Rightarrow> (int \<times> 'w phone) option" where
  "erase_partition sys part filesystem s =
     (case detect_partition sys None part s of
        (MTD, s) \<Rightarrow> on_mtd (cmd_mtd_erase_partition sys part filesystem) s
      | (MMC, s) \<Rightarrow> on_mmc (cmd_mmc_erase_partition sys part filesystem) s
      | (BML, s) \<Rightarrow> Some (cmd_bml_erase_partition part filesystem, s)
      | (_, s) \<Rightarrow> Some (- 1, s))"

definition mount_partition ::
  "'w os \<Rightarrow> string \<Rightarrow> string \<Rightarrow> string \<Rightarrow> bool \<Rightarrow> 'w phone \<Rightarrow> (int \<times> 'w phone) option" where
  "mount_partition sys part mount_point filesystem read_only s =
     (case detect_partition sys None part s of
        (MTD, s) \<Rightarrow> on_mtd (cmd_mtd_mount_partition sys part mount_point filesystem read_only) s
      | (MMC, s) \<Rightarrow> on_mmc (cmd_mmc_mount_partition sys part mount_point filesystem read_only) s
      | (BML, s) \<Rightarrow> Some (cmd_bml_mount_partition part mount_point filesystem read_only, s)
      | (_, s) \<Rightarrow> Some (- 1, s))"

text \<open>The result and the string left in \<open>device\<close>, if any.\<close>

definition get_partition_device :: "'w os \<Rightarrow> string \<Rightarrow> 'w phone \<Rightarrow> ((int \<times> string option) \<times> 'w phone) option" where
  "get_partition_device sys part s =
     (case flash_type_of sys s of
        (MTD, s) \<Rightarrow>
          on_mtd (\<lambda>st w. map_option (\<lambda>((r, d), st, w). ((r, if r = 0 then Some d else None), st, w)) (cmd_mtd_get_partition_device sys part st w)) s
      | (MMC, s) \<Rightarrow> on_mmc (cmd_mmc_get_partition_device sys part) s
      | (BML, s) \<Rightarrow> Some ((cmd_bml_get_partition_device part, None), s)
      | (_, s) \<Rightarrow> Some ((- 1, None), s))"

section \<open>Restoring an image\<close>

text \<open>
  The law of the two descriptors of \<open>restore_internal\<close>: \<open>src w\<close> is what is left to read of a file, \<open>dev w\<close>
  what has been written to the device.
\<close>

definition image_law :: "'w os \<Rightarrow> int \<Rightarrow> int \<Rightarrow> ('w \<Rightarrow> byte list) \<Rightarrow> ('w \<Rightarrow> byte list) \<Rightarrow> bool" where
  "image_law sys srcfd dstfd src dev \<longleftrightarrow>
     (\<forall>n w. \<exists>w'. os_read sys srcfd (int n) w = (int (min n (length (src w))), take n (src w), w') \<and> src w' = drop n (src w) \<and> dev w' = dev w) \<and>
     (\<forall>d w. \<exists>w'. os_write sys dstfd d w = (int (length d), w') \<and> src w' = src w \<and> dev w' = dev w @ d) \<and>
     (\<forall>fd w. dev (snd (os_close sys fd w)) = dev w)"

definition zero_padded :: "byte list \<Rightarrow> byte list" where
  "zero_padded d = d @ replicate (nat ((- int (length d)) mod int BML_BLOCK)) 0"

lemma zero_padded_full: "length d = BML_BLOCK \<Longrightarrow> zero_padded (d @ r) = d @ zero_padded r"
proof -
  assume "length d = BML_BLOCK"
  then have "(- int (length d) - int (length r)) mod int BML_BLOCK = (- int (length r)) mod int BML_BLOCK"
    by (simp add: mod_diff_left_eq [symmetric] del: mod_diff_left_eq)
  then show ?thesis by (simp add: zero_padded_def)
qed

lemma zero_padded_short: "d \<noteq> [] \<Longrightarrow> length d < BML_BLOCK \<Longrightarrow> zero_padded d = d @ replicate (BML_BLOCK - length d) 0"
proof -
  assume d: "d \<noteq> []" "length d < BML_BLOCK"
  have "(- int (length d)) mod int BML_BLOCK = int BML_BLOCK - int (length d)"
    using d by (simp add: zmod_zminus1_eq_if)
  then show ?thesis using d by (simp add: zero_padded_def nat_diff_distrib)
qed


lemma bml_copy_pads:
  assumes law: "image_law sys srcfd dstfd src dev"
  shows "\<exists>w'. bml_copy sys srcfd dstfd w = Some (True, w') \<and> dev w' = dev w @ zero_padded (src w)"
proof (induction "length (src w)" arbitrary: w rule: less_induct)
  case less
  obtain w1 where r: "os_read sys srcfd (int BML_BLOCK) w = (int (min BML_BLOCK (length (src w))), take BML_BLOCK (src w), w1)"
    "src w1 = drop BML_BLOCK (src w)" "dev w1 = dev w"
    using law unfolding image_law_def by meson
  define d where "d = take BML_BLOCK (src w)"
  obtain w2 where w2: "os_write sys dstfd (d @ replicate (BML_BLOCK - length d) 0) w1 = (int (length (d @ replicate (BML_BLOCK - length d) (0 :: byte))), w2)"
    "src w2 = src w1" "dev w2 = dev w1 @ d @ replicate (BML_BLOCK - length d) 0"
    using law unfolding image_law_def by meson
  note step = bml_copy.simps [of sys srcfd dstfd w, unfolded r(1), folded d_def]
  have pos: "0 < BML_BLOCK" by (simp add: BML_BLOCK_def)
  have full: "\<not> int (length (d @ replicate (BML_BLOCK - length d) (0 :: byte))) < int BML_BLOCK" by simp
  consider "src w = []" | "src w \<noteq> []" "length (src w) < BML_BLOCK" | "BML_BLOCK \<le> length (src w)" by linarith
  then show ?case
  proof cases
    case 1
    then show ?thesis unfolding step using r(3) by (simp add: zero_padded_def)
  next
    case 2
    then have "d = src w" by (simp add: d_def)
    with 2 r(3) w2 zero_padded_short [OF 2] show ?thesis unfolding step by simp
  next
    case 3
    then have d: "length d = BML_BLOCK" "src w = d @ src w1" using r(2) by (simp_all add: d_def)
    have "length (src w2) < length (src w)" using d pos w2(2) by simp
    from less [OF this] obtain w' where "bml_copy sys srcfd dstfd w2 = Some (True, w')" "dev w' = dev w2 @ zero_padded (src w2)" by auto
    then show ?thesis unfolding step using 3 d w2 r(3) pos zero_padded_full [OF d(1), of "src w1"] by simp
  qed
qed

text \<open>
  A restored image is the file, filled up with zeros to whole blocks, in the order of the file; the copy
  ends also when the file is a whole number of blocks.
\<close>

theorem restore_internal_pads:
  assumes "os_open sys f O_RDONLY w = (srcfd, w1)" "0 \<le> srcfd" "os_open sys bml O_RDWR w1 = (dstfd, w2)" "0 \<le> dstfd"
    "os_ioctl sys dstfd BML_UNLOCK_ALL w2 = (0, w3)" "image_law sys srcfd dstfd src dev"
  shows "\<exists>w'. restore_internal sys bml (Some f) w = Some (0, w') \<and> dev w' = dev w3 @ zero_padded (src w3) \<and>
    length (zero_padded (src w3)) mod BML_BLOCK = 0"
proof -
  obtain w' where c: "bml_copy sys srcfd dstfd w3 = Some (True, w')" "dev w' = dev w3 @ zero_padded (src w3)"
    using bml_copy_pads [OF assms(6)] by blast
  have "int (length (zero_padded (src w3))) mod int BML_BLOCK = 0"
    using mod_add_right_eq [of "int (length (src w3))" "- int (length (src w3))" "int BML_BLOCK"] by (simp add: zero_padded_def BML_BLOCK_def)
  then have "length (zero_padded (src w3)) mod BML_BLOCK = 0" by (metis of_nat_eq_0_iff of_nat_mod)
  then show ?thesis using assms c by (simp add: restore_internal_def image_law_def)
qed

definition image_os :: "(byte list \<times> byte list) os" where
  "image_os = null_os\<lparr>os_open := (\<lambda>p m w. (3, w)), os_ioctl := (\<lambda>fd r w. (0, w)),
     os_read := (\<lambda>fd n (s, d). (min n (int (length s)), take (nat n) s, drop (nat n) s, d)),
     os_write := (\<lambda>fd b (s, d). (int (length b), s, d @ b))\<rparr>"

theorem restore_internal_pads_witness:
  "\<exists>w'. restore_internal image_os BOARD_BML_BOOT (Some ''/sdcard/boot.img'') ([1, 2, 3], []) = Some (0, w') \<and> snd w' = zero_padded [1, 2, 3]"
proof -
  have "image_law image_os 3 3 fst snd" by (auto simp: image_law_def image_os_def null_os_def)
  from restore_internal_pads [OF _ _ _ _ _ this, where f = "''/sdcard/boot.img''" and w = "([1, 2, 3], [])" and bml = BOARD_BML_BOOT]
  show ?thesis by (simp add: image_os_def null_os_def)
qed

end
