(* ===== verification/Format.thy ===== *)
theory Format
  imports Flash_Utils
begin

text \<open>
  Wiping and formatting volumes: \<open>format_volume\<close> of \<^verbatim>\<open>roots.c\<close> and the functions of \<^verbatim>\<open>eraseandformat.c\<close>
  behind the menus. The answers of the user are arguments.
\<close>

section \<open>Formatting\<close>

definition DATA_WIPE_CMD :: string where
  "DATA_WIPE_CMD = ''cd /data ; for f in $(ls -a | grep -v ^media$); do rm -rf $f; done''"

text \<open>The layout version is the string with its terminator.\<close>

definition write_layout_version :: "'w os \<Rightarrow> 'w \<Rightarrow> 'w" where
  "write_layout_version sys w =
     (if os_stat sys ''/data/media/0'' w = None then w
      else case os_fopen sys ''/data/.layout_version'' True w of
        (None, w) \<Rightarrow> w
      | (Some f, w) \<Rightarrow> snd (os_fclose sys f (snd (os_fwrite sys f [0x32, 0] w))))"

text \<open>The removal of the files of a mounted volume.\<close>

definition remove_files :: "'w os \<Rightarrow> string \<Rightarrow> 'w \<Rightarrow> 'w option" where
  "remove_files sys path w =
     (if path = ''/data'' then Some (write_layout_version sys (snd (os_system sys DATA_WIPE_CMD w)))
      else
        Option.bind (system_cmd sys (''rm -rf '' @ path @ ''/*'') w) (\<lambda>(_, w).
        map_option snd (system_cmd sys (''rm -rf '' @ path @ ''/.*'') w)))"

definition format_unmounted ::
  "'w os \<Rightarrow> ('w \<Rightarrow> int \<times> 'w) \<Rightarrow> string \<Rightarrow> 'w phone \<Rightarrow> (int \<times> 'w phone) option" where
  "format_unmounted sys f path s =
     Option.bind (on_base (ensure_path_unmounted sys path) s) (\<lambda>(r, s).
     if r \<noteq> 0 then Some (- 12, s) else on_world (\<lambda>w. Some (f w)) s)"

text \<open>
  The device may be a null pointer where it is not used; to use it then is undefined, as is \<open>stat\<close> of a
  volume without a device.
\<close>

definition format_unknown_device ::
  "'w os \<Rightarrow> string option \<Rightarrow> string \<Rightarrow> string option \<Rightarrow> 'w phone \<Rightarrow> (int \<times> 'w phone) option" where
  "format_unknown_device sys device path fs_type s =
     (if fs_type \<noteq> None \<and> get_flash_type (the fs_type) \<noteq> UNSUPPORTED then
        Option.bind device (\<lambda>d. erase_raw_partition sys fs_type d s)
      else if path = ''/sd-ext'' \<and> volume_for_path (device_volumes (ph_base s)) ''/sd-ext'' = None then Some (0, s)
      else if path = ''/sd-ext'' \<and>
         (case volume_for_path (device_volumes (ph_base s)) ''/sd-ext'' of
            None \<Rightarrow> False | Some v \<Rightarrow> (case v_device v of None \<Rightarrow> False | Some d \<Rightarrow> os_stat sys d (ph_world s) = None)) then Some (0, s)
      else if path = ''/sd-ext'' \<and> v_device (the (volume_for_path (device_volumes (ph_base s)) ''/sd-ext'')) = None then None
      else if fs_type = Some ''ext3'' then Option.bind device (\<lambda>d. format_unmounted sys (format_ext3_device sys d) path s)
      else if fs_type = Some ''ext2'' then Option.bind device (\<lambda>d. format_unmounted sys (format_ext2_device sys d) path s)
      else
        Option.bind (on_base (ensure_path_mounted sys path) s) (\<lambda>(r, s).
        if r \<noteq> 0 then Some (0, s)
        else
          Option.bind (remove_files sys path (ph_world s)) (\<lambda>w.
          Option.bind (on_base (ensure_path_unmounted sys path) (set_world w s)) (\<lambda>(_, s). Some (0, s)))))"

text \<open>Erasing a flash part, as both formatters do it. The error of \<open>mtd_erase_blocks\<close> is \<open>-1\<close>.\<close>

definition format_mtd :: "'w os \<Rightarrow> string option \<Rightarrow> 'w phone \<Rightarrow> (int \<times> 'w phone) option" where
  "format_mtd sys device s =
     on_mtd (\<lambda>st w.
       Option.bind (mtd_scan_partitions sys st w) (\<lambda>(_, st, w).
       Option.bind device (\<lambda>d.
       case mtd_find_partition_by_name st d of
         None \<Rightarrow> Some (- 1, st, w)
       | Some part \<Rightarrow>
           (case mtd_write_partition sys part w of
              (None, w) \<Rightarrow> Some (- 1, st, w)
            | (Some ctx, w) \<Rightarrow>
                Option.bind (mtd_erase_blocks sys ctx (- 1) w) (\<lambda>(e, ctx, w).
                Option.bind (mtd_write_close sys ctx w) (\<lambda>(c, w).
                Some (if e = - 1 \<or> c \<noteq> 0 then - 1 else 0, st, w))))))) s"

definition make_ext4 :: "'w os \<Rightarrow> string option \<Rightarrow> int \<Rightarrow> string \<Rightarrow> 'w phone \<Rightarrow> (int \<times> 'w phone) option" where
  "make_ext4 sys device len mp s =
     on_world (\<lambda>w. case os_make_ext4fs sys device len mp w of (r, w) \<Rightarrow> Some (if r \<noteq> 0 then - 1 else 0, w)) s"

definition format_volume :: "'w os \<Rightarrow> string \<Rightarrow> 'w phone \<Rightarrow> (int \<times> 'w phone) option" where
  "format_volume sys volume s =
     (case volume_for_path (device_volumes (ph_base s)) volume of
        None \<Rightarrow> Some (- 1, s)
      | Some v \<Rightarrow>
          if v_fs_type v = ''datamedia'' then format_unknown_device sys None volume None s
          else if take 5 volume = ''/data'' \<and> is_data_media (device_volumes (ph_base s)) \<and> \<not> handle_data_media s then
            format_unknown_device sys None volume None s
          else if v_fs_type v = ''ramdisk'' then Some (- 1, s)
          else if v_mount_point v \<noteq> volume then format_unknown_device sys (v_device v) volume None s
          else
            Option.bind (on_base (ensure_path_unmounted sys volume) s) (\<lambda>(r, s).
            if r \<noteq> 0 then Some (- 1, s)
            else if v_fs_type v = ''yaffs2'' \<or> v_fs_type v = ''mtd'' then format_mtd sys (v_device v) s
            else if v_fs_type v = ''ext4'' then make_ext4 sys (v_device v) (v_length v) volume s
            else format_unknown_device sys (v_device v) volume (Some (v_fs_type v)) s))"

definition handle_data_media_format :: "bool \<Rightarrow> 'w phone \<Rightarrow> 'w phone" where
  "handle_data_media_format h s = s\<lparr>handle_data_media := h\<rparr>"

text \<open>The length is converted to an \<open>int\<close>.\<close>

definition format_device ::
  "'w os \<Rightarrow> string option \<Rightarrow> string \<Rightarrow> string \<Rightarrow> 'w phone \<Rightarrow> (int \<times> 'w phone) option" where
  "format_device sys device path fs_type s =
     (case volume_for_path (device_volumes (ph_base s)) path of
        None \<Rightarrow> Some (- 1, s)
      | Some v \<Rightarrow>
          if v_fs_type v = ''datamedia'' then format_unknown_device sys None path None s
          else if take 5 path = ''/data'' \<and> is_data_media (device_volumes (ph_base s)) then format_unknown_device sys None path None s
          else if fs_type = ''ramdisk'' then Some (- 1, s)
          else if fs_type = ''rfs'' then
            Option.bind (on_base (ensure_path_unmounted sys path) s) (\<lambda>(r, s).
            if r \<noteq> 0 then Some (- 1, s)
            else Option.bind device (\<lambda>d. on_world (\<lambda>w. Option.bind (format_rfs_device sys d path w) (\<lambda>(r, w). Some (if r \<noteq> 0 then - 1 else 0, w))) s))
          else if v_mount_point v \<noteq> path then format_unknown_device sys (v_device v) path None s
          else
            Option.bind (on_base (ensure_path_unmounted sys path) s) (\<lambda>(r, s).
            if r \<noteq> 0 then Some (- 1, s)
            else if fs_type = ''yaffs2'' \<or> fs_type = ''mtd'' then format_mtd sys device s
            else if fs_type = ''ext4'' then
              make_ext4 sys device (if v_fs_type v = ''ext4'' then int32 (v_length v) else 0) (v_mount_point v) s
            else format_unknown_device sys device path (Some fs_type) s))"

section \<open>Wiping\<close>

definition erase_volume :: "'w os \<Rightarrow> string \<Rightarrow> 'w phone \<Rightarrow> (int \<times> 'w phone) option" where
  "erase_volume sys volume s =
     format_volume sys volume (if volume = ''/cache'' then s\<lparr>ses := (ses s)\<lparr>tmplog_offset := 0\<rparr>\<rparr> else s)"

text \<open>The volumes are erased in order; the results are not used.\<close>

fun erase_volumes :: "'w os \<Rightarrow> string list \<Rightarrow> 'w phone \<Rightarrow> 'w phone option" where
  "erase_volumes sys [] s = Some s"
| "erase_volumes sys (v # vs) s = Option.bind (erase_volume sys v s) (\<lambda>(_, s). erase_volumes sys vs s)"

definition has_datadata :: "Volume list \<Rightarrow> bool" where
  "has_datadata vs \<longleftrightarrow> volume_for_path vs ''/datadata'' \<noteq> None"

definition device_wipe_data :: "'w phone \<Rightarrow> int \<times> 'w phone" where
  "device_wipe_data s = (0, s)"

definition wipe_data :: "'w os \<Rightarrow> bool \<Rightarrow> int \<Rightarrow> 'w phone \<Rightarrow> 'w phone option" where
  "wipe_data sys confirm chosen_item s =
     (if confirm \<and> chosen_item \<noteq> 7 then Some s
      else
        let s = snd (device_wipe_data s) in
        erase_volumes sys ([''/data'', ''/cache''] @ (if has_datadata (device_volumes (ph_base s)) then [''/datadata''] else []) @
          [''/sd-ext'', ''/sdcard/.android_secure'']) s)"

text \<open>Whether the user agrees where the functions ask; \<open>orswipeprompt\<close> is a setting.\<close>

definition wipe_agreed :: "bool \<Rightarrow> bool \<Rightarrow> bool \<Rightarrow> bool" where
  "wipe_agreed orscallback orswipeprompt answer \<longleftrightarrow> (if orscallback then \<not> orswipeprompt \<or> answer else answer)"

definition erase_cache :: "'w os \<Rightarrow> bool \<Rightarrow> bool \<Rightarrow> bool \<Rightarrow> 'w phone \<Rightarrow> 'w phone option" where
  "erase_cache sys orscallback orswipeprompt answer s =
     (if \<not> wipe_agreed orscallback orswipeprompt answer then Some s else erase_volumes sys [''/cache''] s)"

definition wipe_all :: "'w os \<Rightarrow> bool \<Rightarrow> bool \<Rightarrow> bool \<Rightarrow> 'w phone \<Rightarrow> 'w phone option" where
  "wipe_all sys orscallback orswipeprompt answer s =
     (if \<not> wipe_agreed orscallback orswipeprompt answer then Some s
      else erase_volumes sys [''/system'', ''/data'', ''/cache''] s)"

definition erase_dalvik_cache :: "'w os \<Rightarrow> bool \<Rightarrow> bool \<Rightarrow> bool \<Rightarrow> 'w phone \<Rightarrow> 'w phone option" where
  "erase_dalvik_cache sys orscallback orswipeprompt answer s =
     (if orscallback \<and> orswipeprompt \<and> \<not> answer then Some s
      else
        Option.bind (on_base (ensure_path_mounted sys ''/data'') s) (\<lambda>(r, s).
        if r \<noteq> 0 then Some s
        else
          Option.bind (on_base (ensure_path_mounted sys ''/sd-ext'') s) (\<lambda>(_, s).
          Option.bind (on_base (ensure_path_mounted sys ''/cache'') s) (\<lambda>(_, s).
          let w = snd (os_system sys ''rm -r /data/dalvik-cache'' (ph_world s));
              w = snd (os_system sys ''rm -r /cache/dalvik-cache'' w);
              w = snd (os_system sys ''rm -r /sd-ext/dalvik-cache'' w) in
          map_option snd (on_base (ensure_path_unmounted sys ''/data'') (set_world w s))))))"

section \<open>The menu of partitions\<close>

text \<open>
  \<open>property\<close> is what \<open>property_get\<close> returns for \<^verbatim>\<open>ro.cwm.forbid_format\<close>, by default the list of that
  function.
\<close>

definition forbid_format_default :: string where
  "forbid_format_default = ''/misc,/radio,/bootloader,/recovery,/efs,/wimax''"

definition is_safe_to_format :: "string \<Rightarrow> string \<Rightarrow> bool" where
  "is_safe_to_format property name \<longleftrightarrow> name \<notin> set (strtoks (\<lambda>c. c = CHR '','' \<or> c = CHR '' '') property)"

definition mountable_volumes :: "Volume list \<Rightarrow> Volume list" where
  "mountable_volumes vs = filter (\<lambda>v. v_fs_type v \<notin> {''ramdisk'', ''mtd'', ''emmc'', ''bml'', ''datamedia''}) vs"

definition formatable_volumes :: "string \<Rightarrow> Volume list \<Rightarrow> Volume list" where
  "formatable_volumes property vs =
     filter (\<lambda>v. v_fs_type v \<notin> {''ramdisk'', ''emmc'', ''bml''} \<and> is_safe_to_format property (v_mount_point v)) vs"

text \<open>
  What the choice of an item does: the volumes that can be mounted come first, then those that can be
  formatted, then the fixed items. \<open>answer\<close> is the user's confirmation.
\<close>

datatype partition_action = Toggle_Mount Volume | Format_Volume Volume | Usb_Storage | Dalvik | Format_Data_Media | Partition_Card string | Nothing

definition partition_choice :: "string \<Rightarrow> Volume list \<Rightarrow> nat \<Rightarrow> partition_action" where
  "partition_choice property vs chosen_item =
     (let ms = mountable_volumes vs; fs = formatable_volumes property vs; n = length ms + length fs in
      if chosen_item = n then if is_data_media vs then Dalvik else Usb_Storage
      else if chosen_item = n + 1 then if is_data_media vs then Format_Data_Media else Dalvik
      else if chosen_item = n + 2 then Partition_Card ''/sdcard''
      else if chosen_item = n + 3 then Partition_Card ''/external_sd''
      else if chosen_item = n + 4 then Partition_Card ''/emmc''
      else if chosen_item < length ms then Toggle_Mount (ms ! chosen_item)
      else if chosen_item < n then Format_Volume (fs ! (chosen_item - length ms))
      else Nothing)"

text \<open>The actions on volumes; the other two open menus of their own.\<close>

definition run_partition_action :: "'w os \<Rightarrow> partition_action \<Rightarrow> bool \<Rightarrow> 'w phone \<Rightarrow> 'w phone option" where
  "run_partition_action sys act answer s =
     (case act of
        Toggle_Mount v \<Rightarrow>
          Option.bind (on_base (is_path_mounted sys (v_mount_point v)) s) (\<lambda>(m, s).
          map_option snd (if m then on_base (ensure_path_unmounted sys (v_mount_point v)) s
                          else on_base (ensure_path_mounted sys (v_mount_point v)) s))
      | Format_Volume v \<Rightarrow> if answer then map_option snd (format_volume sys (v_mount_point v) s) else Some s
      | Dalvik \<Rightarrow> if answer then erase_dalvik_cache sys False False True s else Some s
      | Format_Data_Media \<Rightarrow>
          if answer then
            Option.bind (format_volume sys ''/data'' (handle_data_media_format True s)) (\<lambda>(_, s). Some (handle_data_media_format False s))
          else Some s
      | _ \<Rightarrow> Some s)"

section \<open>The shared storage survives a wipe\<close>

lemma base_set_base [simp]: "ph_base (set_base b s) = b" "ph_world (set_world w s) = w"
  "device_volumes (ph_base (set_world w s)) = device_volumes (ph_base s)" "mmc (set_base b s) = mmc s"
  "handle_data_media (set_base b s) = handle_data_media s" "set_base (ph_base s) s = s"
  by (simp_all add: set_base_def set_world_def)

lemma mount_by_type_total:
  "v_fs_type v \<noteq> ''yaffs2'' \<Longrightarrow> \<exists>r s'. mount_by_type sys v p s = Some (r, s')"
  by (auto simp: mount_by_type_def Let_def split_beta)

lemma ensure_path_mounted_total:
  assumes "malloc_law sys" "proc_mounts_law sys entries" "state_ok (mounts s)"
    "volume_for_path (device_volumes s) path = Some v" "v_fs_type v \<noteq> ''datamedia''" "v_fs_type v \<noteq> ''yaffs2''"
  shows "\<exists>r s'. ensure_path_mounted sys path s = Some (r, s')"
proof -
  obtain st' w' where "scan_mounted_volumes sys (mounts s) (machine s) = Some (0, st', w')"
    by (rule scan_mounted_volumes_run [OF assms(1-3), of "machine s"])
  then show ?thesis using assms(4-6) mount_by_type_total [of v sys "v_mount_point v"]
    by (simp add: ensure_path_mounted_def ensure_path_mounted_at_mount_point.simps [of sys path None s] Let_def)
qed

lemma data_media_stays_mounted:
  "is_data_media (device_volumes s) \<Longrightarrow> take 5 path = ''/data'' \<Longrightarrow> ensure_path_unmounted sys path s = Some (0, s)"
  by (simp add: ensure_path_unmounted.simps [of sys path s])

text \<open>A view that the removal of everything but \<^verbatim>\<open>media\<close> and a write to the layout version leave alone.\<close>

definition spared_law :: "'w os \<Rightarrow> ('w \<Rightarrow> 'v) \<Rightarrow> bool" where
  "spared_law sys view \<longleftrightarrow> quiet_law sys view \<and>
     (\<forall>w. view (snd (os_system sys DATA_WIPE_CMD w)) = view w) \<and>
     (\<forall>w. view (snd (os_fopen sys ''/data/.layout_version'' True w)) = view w) \<and>
     (\<forall>w f w1 d. os_fopen sys ''/data/.layout_version'' True w = (Some f, w1) \<longrightarrow>
        view (snd (os_fclose sys f (snd (os_fwrite sys f d w1)))) = view w)"

lemma write_layout_version_spares:
  assumes "spared_law sys view"
  shows "view (write_layout_version sys w) = view w"
proof -
  obtain f w1 where o: "os_fopen sys ''/data/.layout_version'' True w = (f, w1)" by fastforce
  have "view w1 = view w" using assms o unfolding spared_law_def by (metis snd_conv)
  with assms o show ?thesis unfolding spared_law_def by (cases f) (simp_all add: write_layout_version_def)
qed

lemma remove_files_spares:
  "spared_law sys view \<Longrightarrow> \<exists>w'. remove_files sys ''/data'' w = Some w' \<and> view w' = view w"
  by (simp add: remove_files_def write_layout_version_spares) (simp add: spared_law_def)



text \<open>
  The item for \<^verbatim>\<open>/data\<close> and the shared storage makes the file system on a volume that may be mounted:
  \<open>ensure_path_unmounted\<close> does nothing for it.
\<close>

theorem format_data_media_in_place:
  assumes "is_data_media (device_volumes (ph_base s))" "volume_for_path (device_volumes (ph_base s)) ''/data'' = Some v"
    "v_mount_point v = ''/data''" "v_fs_type v = ''ext4''"
  shows "run_partition_action sys Format_Data_Media True s =
    Some (set_world (snd (os_make_ext4fs sys (v_device v) (v_length v) ''/data'' (ph_world s))) (s\<lparr>handle_data_media := False\<rparr>))"
  using assms data_media_stays_mounted [OF assms(1), of "''/data''" sys]
  by (simp add: run_partition_action_def handle_data_media_format_def format_volume_def on_base_def make_ext4_def on_world_def split_beta
      set_base_def set_world_def)


text \<open>A machine whose state is the shared storage and the other files of \<^verbatim>\<open>/data\<close>.\<close>

definition media_os :: "(string list \<times> string list) os" where
  "media_os = null_os\<lparr>os_malloc := \<lambda>n w. Some (replicate (nat n) 0), os_open := \<lambda>p m w. (3, w), os_read := \<lambda>fd n w. (0, [], w),
     os_system := \<lambda>c w. (0, if c = DATA_WIPE_CMD then (fst w, []) else if take 6 c = ''mount '' then w else ([], []))\<rparr>"

definition media_phone :: "(string list \<times> string list) phone" where
  "media_phone = \<lparr>ses = \<lparr>base = \<lparr>mtd = g_mtd_state, mounts = g_mounts_state,
      device_volumes = [tmp_volume, tmp_volume\<lparr>v_mount_point := ''/data'', v_fs_type := ''ext4''\<rparr>,
        tmp_volume\<lparr>v_mount_point := ''/sdcard'', v_fs_type := ''datamedia''\<rparr>],
      machine = ([''photo''], [''app''])\<rparr>, the_flash_type = MMC, tmplog_offset = 0\<rparr>, mmc = g_mmc_state, handle_data_media = False\<rparr>"



end
