(* ===== verification/Load_Keys.thy ===== *)
theory Load_Keys
  imports Mtd_Table
begin

text \<open>
  The public keys that packages are verified with: \<open>load_keys\<close> of \<^verbatim>\<open>install.c\<close>. The file is the text of its
  characters, or \<open>None\<close> when it cannot be opened; \<open>nwords\<close> is \<open>RSANUMWORDS\<close> of \<open>mincrypt\<close>.
\<close>

section \<open>Conversions\<close>

text \<open>
  \<open>%i\<close> is \<open>strtol\<close> with base 0 and \<open>%u\<close> is \<open>strtoul\<close> with base 10, both stored in 32 bits. A white space
  in a format skips any amount of it, another character must be the next one.
\<close>

definition isoct :: "char \<Rightarrow> bool" where
  "isoct c \<longleftrightarrow> 48 \<le> (of_char c :: nat) \<and> (of_char c :: nat) \<le> 55"

definition oct_val :: "string \<Rightarrow> int" where
  "oct_val ds = foldl (\<lambda>a d. 8 * a + (of_char d - 48)) 0 ds"

definition signed_long :: "bool \<Rightarrow> int \<Rightarrow> int" where
  "signed_long neg v = max LONG_MIN (min LONG_MAX (if neg then - v else v))"

definition scan_i :: "string \<Rightarrow> (int \<times> string) option" where
  "scan_i s = (case strtol_sign (dropWhile isspace s) of (neg, r) \<Rightarrow>
     if strip_0x r \<noteq> r then
       let r = strip_0x r; ds = takeWhile (\<lambda>c. hex_digit c \<noteq> None) r in Some (signed_long neg (hex_val ds), drop (length ds) r)
     else if take 1 r = ''0'' then let ds = takeWhile isoct r in Some (signed_long neg (oct_val ds), drop (length ds) r)
     else let ds = takeWhile isdigit r in
       if ds = [] then None else Some (signed_long neg (dec_val ds), drop (length ds) r))"

definition scan_u :: "string \<Rightarrow> (int \<times> string) option" where
  "scan_u s = (case strtol_sign (dropWhile isspace s) of (neg, r) \<Rightarrow>
     let ds = takeWhile isdigit r;
         v = (if dec_val ds < 2 ^ 32 then if neg then - dec_val ds else dec_val ds else 2 ^ 32 - 1)
     in if ds = [] then None else Some (v mod 2 ^ 32, drop (length ds) r))"

definition scan_c :: "char \<Rightarrow> string \<Rightarrow> string option" where
  "scan_c c s = scan_lit [c] (dropWhile isspace s)"

section \<open>A key\<close>

text \<open>The exponent is indeterminate, \<open>None\<close>, when a key starts with neither of the two characters.\<close>

record RSAPublicKey =
  key_len :: int
  key_n0inv :: int
  key_n :: "int list"
  key_rr :: "int list"
  key_exponent :: "int option"

fun scan_words :: "nat \<Rightarrow> string \<Rightarrow> (int list \<times> string) option" where
  "scan_words 0 s = Some ([], s)"
| "scan_words (Suc k) s =
     Option.bind (scan_c CHR '','' s) (\<lambda>s.
     Option.bind (scan_u s) (\<lambda>(v, s).
     Option.bind (scan_words k s) (\<lambda>(vs, s). Some (v # vs, s))))"

text \<open>
  The start of a key: \<open>" %c"\<close> and, for version 2, \<open>"%d {"\<close>, whose last character need not match for the
  conversion to count.
\<close>

definition scan_start :: "string \<Rightarrow> (int option \<times> string) option" where
  "scan_start s =
     (case dropWhile isspace s of
        [] \<Rightarrow> None
      | c # s \<Rightarrow>
          if c = CHR ''{'' then Some (Some 3, s)
          else if c = CHR ''v'' then
            Option.bind (scan_d s) (\<lambda>(version, s).
            let s = (case scan_c CHR ''{'' s of None \<Rightarrow> dropWhile isspace s | Some s \<Rightarrow> s) in
            if version = 2 then Some (Some 65537, s) else None)
          else Some (None, s))"

text \<open>The format \<open>" } } "\<close>: what is read is consumed as far as it matches.\<close>

definition scan_end :: "string \<Rightarrow> string" where
  "scan_end s =
     (case scan_c CHR ''}'' s of
        None \<Rightarrow> dropWhile isspace s
      | Some s \<Rightarrow> (case scan_c CHR ''}'' s of None \<Rightarrow> dropWhile isspace s | Some s \<Rightarrow> dropWhile isspace s))"

definition scan_key :: "nat \<Rightarrow> string \<Rightarrow> (RSAPublicKey \<times> string) option" where
  "scan_key nwords s =
     Option.bind (scan_start s) (\<lambda>(e, s).
     Option.bind (scan_i s) (\<lambda>(len, s).
     Option.bind (scan_c CHR '','' s) (\<lambda>s.
     Option.bind (scan_lit ''0x'' (dropWhile isspace s)) (\<lambda>s.
     Option.bind (scan_x s) (\<lambda>(n0inv, s).
     Option.bind (scan_c CHR '','' s) (\<lambda>s.
     Option.bind (scan_c CHR ''{'' s) (\<lambda>s.
     Option.bind (scan_u s) (\<lambda>(n0, s).
     if len \<noteq> int nwords then None
     else
       Option.bind (scan_words (nwords - 1) s) (\<lambda>(n, s).
       Option.bind (scan_c CHR ''}'' s) (\<lambda>s.
       Option.bind (scan_c CHR '','' s) (\<lambda>s.
       Option.bind (scan_c CHR ''{'' s) (\<lambda>s.
       Option.bind (scan_u s) (\<lambda>(r0, s).
       Option.bind (scan_words (nwords - 1) s) (\<lambda>(rr, s).
       Some (\<lparr>key_len = len, key_n0inv = n0inv mod 2 ^ 32, key_n = n0 # n, key_rr = r0 # rr, key_exponent = e\<rparr>, scan_end s)))))))))))))))"

section \<open>The file\<close>

lemma length_scan_lit: "scan_lit l s = Some r \<Longrightarrow> length r + length l = length s"
  by (induction l s rule: scan_lit.induct) (auto split: if_splits)

lemma length_scan_c: "scan_c c s = Some r \<Longrightarrow> length r < length s"
proof -
  assume "scan_c c s = Some r"
  then have "length r + 1 = length (dropWhile isspace s)" unfolding scan_c_def using length_scan_lit by fastforce
  then show ?thesis using length_dropWhile_le [of isspace s] by linarith
qed

lemma length_strtol_sign: "length (snd (strtol_sign s)) \<le> length s"
  by (auto simp: strtol_sign_def split: list.split)

lemma length_strip_0x: "length (strip_0x s) \<le> length s"
  by (auto simp: strip_0x_def split: list.split)

lemma length_scan_u: "scan_u s = Some (v, r) \<Longrightarrow> length r \<le> length s"
  using length_strtol_sign [of "dropWhile isspace s"] length_dropWhile_le [of isspace s]
  by (auto simp: scan_u_def Let_def split_beta split: if_splits)

lemma length_scan_i: "scan_i s = Some (v, r) \<Longrightarrow> length r \<le> length s"
  using length_strtol_sign [of "dropWhile isspace s"] length_dropWhile_le [of isspace s]
    length_strip_0x [of "snd (strtol_sign (dropWhile isspace s))"]
  by (auto simp: scan_i_def Let_def split_beta split: if_splits)

lemma length_scan_x: "scan_x s = Some (v, r) \<Longrightarrow> length r \<le> length s"
  using length_strtol_sign [of "dropWhile isspace s"] length_dropWhile_le [of isspace s]
    length_strip_0x [of "snd (strtol_sign (dropWhile isspace s))"]
    length_dropWhile_le [of "\<lambda>c. hex_digit c \<noteq> None" "strip_0x (snd (strtol_sign (dropWhile isspace s)))"]
  by (auto simp: scan_x_def Let_def split_beta split: if_splits)

lemma length_scan_d: "scan_d s = Some (v, r) \<Longrightarrow> length r \<le> length s"
  using length_strtol_sign [of "dropWhile isspace s"] length_dropWhile_le [of isspace s]
    length_dropWhile_le [of isdigit "snd (strtol_sign (dropWhile isspace s))"]
  by (auto simp: scan_d_def strtol_def Let_def split_beta split: if_splits)

lemma length_scan_words: "scan_words k s = Some (vs, r) \<Longrightarrow> length r \<le> length s"
proof (induction k arbitrary: s vs)
  case (Suc k)
  then obtain s1 v s2 vs' where "scan_c CHR '','' s = Some s1" "scan_u s1 = Some (v, s2)" "scan_words k s2 = Some (vs', r)"
    by (auto simp: bind_eq_Some_conv)
  note * = this
  from length_scan_c [OF *(1)] length_scan_u [OF *(2)] Suc.IH [OF *(3)] show ?case by linarith
qed simp

lemma length_scan_start: "scan_start s = Some (e, r) \<Longrightarrow> length r < length s"
proof -
  assume a: "scan_start s = Some (e, r)"
  then obtain c t where t: "dropWhile isspace s = c # t" by (cases "dropWhile isspace s") (auto simp: scan_start_def)
  have "length r \<le> length t"
  proof (cases "c = CHR ''v''")
    case True
    with a t obtain version u where u: "scan_d t = Some (version, u)"
      "r = (case scan_c CHR ''{'' u of None \<Rightarrow> dropWhile isspace u | Some s \<Rightarrow> s)"
      by (auto simp: scan_start_def bind_eq_Some_conv Let_def split: if_splits)
    have "length r \<le> length u" using u(2) length_scan_c length_dropWhile_le [of isspace u] by (cases "scan_c CHR ''{'' u") fastforce+
    with length_scan_d [OF u(1)] show ?thesis by linarith
  next
    case False
    with a t show ?thesis by (auto simp: scan_start_def split: if_splits)
  qed
  then show ?thesis using t length_dropWhile_le [of isspace s] by simp
qed

lemma length_scan_end: "length (scan_end s) \<le> length s"
proof -
  have d: "length (dropWhile isspace t) \<le> length t" for t by (rule length_dropWhile_le)
  show ?thesis using d [of s] length_scan_c
    by (auto simp: scan_end_def split: option.split) (meson d le_trans less_imp_le_nat)+
qed

lemma length_scan_key: "scan_key nwords s = Some (k, r) \<Longrightarrow> length r < length s"
proof -
  assume "scan_key nwords s = Some (k, r)"
  then obtain e s1 len s2 s3 s4 ni s5 s6 s7 n0 s8 n s9 s10 s11 s12 r0 s13 rr s14 where
    "scan_start s = Some (e, s1)" "scan_i s1 = Some (len, s2)" "scan_c CHR '','' s2 = Some s3"
    "scan_lit ''0x'' (dropWhile isspace s3) = Some s4" "scan_x s4 = Some (ni, s5)" "scan_c CHR '','' s5 = Some s6"
    "scan_c CHR ''{'' s6 = Some s7" "scan_u s7 = Some (n0, s8)" "scan_words (nwords - 1) s8 = Some (n, s9)"
    "scan_c CHR ''}'' s9 = Some s10" "scan_c CHR '','' s10 = Some s11" "scan_c CHR ''{'' s11 = Some s12"
    "scan_u s12 = Some (r0, s13)" "scan_words (nwords - 1) s13 = Some (rr, s14)" "r = scan_end s14"
    by (auto simp: scan_key_def bind_eq_Some_conv split: if_splits)
  note * = this
  note length_scan_start [OF *(1)] length_scan_i [OF *(2)] length_scan_c [OF *(3)] length_scan_lit [OF *(4)] length_dropWhile_le [of isspace s3]
    length_scan_x [OF *(5)] length_scan_c [OF *(6)] length_scan_c [OF *(7)] length_scan_u [OF *(8)] length_scan_words [OF *(9)]
    length_scan_c [OF *(10)] length_scan_c [OF *(11)] length_scan_c [OF *(12)] length_scan_u [OF *(13)] length_scan_words [OF *(14)]
    length_scan_end [of s14]
  then show ?thesis unfolding *(15) by simp
qed

text \<open>
  The loop over the keys. \<open>realloc\<close> is not checked: \<open>None\<close> is a write through a null pointer. The result
  is \<open>None\<close> inside when the file does not parse.
\<close>

function keys_loop :: "(int \<Rightarrow> bool) \<Rightarrow> nat \<Rightarrow> RSAPublicKey list \<Rightarrow> string \<Rightarrow> RSAPublicKey list option option" where
  "keys_loop realloc_ok nwords out s =
     (if \<not> realloc_ok (int (length out) + 1) then None
      else case scan_key nwords s of
        None \<Rightarrow> Some None
      | Some (key, s) \<Rightarrow>
          (case s of
             [] \<Rightarrow> Some (Some (out @ [key]))
           | c # s \<Rightarrow> if c = CHR '','' then keys_loop realloc_ok nwords (out @ [key]) s else Some None))"
  by pat_completeness auto
termination
  by (relation "measure (\<lambda>(ok, nwords, out, s). length s)") (auto dest: length_scan_key)

declare keys_loop.simps [simp del]

definition load_keys :: "(int \<Rightarrow> bool) \<Rightarrow> nat \<Rightarrow> string option \<Rightarrow> RSAPublicKey list option option" where
  "load_keys realloc_ok nwords content =
     (case content of None \<Rightarrow> Some None | Some s \<Rightarrow> keys_loop realloc_ok nwords [] s)"

section \<open>Reading back\<close>

text \<open>The text of a key, as the comment in the source shows it: the words are written as signed integers.\<close>

definition show_word :: "int \<Rightarrow> string" where
  "show_word v = show_int (if v < 2 ^ 31 then v else v - 2 ^ 32)"

definition show_words :: "int list \<Rightarrow> string" where
  "show_words vs = show_word (hd vs) @ concat (map (\<lambda>v. CHR '','' # show_word v) (tl vs))"

definition show_key :: "RSAPublicKey \<Rightarrow> string" where
  "show_key k = (if key_exponent k = Some 65537 then ''v2 {'' else ''{'') @ show_int (key_len k) @ '',0x'' @ show_hex 8 (key_n0inv k) @
     '',{'' @ show_words (key_n k) @ ''},{'' @ show_words (key_rr k) @ ''}}''"

fun show_keys :: "RSAPublicKey list \<Rightarrow> string" where
  "show_keys [] = []"
| "show_keys [k] = show_key k"
| "show_keys (k # ks) = show_key k @ CHR '','' # show_keys ks"

definition is_word :: "int \<Rightarrow> bool" where
  "is_word v \<longleftrightarrow> 0 \<le> v \<and> v < 2 ^ 32"

definition key_ok :: "nat \<Rightarrow> RSAPublicKey \<Rightarrow> bool" where
  "key_ok nwords k \<longleftrightarrow> 0 < nwords \<and> int nwords \<le> LONG_MAX \<and> key_len k = int nwords \<and> is_word (key_n0inv k) \<and>
     length (key_n k) = nwords \<and> list_all is_word (key_n k) \<and> length (key_rr k) = nwords \<and> list_all is_word (key_rr k) \<and>
     (key_exponent k = Some 3 \<or> key_exponent k = Some 65537)"

lemma show_nat_scan:
  assumes "\<not> isdigit d"
  shows "takeWhile isdigit (show_nat m @ d # r) = show_nat m"
    and "drop (length (show_nat m)) (show_nat m @ d # r) = d # r"
    and "dropWhile isspace (show_nat m @ s) = show_nat m @ s"
    and "strtol_sign (show_nat m @ s) = (False, show_nat m @ s)"
proof -
  obtain c cs where h: "show_nat m = c # cs" using show_nat_nonempty by (cases "show_nat m") auto
  have dig: "\<forall>x \<in> set (show_nat m). isdigit x" by (rule show_nat_digits)
  then have c: "\<not> isspace c" "c \<noteq> CHR ''-''" "c \<noteq> CHR ''+''" using h isdigit_not_sign_space by auto
  show "takeWhile isdigit (show_nat m @ d # r) = show_nat m" using dig assms by (subst takeWhile_append2) auto
  show "dropWhile isspace (show_nat m @ s) = show_nat m @ s" "strtol_sign (show_nat m @ s) = (False, show_nat m @ s)"
    using c by (simp_all add: h strtol_sign_def)
qed simp

lemma scan_u_show_word:
  assumes "is_word v" "\<not> isdigit d"
  shows "scan_u (show_word v @ d # r) = Some (v, d # r)"
proof (cases "v < 2 ^ 31")
  case True
  with assms have "show_word v = show_nat (nat v)" "0 \<le> v" "v < 2 ^ 32" by (auto simp: show_word_def show_int_def is_word_def)
  then show ?thesis using show_nat_scan [OF assms(2)] show_nat_nonempty by (simp add: scan_u_def dec_val_show_nat)
next
  case False
  define m where "m = nat (2 ^ 32 - v)"
  have m: "int m = 2 ^ 32 - v" "show_word v = CHR ''-'' # show_nat m" using False assms
    by (auto simp: m_def show_word_def show_int_def is_word_def)
  have "strtol_sign (dropWhile isspace (show_word v @ d # r)) = (True, show_nat m @ d # r)"
    by (simp add: m(2) strtol_sign_def isspace_def)
  moreover have "(- dec_val (show_nat m)) mod 2 ^ 32 = v" using m(1) assms(1) by (simp add: dec_val_show_nat is_word_def)
  moreover have "dec_val (show_nat m) < 2 ^ 32" using m(1) False by (simp add: dec_val_show_nat)
  ultimately show ?thesis using show_nat_scan(1,2) [OF assms(2)] show_nat_nonempty by (simp add: scan_u_def)
qed

lemma scan_c_next: "\<not> isspace c \<Longrightarrow> scan_c c (c # s) = Some s"
  by (simp add: scan_c_def)

lemma scan_words_show:
  assumes "\<not> isdigit d"
  shows "list_all is_word vs \<Longrightarrow> scan_words (length vs) (concat (map (\<lambda>v. CHR '','' # show_word v) vs) @ d # r) = Some (vs, d # r)"
proof (induction vs)
  case (Cons v vs)
  let ?r = "concat (map (\<lambda>v. CHR '','' # show_word v) vs) @ d # r"
  obtain d' r' where r: "?r = d' # r'" "\<not> isdigit d'" using assms by (cases vs) (auto simp: isdigit_def)
  have "scan_c CHR '','' (CHR '','' # show_word v @ ?r) = Some (show_word v @ ?r)" by (rule scan_c_next) (simp add: isspace_def)
  moreover have "scan_u (show_word v @ ?r) = Some (v, ?r)" using scan_u_show_word [OF _ r(2)] Cons.prems by (simp add: r(1))
  ultimately show ?case using Cons by simp
qed simp

lemma scan_word_list:
  assumes "vs \<noteq> []" "list_all is_word vs" "\<not> isdigit d"
  obtains s where "scan_u (show_words vs @ d # r) = Some (hd vs, s)" "scan_words (length vs - 1) s = Some (tl vs, d # r)"
proof -
  obtain v ws where vs: "vs = v # ws" using assms(1) by (cases vs) auto
  let ?r = "concat (map (\<lambda>v. CHR '','' # show_word v) ws) @ d # r"
  obtain d' r' where r: "?r = d' # r'" "\<not> isdigit d'" using assms(3) by (cases ws) (auto simp: isdigit_def)
  have "scan_u (show_words vs @ d # r) = Some (v, ?r)"
    using scan_u_show_word [OF _ r(2), of v r'] assms(2) by (simp add: vs show_words_def r(1))
  moreover have "scan_words (length ws) ?r = Some (ws, d # r)" using scan_words_show [OF assms(3)] assms(2) by (simp add: vs)
  ultimately show thesis using that by (simp add: vs)
qed

lemma show_nat_hd: "0 < n \<Longrightarrow> hd (show_nat n) \<noteq> CHR ''0''"
proof (induction n rule: show_nat.induct)
  case (1 n)
  show ?case
  proof (cases "n < 10")
    case True
    have "(of_char (char_of (48 + n) :: char) :: nat) \<noteq> of_char CHR ''0''" using True 1(2) by simp
    then have "char_of (48 + n) \<noteq> CHR ''0''" by metis
    then show ?thesis using True by (simp add: show_nat.simps [of n])
  next
    case False
    then have "hd (show_nat (n div 10)) \<noteq> CHR ''0''" using 1 by simp
    then show ?thesis using False show_nat_nonempty by (simp add: show_nat.simps [of n])
  qed
qed

lemma scan_i_show_int:
  assumes "0 < n" "n \<le> LONG_MAX" "\<not> isdigit d"
  shows "scan_i (show_int n @ d # r) = Some (n, d # r)"
proof -
  define m where "m = nat n"
  have s: "show_int n = show_nat m" "0 < m" "int m = n" using assms(1) by (auto simp: show_int_def m_def)
  obtain c cs where h: "show_nat m = c # cs" "c \<noteq> CHR ''0''" using show_nat_nonempty show_nat_hd [OF s(2)] by (cases "show_nat m") auto
  then have "strip_0x (show_nat m @ d # r) = show_nat m @ d # r" "take 1 (show_nat m @ d # r) \<noteq> ''0''"
    by (auto simp: strip_0x_def split: list.split)
  then show ?thesis using show_nat_scan [OF assms(3), of m] show_nat_nonempty assms
    by (simp add: scan_i_def s dec_val_show_nat signed_long_def LONG_MIN_def)
qed

lemma scan_x_hex:
  assumes "0 \<le> v" "v < 2 ^ 32" "hex_digit d = None"
  shows "scan_x (show_hex 8 v @ d # r) = Some (int32 v, d # r)"
proof -
  have "scan_x (CHR '' '' # s) = scan_x s" for s by (simp add: scan_x_def isspace_def)
  then show ?thesis using scan_x_show_hex [OF assms] by metis
qed

lemma scan_lit_append: "scan_lit l (l @ s) = Some s"
  by (induction l) auto

lemma show_int_2: "show_int 2 = ''2''"
  by code_simp

lemma scan_start_show: "e = Some 3 \<or> e = Some 65537 \<Longrightarrow>
  scan_start ((if e = Some 65537 then ''v2 {'' else ''{'') @ s) = Some (e, s)"
  using scan_d_show_int [of 2 "CHR '' ''" "CHR ''{'' # s"] scan_c_next [of "CHR ''{''" s]
  by (auto simp: scan_start_def isspace_def isdigit_def LONG_MAX_def scan_c_def show_int_2)

lemma scan_key_show:
  assumes k: "key_ok nwords k" and s: "s = [] \<or> \<not> isspace (hd s)"
  shows "scan_key nwords (show_key k @ s) = Some (k, s)"
proof -
  have ns: "\<not> isspace CHR '',''" "\<not> isspace CHR ''{''" "\<not> isspace CHR ''}''" "\<not> isspace CHR ''0''"
    and nd: "\<not> isdigit CHR '',''" "\<not> isdigit CHR ''}''" "hex_digit CHR '','' = None"
    by (simp_all add: isspace_def isdigit_def hex_digit_def)
  note [simp] = scan_c_next [OF ns(1)] scan_c_next [OF ns(2)] scan_c_next [OF ns(3)]
  let ?a4 = "''}}'' @ s"
  let ?a3 = "show_words (key_rr k) @ ?a4"
  let ?a2 = "show_words (key_n k) @ ''},{'' @ ?a3"
  let ?a1 = "show_hex 8 (key_n0inv k) @ '',{'' @ ?a2"
  have len: "key_n k \<noteq> []" "key_rr k \<noteq> []" "length (key_n k) - 1 = nwords - 1" "length (key_rr k) - 1 = nwords - 1"
    using k by (auto simp: key_ok_def)
  have w: "list_all is_word (key_n k)" "list_all is_word (key_rr k)" using k by (auto simp: key_ok_def)
  have 1: "scan_start (show_key k @ s) = Some (key_exponent k, show_int (key_len k) @ '',0x'' @ ?a1)"
    using scan_start_show [of "key_exponent k"] k by (simp add: show_key_def key_ok_def)
  have 2: "scan_i (show_int (key_len k) @ '',0x'' @ ?a1) = Some (key_len k, '',0x'' @ ?a1)"
    using scan_i_show_int [of "key_len k" "CHR '',''"] k nd(1) by (simp add: key_ok_def)
  have 3: "scan_lit ''0x'' (dropWhile isspace (''0x'' @ ?a1)) = Some ?a1" using ns(4) by simp
  have 4: "scan_x ?a1 = Some (int32 (key_n0inv k), '',{'' @ ?a2)" "int32 (key_n0inv k) mod 2 ^ 32 = key_n0inv k"
    using scan_x_hex [OF _ _ nd(3), of "key_n0inv k"] int32_mod [of "key_n0inv k"] k by (auto simp: key_ok_def is_word_def)
  obtain s1 where 5: "scan_u ?a2 = Some (hd (key_n k), s1)" "scan_words (nwords - 1) s1 = Some (tl (key_n k), ''},{'' @ ?a3)"
    using scan_word_list [OF len(1) w(1) nd(2), of "'',{'' @ ?a3", unfolded len(3)] by auto
  obtain s2 where 6: "scan_u ?a3 = Some (hd (key_rr k), s2)" "scan_words (nwords - 1) s2 = Some (tl (key_rr k), ?a4)"
    using scan_word_list [OF len(2) w(2) nd(2), of "''}'' @ s", unfolded len(4)] by auto
  have 7: "scan_end ?a4 = s" using s ns(3) by (cases s) (simp_all add: scan_end_def)
  have "scan_key nwords (show_key k @ s) = Some (\<lparr>key_len = key_len k, key_n0inv = key_n0inv k, key_n = hd (key_n k) # tl (key_n k),
      key_rr = hd (key_rr k) # tl (key_rr k), key_exponent = key_exponent k\<rparr>, s)"
    unfolding scan_key_def 1 using 2 3 4 5 6 7 k by (simp add: key_ok_def del: scan_lit.simps)
  then show ?thesis using len by simp
qed

lemma keys_loop_show:
  assumes "\<And>n. realloc_ok n"
  shows "ks \<noteq> [] \<Longrightarrow> list_all (key_ok nwords) ks \<Longrightarrow> keys_loop realloc_ok nwords out (show_keys ks) = Some (Some (out @ ks))"
proof (induction ks arbitrary: out rule: show_keys.induct)
  case (2 k)
  then have "scan_key nwords (show_key k) = Some (k, [])" using scan_key_show [of nwords k "[]"] by simp
  then show ?case using assms by (simp add: keys_loop.simps [of _ _ out])
next
  case (3 k k' ks)
  have "scan_key nwords (show_key k @ CHR '','' # show_keys (k' # ks)) = Some (k, CHR '','' # show_keys (k' # ks))"
    using 3 by (intro scan_key_show) (simp_all add: isspace_def)
  with 3 assms show ?case by (simp add: keys_loop.simps [of _ _ out])
qed simp

lemma keys_loop_returns: "\<exists>r. keys_loop (\<lambda>n. True) nwords out s = Some r"
proof (induction "length s" arbitrary: out s rule: less_induct)
  case less
  show ?case
  proof (cases "scan_key nwords s")
    case None
    then show ?thesis by (simp add: keys_loop.simps [of _ nwords out s])
  next
    case (Some p)
    obtain k r where p: "p = (k, r)" by (cases p)
    show ?thesis
    proof (cases r)
      case Nil
      then show ?thesis using Some p by (simp add: keys_loop.simps [of _ nwords out s])
    next
      case (Cons c r')
      then have "length r' < length s" using length_scan_key Some p by fastforce
      from less [OF this] show ?thesis using Some p Cons by (simp add: keys_loop.simps [of _ nwords out s])
    qed
  qed
qed

text \<open>
  C36: the loader returns for every file, and returns exactly the keys of a file that is written in the
  documented format, in order, of both versions.
\<close>

theorem load_keys_reads:
  assumes "ks \<noteq> []" "list_all (key_ok nwords) ks"
  shows "load_keys (\<lambda>n. True) nwords (Some (show_keys ks)) = Some (Some ks) \<and> (\<exists>r. load_keys (\<lambda>n. True) nwords content = Some r)"
  using keys_loop_show [of "\<lambda>n. True" ks nwords "[]"] keys_loop_returns [of nwords "[]"] assms
  by (cases content) (auto simp: load_keys_def)

definition sample_keys :: "RSAPublicKey list" where
  "sample_keys = [\<lparr>key_len = 2, key_n0inv = 3374755105, key_n = [1795090719, 3599964420], key_rr = [3437017481, 1175080310], key_exponent = Some 3\<rparr>,
     \<lparr>key_len = 2, key_n0inv = 7, key_n = [1, 2], key_rr = [3, 4294967295], key_exponent = Some 65537\<rparr>]"

theorem load_keys_reads_witness:
  "load_keys (\<lambda>n. True) 2 (Some (show_keys sample_keys)) = Some (Some sample_keys)"
proof -
  have "sample_keys \<noteq> []" "list_all (key_ok 2) sample_keys" by code_simp+
  then show ?thesis using load_keys_reads by blast
qed

text \<open>A key that starts with any other character is read too, and its exponent is whatever was in the memory.\<close>

lemma unknown_key_start: "scan_start (CHR ''x'' # s) = Some (None, s)"
  by (simp add: scan_start_def isspace_def)

end
