(* ===== verification/Zip_Archive.thy ===== *)
theory Zip_Archive
  imports Hash_Table Byte_Codec "HOL-Library.Multiset"
begin

text \<open>
  The directory of a Zip archive: \<^verbatim>\<open>minzip/Zip.c\<close> from the name comparison to \<open>mzFindZipEntry\<close>. The
  archive is the mapped file, a list of bytes whose first byte has the address \<open>base\<close>; positions are
  offsets into it. Entries are kept in an array sorted by name and, as pointers into that array,
  in the hash table of the theory \<open>Hash_Table\<close>. The overflow checks of \<open>safe_iop\<close> are parameters.
  \<open>None\<close> is undefined behaviour or a failed assertion.
\<close>

section \<open>Model\<close>

definition CENSIG :: u32 where "CENSIG = 0x02014b50"
definition CENHDR :: nat where "CENHDR = 46"
definition ENDSIG :: u32 where "ENDSIG = 0x06054b50"
definition ENDHDR :: nat where "ENDHDR = 22"
definition LOCSIG :: u32 where "LOCSIG = 0x04034b50"
definition LOCHDR :: nat where "LOCHDR = 30"
definition CENVEM_UNIX :: int where "CENVEM_UNIX = 768"
lemmas zip_consts = CENHDR_def ENDHDR_def LOCHDR_def

record ZipEntry =
  fileName :: "byte list"
  offset :: int
  compLen :: int
  uncompLen :: int
  compression :: int
  modTime :: int
  crc32 :: int
  versionMadeBy :: int
  externalFileAttributes :: int

text \<open>
  What the hash table points to: an entry of the array, by its index. A search passes the name
  itself, a C string, in place of an entry.
\<close>

datatype zptr = EntryAt nat | NameAt "byte list"

fun memcmp :: "byte list \<Rightarrow> byte list \<Rightarrow> int" where
  "memcmp (a # as) (b # bs) = (if a = b then memcmp as bs else if a < b then - 1 else 1)"
| "memcmp _ _ = 0"

fun zname :: "ZipEntry list \<Rightarrow> zptr \<Rightarrow> byte list" where
  "zname es (EntryAt i) = fileName (es ! i)"
| "zname es (NameAt s) = s"

definition name_cmp :: "byte list \<Rightarrow> byte list \<Rightarrow> int" where
  "name_cmp a b = (if length a \<noteq> length b then int (length a) - int (length b) else memcmp a b)"

definition hashcmpZipEntry :: "ZipEntry list \<Rightarrow> zptr \<Rightarrow> zptr \<Rightarrow> int" where
  "hashcmpZipEntry es entry1 entry2 = name_cmp (zname es entry1) (zname es entry2)"

definition hashcmpZipName :: "ZipEntry list \<Rightarrow> zptr \<Rightarrow> zptr \<Rightarrow> int" where
  "hashcmpZipName es entry name = name_cmp (zname es entry) (zname es name)"

definition computeHash :: "byte list \<Rightarrow> u32" where
  "computeHash name = foldl (\<lambda>hash c. hash * 31 + ucast c) 2 name"

text \<open>The table after the call; a duplicate only produces a warning.\<close>

definition addEntryToHashTable :: "ZipEntry list \<Rightarrow> zptr HashTable \<Rightarrow> nat \<Rightarrow> zptr HashTable option" where
  "addEntryToHashTable es pHash i =
     map_option snd (hash_add (hashcmpZipEntry es) pHash (computeHash (fileName (es ! i))) (EntryAt i))"

definition validFilename :: "byte list \<Rightarrow> bool" where
  "validFilename name \<longleftrightarrow> length name < PATH_MAX \<and> list_all (\<lambda>c. 32 \<le> c \<and> c < 127) name"

text \<open>The search for the end of the central directory, backwards from \<open>ptr\<close>.\<close>

definition endsig_at :: "byte list \<Rightarrow> nat \<Rightarrow> bool" where
  "endsig_at m ptr \<longleftrightarrow> get1 (drop ptr m) = Some (ucast (ENDSIG AND 0xff)) \<and> get4LE (drop ptr m) = Some ENDSIG"

fun find_eocd :: "byte list \<Rightarrow> nat \<Rightarrow> nat option" where
  "find_eocd m 0 = (if endsig_at m 0 then Some 0 else None)"
| "find_eocd m (Suc ptr) = (if endsig_at m (Suc ptr) then Some (Suc ptr) else find_eocd m ptr)"

text \<open>\<open>strncmp\<close> on two pieces of the same length, and the order of names.\<close>

fun strncmp :: "byte list \<Rightarrow> byte list \<Rightarrow> int" where
  "strncmp (a # as) (b # bs) =
     (if a \<noteq> b then (if a < b then - 1 else 1) else if a = 0 then 0 else strncmp as bs)"
| "strncmp _ _ = 0"

definition name_diff :: "byte list \<Rightarrow> byte list \<Rightarrow> int" where
  "name_diff a b =
     (let diffLen = (if length a < length b then length a else length b);
          diff = strncmp (take diffLen a) (take diffLen b)
      in if diff = 0 then int (length a) - int (length b) else diff)"

text \<open>The binary search for the place of a new entry; the result is the last value of \<open>high\<close>.\<close>

function target_search :: "ZipEntry list \<Rightarrow> byte list \<Rightarrow> int \<Rightarrow> int \<Rightarrow> int" where
  "target_search es name low high =
     (if low \<le> high then
        let mid = low + (high - low) div 2; diff = name_diff (fileName (es ! nat mid)) name
        in if diff < 0 then target_search es name (mid + 1) high
           else if diff > 0 then target_search es name low (mid - 1)
           else mid
      else high)"
  by pat_completeness auto
termination
  by (relation "measure (\<lambda>(es, name, low, high). nat (high - low + 1))") auto

declare target_search.simps [simp del]

definition insert_target :: "ZipEntry list \<Rightarrow> byte list \<Rightarrow> nat" where
  "insert_target es name = (if es = [] then 0 else nat (target_search es name 0 (int (length es) - 1) + 1))"

definition insert_entry :: "ZipEntry list \<Rightarrow> ZipEntry \<Rightarrow> ZipEntry list option" where
  "insert_entry es e =
     (let target = insert_target es (fileName e)
      in if target \<le> length es then Some (take target es @ e # drop target es) else None)"

text \<open>
  The fields of one record of the central directory at \<open>ptr\<close>: \<open>Inl ()\<close> where parsing gives up,
  else the entry and the length of the record. \<open>safe_ptr\<close> and \<open>safe_long\<close> are the two uses of
  \<open>safe_add\<close>, on addresses and on \<open>long\<close>s.
\<close>

definition get_long :: "byte list \<Rightarrow> nat \<Rightarrow> int option" where
  "get_long m p = map_option sint (get4LE (drop p m))"

definition get_short :: "byte list \<Rightarrow> nat \<Rightarrow> int option" where
  "get_short m p = map_option uint (get2LE (drop p m))"

definition local_offset ::
  "(int \<Rightarrow> int \<Rightarrow> bool) \<Rightarrow> (int \<Rightarrow> int \<Rightarrow> bool) \<Rightarrow> int \<Rightarrow> byte list \<Rightarrow> u32 \<Rightarrow> int \<Rightarrow> (unit + int) option" where
  "local_offset safe_ptr safe_long base m localHdrOffset clen =
     (let off = uint localHdrOffset in
      if \<not> safe_ptr base off then Some (Inl ())
      else if (base + off + int LOCHDR) mod 2 ^ 32 > base + int (length m) then Some (Inl ())
      else if off > int (length m) then None
      else case get4LE (drop (nat off) m) of
        None \<Rightarrow> None
      | Some sig \<Rightarrow>
          if sig \<noteq> LOCSIG then Some (Inl ())
          else case (get_short m (nat off + 26), get_short m (nat off + 28)) of
            (Some nam, Some ext) \<Rightarrow>
              let pos = int32 (off + int LOCHDR + nam + ext) in
              if \<not> safe_long pos clen then Some (Inl ())
              else if (pos mod 2 ^ 32 + clen mod 2 ^ 32) mod 2 ^ 32 > int (length m) then Some (Inl ())
              else Some (Inr pos)
          | _ \<Rightarrow> None)"

definition central_record ::
  "(int \<Rightarrow> int \<Rightarrow> bool) \<Rightarrow> (int \<Rightarrow> int \<Rightarrow> bool) \<Rightarrow> int \<Rightarrow> byte list \<Rightarrow> nat \<Rightarrow> (unit + ZipEntry \<times> nat) option" where
  "central_record safe_ptr safe_long base m ptr =
     (if ptr + CENHDR > length m then Some (Inl ())
      else case get4LE (drop ptr m) of
        None \<Rightarrow> None
      | Some sig \<Rightarrow>
        if sig \<noteq> CENSIG then Some (Inl ())
        else case (get4LE (drop (ptr + 42) m), get_short m (ptr + 28), get_short m (ptr + 30), get_short m (ptr + 32)) of
          (Some localHdrOffset, Some fileNameLen, Some extraLen, Some commentLen) \<Rightarrow>
            if ptr + CENHDR + nat fileNameLen > length m then Some (Inl ())
            else let name = slice (ptr + CENHDR) (nat fileNameLen) m in
              if \<not> validFilename name then Some (Inl ())
              else (case (get_long m (ptr + 20), get_long m (ptr + 24), get_short m (ptr + 10), get_long m (ptr + 12),
                          get_long m (ptr + 16), get_short m (ptr + 4), get_long m (ptr + 38)) of
                (Some clen, Some ulen, Some how, Some tim, Some crc, Some vem, Some atx) \<Rightarrow>
                  if vem AND 0xff00 \<noteq> 0 \<and> vem AND 0xff00 \<noteq> CENVEM_UNIX then Some (Inl ())
                  else (case local_offset safe_ptr safe_long base m localHdrOffset clen of
                      None \<Rightarrow> None
                    | Some (Inl _) \<Rightarrow> Some (Inl ())
                    | Some (Inr off) \<Rightarrow>
                        Some (Inr (\<lparr>fileName = name, offset = off, compLen = clen, uncompLen = ulen, compression = how,
                                    modTime = tim, crc32 = crc, versionMadeBy = vem, externalFileAttributes = atx\<rparr>,
                                   CENHDR + nat fileNameLen + nat extraLen + nat commentLen)))
              | _ \<Rightarrow> None)
        | _ \<Rightarrow> None)"

text \<open>The loop over the central directory, with the number of records left.\<close>

fun central_directory ::
  "(int \<Rightarrow> int \<Rightarrow> bool) \<Rightarrow> (int \<Rightarrow> int \<Rightarrow> bool) \<Rightarrow> int \<Rightarrow> byte list \<Rightarrow> nat \<Rightarrow> nat \<Rightarrow> ZipEntry list
   \<Rightarrow> (unit + ZipEntry list) option" where
  "central_directory safe_ptr safe_long base m 0 ptr es = Some (Inr es)"
| "central_directory safe_ptr safe_long base m (Suc left) ptr es =
     (case central_record safe_ptr safe_long base m ptr of
        None \<Rightarrow> None
      | Some (Inl _) \<Rightarrow> Some (Inl ())
      | Some (Inr (e, len)) \<Rightarrow>
          (case insert_entry es e of
             None \<Rightarrow> None
           | Some es' \<Rightarrow> central_directory safe_ptr safe_long base m left (ptr + len) es'))"

fun add_entries :: "ZipEntry list \<Rightarrow> nat list \<Rightarrow> zptr HashTable \<Rightarrow> zptr HashTable option" where
  "add_entries es [] t = Some t"
| "add_entries es (i # is) t =
     (case addEntryToHashTable es t i of None \<Rightarrow> None | Some t' \<Rightarrow> add_entries es is t')"

text \<open>
  \<open>parseZipArchive\<close>: \<open>Some None\<close> is \<open>false\<close>. The three flags say whether the allocations of the
  entries, of the hash table and of its slots succeed.
\<close>

definition parseZipArchive ::
  "(int \<Rightarrow> int \<Rightarrow> bool) \<Rightarrow> (int \<Rightarrow> int \<Rightarrow> bool) \<Rightarrow> bool \<times> bool \<times> bool \<Rightarrow> int \<Rightarrow> byte list
   \<Rightarrow> (ZipEntry list \<times> zptr HashTable) option option" where
  "parseZipArchive safe_ptr safe_long mem base m =
     (case get4LE m of
        None \<Rightarrow> None
      | Some val \<Rightarrow>
        if val = ENDSIG then Some None
        else if val \<noteq> LOCSIG then Some None
        else if length m < ENDHDR then None
        else case find_eocd m (length m - ENDHDR) of
          None \<Rightarrow> Some None
        | Some ptr \<Rightarrow>
          (case (get_short m (ptr + 8), get4LE (drop (ptr + 16) m)) of
            (Some entries, Some cdOffset) \<Rightarrow>
              if entries = 0 \<or> uint cdOffset \<ge> int (length m) then Some None
              else (case mem of (entries_ok, malloc_ok, calloc_ok) \<Rightarrow>
                case mzHashTableCreate malloc_ok calloc_ok (mzHashSize (word_of_int entries)) False of
                  None \<Rightarrow> None
                | Some None \<Rightarrow> Some None
                | Some (Some pHash) \<Rightarrow>
                    if \<not> entries_ok then Some None
                    else (case central_directory safe_ptr safe_long base m (nat entries) (nat (uint cdOffset)) [] of
                        None \<Rightarrow> None
                      | Some (Inl _) \<Rightarrow> Some None
                      | Some (Inr es) \<Rightarrow>
                          map_option (\<lambda>t. Some (es, t)) (add_entries es [0..<length es] pHash)))
          | _ \<Rightarrow> None))"

text \<open>\<open>mzFindZipEntry\<close> returns a pointer into the array or \<open>NULL\<close>.\<close>

definition mzFindZipEntry :: "ZipEntry list \<times> zptr HashTable \<Rightarrow> byte list \<Rightarrow> zptr option option" where
  "mzFindZipEntry ar name = hash_find (hashcmpZipName (fst ar)) (snd ar) (computeHash name) (NameAt name)"

definition mzIsZipEntrySymlink :: "ZipEntry \<Rightarrow> bool" where
  "mzIsZipEntrySymlink e \<longleftrightarrow> versionMadeBy e AND 0xff00 = CENVEM_UNIX
     \<and> drop_bit 16 (externalFileAttributes e) AND 0xF000 = 0xA000"

definition mzGetZipEntryAt :: "ZipEntry list \<times> zptr HashTable \<Rightarrow> nat \<Rightarrow> ZipEntry option" where
  "mzGetZipEntryAt ar index = (if index < length (fst ar) then Some (fst ar ! index) else None)"

section \<open>The order of names\<close>

lemma strncmp_sign:
  "length a = length b \<Longrightarrow> 0 \<notin> set a \<Longrightarrow>
   (strncmp a b < 0 \<longleftrightarrow> a < b) \<and> (strncmp a b = 0 \<longleftrightarrow> a = b)"
  by (induction a b rule: strncmp.induct) auto

lemma less_via_prefix:
  fixes a b :: "byte list"
  assumes "n = min (length a) (length b)"
  shows "a < b \<longleftrightarrow> take n a < take n b \<or> take n a = take n b \<and> length a < length b"
  using assms
proof (induction a arbitrary: b n)
  case Nil
  then show ?case by (cases b) auto
next
  case (Cons x a)
  show ?case
  proof (cases b)
    case (Cons y b')
    with Cons.prems obtain n' where "n = Suc n'" "n' = min (length a) (length b')" by auto
    with Cons Cons.IH [of n' b'] show ?thesis by auto
  qed (use Cons.prems in auto)
qed

lemma name_diff_sign:
  assumes "0 \<notin> set a"
  shows "name_diff a b < 0 \<longleftrightarrow> a < b" "name_diff a b = 0 \<longleftrightarrow> a = b"
proof -
  let ?n = "min (length a) (length b)"
  have n: "(if length a < length b then length a else length b) = ?n" by simp
  have z: "0 \<notin> set (take ?n a)" using assms by (meson in_set_takeD)
  have s: "(strncmp (take ?n a) (take ?n b) < 0 \<longleftrightarrow> take ?n a < take ?n b)
    \<and> (strncmp (take ?n a) (take ?n b) = 0 \<longleftrightarrow> take ?n a = take ?n b)"
    by (rule strncmp_sign [OF _ z]) simp
  show "name_diff a b < 0 \<longleftrightarrow> a < b"
    using s less_via_prefix [OF refl, of a b] unfolding name_diff_def n Let_def by auto
  show "name_diff a b = 0 \<longleftrightarrow> a = b"
    using s unfolding name_diff_def n Let_def by auto
qed

lemma name_diff_pos: "0 \<notin> set a \<Longrightarrow> 0 < name_diff a b \<longleftrightarrow> b < a"
  using name_diff_sign [of a b] by (metis linorder_neqE_linordered_idom not_less_iff_gr_or_eq linorder_less_linear)

lemma valid_no_NUL: "validFilename name \<Longrightarrow> 0 \<notin> set name"
  by (auto simp: validFilename_def list_all_iff)

section \<open>The array stays sorted\<close>

definition names_ok :: "ZipEntry list \<Rightarrow> bool" where
  "names_ok es \<longleftrightarrow> sorted (map fileName es) \<and> (\<forall>e \<in> set es. validFilename (fileName e))"

lemma names_ok_nth: "names_ok es \<Longrightarrow> i \<le> j \<Longrightarrow> j < length es \<Longrightarrow> fileName (es ! i) \<le> fileName (es ! j)"
  using sorted_nth_mono [of "map fileName es" i j] by (simp add: names_ok_def)

lemma names_ok_no_NUL: "names_ok es \<Longrightarrow> j < length es \<Longrightarrow> 0 \<notin> set (fileName (es ! j))"
  by (simp add: names_ok_def valid_no_NUL)

definition splits_at :: "ZipEntry list \<Rightarrow> byte list \<Rightarrow> int \<Rightarrow> bool" where
  "splits_at es name t \<longleftrightarrow> 0 \<le> t \<and> t \<le> int (length es) \<and> (\<forall>j < nat t. fileName (es ! j) \<le> name)
     \<and> (\<forall>j < length es. nat t \<le> j \<longrightarrow> name \<le> fileName (es ! j))"

lemma target_search_splits:
  "names_ok es \<Longrightarrow> 0 \<le> low \<Longrightarrow> high < int (length es) \<Longrightarrow> low \<le> high + 1 \<Longrightarrow>
    (\<forall>j < nat low. fileName (es ! j) < name) \<Longrightarrow> (\<forall>j < length es. high < int j \<longrightarrow> name < fileName (es ! j)) \<Longrightarrow>
    splits_at es name (target_search es name low high + 1)"
proof (induction es name low high rule: target_search.induct)
  case (1 es name low high)
  show ?case
  proof (cases "low \<le> high")
    case False
    then have "target_search es name low high = high" by (simp add: target_search.simps [of es name low high])
    moreover from False "1.prems" have "low = high + 1" by simp
    ultimately show ?thesis
      using "1.prems" by (auto simp: splits_at_def intro: less_imp_le)
  next
    case True
    define mid where "mid = low + (high - low) div 2"
    have mid: "low \<le> mid" "mid \<le> high" "0 \<le> mid" "nat mid < length es"
      using True "1.prems" unfolding mid_def by auto
    note ord = names_ok_nth [OF "1.prems"(1)]
    note sgn = name_diff_sign [OF names_ok_no_NUL [OF "1.prems"(1) mid(4)], of name]
      name_diff_pos [OF names_ok_no_NUL [OF "1.prems"(1) mid(4)], of name]
    note unfold = target_search.simps [of es name low high, folded mid_def]
    consider "name_diff (fileName (es ! nat mid)) name < 0" | "0 < name_diff (fileName (es ! nat mid)) name"
      | "name_diff (fileName (es ! nat mid)) name = 0" by linarith
    then show ?thesis
    proof cases
      case 1
      have "fileName (es ! j) < name" if "j < nat (mid + 1)" for j
        using ord [of j "nat mid"] that mid 1 sgn by fastforce
      with "1.IH"(1) [folded mid_def, OF True refl refl 1 "1.prems"(1)] "1.prems" mid show ?thesis
        by (simp add: unfold True 1 Let_def)
    next
      case 2
      have "name < fileName (es ! j)" if "j < length es" "mid - 1 < int j" for j
        using ord [of "nat mid" j] that mid 2 sgn by fastforce
      with "1.IH"(2) [folded mid_def, OF True refl refl _ 2 "1.prems"(1)] "1.prems" mid 2 show ?thesis
        by (simp add: unfold True Let_def)
    next
      case 3
      have "fileName (es ! j) \<le> name" if "j < nat (mid + 1)" for j
        using ord [of j "nat mid"] that mid 3 sgn by fastforce
      moreover have "name \<le> fileName (es ! j)" if "j < length es" "nat (mid + 1) \<le> j" for j
        using ord [of "nat mid" j] that mid 3 sgn by fastforce
      ultimately show ?thesis using mid 3 by (simp add: unfold True Let_def splits_at_def)
    qed
  qed
qed

lemma insert_target_splits:
  assumes "names_ok es"
  shows "splits_at es name (int (insert_target es name))"
proof (cases "es = []")
  case True
  then show ?thesis by (simp add: insert_target_def splits_at_def)
next
  case False
  with target_search_splits [OF assms, of 0 "int (length es) - 1" name]
  have "splits_at es name (target_search es name 0 (int (length es) - 1) + 1)" by auto
  with False show ?thesis by (simp add: insert_target_def splits_at_def)
qed

lemma insert_entry_ok:
  assumes ok: "names_ok es" "validFilename (fileName e)"
  obtains es' where "insert_entry es e = Some es'" "names_ok es'" "mset es' = add_mset e (mset es)"
proof -
  define t where "t = insert_target es (fileName e)"
  have t: "t \<le> length es" "\<forall>j < t. fileName (es ! j) \<le> fileName e"
    "\<forall>j < length es. t \<le> j \<longrightarrow> fileName e \<le> fileName (es ! j)"
    using insert_target_splits [OF ok(1), of "fileName e"] by (auto simp: splits_at_def t_def)
  let ?es = "take t es @ e # drop t es"
  have "sorted (map fileName (take t es))" "sorted (map fileName (drop t es))"
    using ok(1) by (auto simp: names_ok_def simp flip: take_map drop_map)
  moreover have "fileName x \<le> fileName e" if "x \<in> set (take t es)" for x
    using that t by (auto simp: in_set_conv_nth)
  moreover have "fileName e \<le> fileName x" if "x \<in> set (drop t es)" for x
    using that t by (auto simp: in_set_conv_nth)
  ultimately have "sorted (map fileName ?es)"
    by (auto simp: sorted_append intro: order_trans)
  moreover have "set ?es = insert e (set es)"
    using append_take_drop_id [of t es] by (metis Un_insert_right list.simps(15) set_append)
  ultimately have "names_ok ?es" using ok by (simp add: names_ok_def)
  moreover have "mset ?es = add_mset e (mset es)"
    using append_take_drop_id [of t es] by (metis mset.simps(2) mset_append union_mset_add_mset_right)
  moreover have "insert_entry es e = Some ?es" using t(1) by (simp add: insert_entry_def t_def Let_def)
  ultimately show thesis using that by blast
qed

section \<open>Scanning the directory\<close>

lemma central_record_valid:
  "central_record safe_ptr safe_long base m ptr = Some (Inr (e, len)) \<Longrightarrow> validFilename (fileName e)"
  by (auto simp: central_record_def Let_def split: if_splits option.splits sum.splits)

text \<open>The records of the directory in file order: what the array holds, before sorting.\<close>

fun directory_records ::
  "(int \<Rightarrow> int \<Rightarrow> bool) \<Rightarrow> (int \<Rightarrow> int \<Rightarrow> bool) \<Rightarrow> int \<Rightarrow> byte list \<Rightarrow> nat \<Rightarrow> nat \<Rightarrow> ZipEntry list" where
  "directory_records safe_ptr safe_long base m 0 ptr = []"
| "directory_records safe_ptr safe_long base m (Suc left) ptr =
     (case central_record safe_ptr safe_long base m ptr of
        Some (Inr (e, len)) \<Rightarrow> e # directory_records safe_ptr safe_long base m left (ptr + len)
      | _ \<Rightarrow> [])"

lemma central_directory_ok:
  "names_ok es \<Longrightarrow> central_directory safe_ptr safe_long base m n ptr es = Some (Inr es') \<Longrightarrow>
   names_ok es' \<and> length es' = length es + n
   \<and> mset es' = mset es + mset (directory_records safe_ptr safe_long base m n ptr)"
proof (induction n arbitrary: ptr es)
  case 0
  then show ?case by simp
next
  case (Suc n)
  from Suc.prems(2) obtain e len where r: "central_record safe_ptr safe_long base m ptr = Some (Inr (e, len))"
    by (auto split: option.splits sum.splits)
  from insert_entry_ok [OF Suc.prems(1) central_record_valid [OF r]] obtain es1 where
    es1: "insert_entry es e = Some es1" "names_ok es1" "mset es1 = add_mset e (mset es)" by blast
  with Suc.IH [OF es1(2)] Suc.prems(2) r mset_eq_length [of es1 "e # es"] show ?case by simp
qed

section \<open>The hash table finds the first entry of a name\<close>

lemma memcmp_eq_0: "length a = length b \<Longrightarrow> memcmp a b = 0 \<longleftrightarrow> a = b"
  by (induction a b rule: memcmp.induct) auto

lemma name_cmp_eq_0 [simp]: "name_cmp a b = 0 \<longleftrightarrow> a = b"
  by (auto simp: name_cmp_def memcmp_eq_0)

definition zkey :: "ZipEntry list \<Rightarrow> zptr \<Rightarrow> u32" where
  "zkey es p = computeHash (zname es p)"

lemma zkey_key: "hs.key_of (hashcmpZipEntry es) (zkey es)"
  unfolding hs.key_of_def hashcmpZipEntry_def zkey_def by (auto intro!: equivpI reflpI sympI transpI)

lemma add_entries_add_all:
  "add_entries es is t = add_all (hash_add (hashcmpZipEntry es)) (zkey es) t (map EntryAt is)"
  by (induction "is" arbitrary: t)
    (auto simp: addEntryToHashTable_def zkey_def split: option.splits)

lemma get_short_range: "get_short m p = Some v \<Longrightarrow> 0 \<le> v \<and> v < 65536"
proof -
  assume "get_short m p = Some v"
  then obtain w :: u16 where "v = uint w" by (auto simp: get_short_def)
  then show ?thesis using uint_lt2p [of w] by simp
qed

lemma hash_size_small:
  assumes "0 < e" "e < 65536"
  shows "1 \<le> unat (mzHashSize (word_of_int e)) \<and> unat (mzHashSize (word_of_int e)) \<le> 2 ^ 28"
proof -
  let ?w = "word_of_int e :: u32"
  have "?w = of_nat (nat e)" using assms by simp
  moreover have "unat (of_nat (nat e) :: u32) = nat e" using assms by (subst unat_of_nat) simp
  ultimately have e: "unat ?w = nat e" by metis
  have "nat e < 65536" using assms by simp
  then have m: "unat (?w * 8) = nat e * 8"
    using e unat_mult_lem [of ?w 8] by simp
  then have d: "unat ((?w * 8) div 5) = nat e * 8 div 5" by (simp add: unat_div)
  have b: "nat e * 8 div 5 + 1 < 2 ^ 28" using assms by simp
  then have "unat ((?w * 8) div 5 + 1) = nat e * 8 div 5 + 1"
    using d unat_add_lem [of "(?w * 8) div 5" 1] by simp
  with b show ?thesis by (simp add: mzHashSize_def LOAD_DENOM_def LOAD_NUMER_def)
qed

lemma hashed_directory:
  assumes "0 < entries" "entries < 65536" "length es = nat entries"
    and "mzHashTableCreate malloc_ok calloc_ok (mzHashSize (word_of_int entries)) False = Some (Some t0)"
  obtains t where "add_entries es [0..<length es] t0 = Some t" "hash_inv t"
    "hs.holds_firsts (hashcmpZipEntry es) (zkey es) t (map EntryAt [0..<length es])"
proof -
  have "malloc_ok" "calloc_ok" using assms(4) by (auto simp: mzHashTableCreate_def split: if_splits)
  with assms(4) create_ok [where 'a = zptr and sz = "mzHashSize (word_of_int entries)" and ff = False] hash_size_small [OF assms(1,2)]
  have t0: "hash_inv t0" "live (pEntries t0) = {}" "room t0 (length es)"
    using assms(2,3) by (auto simp: room_def)
  then have "hs.holds_firsts (hashcmpZipEntry es) (zkey es) t0 []" by (simp add: hs.holds_firsts_def)
  from hs.add_all_firsts [OF zkey_key t0(1) this, of "map EntryAt [0..<length es]"] t0(3) that show thesis
    by (auto simp: add_entries_add_all)
qed

lemma find_map: "List.find P (map f xs) = map_option f (List.find (P \<circ> f) xs)"
  by (induction xs) auto

lemma hashcmp_same: "hashcmpZipName es = hashcmpZipEntry es"
  by (intro ext) (simp add: hashcmpZipName_def hashcmpZipEntry_def)

lemma find_in_directory:
  assumes "hash_inv t" "hs.holds_firsts (hashcmpZipEntry es) (zkey es) t (map EntryAt [0..<length es])"
  shows "mzFindZipEntry (es, t) name
    = Some (map_option EntryAt (List.find (\<lambda>i. fileName (es ! i) = name) [0..<length es]))"
proof -
  have "hash_find (hashcmpZipEntry es) t (zkey es (NameAt name)) (NameAt name) =
      Some (List.find (\<lambda>z. hashcmpZipEntry es z (NameAt name) = 0) (map EntryAt [0..<length es]))"
    by (rule hs.find_firsts [OF zkey_key assms])
  then show ?thesis
    by (simp add: mzFindZipEntry_def hashcmp_same zkey_def find_map hashcmpZipEntry_def comp_def)
qed

text \<open>What a successful parse gives.\<close>

lemma parseZipArchive_SomeE:
  assumes "parseZipArchive safe_ptr safe_long mem base m = Some (Some (es, t))"
  obtains ptr entries cd where "find_eocd m (length m - ENDHDR) = Some ptr" "get_short m (ptr + 8) = Some entries"
    "get4LE (drop (ptr + 16) m) = Some cd"
    "central_directory safe_ptr safe_long base m (nat entries) (nat (uint cd)) [] = Some (Inr es)"
    "names_ok es" "length es = nat entries" "0 < entries"
    "mset es = mset (directory_records safe_ptr safe_long base m (nat entries) (nat (uint cd)))"
    "hash_inv t" "hs.holds_firsts (hashcmpZipEntry es) (zkey es) t (map EntryAt [0..<length es])"
proof -
  from assms obtain ptr entries cd a b c t0 where
    f: "find_eocd m (length m - ENDHDR) = Some ptr" "get_short m (ptr + 8) = Some entries"
    "get4LE (drop (ptr + 16) m) = Some cd"
    and cdir: "central_directory safe_ptr safe_long base m (nat entries) (nat (uint cd)) [] = Some (Inr es)"
    and ne: "entries \<noteq> 0" and mem: "mem = (a, b, c)"
    and cr: "mzHashTableCreate b c (mzHashSize (word_of_int entries)) False = Some (Some t0)"
    and add: "add_entries es [0..<length es] t0 = Some t"
    by (auto simp: parseZipArchive_def split: option.splits if_splits sum.splits prod.splits)
  have pos: "0 < entries" "entries < 65536" using get_short_range [OF f(2)] ne by auto
  have d: "names_ok es" "length es = nat entries"
    "mset es = mset (directory_records safe_ptr safe_long base m (nat entries) (nat (uint cd)))"
    using central_directory_ok [OF _ cdir] by (auto simp: names_ok_def)
  from hashed_directory [OF pos d(2) cr] add have
    "hash_inv t" "hs.holds_firsts (hashcmpZipEntry es) (zkey es) t (map EntryAt [0..<length es])" by auto
  with that f cdir d pos(1) show thesis by blast
qed

section \<open>No read leaves the mapping\<close>

lemma get4LE_ok: "p + 4 \<le> length m \<Longrightarrow> get4LE (drop p m) \<noteq> None"
proof -
  assume "p + 4 \<le> length m"
  then obtain a b c d r where "drop p m = a # b # c # d # r"
    by (cases "drop p m" rule: list.exhaust; cases "tl (drop p m)"; cases "tl (tl (drop p m))";
        cases "tl (tl (tl (drop p m)))") (auto dest!: arg_cong [of _ _ length])
  then show ?thesis by (simp add: get4LE_def)
qed

lemma get2LE_ok: "p + 2 \<le> length m \<Longrightarrow> get2LE (drop p m) \<noteq> None"
proof -
  assume "p + 2 \<le> length m"
  then obtain a b r where "drop p m = a # b # r"
    by (cases "drop p m" rule: list.exhaust; cases "tl (drop p m)") (auto dest!: arg_cong [of _ _ length])
  then show ?thesis by (simp add: get2LE_def)
qed

lemma get_field_ok: "p + 2 \<le> length m \<Longrightarrow> get_short m p \<noteq> None" "p + 4 \<le> length m \<Longrightarrow> get_long m p \<noteq> None"
  using get2LE_ok [of p m] get4LE_ok [of p m] by (simp_all add: get_short_def get_long_def)

text \<open>
  The one way out: an offset of a local header so close to the end of the address space that the
  address of the end of that header wraps around.
\<close>

definition header_wraps :: "int \<Rightarrow> byte list \<Rightarrow> bool" where
  "header_wraps base m \<longleftrightarrow> (\<exists>p off. get4LE (drop p m) = Some off \<and> base + uint off < 2 ^ 32
     \<and> 2 ^ 32 \<le> base + uint off + int LOCHDR)"

lemma local_offset_safe:
  assumes "\<And>a b. safe_ptr a b \<longleftrightarrow> a + b < 2 ^ 32" "get4LE (drop p m) = Some off" "\<not> header_wraps base m" "0 \<le> base"
  shows "local_offset safe_ptr safe_long base m off clen \<noteq> None"
proof -
  have "uint off + int LOCHDR \<le> int (length m)"
    if "base + uint off < 2 ^ 32" "(base + uint off + int LOCHDR) mod 2 ^ 32 \<le> base + int (length m)"
  proof -
    have "base + uint off + int LOCHDR < 2 ^ 32" using assms(2,3) that(1) by (force simp: header_wraps_def)
    moreover have "0 \<le> base + uint off + int LOCHDR" using assms(4) by simp
    ultimately show ?thesis using that(2) by simp
  qed
  moreover have "get4LE (drop (nat (uint off)) m) \<noteq> None" "get_short m (nat (uint off) + 26) \<noteq> None" "get_short m (nat (uint off) + 28) \<noteq> None"
    if "uint off + int LOCHDR \<le> int (length m)"
  proof -
    have "0 \<le> uint off" by simp
    with that have "nat (uint off) + LOCHDR \<le> length m" by linarith
    then show "get4LE (drop (nat (uint off)) m) \<noteq> None" "get_short m (nat (uint off) + 26) \<noteq> None" "get_short m (nat (uint off) + 28) \<noteq> None"
      by - (rule get4LE_ok get_field_ok, simp add: LOCHDR_def)+
  qed
  ultimately show ?thesis
    by (cases "base + uint off < 2 ^ 32") (auto simp: local_offset_def Let_def assms(1) not_less)
qed

lemma central_record_safe:
  assumes "\<And>a b. safe_ptr a b \<longleftrightarrow> a + b < 2 ^ 32" "\<not> header_wraps base m" "0 \<le> base"
  shows "central_record safe_ptr safe_long base m ptr \<noteq> None"
proof (cases "ptr + CENHDR > length m")
  case False
  note ok = get4LE_ok [of _ m] get_field_ok [of _ m]
  from False have f: "get4LE (drop ptr m) \<noteq> None" "get4LE (drop (ptr + 42) m) \<noteq> None" "get_short m (ptr + 28) \<noteq> None"
    "get_short m (ptr + 30) \<noteq> None" "get_short m (ptr + 32) \<noteq> None" "get_long m (ptr + 20) \<noteq> None"
    "get_long m (ptr + 24) \<noteq> None" "get_short m (ptr + 10) \<noteq> None" "get_long m (ptr + 12) \<noteq> None"
    "get_long m (ptr + 16) \<noteq> None" "get_short m (ptr + 4) \<noteq> None" "get_long m (ptr + 38) \<noteq> None"
    by - (rule ok, simp add: CENHDR_def)+
  then obtain sig off nl el cl c u h t cr v a where vals: "get4LE (drop ptr m) = Some sig" "get4LE (drop (ptr + 42) m) = Some off"
    "get_short m (ptr + 28) = Some nl" "get_short m (ptr + 30) = Some el" "get_short m (ptr + 32) = Some cl"
    "get_long m (ptr + 20) = Some c" "get_long m (ptr + 24) = Some u" "get_short m (ptr + 10) = Some h"
    "get_long m (ptr + 12) = Some t" "get_long m (ptr + 16) = Some cr" "get_short m (ptr + 4) = Some v"
    "get_long m (ptr + 38) = Some a"
    by blast
  from local_offset_safe [OF assms(1) vals(2) assms(2,3)] obtain r where
    "local_offset safe_ptr safe_long base m off c = Some r" by blast
  then show ?thesis by (cases r) (simp_all add: central_record_def vals Let_def)
qed (simp add: central_record_def)

lemma central_directory_safe:
  assumes "\<And>a b. safe_ptr a b \<longleftrightarrow> a + b < 2 ^ 32" "\<not> header_wraps base m" "0 \<le> base"
  shows "names_ok es \<Longrightarrow> central_directory safe_ptr safe_long base m n ptr es \<noteq> None"
proof (induction n arbitrary: ptr es)
  case (Suc n)
  from central_record_safe [OF assms] obtain r where r: "central_record safe_ptr safe_long base m ptr = Some r" by blast
  show ?case
  proof (cases r)
    case (Inr p)
    obtain e len where p: "p = (e, len)" by (cases p)
    from insert_entry_ok [OF Suc.prems central_record_valid, of safe_ptr safe_long base m ptr e len] r Inr p
    obtain es' where "insert_entry es e = Some es'" "names_ok es'" by metis
    with Suc.IH r Inr p show ?thesis by simp
  qed (simp add: r)
qed simp

lemma find_eocd_le: "find_eocd m p = Some q \<Longrightarrow> q \<le> p"
  by (induction m p rule: find_eocd.induct) (auto split: if_splits)

section \<open>Properties\<close>

text \<open>
  An archive with the single empty entry \<open>a\<close>: a local header, the central directory at offset 31
  and the end record. \<open>pad n\<close> is a run of zero bytes.
\<close>

definition pad :: "nat \<Rightarrow> byte list" where
  "pad n = replicate n 0"

definition sample_zip :: "byte list" where
  "sample_zip = bytes4LE LOCSIG @ pad 22 @ [1, 0, 0, 0, 0x61] @
     bytes4LE CENSIG @ pad 24 @ [1, 0] @ pad 16 @ [0x61] @
     bytes4LE ENDSIG @ pad 4 @ [1, 0] @ pad 6 @ [31, 0, 0, 0, 0, 0]"

definition add_fits :: "int \<Rightarrow> int \<Rightarrow> bool" where
  "add_fits a b \<longleftrightarrow> a + b < 2 ^ 32"

definition long_add_fits :: "int \<Rightarrow> int \<Rightarrow> bool" where
  "long_add_fits a b \<longleftrightarrow> LONG_MIN \<le> a + b \<and> a + b \<le> LONG_MAX"

lemma sample_zip_parses:
  obtains ar where "parseZipArchive add_fits long_add_fits (True, True, True) 4096 sample_zip = Some (Some ar)"
    "map fileName (fst ar) = [[0x61]]"
proof -
  have "case parseZipArchive add_fits long_add_fits (True, True, True) 4096 sample_zip of
      Some (Some ar) \<Rightarrow> map fileName (fst ar) = [[0x61]] | _ \<Rightarrow> False"
    by code_simp
  with that show thesis by (auto split: option.splits)
qed

text \<open>A test of \<open>header_wraps\<close> that runs.\<close>

definition wrap_free :: "int \<Rightarrow> byte list \<Rightarrow> bool" where
  "wrap_free base m = list_all (\<lambda>p. case get4LE (drop p m) of None \<Rightarrow> True
     | Some off \<Rightarrow> base + uint off + int LOCHDR < 2 ^ 32) [0..<length m]"

lemma wrap_free_ok: "wrap_free base m \<Longrightarrow> \<not> header_wraps base m"
proof
  assume w: "wrap_free base m" and "header_wraps base m"
  then obtain p off where p: "get4LE (drop p m) = Some off" "2 ^ 32 \<le> base + uint off + int LOCHDR"
    by (auto simp: header_wraps_def)
  from p(1) have "p < length m" by (cases "p < length m") (simp_all add: get4LE_def)
  with w p show False by (force simp: wrap_free_def list_all_iff split: option.splits)
qed



text \<open>
  C20: a successful parse leaves the entries of the central directory, each once, in an array sorted
  by name whose names are printable; and \<open>mzFindZipEntry\<close> returns for every name the first entry of
  that name in the array, and \<open>NULL\<close> exactly when no entry has it.
\<close>

theorem mzFindZipEntry_finds:
  assumes "parseZipArchive safe_ptr safe_long mem base m = Some (Some ar)"
  shows "sorted (map fileName (fst ar)) \<and> list_all (validFilename \<circ> fileName) (fst ar)
    \<and> (\<exists>eocd n cd. find_eocd m (length m - ENDHDR) = Some eocd \<and> get_short m (eocd + 8) = Some (int n)
         \<and> get4LE (drop (eocd + 16) m) = Some cd
         \<and> mset (fst ar) = mset (directory_records safe_ptr safe_long base m n (nat (uint cd))) \<and> length (fst ar) = n)
    \<and> mzFindZipEntry ar name
        = Some (map_option EntryAt (List.find (\<lambda>i. fileName (fst ar ! i) = name) [0..<length (fst ar)]))"
proof -
  obtain es t where ar: "ar = (es, t)" by (cases ar)
  from assms [unfolded ar] show ?thesis
  proof (rule parseZipArchive_SomeE, goal_cases)
    case (1 ptr entries cd)
    then have "get_short m (ptr + 8) = Some (int (nat entries))" by simp
    with 1 have "\<exists>eocd n cd. find_eocd m (length m - ENDHDR) = Some eocd \<and> get_short m (eocd + 8) = Some (int n)
         \<and> get4LE (drop (eocd + 16) m) = Some cd
         \<and> mset es = mset (directory_records safe_ptr safe_long base m n (nat (uint cd))) \<and> length es = n" by blast
    moreover have "list_all (validFilename \<circ> fileName) es" "sorted (map fileName es)"
      using 1(5) by (simp_all add: names_ok_def list_all_iff)
    ultimately show ?case using find_in_directory [OF 1(9,10), of name] by (simp add: ar)
  qed
qed

theorem mzFindZipEntry_finds_witness:
  "\<exists>ar. parseZipArchive add_fits long_add_fits (True, True, True) 4096 sample_zip = Some (Some ar)
    \<and> mzFindZipEntry ar [0x61] = Some (Some (EntryAt 0)) \<and> mzFindZipEntry ar [0x62] = Some None"
proof -
  from sample_zip_parses obtain ar where ar: "parseZipArchive add_fits long_add_fits (True, True, True) 4096 sample_zip = Some (Some ar)"
    "map fileName (fst ar) = [[0x61]]" by blast
  then obtain e where e: "fst ar = [e]" "fileName e = [0x61]" by (cases "fst ar") auto
  with mzFindZipEntry_finds [OF ar(1), of "[0x61]"] mzFindZipEntry_finds [OF ar(1), of "[0x62]"] ar(1)
  show ?thesis by auto
qed


text \<open>Two offsets and lengths the checks of the local header let through.\<close>

theorem wrapping_header_offset:
  "local_offset add_fits long_add_fits 4096 sample_zip 0xFFFFEFF0 0 = None"
  by code_simp

theorem negative_length_accepted:
  "local_offset add_fits long_add_fits 4096 sample_zip 0 (- 20) = Some (Inr 31)"
  by code_simp

end
