(* ===== verification/Verifier.thy ===== *)
theory Verifier
  imports Zip_Archive
begin

text \<open>
  The whole-file signature check of \<^verbatim>\<open>verifier.c\<close>. The file is the list of its bytes; the SHA and RSA
  functions of \<open>mincrypt\<close>, the size of a signature and the outcomes of the C library's reads and
  allocations are parameters. \<open>None\<close> is undefined behaviour. The progress bar is left out.
\<close>

section \<open>Model\<close>

definition VERIFY_SUCCESS :: int where "VERIFY_SUCCESS = 0"
definition VERIFY_FAILURE :: int where "VERIFY_FAILURE = 1"
definition FOOTER_SIZE :: nat where "FOOTER_SIZE = 6"
definition EOCD_HEADER_SIZE :: nat where "EOCD_HEADER_SIZE = 22"
definition BUFFER_SIZE :: nat where "BUFFER_SIZE = 4096"

record ('k, 'c, 'd) crypto =
  RSANUMBYTES :: nat
  RSA_verify :: "'k \<Rightarrow> byte list \<Rightarrow> 'd \<Rightarrow> bool"
  SHA_init :: 'c
  SHA_update :: "'c \<Rightarrow> byte list \<Rightarrow> 'c"
  SHA_final :: "'c \<Rightarrow> 'd"

definition eocd_marker :: "byte list \<Rightarrow> nat \<Rightarrow> bool" where
  "eocd_marker eocd i \<longleftrightarrow> eocd ! i = 0x50 \<and> eocd ! (i + 1) = 0x4b \<and> eocd ! (i + 2) = 0x05 \<and> eocd ! (i + 3) = 0x06"

text \<open>
  The loop that hashes the signed part; \<open>fread_ok k\<close> says whether the \<open>k\<close>-th read of the loop is
  complete. \<open>None\<close> here is a read error.
\<close>

function sha_loop :: "('k, 'c, 'd) crypto \<Rightarrow> (nat \<Rightarrow> bool) \<Rightarrow> byte list \<Rightarrow> nat \<Rightarrow> nat \<Rightarrow> 'c \<Rightarrow> 'c option" where
  "sha_loop C fread_ok f so_far signed_len ctx =
     (if so_far < signed_len then
        let size = (if signed_len - so_far < BUFFER_SIZE then signed_len - so_far else BUFFER_SIZE) in
        if \<not> fread_ok so_far \<or> length f < so_far + size then None
        else sha_loop C fread_ok f (so_far + size) signed_len (SHA_update C ctx (slice so_far size f))
      else Some ctx)"
  by pat_completeness auto
termination
  by (relation "measure (\<lambda>(C, ok, f, so_far, signed_len, ctx). signed_len - so_far)")
    (auto simp: BUFFER_SIZE_def)

declare sha_loop.simps [simp del]

text \<open>
  \<open>verify_file\<close>. \<open>contents\<close> is \<open>None\<close> when it cannot be opened. \<open>read_ok\<close> gives the outcomes of the two
  reads before the loop, \<open>mem\<close> those of the two allocations.
\<close>

definition verify_file ::
  "('k, 'c, 'd) crypto \<Rightarrow> bool \<times> bool \<Rightarrow> (nat \<Rightarrow> bool) \<Rightarrow> bool \<times> bool \<Rightarrow> byte list option \<Rightarrow> 'k list \<Rightarrow> int option" where
  "verify_file C read_ok fread_ok mem contents pKeys =
     (case contents of None \<Rightarrow> Some VERIFY_FAILURE
      | Some f \<Rightarrow>
        if length f < FOOTER_SIZE then Some VERIFY_FAILURE
        else if \<not> fst read_ok then Some VERIFY_FAILURE
        else let footer = drop (length f - FOOTER_SIZE) f in
          if footer ! 2 \<noteq> 0xff \<or> footer ! 3 \<noteq> 0xff then Some VERIFY_FAILURE
          else let comment_size = unat (footer ! 4) + unat (footer ! 5) * 256;
                   signature_start = unat (footer ! 0) + unat (footer ! 1) * 256 in
            if int signature_start - int FOOTER_SIZE < int (RSANUMBYTES C) then Some VERIFY_FAILURE
            else let eocd_size = comment_size + EOCD_HEADER_SIZE in
              if length f < eocd_size then Some VERIFY_FAILURE
              else let signed_len = length f - eocd_size + EOCD_HEADER_SIZE - 2;
                       eocd = drop (length f - eocd_size) f in
                if \<not> fst mem then Some VERIFY_FAILURE
                else if \<not> snd read_ok then Some VERIFY_FAILURE
                else if \<not> eocd_marker eocd 0 then Some VERIFY_FAILURE
                else if list_ex (eocd_marker eocd) [4..<eocd_size - 3] then Some VERIFY_FAILURE
                else if \<not> snd mem then Some VERIFY_FAILURE
                else case sha_loop C fread_ok f 0 signed_len (SHA_init C) of
                  None \<Rightarrow> Some VERIFY_FAILURE
                | Some ctx \<Rightarrow>
                    if pKeys \<noteq> [] \<and> eocd_size < 6 + RSANUMBYTES C then None
                    else if list_ex (\<lambda>k. RSA_verify C k (slice (eocd_size - 6 - RSANUMBYTES C) (RSANUMBYTES C) eocd)
                                         (SHA_final C ctx)) pKeys
                    then Some VERIFY_SUCCESS else Some VERIFY_FAILURE)"

section \<open>The hashed bytes\<close>

definition sha_append :: "('k, 'c, 'd) crypto \<Rightarrow> bool" where
  "sha_append C \<longleftrightarrow> (\<forall>c a b. SHA_update C (SHA_update C c a) b = SHA_update C c (a @ b)) \<and> (\<forall>c. SHA_update C c [] = c)"

lemma sha_loop_hashes:
  "sha_append C \<Longrightarrow> sha_loop C ok f so_far signed_len ctx = Some ctx' \<Longrightarrow> so_far \<le> signed_len \<Longrightarrow>
   ctx' = SHA_update C ctx (slice so_far (signed_len - so_far) f)"
proof (induction C ok f so_far signed_len ctx rule: sha_loop.induct)
  case (1 C ok f so_far signed_len ctx)
  show ?case
  proof (cases "so_far < signed_len")
    case False
    with "1.prems" show ?thesis by (simp add: sha_loop.simps [of C] sha_append_def slice_def)
  next
    case True
    define size where "size = (if signed_len - so_far < BUFFER_SIZE then signed_len - so_far else BUFFER_SIZE)"
    have le: "so_far + size \<le> signed_len" using True by (auto simp: size_def)
    from "1.prems" True have step: "sha_loop C ok f (so_far + size) signed_len (SHA_update C ctx (slice so_far size f)) = Some ctx'"
      "\<not> (\<not> ok so_far \<or> length f < so_far + size)"
      by (auto simp: sha_loop.simps [of C ok f so_far] Let_def size_def split: if_splits)
    have "ctx' = SHA_update C (SHA_update C ctx (slice so_far size f)) (slice (so_far + size) (signed_len - (so_far + size)) f)"
      by (rule "1.IH" [OF True size_def step(2) "1.prems"(1) step(1) le])
    also have "\<dots> = SHA_update C ctx (slice so_far size f @ slice (so_far + size) (signed_len - (so_far + size)) f)"
      using "1.prems"(1) by (simp add: sha_append_def)
    also have "slice so_far size f @ slice (so_far + size) (signed_len - (so_far + size)) f = slice so_far (signed_len - so_far) f"
      using slice_split [of size "signed_len - so_far" so_far f] le by simp
    finally show ?thesis .
  qed
qed

text \<open>What a successful verification has checked; \<open>n\<close> is the size of the end record.\<close>

lemma verify_file_successE:
  assumes "verify_file C read_ok ok mem contents pKeys = Some VERIFY_SUCCESS"
  obtains f n ctx k where "contents = Some f" "EOCD_HEADER_SIZE \<le> n" "n \<le> length f"
    "eocd_marker (drop (length f - n) f) 0" "\<forall>i \<in> {4..<n - 3}. \<not> eocd_marker (drop (length f - n) f) i"
    "sha_loop C ok f 0 (length f - n + EOCD_HEADER_SIZE - 2) (SHA_init C) = Some ctx" "k \<in> set pKeys"
    "RSA_verify C k (slice (n - 6 - RSANUMBYTES C) (RSANUMBYTES C) (drop (length f - n) f)) (SHA_final C ctx)"
    "6 + RSANUMBYTES C \<le> n"
proof -
  from assms obtain f where f: "contents = Some f" by (cases contents) (auto simp: verify_file_def VERIFY_SUCCESS_def VERIFY_FAILURE_def)
  let ?footer = "drop (length f - FOOTER_SIZE) f"
  define n where "n = unat (?footer ! 4) + unat (?footer ! 5) * 256 + EOCD_HEADER_SIZE"
  have d: "VERIFY_SUCCESS \<noteq> VERIFY_FAILURE" by (simp add: VERIFY_SUCCESS_def VERIFY_FAILURE_def)
  note v = assms [unfolded f verify_file_def option.case Let_def, folded n_def]
  have "EOCD_HEADER_SIZE \<le> n" by (simp add: n_def)
  moreover from v d have "n \<le> length f" "eocd_marker (drop (length f - n) f) 0"
    "\<forall>i \<in> {4..<n - 3}. \<not> eocd_marker (drop (length f - n) f) i"
    by (auto split: if_splits simp: list_ex_iff)
  moreover from v d obtain ctx where c: "sha_loop C ok f 0 (length f - n + EOCD_HEADER_SIZE - 2) (SHA_init C) = Some ctx"
    by (auto split: if_splits option.splits)
  moreover from v d c obtain k where "k \<in> set pKeys"
    "RSA_verify C k (slice (n - 6 - RSANUMBYTES C) (RSANUMBYTES C) (drop (length f - n) f)) (SHA_final C ctx)"
    by (auto split: if_splits simp: list_ex_iff)
  moreover from v d c have "6 + RSANUMBYTES C \<le> n" by (auto split: if_splits simp: list_ex_iff)
  ultimately show thesis using that f by blast
qed

section \<open>The marker the verifier sees is the one minzip finds\<close>

lemma bytes4LE_get4LE:
  fixes a b c d :: byte
  shows "get4LE (a # b # c # d # r) = Some w \<Longrightarrow> bytes4LE w = [a, b, c, d]"
proof -
  assume "get4LE (a # b # c # d # r) = Some w"
  then have w: "w = ucast a OR push_bit 8 (ucast b) OR push_bit 16 (ucast c) OR push_bit 24 (ucast d)"
    by (simp add: get4LE_def)
  have hi: "\<not> bit (x :: byte) n" if "8 \<le> n" for x n using that by (auto dest: bit_imp_le_length)
  have "ucast w = a" "ucast (drop_bit 8 w) = b" "ucast (drop_bit 16 w) = c" "ucast (drop_bit 24 w) = d"
    unfolding w by (rule bit_word_eqI, simp add: bit_simps hi add.commute)+
  then show ?thesis by (simp add: bytes4LE_def)
qed

lemma drop_four:
  assumes "p + 4 \<le> length m"
  shows "drop p m = m ! p # m ! (p + 1) # m ! (p + 2) # m ! (p + 3) # drop (p + 4) m"
  using assms by (simp add: Cons_nth_drop_Suc [symmetric] numeral_eq_Suc)

lemma endsig_at_marker:
  assumes "b + i + 4 \<le> length m"
  shows "endsig_at m (b + i) \<longleftrightarrow> eocd_marker (drop b m) i"
proof
  note four = drop_four [of "b + i" m, OF assms]
  assume "endsig_at m (b + i)"
  then have "get4LE (drop (b + i) m) = Some ENDSIG" by (simp add: endsig_at_def)
  then have "bytes4LE ENDSIG = [m ! (b + i), m ! (b + i + 1), m ! (b + i + 2), m ! (b + i + 3)]"
    unfolding four by (rule bytes4LE_get4LE)
  then show "eocd_marker (drop b m) i" using assms
    by (simp add: eocd_marker_def bytes4LE_def ENDSIG_def add.assoc)
next
  note four = drop_four [of "b + i" m, OF assms]
  assume "eocd_marker (drop b m) i"
  then have "drop (b + i) m = bytes4LE ENDSIG @ drop (b + i + 4) m"
    unfolding four using assms by (simp add: eocd_marker_def bytes4LE_def ENDSIG_def add.assoc)
  then show "endsig_at m (b + i)"
    by (simp add: endsig_at_def le32.get_put) (simp add: get1_def bytes4LE_def ENDSIG_def)
qed

lemma find_eocd_last:
  "q \<le> p \<Longrightarrow> endsig_at m q \<Longrightarrow> (\<And>r. q < r \<Longrightarrow> r \<le> p \<Longrightarrow> \<not> endsig_at m r) \<Longrightarrow> find_eocd m p = Some q"
proof (induction p)
  case (Suc p)
  then show ?case by (cases "q = Suc p") auto
qed simp

lemma marker_is_last:
  assumes "22 \<le> n" "n \<le> length f" "eocd_marker (drop (length f - n) f) 0"
    and "\<forall>i \<in> {4..<n - 3}. \<not> eocd_marker (drop (length f - n) f) i"
  shows "find_eocd f (length f - ENDHDR) = Some (length f - n)"
proof (rule find_eocd_last)
  let ?b = "length f - n"
  show "?b \<le> length f - ENDHDR" using assms by (simp add: ENDHDR_def)
  show "endsig_at f ?b" using endsig_at_marker [of ?b 0 f] assms by simp
  fix r
  assume r: "?b < r" "r \<le> length f - ENDHDR"
  define i where "i = r - ?b"
  have i: "r = ?b + i" "0 < i" "i + 22 \<le> n" using r assms by (auto simp: i_def ENDHDR_def)
  have "\<not> eocd_marker (drop ?b f) i"
  proof (cases "i < 4")
    case True
    then have "i = 1 \<or> i = 2 \<or> i = 3" using i(2) by auto
    with assms(3) show ?thesis by (auto simp: eocd_marker_def)
  qed (use assms(4) i(3) in auto)
  then show "\<not> endsig_at f r" unfolding i(1) using endsig_at_marker [of ?b i f] i assms(2) by simp
qed

section \<open>Properties\<close>

text \<open>
  what the verifier accepts is signed, and it is what minzip will read. If \<open>verify_file\<close>
  succeeds, then for some key the RSA check holds between the signature block, which ends six bytes
  before the end of the file, and the digest of everything up to the comment length field of the end
  record that minzip finds by scanning backwards; so the number of entries and the offset of the
  central directory that \<open>parseZipArchive\<close> uses are read from signed bytes.
\<close>

theorem verified_directory_is_signed:
  assumes "sha_append C" and "verify_file C read_ok ok mem (Some f) pKeys = Some VERIFY_SUCCESS"
  shows "\<exists>eocd k. find_eocd f (length f - ENDHDR) = Some eocd \<and> k \<in> set pKeys
    \<and> eocd + 6 + RSANUMBYTES C \<le> length f
    \<and> RSA_verify C k (slice (length f - 6 - RSANUMBYTES C) (RSANUMBYTES C) f)
         (SHA_final C (SHA_update C (SHA_init C) (take (eocd + 20) f)))
    \<and> get_short f (eocd + 8) = get_short (take (eocd + 20) f) (eocd + 8)
    \<and> get4LE (drop (eocd + 16) f) = get4LE (drop (eocd + 16) (take (eocd + 20) f))"
  using assms(2)
proof (rule verify_file_successE, goal_cases)
  case (1 g n ctx k)
  have g: "g = f" using 1(1) by simp
  define eocd where "eocd = length f - n"
  have n: "22 \<le> n" "n \<le> length f" using 1(2,3) by (simp_all add: EOCD_HEADER_SIZE_def g)
  have "ctx = SHA_update C (SHA_init C) (slice 0 (length f - n + EOCD_HEADER_SIZE - 2 - 0) f)"
    by (rule sha_loop_hashes [OF assms(1) 1(6) [unfolded g]]) simp
  then have ctx: "ctx = SHA_update C (SHA_init C) (take (eocd + 20) f)"
    by (simp add: slice_def EOCD_HEADER_SIZE_def eocd_def add.commute)
  have sig: "slice (n - 6 - RSANUMBYTES C) (RSANUMBYTES C) (drop eocd f) = slice (length f - 6 - RSANUMBYTES C) (RSANUMBYTES C) f"
    using 1(9) n by (simp add: slice_def eocd_def)
  have find: "find_eocd f (length f - ENDHDR) = Some eocd"
    unfolding eocd_def using marker_is_last [OF n] 1(4,5) by (simp add: g)
  have "get_short f (eocd + 8) = get_short (take (eocd + 20) f) (eocd + 8)"
    "get4LE (drop (eocd + 16) f) = get4LE (drop (eocd + 16) (take (eocd + 20) f))"
    by (simp_all add: get_short_def drop_take get2LE_take get4LE_take)
  then show ?case
    using find 1(7,8,9) ctx sig n by (intro exI [of _ eocd] exI [of _ k]) (auto simp: g eocd_def)
qed


lemma sha_loop_returns:
  "so_far \<le> signed_len \<Longrightarrow> signed_len \<le> length f \<Longrightarrow> \<exists>ctx'. sha_loop C (\<lambda>_. True) f so_far signed_len ctx = Some ctx'"
proof (induction "signed_len - so_far" arbitrary: so_far ctx rule: less_induct)
  case less
  show ?case
  proof (cases "so_far < signed_len")
    case False
    then show ?thesis by (simp add: sha_loop.simps)
  next
    case True
    define size where "size = (if signed_len - so_far < BUFFER_SIZE then signed_len - so_far else BUFFER_SIZE)"
    have size: "0 < size" "so_far + size \<le> signed_len" using True by (auto simp: size_def BUFFER_SIZE_def)
    have "signed_len - (so_far + size) < signed_len - so_far" using size True by simp
    from less.hyps [OF this size(2) less.prems(2)] True size less.prems(2) show ?thesis
      by (subst sha_loop.simps) (simp add: Let_def flip: size_def)
  qed
qed

text \<open>
  A file with a signature footer: \<open>body\<close> and the fields of the end record are signed; \<open>pre\<close> is what
  the comment holds before the signature.
\<close>

definition word16 :: "nat \<Rightarrow> byte list" where
  "word16 n = [of_nat (n mod 256), of_nat (n div 256)]"

definition signed_part :: "byte list \<Rightarrow> byte list \<Rightarrow> byte list" where
  "signed_part body flds = body @ [0x50, 0x4b, 0x05, 0x06] @ flds"

definition signed_file :: "byte list \<Rightarrow> byte list \<Rightarrow> byte list \<Rightarrow> byte list \<Rightarrow> byte list \<Rightarrow> nat \<Rightarrow> byte list" where
  "signed_file body flds lenfield pre sig sig_start =
     signed_part body flds @ lenfield @ pre @ sig @ word16 sig_start @ [0xff, 0xff] @ word16 (length pre + length sig + 6)"

text \<open>
  properly signed archives are accepted. With memory available and no read error, \<open>verify_file\<close>
  succeeds on every file with a footer of the documented form whose signature one of the keys
  verifies, provided the end record's marker does not occur again after it.
\<close>

theorem verify_file_accepts:
  assumes C: "sha_append C" and len: "length flds = 16" "length lenfield = 2" "length sig = RSANUMBYTES C"
    and sizes: "RSANUMBYTES C + 6 \<le> sig_start" "sig_start < 65536" "length pre + length sig + 6 < 65536"
    and once: "\<forall>i \<in> {4..<length pre + length sig + 25}.
      \<not> eocd_marker (drop (length body) (signed_file body flds lenfield pre sig sig_start)) i"
    and k: "k \<in> set pKeys" "RSA_verify C k sig (SHA_final C (SHA_update C (SHA_init C) (signed_part body flds)))"
  shows "verify_file C (True, True) (\<lambda>_. True) (True, True) (Some (signed_file body flds lenfield pre sig sig_start)) pKeys
    = Some VERIFY_SUCCESS"
proof -
  define f where "f = signed_file body flds lenfield pre sig sig_start"
  let ?c = "length pre + length sig + 6"
  define n where "n = ?c + EOCD_HEADER_SIZE"
  have byte: "unat (of_nat (x mod 256) :: byte) = x mod 256" "x < 65536 \<Longrightarrow> unat (of_nat (x div 256) :: byte) = x div 256" for x
    by (simp_all add: unat_of_nat take_bit_nat_eq_self)
  have flen: "length f = length body + n" by (simp add: f_def signed_file_def signed_part_def word16_def n_def EOCD_HEADER_SIZE_def len)
  have "f = (signed_part body flds @ lenfield @ pre @ sig) @ (word16 sig_start @ [0xff, 0xff] @ word16 ?c)"
    by (simp add: f_def signed_file_def)
  moreover have "length (word16 sig_start @ [0xff, 0xff] @ word16 ?c) = FOOTER_SIZE" by (simp add: word16_def FOOTER_SIZE_def)
  ultimately have foot: "drop (length f - FOOTER_SIZE) f = word16 sig_start @ [0xff, 0xff] @ word16 ?c"
    by (metis append_eq_conv_conj diff_add_inverse2 length_append)
  have eocd: "drop (length f - n) f = drop (length body) f" by (simp add: flen)
  have mark: "eocd_marker (drop (length body) f) 0"
    by (simp add: eocd_marker_def f_def signed_file_def signed_part_def)
  have sg: "slice (n - 6 - RSANUMBYTES C) (RSANUMBYTES C) (drop (length body) f) = sig"
  proof -
    let ?B = "[0x50, 0x4b, 0x05, 0x06] @ flds @ lenfield @ pre"
    have "drop (length body) f = ?B @ sig @ word16 sig_start @ [0xff, 0xff] @ word16 ?c"
      by (simp add: f_def signed_file_def signed_part_def)
    moreover have "n - 6 - RSANUMBYTES C = length ?B" by (simp add: n_def EOCD_HEADER_SIZE_def len)
    ultimately show ?thesis by (simp only: slice_append_right) (simp add: len)
  qed
  have sp: "take (length f - n + 20) f = signed_part body flds"
    unfolding flen by (simp add: f_def signed_file_def signed_part_def len)
  have le: "length f - n + 20 \<le> length f" by (simp add: flen n_def EOCD_HEADER_SIZE_def)
  obtain ctx where ctx: "sha_loop C (\<lambda>_. True) f 0 (length f - n + 20) (SHA_init C) = Some ctx"
    using sha_loop_returns [of 0 "length f - n + 20" f C "SHA_init C"] le by auto
  have "ctx = SHA_update C (SHA_init C) (signed_part body flds)"
    using sha_loop_hashes [OF C ctx] sp by (simp add: slice_def)
  with k sg have rsa: "list_ex (\<lambda>k. RSA_verify C k (slice (n - 6 - RSANUMBYTES C) (RSANUMBYTES C) (drop (length body) f)) (SHA_final C ctx)) pKeys"
    by (auto simp: list_ex_iff)
  have later: "(list_ex (eocd_marker (drop (length body) f)) [4..<n - 3]) = False"
    using once by (auto simp: list_ex_iff n_def EOCD_HEADER_SIZE_def f_def)
  define foot' where "foot' = drop (length f - FOOTER_SIZE) f"
  have fields': "unat (foot' ! 4) + unat (foot' ! 5) * 256 + EOCD_HEADER_SIZE = n"
    "unat (foot' ! 0) + unat (foot' ! 1) * 256 = sig_start" "foot' ! 2 = 0xff" "foot' ! 3 = 0xff"
    unfolding foot'_def foot using sizes by (simp_all add: word16_def byte n_def)
  have le': "FOOTER_SIZE \<le> length f" "n \<le> length f" "6 + RSANUMBYTES C \<le> n"
    "int (RSANUMBYTES C) \<le> int sig_start - int FOOTER_SIZE"
    using sizes(1) by (simp_all add: flen n_def FOOTER_SIZE_def EOCD_HEADER_SIZE_def len)
  have sl: "length f - n + EOCD_HEADER_SIZE - 2 = length f - n + 20" by (simp add: EOCD_HEADER_SIZE_def)
  have "verify_file C (True, True) (\<lambda>_. True) (True, True) (Some f) pKeys = Some VERIFY_SUCCESS"
    unfolding verify_file_def option.case Let_def foot'_def [symmetric] fields' eocd later sl ctx fst_conv snd_conv
    using le' mark rsa by (simp add: not_less not_le)
  then show ?thesis by (simp add: f_def)
qed


text \<open>A digest and a signature simple enough to evaluate.\<close>

definition toy_crypto :: "nat \<Rightarrow> (byte, byte list, byte) crypto" where
  "toy_crypto n = \<lparr>RSANUMBYTES = n, RSA_verify = (\<lambda>k s d. s = [k, d]), SHA_init = [], SHA_update = (@), SHA_final = sum_list\<rparr>"

lemma toy_sha_append: "sha_append (toy_crypto n)"
  by (simp add: sha_append_def toy_crypto_def)

theorem verify_file_accepts_witness:
  "verify_file (toy_crypto 2) (True, True) (\<lambda>_. True) (True, True)
     (Some (signed_file [1, 2] (pad 16) [8, 0] [] [7, 0xa9] 8)) [3, 7] = Some VERIFY_SUCCESS"
proof (rule verify_file_accepts [OF toy_sha_append, where k = 7])
  have "list_all (\<lambda>i. \<not> eocd_marker (drop (length [1, 2 :: byte]) (signed_file [1, 2] (pad 16) [8, 0] [] [7, 0xa9] 8)) i)
      [4..<length ([] :: byte list) + length [7, 0xa9 :: byte] + 25]" by code_simp
  then show "\<forall>i \<in> {4..<length ([] :: byte list) + length [7, 0xa9 :: byte] + 25}.
    \<not> eocd_marker (drop (length [1, 2 :: byte]) (signed_file [1, 2] (pad 16) [8, 0] [] [7, 0xa9] 8)) i"
    by (simp only: list_all_iff set_upt)
  show "RSA_verify (toy_crypto 2) 7 [7, 0xa9] (SHA_final (toy_crypto 2)
      (SHA_update (toy_crypto 2) (SHA_init (toy_crypto 2)) (signed_part [1, 2] (pad 16))))"
    by (simp add: toy_crypto_def signed_part_def pad_def numeral_eq_Suc)
qed (simp_all add: toy_crypto_def pad_def)

theorem verified_directory_is_signed_witness:
  "\<exists>eocd k. find_eocd (signed_file [1, 2] (pad 16) [8, 0] [] [7, 0xa9] 8) (32 - ENDHDR) = Some eocd \<and> k \<in> {3, 7}
    \<and> RSA_verify (toy_crypto 2) k [7, 0xa9] (sum_list (take (eocd + 20) (signed_file [1, 2] (pad 16) [8, 0] [] [7, 0xa9] 8)))"
proof -
  let ?f = "signed_file [1, 2] (pad 16) [8, 0] [] [7, 0xa9] 8"
  have v: "verify_file (toy_crypto 2) (True, True) (\<lambda>_. True) (True, True) (Some ?f) [3, 7] = Some VERIFY_SUCCESS"
    and l: "length ?f = 32" and s: "slice 24 2 ?f = [7, 0xa9]"
    by code_simp+
  from verified_directory_is_signed [OF toy_sha_append v] l s show ?thesis by (auto simp: toy_crypto_def)
qed

text \<open>
  A comment of six bytes that announces a signature of 256: the signature block would start before
  the buffer that holds the end record.
\<close>

theorem signature_before_buffer:
  "verify_file (toy_crypto 256) (True, True) (\<lambda>_. True) (True, True)
     (Some (signed_file [1, 2] (pad 16) [6, 0] [] [] 262)) [3, 7] = None"
  by code_simp

end
