(* ===== verification/Zip_Extract.thy ===== *)
theory Zip_Extract
  imports Zip_Archive DirUtil
begin

text \<open>
  Reading the entries of a Zip archive: \<^verbatim>\<open>minzip/Zip.c\<close> from \<open>processStoredEntry\<close> to the end. The system
  call \<open>read\<close> on the archive's descriptor is the parameter \<open>rd\<close>, which gets the file offset; \<open>zlib\<close>'s
  \<open>inflate\<close> is the parameter \<open>infl\<close>, which gets the unread input and the room for output and gives the
  return code, how much input it used, the output and the stream after it. The data goes to a
  process function with a cookie. \<open>None\<close> is undefined behaviour or a call that does not return.
\<close>

section \<open>Streaming an entry\<close>

type_synonym read_call = "int \<Rightarrow> nat \<Rightarrow> int \<times> byte list"
type_synonym 'z inflate_call = "'z \<Rightarrow> byte list \<Rightarrow> nat \<Rightarrow> int \<times> nat \<times> byte list \<times> 'z"
type_synonym 'c process = "byte list \<Rightarrow> 'c \<Rightarrow> (bool \<times> 'c) option"

definition STORED :: int where "STORED = 0"
definition DEFLATED :: int where "DEFLATED = 8"
definition BUF :: nat where "BUF = 32 * 1024"

function processStoredEntry :: "read_call \<Rightarrow> 'c process \<Rightarrow> nat \<Rightarrow> int \<Rightarrow> 'c \<Rightarrow> (bool \<times> 'c) option" where
  "processStoredEntry rd processFunction bytesLeft off cookie =
     (if bytesLeft = 0 then Some (True, cookie)
      else let count = (if bytesLeft > BUF then BUF else bytesLeft) in
        case rd off count of (n, buf) \<Rightarrow>
          if n < 0 \<or> nat n \<noteq> count then Some (False, cookie)
          else case processFunction buf cookie of
            None \<Rightarrow> None
          | Some (ret, cookie') \<Rightarrow>
              if \<not> ret then Some (False, cookie')
              else processStoredEntry rd processFunction (bytesLeft - count) (off + int count) cookie')"
  by pat_completeness auto
termination
  by (relation "measure (\<lambda>(rd, proc, bytesLeft, off, c). bytesLeft)") (auto simp: BUF_def)

declare processStoredEntry.simps [simp del]

text \<open>
  The loop of \<open>processDeflatedEntry\<close>. \<open>inbuf\<close> is the unread part of \<open>readBuf\<close>, \<open>outbuf\<close> what \<open>procBuf\<close>
  holds; the result is \<open>total_out\<close>, or -1 where the loop bails out.
\<close>

definition refill :: "read_call \<Rightarrow> int \<Rightarrow> int \<Rightarrow> byte list \<Rightarrow> (int \<times> int \<times> byte list) option option" where
  "refill rd compRemaining off inbuf =
     (if inbuf \<noteq> [] then Some (Some (compRemaining, off, inbuf))
      else let getSize = (if compRemaining > int BUF then int BUF else compRemaining) in
        if getSize < 0 then None
        else case rd off (nat getSize) of (cc, buf) \<Rightarrow>
          if cc \<noteq> getSize then Some None
          else Some (Some (compRemaining - getSize, off + getSize, buf)))"

partial_function (option) deflated_loop ::
  "read_call \<Rightarrow> 'z inflate_call \<Rightarrow> 'c process \<Rightarrow> int \<Rightarrow> int \<Rightarrow> byte list \<Rightarrow> byte list \<Rightarrow> int \<Rightarrow> 'z \<Rightarrow> 'c
   \<Rightarrow> (int \<times> 'c) option" where
  "deflated_loop rd infl processFunction compRemaining off inbuf outbuf total_out z cookie =
     (case refill rd compRemaining off inbuf of
        None \<Rightarrow> None
      | Some None \<Rightarrow> Some (- 1, cookie)
      | Some (Some (compRemaining', off', inbuf')) \<Rightarrow>
        (case infl z inbuf' (BUF - length outbuf) of (zerr, used, out, z') \<Rightarrow>
          if zerr \<noteq> Z_OK \<and> zerr \<noteq> Z_STREAM_END then Some (- 1, cookie)
          else let outbuf' = outbuf @ out; total' = total_out + int (length out) in
            if length outbuf' = BUF \<or> (zerr = Z_STREAM_END \<and> outbuf' \<noteq> []) then
              (case processFunction outbuf' cookie of
                 None \<Rightarrow> None
               | Some (ret, cookie') \<Rightarrow>
                   if \<not> ret then Some (- 1, cookie')
                   else if zerr = Z_OK then
                     deflated_loop rd infl processFunction compRemaining' off' (drop used inbuf') [] total' z' cookie'
                   else Some (total', cookie'))
            else if zerr = Z_OK then
              deflated_loop rd infl processFunction compRemaining' off' (drop used inbuf') outbuf' total' z' cookie
            else Some (total', cookie)))"

text \<open>\<open>init\<close> is the result of \<open>inflateInit2\<close>; \<open>total_out\<close> is converted to a \<open>long\<close>.\<close>

definition processDeflatedEntry ::
  "read_call \<Rightarrow> 'z inflate_call \<Rightarrow> int \<times> 'z \<Rightarrow> 'c process \<Rightarrow> ZipEntry \<Rightarrow> int \<Rightarrow> 'c \<Rightarrow> (bool \<times> 'c) option" where
  "processDeflatedEntry rd infl init processFunction pEntry off cookie =
     (if fst init \<noteq> Z_OK then Some (- 1 = uncompLen pEntry, cookie)
      else case deflated_loop rd infl processFunction (compLen pEntry) off [] [] 0 (snd init) cookie of
        None \<Rightarrow> None
      | Some (result, cookie') \<Rightarrow> Some (int32 result = uncompLen pEntry, cookie'))"

text \<open>
  \<open>mzProcessZipEntryContents\<close>; the descriptor's offset is \<open>oldOff\<close> before and after the call. Seeking
  to a negative offset fails and leaves it in place.
\<close>

definition mzProcessZipEntryContents ::
  "read_call \<Rightarrow> 'z inflate_call \<Rightarrow> int \<times> 'z \<Rightarrow> int \<Rightarrow> ZipEntry \<Rightarrow> 'c process \<Rightarrow> 'c \<Rightarrow> (bool \<times> 'c) option" where
  "mzProcessZipEntryContents rd infl init oldOff pEntry processFunction cookie =
     (let off = (if offset pEntry < 0 then oldOff else offset pEntry) in
      if compression pEntry = STORED then
        processStoredEntry rd processFunction (nat (compLen pEntry mod 2 ^ 32)) off cookie
      else if compression pEntry = DEFLATED then processDeflatedEntry rd infl init processFunction pEntry off cookie
      else Some (False, cookie))"

section \<open>Process functions\<close>

definition crcProcessFunction :: "(u32 \<Rightarrow> byte list \<Rightarrow> u32) \<Rightarrow> u32 process" where
  "crcProcessFunction crc32_fn data crc = Some (True, crc32_fn crc data)"

definition mzIsZipEntryIntact ::
  "read_call \<Rightarrow> 'z inflate_call \<Rightarrow> int \<times> 'z \<Rightarrow> int \<Rightarrow> (u32 \<Rightarrow> byte list \<Rightarrow> u32) \<Rightarrow> u32 \<Rightarrow> ZipEntry \<Rightarrow> bool option" where
  "mzIsZipEntryIntact rd infl init oldOff crc32_fn crc0 pEntry =
     (case mzProcessZipEntryContents rd infl init oldOff pEntry (crcProcessFunction crc32_fn) crc0 of
        None \<Rightarrow> None
      | Some (ret, crc) \<Rightarrow> if \<not> ret then Some False else Some (crc = word_of_int (crc32 pEntry)))"

text \<open>A buffer with the position of the next byte; \<open>bufLen\<close> is what is left of it.\<close>

record CopyProcessArgs =
  cp_buffer :: "byte list"
  cp_pos :: nat
  bufLen :: int

definition put_at :: "byte list \<Rightarrow> nat \<Rightarrow> byte list \<Rightarrow> byte list option" where
  "put_at buffer pos data =
     (if pos + length data \<le> length buffer
      then Some (take pos buffer @ data @ drop (pos + length data) buffer) else None)"

definition copyProcessFunction :: "CopyProcessArgs process" where
  "copyProcessFunction data args =
     (if int (length data) \<le> bufLen args then
        case put_at (cp_buffer args) (cp_pos args) data of
          None \<Rightarrow> None
        | Some buffer \<Rightarrow> Some (True, args\<lparr>cp_buffer := buffer, cp_pos := cp_pos args + length data,
                                    bufLen := bufLen args - int (length data)\<rparr>)
      else Some (False, args))"

definition mzReadZipEntry ::
  "read_call \<Rightarrow> 'z inflate_call \<Rightarrow> int \<times> 'z \<Rightarrow> int \<Rightarrow> ZipEntry \<Rightarrow> byte list \<Rightarrow> int \<Rightarrow> (bool \<times> byte list) option" where
  "mzReadZipEntry rd infl init oldOff pEntry buf len =
     map_option (\<lambda>(ret, args). (ret, cp_buffer args))
       (mzProcessZipEntryContents rd infl init oldOff pEntry copyProcessFunction
          \<lparr>cp_buffer = buf, cp_pos = 0, bufLen = len\<rparr>)"

text \<open>
  \<open>writeProcessFunction\<close>: \<open>wr\<close> is \<open>write\<close> and tells, when it fails, whether \<open>errno\<close> is \<open>EINTR\<close>.
\<close>

partial_function (option) writeProcessFunction ::
  "(byte list \<Rightarrow> 'f \<Rightarrow> int \<times> bool \<times> 'f) \<Rightarrow> byte list \<Rightarrow> 'f \<Rightarrow> (bool \<times> 'f) option" where
  "writeProcessFunction wr data f =
     (case wr data f of (n, eintr, f') \<Rightarrow>
        if n \<le> 0 then (if \<not> eintr then Some (False, f') else writeProcessFunction wr data f')
        else if nat n = length data then Some (True, f')
        else if nat n > length data then Some (False, f')
        else writeProcessFunction wr (drop (nat n) data) f')"

definition mzExtractZipEntryToFile ::
  "read_call \<Rightarrow> 'z inflate_call \<Rightarrow> int \<times> 'z \<Rightarrow> int \<Rightarrow> (byte list \<Rightarrow> 'f \<Rightarrow> int \<times> bool \<times> 'f) \<Rightarrow> ZipEntry \<Rightarrow> 'f
   \<Rightarrow> (bool \<times> 'f) option" where
  "mzExtractZipEntryToFile rd infl init oldOff wr pEntry fd =
     mzProcessZipEntryContents rd infl init oldOff pEntry (writeProcessFunction wr) fd"

record BufferExtractCookie =
  bec_buffer :: "byte list"
  bec_pos :: nat
  bec_len :: int

definition bufferProcessFunction :: "BufferExtractCookie process" where
  "bufferProcessFunction data bec =
     (case put_at (bec_buffer bec) (bec_pos bec) data of
        None \<Rightarrow> None
      | Some buffer \<Rightarrow> Some (True, bec\<lparr>bec_buffer := buffer, bec_pos := bec_pos bec + length data,
                                   bec_len := bec_len bec - int (length data)\<rparr>))"

definition mzExtractZipEntryToBuffer ::
  "read_call \<Rightarrow> 'z inflate_call \<Rightarrow> int \<times> 'z \<Rightarrow> int \<Rightarrow> ZipEntry \<Rightarrow> byte list \<Rightarrow> (bool \<times> byte list) option" where
  "mzExtractZipEntryToBuffer rd infl init oldOff pEntry buffer =
     (case mzProcessZipEntryContents rd infl init oldOff pEntry bufferProcessFunction
             \<lparr>bec_buffer = buffer, bec_pos = 0, bec_len = uncompLen pEntry\<rparr> of
        None \<Rightarrow> None
      | Some (ret, bec) \<Rightarrow> Some (ret \<and> bec_len bec = 0, bec_buffer bec))"

section \<open>What the data of an entry is\<close>

text \<open>\<open>read\<close> on the archive's file \<open>m\<close>: complete where the file is long enough.\<close>

definition read_law :: "byte list \<Rightarrow> read_call \<Rightarrow> bool" where
  "read_law m rd \<longleftrightarrow> (\<forall>p n. 0 \<le> p \<and> p + int n \<le> int (length m) \<longrightarrow> rd p n = (int n, slice (nat p) n m))"

text \<open>
  What \<open>inflate\<close> documents on a valid stream, with \<open>todo\<close> the input a stream still has to get and
  \<open>pending\<close> the output it will still give: given input, or none if there is none left, it consumes an
  initial part of the input and produces the next output; it stops at the end of the stream, when
  the input is used up or when the avail is, and it makes progress.
\<close>

definition inflate_step :: "('z \<Rightarrow> byte list) \<Rightarrow> ('z \<Rightarrow> byte list) \<Rightarrow> 'z \<Rightarrow> byte list \<Rightarrow> nat \<Rightarrow> int \<times> nat \<times> byte list \<times> 'z \<Rightarrow> bool" where
  "inflate_step todo pending z inb avail r \<longleftrightarrow> (case r of (e, k, out, z') \<Rightarrow>
     k \<le> length inb \<and> todo z = take k inb @ todo z' \<and> pending z = out @ pending z' \<and> length out \<le> avail
     \<and> (e = Z_STREAM_END \<and> todo z' = [] \<and> pending z' = [] \<or>
        e = Z_OK \<and> (0 < k \<or> out \<noteq> []) \<and> (k = length inb \<or> length out = avail)))"

definition inflate_law :: "'z inflate_call \<Rightarrow> ('z \<Rightarrow> byte list) \<Rightarrow> ('z \<Rightarrow> byte list) \<Rightarrow> bool" where
  "inflate_law infl todo pending \<longleftrightarrow> (\<forall>z inb rest avail. todo z = inb @ rest \<and> (inb \<noteq> [] \<or> rest = []) \<and> 0 < avail \<longrightarrow>
     inflate_step todo pending z inb avail (infl z inb avail))"

text \<open>The contents of an entry of the file \<open>m\<close>; \<open>z\<close> is the fresh stream.\<close>

definition entry_data :: "byte list \<Rightarrow> ('z \<Rightarrow> byte list) \<Rightarrow> 'z \<Rightarrow> ZipEntry \<Rightarrow> byte list" where
  "entry_data m pending z e =
     (if compression e = STORED then slice (nat (offset e)) (nat (compLen e)) m else pending z)"

text \<open>The entry lies in the file, its method is known, and a compressed entry is a valid stream of the announced size.\<close>

definition entry_ok :: "byte list \<Rightarrow> ('z \<Rightarrow> byte list) \<Rightarrow> ('z \<Rightarrow> byte list) \<Rightarrow> 'z \<Rightarrow> ZipEntry \<Rightarrow> bool" where
  "entry_ok m todo pending z e \<longleftrightarrow> 0 \<le> offset e \<and> 0 \<le> compLen e \<and> compLen e \<le> LONG_MAX
     \<and> offset e + compLen e \<le> int (length m) \<and> 0 \<le> uncompLen e \<and> uncompLen e \<le> LONG_MAX
     \<and> int (length (entry_data m pending z e)) = uncompLen e
     \<and> (compression e = STORED \<or> compression e = DEFLATED \<and> todo z = slice (nat (offset e)) (nat (compLen e)) m)"

lemma refill_ok:
  assumes "read_law m rd" "0 \<le> off" "0 \<le> rem" "off + rem \<le> int (length m)" "todo = inbuf @ slice (nat off) (nat rem) m"
  shows "\<exists>rem' off' inbuf'. refill rd rem off inbuf = Some (Some (rem', off', inbuf')) \<and> 0 \<le> off' \<and> 0 \<le> rem'
    \<and> off' + rem' \<le> int (length m) \<and> todo = inbuf' @ slice (nat off') (nat rem') m
    \<and> (inbuf' \<noteq> [] \<or> slice (nat off') (nat rem') m = [])"
proof (cases "inbuf = []")
  case False
  with assms show ?thesis by (auto simp: refill_def)
next
  case True
  define k where "k = (if rem > int BUF then int BUF else rem)"
  have k: "0 \<le> k" "k \<le> rem" using assms by (auto simp: k_def)
  have rd: "rd off (nat k) = (k, slice (nat off) (nat k) m)"
    using assms(1,2,4) k unfolding read_law_def by simp
  have "slice (nat off) (nat k) m @ slice (nat (off + k)) (nat (rem - k)) m = todo"
    using slice_split [of "nat k" "nat rem" "nat off" m] k assms(2,5) True by (simp add: nat_add_distrib nat_diff_distrib)
  moreover have "slice (nat off) (nat k) m \<noteq> [] \<or> slice (nat (off + k)) (nat (rem - k)) m = []"
  proof (cases "rem = 0")
    case False
    then have "0 < k" using assms(3) by (simp add: k_def BUF_def)
    moreover have "nat off < length m" using \<open>0 < k\<close> k assms(2,4) by linarith
    ultimately show ?thesis by (simp add: slice_def)
  qed (use k in \<open>simp add: slice_def\<close>)
  moreover have "refill rd rem off inbuf = Some (Some (rem - k, off + k, slice (nat off) (nat k) m))"
    using True k rd by (simp add: refill_def k_def [symmetric] Let_def)
  ultimately show ?thesis using k assms(2,4) by auto
qed

section \<open>Every process function gets the data\<close>

text \<open>
  The contract of a process function: in a state reached by consuming \<open>xs\<close> it takes the next piece,
  as long as there are at most \<open>cap\<close> bytes in all.
\<close>

locale content_consumer =
  fixes proc :: "'c process"
    and rel :: "'c \<Rightarrow> byte list \<Rightarrow> bool"
    and cap :: nat
  assumes consumes: "rel c xs \<Longrightarrow> d \<noteq> [] \<Longrightarrow> length xs + length d \<le> cap \<Longrightarrow>
    \<exists>c'. proc d c = Some (True, c') \<and> rel c' (xs @ d)"
begin

lemma stored_consumed:
  assumes law: "read_law m rd"
  shows "0 \<le> off \<Longrightarrow> off + int n \<le> int (length m) \<Longrightarrow> rel c xs \<Longrightarrow> length xs + n \<le> cap \<Longrightarrow>
    \<exists>c'. processStoredEntry rd proc n off c = Some (True, c') \<and> rel c' (xs @ slice (nat off) n m)"
proof (induction n arbitrary: off c xs rule: less_induct)
  case (less n)
  show ?case
  proof (cases "n = 0")
    case True
    with less.prems show ?thesis by (simp add: processStoredEntry.simps slice_def)
  next
    case False
    define k where "k = (if n > BUF then BUF else n)"
    have k: "0 < k" "k \<le> n" using False by (auto simp: k_def BUF_def)
    have rd: "rd off k = (int k, slice (nat off) k m)" using law less.prems k by (auto simp: read_law_def)
    have len: "length (slice (nat off) k m) = k" using less.prems k by (simp add: nat_le_iff)
    then have "slice (nat off) k m \<noteq> []" using k(1) by (metis list.size(3) less_irrefl)
    with consumes [OF less.prems(3) this] len less.prems(4) k obtain c1 where
      c1: "proc (slice (nat off) k m) c = Some (True, c1)" "rel c1 (xs @ slice (nat off) k m)" by auto
    have "n - k < n" "0 \<le> off + int k" "off + int k + int (n - k) \<le> int (length m)"
      "length (xs @ slice (nat off) k m) + (n - k) \<le> cap"
      using k less.prems len by auto
    from less.IH [OF this(1-3) c1(2) this(4)] obtain c' where
      c': "processStoredEntry rd proc (n - k) (off + int k) c1 = Some (True, c')"
      "rel c' ((xs @ slice (nat off) k m) @ slice (nat (off + int k)) (n - k) m)" by blast
    have "slice (nat off) k m @ slice (nat (off + int k)) (n - k) m = slice (nat off) n m"
      using slice_split [OF k(2), of "nat off" m] less.prems(1) by (simp add: nat_add_distrib)
    with c' False rd c1(1) show ?thesis
      by (auto simp: processStoredEntry.simps [of rd proc n] Let_def k_def [symmetric])
  qed
qed

text \<open>
  The invariant of the loop: what the stream still has to get is \<open>inbuf\<close> and the next \<open>compRemaining\<close>
  bytes of the file; what was consumed, what \<open>procBuf\<close> holds and what is pending is all the data.
\<close>

lemma deflated_consumed:
  assumes rl: "read_law m rd" and il: "inflate_law infl todo pending"
  shows "0 \<le> off \<Longrightarrow> 0 \<le> rem \<Longrightarrow> off + rem \<le> int (length m) \<Longrightarrow> todo z = inbuf @ slice (nat off) (nat rem) m \<Longrightarrow>
    rel c xs \<Longrightarrow> length xs + length outbuf + length (pending z) \<le> cap \<Longrightarrow> length outbuf < BUF \<Longrightarrow>
    \<exists>c'. deflated_loop rd infl proc rem off inbuf outbuf tot z c
        = Some (tot + int (length (pending z)), c') \<and> rel c' (xs @ outbuf @ pending z)"
proof (induction "length (todo z) + length (pending z)" arbitrary: off rem inbuf outbuf tot z c xs rule: less_induct)
  case less
  obtain rem' off' inbuf' where rf: "refill rd rem off inbuf = Some (Some (rem', off', inbuf'))"
    "0 \<le> off'" "0 \<le> rem'" "off' + rem' \<le> int (length m)" "todo z = inbuf' @ slice (nat off') (nat rem') m"
    "inbuf' \<noteq> [] \<or> slice (nat off') (nat rem') m = []"
    using refill_ok [OF rl less.prems(1-4)] by metis
  obtain e k out z' where call: "infl z inbuf' (BUF - length outbuf) = (e, k, out, z')"
    by (cases "infl z inbuf' (BUF - length outbuf)")
  have "inflate_step todo pending z inbuf' (BUF - length outbuf) (e, k, out, z')"
    using il rf(5,6) less.prems(7) call unfolding inflate_law_def by (metis zero_less_diff)
  then have st: "k \<le> length inbuf'" "todo z = take k inbuf' @ todo z'" "pending z = out @ pending z'"
    "length out \<le> BUF - length outbuf"
    "e = Z_STREAM_END \<and> todo z' = [] \<and> pending z' = [] \<or> e = Z_OK \<and> (0 < k \<or> out \<noteq> [])"
    by (auto simp: inflate_step_def)
  have todo': "todo z' = drop k inbuf' @ slice (nat off') (nat rem') m"
    using st(1,2) rf(5) by (metis append_assoc append_take_drop_id same_append_eq)
  show ?case
  proof (cases "length (outbuf @ out) = BUF \<or> (e = Z_STREAM_END \<and> outbuf @ out \<noteq> [])")
    case True
    then have ne: "outbuf @ out \<noteq> []" by (auto simp: BUF_def)
    have "length xs + length (outbuf @ out) \<le> cap" using less.prems(6) st(3) by simp
    from consumes [OF less.prems(5) ne this] obtain c1 where
      c1: "proc (outbuf @ out) c = Some (True, c1)" "rel c1 (xs @ (outbuf @ out))" by blast
    show ?thesis
    proof (cases "e = Z_OK")
      case ok: True
      have "length (todo z') + length (pending z') < length (todo z) + length (pending z)"
        using st ok by (auto simp: min_def)
      moreover have "length (xs @ (outbuf @ out)) + length ([] :: byte list) + length (pending z') \<le> cap"
        using less.prems(6) st(3) by simp
      ultimately obtain c' where
        "deflated_loop rd infl proc rem' off' (drop k inbuf') [] (tot + int (length out)) z' c1
          = Some (tot + int (length out) + int (length (pending z')), c')"
        "rel c' ((xs @ (outbuf @ out)) @ [] @ pending z')"
        using less.hyps [OF _ rf(2,3,4) todo' c1(2), of "[]"] by (auto simp: BUF_def)
      with True ok rf(1) call c1(1) st(3) show ?thesis
        by (auto simp: deflated_loop.simps [of rd infl proc rem off inbuf outbuf] Let_def algebra_simps)
    next
      case False
      with True rf(1) call c1 st show ?thesis
        by (auto simp: deflated_loop.simps [of rd infl proc rem off inbuf outbuf] Let_def)
    qed
  next
    case False
    show ?thesis
    proof (cases "e = Z_OK")
      case ok: True
      have "length (todo z') + length (pending z') < length (todo z) + length (pending z)"
        using st ok by (auto simp: min_def)
      moreover have "length xs + length (outbuf @ out) + length (pending z') \<le> cap" "length (outbuf @ out) < BUF"
        using less.prems(6,7) st(3,4) False by auto
      ultimately obtain c' where
        "deflated_loop rd infl proc rem' off' (drop k inbuf') (outbuf @ out) (tot + int (length out)) z' c
          = Some (tot + int (length out) + int (length (pending z')), c')"
        "rel c' (xs @ (outbuf @ out) @ pending z')"
        using less.hyps [OF _ rf(2,3,4) todo' less.prems(5), of "outbuf @ out"] by blast
      with False ok rf(1) call st(3) show ?thesis
        by (auto simp: deflated_loop.simps [of rd infl proc rem off inbuf outbuf] Let_def algebra_simps)
    next
      case notok: False
      with False st have "outbuf @ out = []" "pending z' = []" "e = Z_STREAM_END" by auto
      with rf(1) call st(3) less.prems(5) show ?thesis
        by (subst deflated_loop.simps) (auto simp: BUF_def)
    qed
  qed
qed

lemma contents_consumed:
  assumes laws: "read_law m rd" "inflate_law infl todo pending" and ok: "entry_ok m todo pending z e"
    and c: "rel c xs" "length xs + length (entry_data m pending z e) \<le> cap"
  shows "\<exists>c'. mzProcessZipEntryContents rd infl (Z_OK, z) oldOff e proc c = Some (True, c')
    \<and> rel c' (xs @ entry_data m pending z e)"
proof (cases "compression e = STORED")
  case True
  have len: "nat (compLen e mod 2 ^ 32) = nat (compLen e)" using ok by (simp add: entry_ok_def LONG_MAX_def)
  from ok True have "length (entry_data m pending z e) = nat (compLen e)"
    by (simp add: entry_ok_def entry_data_def nat_le_iff)
  with ok c stored_consumed [OF laws(1), of "offset e" "nat (compLen e)" c xs] True len show ?thesis
    by (simp add: mzProcessZipEntryContents_def entry_ok_def entry_data_def)
next
  case False
  with ok have d: "compression e = DEFLATED" "todo z = slice (nat (offset e)) (nat (compLen e)) m"
    and data: "entry_data m pending z e = pending z" and len: "int (length (pending z)) = uncompLen e"
    by (auto simp: entry_ok_def entry_data_def)
  have "0 \<le> offset e" "0 \<le> compLen e" "offset e + compLen e \<le> int (length m)" using ok by (simp_all add: entry_ok_def)
  from deflated_consumed [OF laws this, of z "[]" c xs "[]" 0] d(2) c data obtain c' where
    c': "deflated_loop rd infl proc (compLen e) (offset e) [] [] 0 z c = Some (uncompLen e, c')" "rel c' (xs @ pending z)"
    by (auto simp: BUF_def len)
  have "int32 (uncompLen e) = uncompLen e" using ok by (intro int32_id) (auto simp: entry_ok_def LONG_MIN_def)
  with c' d(1) False data ok show ?thesis
    by (auto simp: mzProcessZipEntryContents_def processDeflatedEntry_def entry_ok_def)
qed

end

section \<open>The process functions of minzip keep the contract\<close>

lemma put_at_next:
  assumes "buffer = xs @ drop (length xs) b" "length xs + length d \<le> length b"
  shows "put_at buffer (length xs) d = Some ((xs @ d) @ drop (length (xs @ d)) b)"
proof -
  have "length buffer = length b" using assms by simp
  moreover have "drop (length xs + length d) buffer = drop (length xs + length d) b"
    using assms by (simp add: add.commute)
  ultimately show ?thesis using assms by (simp add: put_at_def)
qed

definition copy_rel :: "byte list \<Rightarrow> nat \<Rightarrow> CopyProcessArgs \<Rightarrow> byte list \<Rightarrow> bool" where
  "copy_rel b n args xs \<longleftrightarrow> n \<le> length b \<and> length xs \<le> n \<and> cp_buffer args = xs @ drop (length xs) b \<and> cp_pos args = length xs
     \<and> bufLen args = int n - int (length xs)"

interpretation copy: content_consumer copyProcessFunction "copy_rel b n" n for b n
proof
  fix c xs and d :: "byte list"
  assume "copy_rel b n c xs" "d \<noteq> []" "length xs + length d \<le> n"
  then show "\<exists>c'. copyProcessFunction d c = Some (True, c') \<and> copy_rel b n c' (xs @ d)"
    using put_at_next [of "cp_buffer c" xs b d] by (auto simp: copyProcessFunction_def copy_rel_def)
qed

definition buffer_rel :: "byte list \<Rightarrow> int \<Rightarrow> BufferExtractCookie \<Rightarrow> byte list \<Rightarrow> bool" where
  "buffer_rel b n bec xs \<longleftrightarrow> length xs \<le> length b \<and> bec_buffer bec = xs @ drop (length xs) b \<and> bec_pos bec = length xs
     \<and> bec_len bec = n - int (length xs)"

interpretation buffer: content_consumer bufferProcessFunction "buffer_rel b n" "length b" for b n
proof
  fix c xs and d :: "byte list"
  assume "buffer_rel b n c xs" "d \<noteq> []" "length xs + length d \<le> length b"
  then show "\<exists>c'. bufferProcessFunction d c = Some (True, c') \<and> buffer_rel b n c' (xs @ d)"
    using put_at_next [of "bec_buffer c" xs b d] by (auto simp: bufferProcessFunction_def buffer_rel_def)
qed

text \<open>\<open>crc32\<close> of \<open>zlib\<close> can be computed piecewise; \<open>write\<close> takes a part of what it is given.\<close>

definition crc_law :: "(u32 \<Rightarrow> byte list \<Rightarrow> u32) \<Rightarrow> bool" where
  "crc_law crc32_fn \<longleftrightarrow> (\<forall>c a b. crc32_fn (crc32_fn c a) b = crc32_fn c (a @ b)) \<and> (\<forall>c. crc32_fn c [] = c)"

lemma crc_consumer:
  "crc_law crc32_fn \<Longrightarrow> content_consumer (crcProcessFunction crc32_fn) (\<lambda>crc xs. crc = crc32_fn crc0 xs) cap"
  by unfold_locales (simp add: crcProcessFunction_def crc_law_def)

definition fd_law :: "(byte list \<Rightarrow> 'f \<Rightarrow> int \<times> bool \<times> 'f) \<Rightarrow> ('f \<Rightarrow> byte list) \<Rightarrow> bool" where
  "fd_law wr written \<longleftrightarrow> (\<forall>d f. d \<noteq> [] \<longrightarrow> (case wr d f of (n, eintr, f') \<Rightarrow>
     0 < n \<and> n \<le> int (length d) \<and> written f' = written f @ take (nat n) d))"

lemma write_delivers:
  assumes "fd_law wr written"
  shows "d \<noteq> [] \<Longrightarrow> \<exists>f'. writeProcessFunction wr d f = Some (True, f') \<and> written f' = written f @ d"
proof (induction "length d" arbitrary: d f rule: less_induct)
  case less
  obtain n ei f' where w: "wr d f = (n, ei, f')" by (cases "wr d f")
  with assms less.prems have n: "0 < n" "n \<le> int (length d)" "written f' = written f @ take (nat n) d"
    unfolding fd_law_def by (metis (mono_tags, lifting) case_prod_conv)+
  show ?case
  proof (cases "nat n = length d")
    case True
    with n w show ?thesis by (simp add: writeProcessFunction.simps [of wr d])
  next
    case False
    then have "drop (nat n) d \<noteq> []" "length (drop (nat n) d) < length d" using n less.prems by auto
    from less.hyps [OF this(2,1), of f'] False n w show ?thesis
      by (auto simp: writeProcessFunction.simps [of wr d])
  qed
qed

lemma write_consumer:
  assumes "fd_law wr written"
  shows "content_consumer (writeProcessFunction wr) (\<lambda>f xs. written f = base @ xs) cap"
  using write_delivers [OF assms] by unfold_locales fastforce

section \<open>Properties\<close>

text \<open>
  C22: every way of reading an entry gives its contents. For an entry that lies in the file and, if
  compressed, holds a valid stream of the announced size: \<open>mzExtractZipEntryToBuffer\<close> fills the start of
  a buffer that is large enough, \<open>mzReadZipEntry\<close> does and respects the length it is given,
  \<open>mzExtractZipEntryToFile\<close> appends the contents to the file however \<open>write\<close> splits them, and
  \<open>mzIsZipEntryIntact\<close> holds exactly when the checksum of the contents is the recorded one. All of them
  terminate.
\<close>

theorem zip_entry_contents:
  assumes "read_law m rd" "inflate_law infl todo pending" "entry_ok m todo pending z e"
    and data: "data = entry_data m pending z e"
    and buf: "length data \<le> length buf" and len: "length data \<le> n" "n \<le> length buf"
    and fd: "fd_law wr written" and crc: "crc_law crc32_fn"
  shows "mzExtractZipEntryToBuffer rd infl (Z_OK, z) oldOff e buf = Some (True, data @ drop (length data) buf)
    \<and> mzReadZipEntry rd infl (Z_OK, z) oldOff e buf (int n) = Some (True, data @ drop (length data) buf)
    \<and> (\<exists>f'. mzExtractZipEntryToFile rd infl (Z_OK, z) oldOff wr e f = Some (True, f') \<and> written f' = written f @ data)
    \<and> mzIsZipEntryIntact rd infl (Z_OK, z) oldOff crc32_fn crc0 e = Some (crc32_fn crc0 data = word_of_int (crc32 e))"
proof (intro conjI)
  have size: "int (length data) = uncompLen e" using assms(3) by (simp add: entry_ok_def data)
  obtain bec where "mzProcessZipEntryContents rd infl (Z_OK, z) oldOff e bufferProcessFunction
      \<lparr>bec_buffer = buf, bec_pos = 0, bec_len = uncompLen e\<rparr> = Some (True, bec)" "buffer_rel buf (uncompLen e) bec ([] @ data)"
    using buffer.contents_consumed [OF assms(1-3), of buf "uncompLen e" "\<lparr>bec_buffer = buf, bec_pos = 0, bec_len = uncompLen e\<rparr>" "[]" oldOff]
      buf by (auto simp: buffer_rel_def data)
  then show "mzExtractZipEntryToBuffer rd infl (Z_OK, z) oldOff e buf = Some (True, data @ drop (length data) buf)"
    by (simp add: mzExtractZipEntryToBuffer_def buffer_rel_def size)
  obtain args where "mzProcessZipEntryContents rd infl (Z_OK, z) oldOff e copyProcessFunction
      \<lparr>cp_buffer = buf, cp_pos = 0, bufLen = int n\<rparr> = Some (True, args)" "copy_rel buf n args ([] @ data)"
    using copy.contents_consumed [OF assms(1-3), of buf n "\<lparr>cp_buffer = buf, cp_pos = 0, bufLen = int n\<rparr>" "[]" oldOff]
      len by (auto simp: copy_rel_def data)
  then show "mzReadZipEntry rd infl (Z_OK, z) oldOff e buf (int n) = Some (True, data @ drop (length data) buf)"
    by (simp add: mzReadZipEntry_def copy_rel_def)
  show "\<exists>f'. mzExtractZipEntryToFile rd infl (Z_OK, z) oldOff wr e f = Some (True, f') \<and> written f' = written f @ data"
    using content_consumer.contents_consumed [OF write_consumer [OF fd, of "written f" "length data"] assms(1-3), of f "[]" oldOff]
    by (simp add: mzExtractZipEntryToFile_def data)
  obtain crc where "mzProcessZipEntryContents rd infl (Z_OK, z) oldOff e (crcProcessFunction crc32_fn) crc0 = Some (True, crc)"
    "crc = crc32_fn crc0 ([] @ data)"
    using content_consumer.contents_consumed [OF crc_consumer [OF crc, of crc0 "length data"] assms(1-3), of crc0 "[]" oldOff] crc
    by (auto simp: data crc_law_def)
  then show "mzIsZipEntryIntact rd infl (Z_OK, z) oldOff crc32_fn crc0 e = Some (crc32_fn crc0 data = word_of_int (crc32 e))"
    by (simp add: mzIsZipEntryIntact_def)
qed

text \<open>A stored and a "compressed" entry of a file, with an \<open>inflate\<close> that copies, and a checksum that sums.\<close>

definition sample_file :: "byte list" where
  "sample_file = [9, 9, 1, 2, 3, 9]"

definition sample_entry :: "int \<Rightarrow> int \<Rightarrow> int \<Rightarrow> ZipEntry" where
  "sample_entry meth clen ulen = \<lparr>fileName = [0x61], offset = 2, compLen = clen, uncompLen = ulen, compression = meth,
     modTime = 0, crc32 = 6, versionMadeBy = 0, externalFileAttributes = 0\<rparr>"

definition file_read :: "byte list \<Rightarrow> read_call" where
  "file_read m p n = (int (length (slice (nat p) n m)), slice (nat p) n m)"

definition copy_inflate :: "byte list inflate_call" where
  "copy_inflate z inb avail = (let k = min avail (length inb) in (if length z = k then Z_STREAM_END else Z_OK, k, take k inb, drop k z))"

lemma copy_inflate_law: "inflate_law copy_inflate id id"
proof -
  have "inflate_step id id (inb @ rest) inb avail (copy_inflate (inb @ rest) inb avail)"
    if "inb \<noteq> [] \<or> rest = []" "0 < avail" for inb rest avail
    using that by (cases "avail \<le> length inb") (auto simp: inflate_step_def copy_inflate_def Let_def min_def)
  then show ?thesis by (auto simp: inflate_law_def)
qed

lemma file_read_law: "read_law m (file_read m)"
proof -
  have "length (slice (nat p) n m) = n" if "0 \<le> p" "p + int n \<le> int (length m)" for p n
    using that by (simp add: le_nat_iff)
  then show ?thesis unfolding read_law_def file_read_def by presburger
qed

theorem zip_entry_contents_witness:
  "mzReadZipEntry (file_read sample_file) copy_inflate (Z_OK, [1, 2, 3]) 0 (sample_entry DEFLATED 3 3) [0, 0, 0, 0] (int 4)
     = Some (True, [1, 2, 3, 0])
   \<and> mzIsZipEntryIntact (file_read sample_file) copy_inflate (Z_OK, [1, 2, 3]) 0 (\<lambda>c d. c + sum_list (map ucast d)) 0
       (sample_entry DEFLATED 3 3) = Some True"
proof -
  have ok: "entry_ok sample_file id id [1, 2, 3] (sample_entry DEFLATED 3 3)"
    by (simp add: entry_ok_def sample_entry_def entry_data_def sample_file_def slice_def DEFLATED_def STORED_def LONG_MAX_def)
  have fd: "fd_law (\<lambda>d f. (int (length d), False, f @ d)) (id :: byte list \<Rightarrow> byte list)" by (simp add: fd_law_def)
  have crc: "crc_law (\<lambda>c d. c + sum_list (map ucast d))" by (simp add: crc_law_def add.assoc)
  have data: "[1, 2, 3] = entry_data sample_file id [1, 2, 3] (sample_entry DEFLATED 3 3)"
    by (simp add: entry_data_def sample_entry_def DEFLATED_def STORED_def)
  show ?thesis
    using zip_entry_contents [OF file_read_law copy_inflate_law ok data _ _ _ fd crc, of "[0, 0, 0, 0]" 4 0 "[]" 0]
    by (simp add: sample_entry_def)
qed

text \<open>
  Two entries of an untrusted archive that get past the checks: a stored entry longer than its
  announced size overruns the buffer allocated for that size, and an entry that announces \<open>2^32 - 1\<close>
  bytes and fails to inflate is reported as processed.
\<close>

theorem stored_entry_overruns_buffer:
  "mzExtractZipEntryToBuffer (file_read sample_file) copy_inflate (Z_OK, []) 0 (sample_entry STORED 3 2) [0, 0] = None"
  by code_simp

theorem failed_inflate_accepted:
  "processDeflatedEntry (file_read sample_file) (\<lambda>z inb avail. (- 3, 0, [], z)) (Z_OK, []) bufferProcessFunction
     (sample_entry DEFLATED 3 (- 1)) 2 \<lparr>bec_buffer = [], bec_pos = 0, bec_len = - 1\<rparr>
   = Some (True, \<lparr>bec_buffer = [], bec_pos = 0, bec_len = - 1\<rparr>)"
  by (simp add: processDeflatedEntry_def deflated_loop.simps refill_def file_read_def sample_entry_def sample_file_def
      slice_def Z_OK_def Z_STREAM_END_def BUF_def int32_def Let_def)

end
