(* ===== verification/Zip_Recursive.thy ===== *)
theory Zip_Recursive
  imports Zip_Extract
begin

text \<open>
  Unpacking a directory of an archive: \<open>targetEntryPath\<close> and \<open>mzExtractRecursive\<close> of \<^verbatim>\<open>minzip/Zip.c\<close>. The
  system calls on the target file system, and the callback, act on a state \<open>'w\<close>; SELinux labels are
  part of \<open>creat\<close>. \<open>None\<close> is undefined behaviour or a call that does not return.
\<close>

section \<open>Paths\<close>

record MzPathHelper =
  h_targetDir :: "byte list"
  h_buf :: "byte list option"
  h_targetDirLen :: nat
  h_zipDirLen :: nat

text \<open>
  The buffer of the helper holds \<open>bufLen\<close> bytes; \<open>NULL\<close> is \<open>None\<close>. Bytes \<open>realloc\<close> adds are taken to be
  zero, none of them is read. \<open>realloc_ok\<close> says whether it succeeds.
\<close>

definition h_bufLen :: "MzPathHelper \<Rightarrow> nat" where
  "h_bufLen h = (case h_buf h of None \<Rightarrow> 0 | Some b \<Rightarrow> length b)"

definition grow :: "MzPathHelper \<Rightarrow> nat \<Rightarrow> byte list" where
  "grow h needLen = (case h_buf h of None \<Rightarrow> replicate needLen 0 | Some b \<Rightarrow> b @ replicate (needLen - length b) 0)"

text \<open>The bytes of the string that starts a buffer.\<close>

definition c_string :: "byte list \<Rightarrow> byte list" where
  "c_string b = takeWhile (\<lambda>c. c \<noteq> 0) b"

definition SLASH :: byte where "SLASH = 0x2f"

definition path_buffer :: "MzPathHelper \<Rightarrow> nat \<Rightarrow> byte list" where
  "path_buffer helper needLen =
     (if needLen > h_bufLen helper then grow helper (needLen * 2) else the (h_buf helper))"

text \<open>The first call writes the target directory and, where it is missing, a slash; the new length of that part.\<close>

definition path_start :: "MzPathHelper \<Rightarrow> byte list \<Rightarrow> (byte list \<times> nat) option" where
  "path_start helper buf =
     (if h_buf helper = None then
        if h_targetDir helper = [] \<or> last (h_targetDir helper) \<noteq> SLASH
        then map_option (\<lambda>b. (b, h_targetDirLen helper + 1)) (put_at buf 0 (h_targetDir helper @ [SLASH]))
        else map_option (\<lambda>b. (b, h_targetDirLen helper)) (put_at buf 0 (h_targetDir helper))
      else Some (buf, h_targetDirLen helper))"

definition targetEntryPath ::
  "bool \<Rightarrow> MzPathHelper \<Rightarrow> ZipEntry \<Rightarrow> (byte list option \<times> MzPathHelper) option" where
  "targetEntryPath realloc_ok helper pEntry =
     (let needLen = h_targetDirLen helper + 1 + length (fileName pEntry) - h_zipDirLen helper + 1 in
      if needLen > h_bufLen helper \<and> \<not> realloc_ok then Some (None, helper)
      else case path_start helper (path_buffer helper needLen) of
        None \<Rightarrow> None
      | Some (buf1, tdl) \<Rightarrow>
          (case put_at buf1 tdl (drop (h_zipDirLen helper) (fileName pEntry) @ [0]) of
             None \<Rightarrow> None
           | Some buf2 \<Rightarrow> Some (Some (c_string buf2), helper\<lparr>h_buf := Some buf2, h_targetDirLen := tdl\<rparr>)))"

section \<open>Unpacking\<close>

record 'w target_fs = "'w fs_ops" +
  fs_creat :: "string \<Rightarrow> int \<Rightarrow> 'w \<Rightarrow> int \<times> 'w"
  fs_write :: "int \<Rightarrow> byte list \<Rightarrow> 'w \<Rightarrow> int \<times> bool \<times> 'w"
  fs_close :: "int \<Rightarrow> 'w \<Rightarrow> 'w"
  fs_symlink :: "string \<Rightarrow> string \<Rightarrow> 'w \<Rightarrow> bool \<times> 'w"
  fs_malloc :: "int \<Rightarrow> bool"

record 'z archive_io =
  ar_read :: read_call
  ar_inflate :: "'z inflate_call"
  ar_init :: "ZipEntry \<Rightarrow> int \<times> 'z"
  ar_off :: int

definition UNZIP_DIRMODE :: int where "UNZIP_DIRMODE = 493"
definition UNZIP_FILEMODE :: int where "UNZIP_FILEMODE = 420"

definition str :: "byte list \<Rightarrow> string" where
  "str b = map (\<lambda>c. char_of (unat c)) b"

text \<open>
  What one entry does to the loop: go on, or break with the value of the variable \<open>ok\<close> of the
  function. The extraction of a regular file declares a variable \<open>ok\<close> of its own.
\<close>

datatype 'w entry_result = Go 'w | Break bool 'w

definition extract_symlink ::
  "'w target_fs \<Rightarrow> 'z archive_io \<Rightarrow> ZipEntry \<Rightarrow> byte list \<Rightarrow> 'w \<Rightarrow> 'w entry_result option" where
  "extract_symlink fs A pEntry targetFile w =
     (if uncompLen pEntry = 0 then Some (Break False w)
      else if \<not> fs_malloc fs (uncompLen pEntry + 1) then Some (Break False w)
      else if uncompLen pEntry < 0 then None
      else case mzReadZipEntry (ar_read A) (ar_inflate A) (ar_init A pEntry) (ar_off A) pEntry
                  (replicate (nat (uncompLen pEntry) + 1) 0) (uncompLen pEntry) of
        None \<Rightarrow> None
      | Some (ok, linkTarget) \<Rightarrow>
          if \<not> ok then Some (Break False w)
          else (case fs_symlink fs (str (c_string (linkTarget[nat (uncompLen pEntry) := 0]))) (str targetFile) w of (ok, w') \<Rightarrow>
                  if \<not> ok then Some (Break False w') else Some (Go w')))"

definition extract_file ::
  "'w target_fs \<Rightarrow> 'z archive_io \<Rightarrow> bool \<Rightarrow> ZipEntry \<Rightarrow> byte list \<Rightarrow> 'w \<Rightarrow> 'w entry_result option" where
  "extract_file fs A timestamp pEntry targetFile w =
     (case fs_creat fs (str targetFile) UNZIP_FILEMODE w of (fd, w1) \<Rightarrow>
        if fd < 0 then Some (Break False w1)
        else case mzExtractZipEntryToFile (ar_read A) (ar_inflate A) (ar_init A pEntry) (ar_off A) (fs_write fs fd) pEntry w1 of
          None \<Rightarrow> None
        | Some (inner_ok, w2) \<Rightarrow>
            let w3 = fs_close fs fd w2 in
            if \<not> inner_ok then Some (Break True w3)
            else if timestamp then
              (case fs_utime fs (str targetFile) w3 of (done, w4) \<Rightarrow>
                 if \<not> done then Some (Break True w4) else Some (Go w4))
            else Some (Go w3))"

definition extract_entry ::
  "'w target_fs \<Rightarrow> 'z archive_io \<Rightarrow> bool \<Rightarrow> bool \<Rightarrow> ZipEntry \<Rightarrow> byte list \<Rightarrow> 'w \<Rightarrow> 'w entry_result option" where
  "extract_entry fs A files_only timestamp pEntry targetFile w =
     (if fileName pEntry = [] then None
      else if last (fileName pEntry) = SLASH then
        (if files_only then Some (Go w)
         else case dirCreateHierarchy (fs_ops.truncate fs) (fs_malloc fs (int (length targetFile) + 2)) (str targetFile) UNZIP_DIRMODE timestamp False w of
             None \<Rightarrow> None
           | Some (ret, w') \<Rightarrow> if ret \<noteq> 0 then Some (Break False w') else Some (Go w'))
      else case dirCreateHierarchy (fs_ops.truncate fs) (fs_malloc fs (int (length targetFile) + 2)) (str targetFile) UNZIP_DIRMODE timestamp True w of
          None \<Rightarrow> None
        | Some (ret, w') \<Rightarrow>
            if ret \<noteq> 0 then Some (Break False w')
            else if \<not> files_only \<and> mzIsZipEntrySymlink pEntry then extract_symlink fs A pEntry targetFile w'
            else extract_file fs A timestamp pEntry targetFile w')"

text \<open>The test whether an entry is under \<open>zpath\<close>.\<close>

definition under :: "byte list \<Rightarrow> ZipEntry \<Rightarrow> bool" where
  "under zpath e \<longleftrightarrow> length zpath \<le> length (fileName e) \<and> strncmp (take (length zpath) (fileName e)) zpath = 0"

text \<open>The loop over the entries; \<open>callback\<close> may be \<open>NULL\<close>.\<close>

fun extract_loop ::
  "'w target_fs \<Rightarrow> 'z archive_io \<Rightarrow> bool \<Rightarrow> bool \<Rightarrow> bool \<Rightarrow> (byte list \<Rightarrow> 'w \<Rightarrow> 'w) option \<Rightarrow> byte list
   \<Rightarrow> ZipEntry list \<Rightarrow> bool \<Rightarrow> MzPathHelper \<Rightarrow> 'w \<Rightarrow> (bool \<times> 'w) option" where
  "extract_loop fs A files_only dry_run timestamp callback zpath [] seenMatch helper w = Some (True, w)"
| "extract_loop fs A files_only dry_run timestamp callback zpath (pEntry # es) seenMatch helper w =
     (if \<not> under zpath pEntry then
        (if seenMatch then Some (True, w)
         else extract_loop fs A files_only dry_run timestamp callback zpath es seenMatch helper w)
      else case targetEntryPath (fs_malloc fs 0) helper pEntry of
        None \<Rightarrow> None
      | Some (None, helper') \<Rightarrow> Some (False, w)
      | Some (Some targetFile, helper') \<Rightarrow>
          let call = (case callback of None \<Rightarrow> (\<lambda>w. w) | Some f \<Rightarrow> f targetFile) in
          if dry_run then
            extract_loop fs A files_only dry_run timestamp callback zpath es True helper' (call w)
          else (case extract_entry fs A files_only timestamp pEntry targetFile w of
              None \<Rightarrow> None
            | Some (Break ok w') \<Rightarrow> Some (ok, w')
            | Some (Go w') \<Rightarrow>
                extract_loop fs A files_only dry_run timestamp callback zpath es True helper' (call w')))"

text \<open>\<open>zipDir\<close> with a slash at the end, unless it is empty.\<close>

definition zip_path :: "byte list \<Rightarrow> byte list" where
  "zip_path zipDir = (if zipDir \<noteq> [] \<and> last zipDir \<noteq> SLASH then zipDir @ [SLASH] else zipDir)"

definition mzExtractRecursive ::
  "'w target_fs \<Rightarrow> 'z archive_io \<Rightarrow> ZipEntry list \<Rightarrow> byte list \<Rightarrow> byte list \<Rightarrow> bool \<Rightarrow> bool \<Rightarrow> bool
   \<Rightarrow> (byte list \<Rightarrow> 'w \<Rightarrow> 'w) option \<Rightarrow> 'w \<Rightarrow> (bool \<times> 'w) option" where
  "mzExtractRecursive fs A entries zipDir targetDir files_only dry_run timestamp callback w =
     (if zipDir \<noteq> [] \<and> hd zipDir = SLASH then Some (False, w)
      else if targetDir = [] \<or> hd targetDir \<noteq> SLASH then Some (False, w)
      else if \<not> fs_malloc fs (int (length zipDir) + 2) then Some (False, w)
      else let zpath = zip_path zipDir;
               helper = \<lparr>h_targetDir = targetDir, h_buf = None, h_targetDirLen = length targetDir, h_zipDirLen = length zpath\<rparr>
           in extract_loop fs A files_only dry_run timestamp callback zpath entries False helper w)"


section \<open>The target path\<close>

text \<open>The path of an entry: the target directory, a slash, and the name without the prefix.\<close>

definition target_dir :: "byte list \<Rightarrow> byte list" where
  "target_dir d = (if d = [] \<or> last d \<noteq> SLASH then d @ [SLASH] else d)"

definition target_path :: "byte list \<Rightarrow> nat \<Rightarrow> ZipEntry \<Rightarrow> byte list" where
  "target_path d n e = target_dir d @ drop n (fileName e)"

text \<open>
  The helper as \<open>targetEntryPath\<close> keeps it: before the first call it has no buffer, afterwards the
  buffer starts with the target directory and its slash.
\<close>

definition helper_ok :: "byte list \<Rightarrow> nat \<Rightarrow> MzPathHelper \<Rightarrow> bool" where
  "helper_ok d n h \<longleftrightarrow> h_targetDir h = d \<and> h_zipDirLen h = n \<and>
     (case h_buf h of
        None \<Rightarrow> h_targetDirLen h = length d
      | Some b \<Rightarrow> h_targetDirLen h = length (target_dir d) \<and> take (length (target_dir d)) b = target_dir d)"

lemma c_string_terminated: "0 \<notin> set s \<Longrightarrow> c_string (s @ 0 # r) = s"
  by (induction s) (auto simp: c_string_def)

lemma put_at_prefix:
  "pos + length data \<le> length b \<Longrightarrow> put_at b pos data = Some (take pos b @ data @ drop (pos + length data) b)"
  by (simp add: put_at_def)

lemma path_start_ok:
  assumes h: "helper_ok d n h" and len: "length (target_dir d) \<le> length b"
    and old: "\<And>b'. h_buf h = Some b' \<Longrightarrow> take (length (target_dir d)) b = target_dir d"
  shows "\<exists>b1. path_start h b = Some (b1, length (target_dir d)) \<and> take (length (target_dir d)) b1 = target_dir d \<and> length b1 = length b"
proof (cases "h_buf h")
  case None
  with h have "h_targetDir h = d" "h_targetDirLen h = length d" by (auto simp: helper_ok_def)
  with None len show ?thesis by (auto simp: path_start_def target_dir_def put_at_prefix)
next
  case (Some b')
  with h old [OF Some] show ?thesis by (auto simp: path_start_def helper_ok_def)
qed

lemma path_buffer_ok:
  assumes h: "helper_ok d n h" and need: "need = h_targetDirLen h + 1 + len + 1"
  shows "length (target_dir d) + len + 1 \<le> length (path_buffer h need)"
    and "h_buf h = Some b' \<Longrightarrow> take (length (target_dir d)) (path_buffer h need) = target_dir d"
proof -
  have "length (target_dir d) \<le> h_targetDirLen h + 1"
    using h by (auto simp: helper_ok_def target_dir_def split: option.splits)
  moreover have "need \<le> length (path_buffer h need)"
    by (auto simp: path_buffer_def grow_def h_bufLen_def need split: option.splits)
  ultimately show "length (target_dir d) + len + 1 \<le> length (path_buffer h need)" using need by simp
  assume b: "h_buf h = Some b'"
  with h have "take (length (target_dir d)) b' = target_dir d" by (simp add: helper_ok_def)
  moreover then have "length (target_dir d) \<le> length b'" by (metis length_take min.cobounded1)
  ultimately show "take (length (target_dir d)) (path_buffer h need) = target_dir d"
    using b by (auto simp: path_buffer_def grow_def)
qed

lemma targetEntryPath_path:
  assumes h: "helper_ok d n h" and e: "n \<le> length (fileName e)" "0 \<notin> set (fileName e)" and d: "0 \<notin> set d"
  shows "\<exists>h'. targetEntryPath True h e = Some (Some (target_path d n e), h') \<and> helper_ok d n h'"
proof -
  let ?r = "drop n (fileName e)"
  define need where "need = h_targetDirLen h + 1 + length (fileName e) - n + 1"
  have n: "h_zipDirLen h = n" "h_targetDir h = d" using h by (simp_all add: helper_ok_def)
  have need': "need = h_targetDirLen h + 1 + length ?r + 1" using e(1) n by (simp add: need_def)
  note pb = path_buffer_ok [OF h need']
  obtain b1 where b1: "path_start h (path_buffer h need) = Some (b1, length (target_dir d))"
    "take (length (target_dir d)) b1 = target_dir d" "length b1 = length (path_buffer h need)"
    using path_start_ok [OF h, of "path_buffer h need"] pb by auto
  define b2 where "b2 = target_dir d @ ?r @ 0 # drop (length (target_dir d) + length ?r + 1) b1"
  have b2: "put_at b1 (length (target_dir d)) (?r @ [0]) = Some b2"
    using pb(1) b1(2,3) by (simp add: put_at_prefix b2_def)
  have "0 \<notin> set (target_dir d @ ?r)" using d e(2) by (auto simp: target_dir_def SLASH_def dest: in_set_dropD)
  then have "c_string b2 = target_path d n e"
    using c_string_terminated [of "target_dir d @ ?r"] by (simp add: b2_def target_path_def)
  moreover have "targetEntryPath True h e = Some (Some (c_string b2), h\<lparr>h_buf := Some b2, h_targetDirLen := length (target_dir d)\<rparr>)"
    unfolding targetEntryPath_def Let_def n need_def [symmetric] by (simp add: b1(1) b2)
  moreover have "helper_ok d n (h\<lparr>h_buf := Some b2, h_targetDirLen := length (target_dir d)\<rparr>)"
    using n by (simp add: helper_ok_def b2_def)
  ultimately show ?thesis by auto
qed

section \<open>Exactly the entries below the directory\<close>

lemma under_iff:
  assumes "0 \<notin> set (fileName e)"
  shows "under zpath e \<longleftrightarrow> take (length zpath) (fileName e) = zpath"
proof -
  have "0 \<notin> set (take (length zpath) (fileName e))" using assms by (meson in_set_takeD)
  then show ?thesis
    unfolding under_def using strncmp_sign [of "take (length zpath) (fileName e)" zpath]
    by (metis length_take min.absorb2 min.cobounded1)
qed

text \<open>In a sorted array the names with a given prefix are next to each other.\<close>

lemma prefix_convex:
  fixes a b c z :: "byte list"
  assumes "a \<le> b" "b \<le> c" "take (length z) a = z" "take (length z) c = z"
  shows "take (length z) b = z"
  using assms
proof (induction z arbitrary: a b c)
  case (Cons x z)
  from Cons.prems(3,4) obtain a' c' where ac: "a = x # a'" "c = x # c'" "take (length z) a' = z" "take (length z) c' = z"
    by (cases a; cases c) auto
  with Cons.prems(1,2) obtain y b' where b: "b = y # b'" by (cases b) auto
  with ac Cons.prems(1,2) have "y = x" "a' \<le> b'" "b' \<le> c'" by auto
  with ac b Cons.IH show ?case by auto
qed simp

lemma names_ok_tail: "names_ok (e # es) \<Longrightarrow> names_ok es"
  by (simp add: names_ok_def)

text \<open>Once an entry below \<open>zpath\<close> was seen, the first one that is not ends the matches.\<close>

lemma no_more_matches:
  assumes "names_ok (m # e # es)" "under zpath m" "\<not> under zpath e"
  shows "\<not> list_ex (under zpath) (e # es)"
proof
  assume "list_ex (under zpath) (e # es)"
  with assms(3) obtain c where c: "c \<in> set es" "under zpath c" by (auto simp: list_ex_iff)
  have z: "0 \<notin> set (fileName x)" if "x \<in> set (m # e # es)" for x
    using assms(1) that valid_no_NUL by (auto simp: names_ok_def)
  have "fileName m \<le> fileName e" "fileName e \<le> fileName c" using assms(1) c(1) by (auto simp: names_ok_def)
  from prefix_convex [OF this, of zpath] c(2) assms(2,3) z c(1) show False by (simp add: under_iff)
qed

text \<open>With an unlimited allocator, a dry run reports the entries below the path, in the order of the array.\<close>

lemma dry_run_reports:
  assumes mem: "fs_malloc fs 0" and d: "0 \<notin> set d"
  shows "names_ok es \<Longrightarrow> helper_ok d (length zpath) h \<Longrightarrow> (\<And>m. seen \<Longrightarrow> \<exists>m. under zpath m \<and> names_ok (m # es)) \<Longrightarrow>
    extract_loop fs A files_only True timestamp (Some f) zpath es seen h w
      = Some (True, fold (\<lambda>e. f (target_path d (length zpath) e)) (filter (under zpath) es) w)"
proof (induction es arbitrary: seen h w)
  case (Cons e es)
  note ok = names_ok_tail [OF Cons.prems(1)]
  show ?case
  proof (cases "under zpath e")
    case False
    show ?thesis
    proof (cases seen)
      case True
      then obtain m where "under zpath m" "names_ok (m # e # es)" using Cons.prems(3) by blast
      from no_more_matches [OF this(2,1) False] have "filter (under zpath) (e # es) = []"
        by (auto simp: list_ex_iff filter_empty_conv)
      with True False show ?thesis by simp
    next
      case unseen: False
      with False Cons.IH [OF ok Cons.prems(2), of False w] show ?thesis by simp
    qed
  next
    case True
    have e: "length zpath \<le> length (fileName e)" "0 \<notin> set (fileName e)"
      using True Cons.prems(1) by (auto simp: under_def names_ok_def dest: valid_no_NUL)
    from targetEntryPath_path [OF Cons.prems(2) e d] obtain h' where
      h': "targetEntryPath True h e = Some (Some (target_path d (length zpath) e), h')" "helper_ok d (length zpath) h'" by blast
    have "\<exists>m. under zpath m \<and> names_ok (m # es)" using True Cons.prems(1) by blast
    with Cons.IH [OF ok h'(2), of True "f (target_path d (length zpath) e) w"] True h'(1) mem show ?thesis by simp
  qed
qed simp

section \<open>Properties\<close>


definition idle_fs :: "byte list list target_fs" where
  "idle_fs = \<lparr>fs_stat = (\<lambda>_ _. IsDir), fs_mkdir = (\<lambda>_ _ w. (False, w)), fs_utime = (\<lambda>_ w. (True, w)),
     fs_creat = (\<lambda>_ _ w. (3, w)), fs_write = (\<lambda>_ d w. (- 1, False, w)), fs_close = (\<lambda>_ w. w),
     fs_symlink = (\<lambda>_ _ w. (False, w)), fs_malloc = (\<lambda>_. True)\<rparr>"

definition sample_archive :: "byte list archive_io" where
  "sample_archive = \<lparr>ar_read = file_read sample_file, ar_inflate = copy_inflate, ar_init = (\<lambda>_. (Z_OK, [])), ar_off = 0\<rparr>"

definition named :: "byte list \<Rightarrow> ZipEntry" where
  "named n = (sample_entry STORED 3 3)\<lparr>fileName := n\<rparr>"




end
