(* ===== verification/Install.thy ===== *)
theory Install
  imports Format Load_Keys Verifier Zip_Recursive
begin

text \<open>
  The installation of a package: \<^verbatim>\<open>install.c\<close>, \<^verbatim>\<open>firmware.c\<close> and \<open>mzOpenZipArchive\<close> of \<^verbatim>\<open>minzip/Zip.c\<close>. The package
  is verified, opened, its program is extracted and run in a child process that sends commands through a
  pipe, and a firmware update it asks for is kept for the bootloader.
\<close>

section \<open>The environment\<close>

text \<open>
  What the code relies on: the calls of the machine, the cryptographic library, the file a path names,
  zlib on an opened archive, the alignment and memory that the archive code depends on, the outcomes of
  the reads of \<open>verify_file\<close>, the child process (the strings that \<open>fgets\<close> returns from the pipe, the exit
  status, if it exits), the answer of the user, a setting and the images of the screen.
\<close>

record ('w, 'c, 'd, 'z) install_env =
  ie_sys :: "'w os"
  ie_fs :: "'w fs_ops"
  ie_crypto :: "(RSAPublicKey, 'c, 'd) crypto"
  ie_nwords :: nat
  ie_file :: "string \<Rightarrow> 'w \<Rightarrow> byte list option"
  ie_verify_read :: "bool \<times> bool"
  ie_verify_fread :: "nat \<Rightarrow> bool"
  ie_verify_mem :: "bool \<times> bool"
  ie_realloc :: "int \<Rightarrow> bool"
  ie_map :: "int \<Rightarrow> 'w \<Rightarrow> bool"
  ie_safe_ptr :: "int \<Rightarrow> int \<Rightarrow> bool"
  ie_safe_long :: "int \<Rightarrow> int \<Rightarrow> bool"
  ie_zip_mem :: "bool \<times> bool \<times> bool"
  ie_map_addr :: int
  ie_archive :: "int \<Rightarrow> 'w \<Rightarrow> 'z archive_io"
  ie_eintr :: "'w \<Rightarrow> bool"
  ie_pipe :: "'w \<Rightarrow> int"
  ie_api_version :: string
  ie_child :: "string list \<Rightarrow> 'w \<Rightarrow> string list \<times> int option \<times> 'w"
  ie_confirm :: "'w \<Rightarrow> bool"
  ie_signature_check :: bool
  ie_image :: "(int \<times> int \<times> int) \<times> byte list option \<times> byte list option"

text \<open>The variables of \<^verbatim>\<open>firmware.c\<close> with those of the rest of the program.\<close>

record 'w installer =
  dev :: "'w phone"
  update_type :: "string option"
  update_data :: "byte list option"
  update_length :: int

abbreviation in_world :: "'w installer \<Rightarrow> 'w" where "in_world s \<equiv> ph_world (dev s)"

definition put_in_world :: "'w \<Rightarrow> 'w installer \<Rightarrow> 'w installer" where
  "put_in_world w s = s\<lparr>dev := set_world w (dev s)\<rparr>"

definition on_phone :: "('w phone \<Rightarrow> ('a \<times> 'w phone) option) \<Rightarrow> 'w installer \<Rightarrow> ('a \<times> 'w installer) option" where
  "on_phone f s = map_option (\<lambda>(r, d). (r, s\<lparr>dev := d\<rparr>)) (f (dev s))"

definition INSTALL_SUCCESS :: int where "INSTALL_SUCCESS = 0"
definition INSTALL_ERROR :: int where "INSTALL_ERROR = 1"
definition INSTALL_CORRUPT :: int where "INSTALL_CORRUPT = 2"
definition INSTALL_UPDATE_BINARY_MISSING :: int where "INSTALL_UPDATE_BINARY_MISSING = 4"

section \<open>Firmware updates\<close>

definition remember_firmware_update :: "string option \<Rightarrow> byte list \<Rightarrow> int \<Rightarrow> 'w installer \<Rightarrow> int \<times> 'w installer" where
  "remember_firmware_update type data len s =
     (if update_type s \<noteq> None \<or> update_data s \<noteq> None then (- 1, s)
      else (0, s\<lparr>update_type := type, update_data := Some data, update_length := len\<rparr>))"

definition firmware_update_pending :: "'w installer \<Rightarrow> bool" where
  "firmware_update_pending s \<longleftrightarrow> update_data s \<noteq> None \<and> 0 < update_length s"

datatype outcome = Returned int | Rebooted

text \<open>The message that makes recovery wipe the cache; the first copy is limited to 32 characters.\<close>

definition wipe_cache_message :: "string option \<Rightarrow> bootloader_message" where
  "wipe_cache_message send_intent =
     (let m = zero_message;
          m = m\<lparr>bm_command := strlcpy (bm_command m) ''boot-recovery''\<rparr>;
          r = strlcpy (take 32 (bm_recovery m)) (''recovery'' @ [NL] @ ''--wipe_cache'' @ [NL]) @ drop 32 (bm_recovery m)
      in m\<lparr>bm_recovery := (case send_intent of None \<Rightarrow> r
             | Some i \<Rightarrow> strlcat (strlcat (strlcat r ''--send_intent='') i) [NL])\<rparr>)"

text \<open>\<open>reboot\<close> does not return unless it fails; \<open>reboots\<close> says which.\<close>

definition maybe_install_firmware_update ::
  "('w, 'c, 'd, 'z) install_env \<Rightarrow> bool \<Rightarrow> string option \<Rightarrow> 'w installer \<Rightarrow> (outcome \<times> 'w installer) option" where
  "maybe_install_firmware_update E reboots send_intent s =
     (case update_data s of
        None \<Rightarrow> Some (Returned 0, s)
      | Some data \<Rightarrow>
          if update_length s = 0 then Some (Returned 0, s)
          else
            let sys = ie_sys E; boot = wipe_cache_message send_intent in
            Option.bind (on_phone (on_base (set_bootloader_message sys boot)) s) (\<lambda>(r, s).
            if r \<noteq> 0 then Some (Returned (- 1), s)
            else
              case ie_image E of ((width, height, bpp), busy_image, fail_image) \<Rightarrow>
              Option.bind (on_phone (on_base (write_update_for_bootloader sys data width height bpp busy_image fail_image)) s) (\<lambda>(r, s).
              if r \<noteq> 0 then
                Option.bind (on_phone (format_volume sys ''/cache'') s) (\<lambda>(_, s). Some (Returned (- 1), s))
              else
                Option.bind (update_type s) (\<lambda>type.
                let boot = boot\<lparr>bm_command := strlcpy (bm_command boot) (''update-'' @ type)\<rparr> in
                Option.bind (on_phone (on_base (set_bootloader_message sys boot)) s) (\<lambda>(r, s).
                if r \<noteq> 0 then
                  Option.bind (on_phone (format_volume sys ''/cache'') s) (\<lambda>(_, s). Some (Returned (- 1), s))
                else Some (if reboots then Rebooted else Returned (- 1), s))))))"

section \<open>The archive\<close>

record zip_archive =
  zip_fd :: int
  zip_parsed :: "ZipEntry list \<times> zptr HashTable"

text \<open>
  \<open>Inr\<close> is the open archive, \<open>Inl\<close> an error; the descriptor is closed on errors. The file that is mapped is
  the one that was opened.
\<close>

definition mzOpenZipArchive ::
  "('w, 'c, 'd, 'z) install_env \<Rightarrow> string \<Rightarrow> 'w \<Rightarrow> ((unit + zip_archive) \<times> 'w) option" where
  "mzOpenZipArchive E archive_name w =
     (case ie_file E archive_name w of
        None \<Rightarrow> Some (Inl (), snd (os_open (ie_sys E) archive_name O_RDONLY w))
      | Some m \<Rightarrow>
          (case os_open (ie_sys E) archive_name O_RDONLY w of (fd, w) \<Rightarrow>
             if fd < 0 then Some (Inl (), w)
             else if \<not> ie_map E fd w \<or> length m < ENDHDR then Some (Inl (), snd (os_close (ie_sys E) fd w))
             else case parseZipArchive (ie_safe_ptr E) (ie_safe_long E) (ie_zip_mem E) (ie_map_addr E) m of
               None \<Rightarrow> None
             | Some None \<Rightarrow> Some (Inl (), snd (os_close (ie_sys E) fd w))
             | Some (Some ar) \<Rightarrow> Some (Inr \<lparr>zip_fd = fd, zip_parsed = ar\<rparr>, w)))"

definition mzCloseZipArchive :: "('w, 'c, 'd, 'z) install_env \<Rightarrow> zip_archive \<Rightarrow> 'w \<Rightarrow> 'w" where
  "mzCloseZipArchive E archive w = (if 0 \<le> zip_fd archive then snd (os_close (ie_sys E) (zip_fd archive) w) else w)"

text \<open>The entry of a name; a pointer to anything but an entry of the table is undefined.\<close>

definition find_zip_entry :: "zip_archive \<Rightarrow> string \<Rightarrow> ZipEntry option option" where
  "find_zip_entry archive name =
     (case mzFindZipEntry (zip_parsed archive) (bytes_of name) of
        None \<Rightarrow> None
      | Some None \<Rightarrow> Some None
      | Some (Some (EntryAt i)) \<Rightarrow> if i < length (fst (zip_parsed archive)) then Some (Some (fst (zip_parsed archive) ! i)) else None
      | Some (Some (NameAt _)) \<Rightarrow> None)"

section \<open>Running the update program\<close>

definition ASSUMED_UPDATE_BINARY_NAME :: string where
  "ASSUMED_UPDATE_BINARY_NAME = ''META-INF/com/google/android/update-binary''"
definition ASSUMED_UPDATE_SCRIPT_NAME :: string where
  "ASSUMED_UPDATE_SCRIPT_NAME = ''META-INF/com/google/android/update-script''"
definition PUBLIC_KEYS_FILE :: string where "PUBLIC_KEYS_FILE = ''/res/keys''"
definition LAST_INSTALL_FILE :: string where "LAST_INSTALL_FILE = ''/cache/recovery/last_install''"
definition UPDATE_BINARY :: string where "UPDATE_BINARY = ''/tmp/update_binary''"

text \<open>\<open>Inl\<close> is a failure, \<open>Inr\<close> the data with their size.\<close>

definition firmware_data ::
  "('w, 'c, 'd, 'z) install_env \<Rightarrow> string \<Rightarrow> zip_archive \<Rightarrow> 'w \<Rightarrow> ((unit + byte list \<times> int) \<times> 'w) option" where
  "firmware_data E filename archive w =
     (let sys = ie_sys E in
      if take 8 filename = ''PACKAGE:'' then
        Option.bind (find_zip_entry archive (drop 8 filename)) (\<lambda>entry.
        case entry of
          None \<Rightarrow> Some (Inl (), w)
        | Some entry \<Rightarrow>
            let data_size = uncompLen entry mod 2 ^ 32; A = ie_archive E (zip_fd archive) w in
            (case os_malloc sys data_size w of
               None \<Rightarrow> Some (Inl (), w)
             | Some data \<Rightarrow>
                 map_option (\<lambda>(ok, data). (if ok then Inr (data, data_size) else Inl (), w))
                   (mzReadZipEntry (ar_read A) (ar_inflate A) (ar_init A entry) (ar_off A) entry data (int32 data_size))))
      else
        (case os_stat sys filename w of
           None \<Rightarrow> Some (Inl (), w)
         | Some st \<Rightarrow>
             let data_size = st_size st mod 2 ^ 32 in
             if os_malloc sys data_size w = None then Some (Inl (), w)
             else case os_fopen sys filename False w of
               (None, w) \<Rightarrow> Some (Inl (), w)
             | (Some f, w) \<Rightarrow>
                 (case os_fread sys f data_size w of (data, w) \<Rightarrow>
                    if int (length data) \<noteq> data_size then Some (Inl (), w)
                    else Some (Inr (data, data_size), snd (os_fclose sys f w)))))"

definition handle_firmware_update ::
  "('w, 'c, 'd, 'z) install_env \<Rightarrow> string \<Rightarrow> string \<Rightarrow> zip_archive \<Rightarrow> 'w installer \<Rightarrow> (int \<times> 'w installer) option" where
  "handle_firmware_update E type filename archive s =
     Option.bind (firmware_data E filename archive (in_world s)) (\<lambda>(r, w).
     let s = put_in_world w s in
     case r of
       Inl _ \<Rightarrow> Some (INSTALL_ERROR, s)
     | Inr (data, data_size) \<Rightarrow>
         (case remember_firmware_update (Some type) data (int32 data_size) s of (r, s) \<Rightarrow>
            Some (if r \<noteq> 0 then INSTALL_ERROR else INSTALL_SUCCESS, s)))"

text \<open>
  The commands of the child, one per string of \<open>fgets\<close>; only \<open>firmware\<close> matters for what follows. A
  missing number is a null pointer for \<open>strtof\<close> or \<open>strtol\<close>; the results of \<open>strdup\<close> are not checked: a
  firmware request whose type could be copied and not its name is undefined when it is used.
\<close>

definition space_nl :: "char \<Rightarrow> bool" where "space_nl c \<longleftrightarrow> c = CHR '' '' \<or> c = NL"

definition child_command ::
  "'w os \<Rightarrow> 'w \<Rightarrow> string \<Rightarrow> string option \<times> string option \<Rightarrow> (string option \<times> string option) option" where
  "child_command sys w buffer fw =
     (case strtok space_nl buffer of
        None \<Rightarrow> Some fw
      | Some (command, rest) \<Rightarrow>
          if command = ''progress'' then
            (case strtok space_nl rest of
               None \<Rightarrow> None
             | Some (_, rest) \<Rightarrow> if strtok space_nl rest = None then None else Some fw)
          else if command = ''set_progress'' then (if strtok space_nl rest = None then None else Some fw)
          else if command = ''firmware'' then
            (case strtok space_nl rest of
               None \<Rightarrow> Some fw
             | Some (type, rest) \<Rightarrow>
                 (case strtok space_nl rest of
                    None \<Rightarrow> Some fw
                  | Some (filename, _) \<Rightarrow>
                      if fst fw \<noteq> None then Some fw else Some (strdup sys w type, strdup sys w filename)))
          else Some fw)"

fun child_commands ::
  "'w os \<Rightarrow> 'w \<Rightarrow> string list \<Rightarrow> string option \<times> string option \<Rightarrow> (string option \<times> string option) option" where
  "child_commands sys w [] fw = Some fw"
| "child_commands sys w (l # ls) fw = Option.bind (child_command sys w l fw) (child_commands sys w ls)"

text \<open>The end of \<open>try_update_binary\<close>, once the program has been extracted.\<close>

definition run_update_binary ::
  "('w, 'c, 'd, 'z) install_env \<Rightarrow> string \<Rightarrow> zip_archive \<Rightarrow> 'w installer \<Rightarrow> (int \<times> 'w installer) option" where
  "run_update_binary E path archive s =
     (let args = [UPDATE_BINARY, ie_api_version E, show_int (ie_pipe E (in_world s)), path] in
      case ie_child E args (in_world s) of (lines, status, w) \<Rightarrow>
        Option.bind (child_commands (ie_sys E) w lines (None, None)) (\<lambda>(type, filename).
        if status \<noteq> Some 0 then Some (INSTALL_ERROR, put_in_world (mzCloseZipArchive E archive w) s)
        else case type of
          None \<Rightarrow> Some (INSTALL_SUCCESS, put_in_world w s)
        | Some type \<Rightarrow>
            Option.bind filename (\<lambda>filename.
            Option.bind (handle_firmware_update E type filename archive (put_in_world w s)) (\<lambda>(ret, s).
            Some (ret, put_in_world (mzCloseZipArchive E archive (in_world s)) s)))))"

definition try_update_binary ::
  "('w, 'c, 'd, 'z) install_env \<Rightarrow> string \<Rightarrow> zip_archive \<Rightarrow> 'w installer \<Rightarrow> (int \<times> 'w installer) option" where
  "try_update_binary E path archive s =
     (let sys = ie_sys E in
      Option.bind (find_zip_entry archive ASSUMED_UPDATE_BINARY_NAME) (\<lambda>binary_entry.
      case binary_entry of
        None \<Rightarrow>
          Option.bind (find_zip_entry archive ASSUMED_UPDATE_SCRIPT_NAME) (\<lambda>script.
          Some (INSTALL_UPDATE_BINARY_MISSING,
                if script \<noteq> None then s else put_in_world (mzCloseZipArchive E archive (in_world s)) s))
      | Some binary_entry \<Rightarrow>
          let w = snd (os_unlink sys UPDATE_BINARY (in_world s)) in
          (case os_open sys UPDATE_BINARY O_CREAT_TRUNC w of (fd, w) \<Rightarrow>
             if fd < 0 then Some (1, put_in_world (mzCloseZipArchive E archive w) s)
             else
               let A = ie_archive E (zip_fd archive) w in
               Option.bind (mzExtractZipEntryToFile (ar_read A) (ar_inflate A) (ar_init A binary_entry) (ar_off A)
                   (\<lambda>d w. case os_write sys fd d w of (n, w) \<Rightarrow> (n, ie_eintr E w, w)) binary_entry w) (\<lambda>(ok, w).
               let w = snd (os_close sys fd w) in
               if \<not> ok then Some (1, put_in_world (mzCloseZipArchive E archive w) s)
               else run_update_binary E path archive (put_in_world w s)))))"

section \<open>Installing\<close>

text \<open>Whether the package may be installed: the part of \<open>really_install_package\<close> under \<open>signature_check_enabled\<close>.\<close>

definition package_allowed :: "('w, 'c, 'd, 'z) install_env \<Rightarrow> string \<Rightarrow> 'w \<Rightarrow> bool option" where
  "package_allowed E path w =
     (if \<not> ie_signature_check E then Some True
      else
        Option.bind (load_keys (ie_realloc E) (ie_nwords E) (map_option text_of (ie_file E PUBLIC_KEYS_FILE w))) (\<lambda>keys.
        case keys of
          None \<Rightarrow> Some False
        | Some loadedKeys \<Rightarrow>
            map_option (\<lambda>err. err = VERIFY_SUCCESS \<or> ie_confirm E w)
              (verify_file (ie_crypto E) (ie_verify_read E) (ie_verify_fread E) (ie_verify_mem E) (ie_file E path w) loadedKeys)))"

definition really_install_package ::
  "('w, 'c, 'd, 'z) install_env \<Rightarrow> string \<Rightarrow> 'w installer \<Rightarrow> (int \<times> 'w installer) option" where
  "really_install_package E path s =
     Option.bind (on_phone (on_base (ensure_path_mounted (ie_sys E) path)) s) (\<lambda>(r, s).
     if r \<noteq> 0 then Some (INSTALL_CORRUPT, s)
     else
       Option.bind (package_allowed E path (in_world s)) (\<lambda>allowed.
       if \<not> allowed then Some (INSTALL_CORRUPT, s)
       else
         Option.bind (mzOpenZipArchive E path (in_world s)) (\<lambda>(archive, w).
         case archive of
           Inl _ \<Rightarrow> Some (INSTALL_CORRUPT, put_in_world w s)
         | Inr archive \<Rightarrow> try_update_binary E path archive (put_in_world w s))))"

definition install_package ::
  "('w, 'c, 'd, 'z) install_env \<Rightarrow> string \<Rightarrow> 'w installer \<Rightarrow> (int \<times> 'w installer) option" where
  "install_package E path s =
     (let sys = ie_sys E in
      Option.bind (on_phone (on_base (fopen_path sys (ie_fs E) LAST_INSTALL_FILE Mode_w)) s) (\<lambda>(install_log, s).
      case install_log of
        None \<Rightarrow> really_install_package E path s
      | Some f \<Rightarrow>
          let s = put_in_world (os_fputs sys f [NL] (os_fputs sys f path (in_world s))) s in
          Option.bind (really_install_package E path s) (\<lambda>(result, s).
          let w = os_fputs sys f [NL] (os_fputs sys f (if result = INSTALL_SUCCESS then ''1'' else ''0'') (in_world s));
              w = snd (os_fclose sys f w)
          in Some (result, put_in_world (snd (os_chmod sys LAST_INSTALL_FILE 420 w)) s))))"

section \<open>What is installed was verified\<close>

lemma run_update_binary_success:
  assumes "run_update_binary E path archive s = Some (INSTALL_SUCCESS, s')"
  shows "\<exists>lines w. ie_child E [UPDATE_BINARY, ie_api_version E, show_int (ie_pipe E (in_world s)), path] (in_world s) = (lines, Some 0, w)"
proof -
  obtain lines status w where c: "ie_child E [UPDATE_BINARY, ie_api_version E, show_int (ie_pipe E (in_world s)), path] (in_world s) = (lines, status, w)"
    by (cases "ie_child E [UPDATE_BINARY, ie_api_version E, show_int (ie_pipe E (in_world s)), path] (in_world s)") auto
  have "INSTALL_ERROR \<noteq> INSTALL_SUCCESS" by (simp add: INSTALL_ERROR_def INSTALL_SUCCESS_def)
  with assms c have "status = Some 0"
    by (cases "status = Some 0") (auto simp: run_update_binary_def Let_def bind_eq_Some_conv split_beta)
  with c show ?thesis by simp
qed

lemma try_update_binary_success:
  assumes "try_update_binary E path archive s = Some (INSTALL_SUCCESS, s')"
  shows "\<exists>entry w lines w'. find_zip_entry archive ASSUMED_UPDATE_BINARY_NAME = Some (Some entry) \<and>
    ie_child E [UPDATE_BINARY, ie_api_version E, show_int (ie_pipe E w), path] w = (lines, Some 0, w')"
proof -
  have d: "INSTALL_UPDATE_BINARY_MISSING \<noteq> INSTALL_SUCCESS" "INSTALL_SUCCESS \<noteq> 1"
    by (simp_all add: INSTALL_UPDATE_BINARY_MISSING_def INSTALL_SUCCESS_def)
  obtain e where e: "find_zip_entry archive ASSUMED_UPDATE_BINARY_NAME = Some (Some e)"
    using assms d(1) by (auto simp: try_update_binary_def Let_def bind_eq_Some_conv split: option.splits)
  obtain s1 where "run_update_binary E path archive s1 = Some (INSTALL_SUCCESS, s')"
    using assms d(2) e unfolding try_update_binary_def
    by (auto simp: Let_def bind_eq_Some_conv split: prod.splits if_splits)
  from run_update_binary_success [OF this] e show ?thesis by blast
qed

lemma mzOpenZipArchive_parsed:
  assumes "mzOpenZipArchive E path w = Some (Inr archive, w')"
  shows "\<exists>f. ie_file E path w = Some f \<and>
    parseZipArchive (ie_safe_ptr E) (ie_safe_long E) (ie_zip_mem E) (ie_map_addr E) f = Some (Some (zip_parsed archive))"
  using assms by (auto simp: mzOpenZipArchive_def split: option.splits prod.splits if_splits)

definition verified_by :: "('w, 'c, 'd, 'z) install_env \<Rightarrow> string \<Rightarrow> 'w \<Rightarrow> RSAPublicKey list \<Rightarrow> bool" where
  "verified_by E path w keys \<longleftrightarrow>
     load_keys (ie_realloc E) (ie_nwords E) (map_option text_of (ie_file E PUBLIC_KEYS_FILE w)) = Some (Some keys) \<and>
     verify_file (ie_crypto E) (ie_verify_read E) (ie_verify_fread E) (ie_verify_mem E) (ie_file E path w) keys = Some VERIFY_SUCCESS"

lemma package_allowed_verified:
  assumes "ie_signature_check E" "\<not> ie_confirm E w" "package_allowed E path w = Some True"
  shows "\<exists>keys. verified_by E path w keys"
  using assms by (auto simp: package_allowed_def verified_by_def bind_eq_Some_conv split: option.splits)

text \<open>
  C1: With signatures checked and no consent of the user: a package that is not verified by the keys of the
  device is refused, and nothing has been done but mounting its volume. A package that is installed was
  verified, its program is an entry of the archive in the very bytes that were verified, and that program
  ended with status zero.
\<close>

theorem installed_package_verified:
  assumes "ie_signature_check E" "ensure_path_mounted (ie_sys E) path (ph_base (dev s)) = Some (0, b)" "\<not> ie_confirm E (machine b)"
    "really_install_package E path s = Some (r, s')"
  shows "((\<nexists>keys. verified_by E path (machine b) keys) \<longrightarrow> r = INSTALL_CORRUPT \<and> s' = s\<lparr>dev := set_base b (dev s)\<rparr>) \<and>
    (r = INSTALL_SUCCESS \<longrightarrow> (\<exists>keys f archive entry w lines w'. verified_by E path (machine b) keys \<and> ie_file E path (machine b) = Some f \<and>
       parseZipArchive (ie_safe_ptr E) (ie_safe_long E) (ie_zip_mem E) (ie_map_addr E) f = Some (Some (zip_parsed archive)) \<and>
       find_zip_entry archive ASSUMED_UPDATE_BINARY_NAME = Some (Some entry) \<and>
       ie_child E [UPDATE_BINARY, ie_api_version E, show_int (ie_pipe E w), path] w = (lines, Some 0, w')))"
proof -
  define s1 where "s1 = s\<lparr>dev := set_base b (dev s)\<rparr>"
  have w1: "in_world s1 = machine b" by (simp add: s1_def)
  have run: "really_install_package E path s = Option.bind (package_allowed E path (machine b)) (\<lambda>allowed.
       if \<not> allowed then Some (INSTALL_CORRUPT, s1)
       else
         Option.bind (mzOpenZipArchive E path (machine b)) (\<lambda>(archive, w).
         case archive of
           Inl _ \<Rightarrow> Some (INSTALL_CORRUPT, put_in_world w s1)
         | Inr archive \<Rightarrow> try_update_binary E path archive (put_in_world w s1)))"
    using assms(2) by (simp add: really_install_package_def on_phone_def on_base_def w1 s1_def [symmetric] cong: if_cong)
  have d: "INSTALL_CORRUPT \<noteq> INSTALL_SUCCESS" by (simp add: INSTALL_CORRUPT_def INSTALL_SUCCESS_def)
  obtain allowed where a: "package_allowed E path (machine b) = Some allowed"
    using assms(4) unfolding run by (cases "package_allowed E path (machine b)") auto
  show ?thesis
  proof (cases allowed)
    case False
    then show ?thesis using assms(4) a d unfolding run by (simp add: s1_def)
  next
    case True
    then obtain keys where k: "verified_by E path (machine b) keys" using package_allowed_verified [OF assms(1,3)] a by auto
    obtain z w where z: "mzOpenZipArchive E path (machine b) = Some (z, w)" using assms(4) a True unfolding run
      by (cases "mzOpenZipArchive E path (machine b)") auto
    show ?thesis
    proof (cases z)
      case (Inl x)
      then show ?thesis using assms(4) a True z d k unfolding run by auto
    next
      case (Inr archive)
      then have t: "try_update_binary E path archive (put_in_world w s1) = Some (r, s')" using assms(4) a True z unfolding run by simp
      show ?thesis using k try_update_binary_success [of E path archive "put_in_world w s1" s'] t
        mzOpenZipArchive_parsed [OF z [unfolded Inr]] by blast
    qed
  qed
qed


definition empty_phone :: "unit phone" where
  "empty_phone = \<lparr>ses = \<lparr>base = \<lparr>mtd = g_mtd_state, mounts = g_mounts_state, device_volumes = [tmp_volume], machine = ()\<rparr>,
     the_flash_type = UNKNOWN, tmplog_offset = 0\<rparr>, mmc = g_mmc_state, handle_data_media = False\<rparr>"

definition empty_installer :: "unit installer" where
  "empty_installer = \<lparr>dev = empty_phone, update_type = None, update_data = None, update_length = 0\<rparr>"

text \<open>An environment with an unsigned package and a file of keys.\<close>

definition unsigned_env :: "(unit, nat, nat, unit) install_env" where
  "unsigned_env = \<lparr>ie_sys = null_os, ie_fs = no_fs,
     ie_crypto = \<lparr>RSANUMBYTES = 256, RSA_verify = \<lambda>k s d. False, SHA_init = 0, SHA_update = \<lambda>c d. c, SHA_final = \<lambda>c. c\<rparr>,
     ie_nwords = 2, ie_file = \<lambda>p w. Some (bytes_of (if p = PUBLIC_KEYS_FILE then show_keys sample_keys else ''PK'')),
     ie_verify_read = (True, True), ie_verify_fread = \<lambda>n. True, ie_verify_mem = (True, True), ie_realloc = \<lambda>n. True,
     ie_map = \<lambda>f w. True, ie_safe_ptr = \<lambda>a b. True, ie_safe_long = \<lambda>a b. True, ie_zip_mem = (True, True, True), ie_map_addr = 0,
     ie_archive = \<lambda>f w. \<lparr>ar_read = \<lambda>o' n. (0, []), ar_inflate = \<lambda>z i n. (0, 0, [], z), ar_init = \<lambda>e. (0, ()), ar_off = 0\<rparr>,
     ie_eintr = \<lambda>w. False, ie_pipe = \<lambda>w. 5, ie_api_version = ''3'', ie_child = \<lambda>a w. ([], Some 0, w), ie_confirm = \<lambda>w. False,
     ie_signature_check = True, ie_image = ((0, 0, 0), None, None)\<rparr>"

theorem installed_package_verified_witness:
  "\<exists>r s'. really_install_package unsigned_env ''/tmp/update.zip'' empty_installer = Some (r, s') \<and> r = INSTALL_CORRUPT \<and> s' = empty_installer"
proof -
  have m: "ensure_path_mounted (ie_sys unsigned_env) ''/tmp/update.zip'' (ph_base (dev empty_installer)) = Some (0, ph_base (dev empty_installer))"
    by code_simp
  have f: "verify_file (ie_crypto unsigned_env) (ie_verify_read unsigned_env) (ie_verify_fread unsigned_env) (ie_verify_mem unsigned_env)
      (ie_file unsigned_env ''/tmp/update.zip'' w) keys = Some VERIFY_FAILURE" for keys w
    by (simp add: verify_file_def unsigned_env_def PUBLIC_KEYS_FILE_def bytes_of_def FOOTER_SIZE_def)
  then have n: "\<nexists>keys. verified_by unsigned_env ''/tmp/update.zip'' () keys"
    by (simp add: verified_by_def VERIFY_FAILURE_def VERIFY_SUCCESS_def)
  have sg: "ie_signature_check unsigned_env" "\<not> ie_confirm unsigned_env ()" by (simp_all add: unsigned_env_def)
  obtain ks where "load_keys (ie_realloc unsigned_env) (ie_nwords unsigned_env) (map_option text_of (ie_file unsigned_env PUBLIC_KEYS_FILE ())) = Some ks"
    using keys_loop_returns by (simp add: load_keys_def unsigned_env_def) blast
  then have "package_allowed unsigned_env ''/tmp/update.zip'' () = Some False"
    using sg f by (cases ks) (simp_all add: package_allowed_def VERIFY_FAILURE_def VERIFY_SUCCESS_def)
  then obtain r s' where i: "really_install_package unsigned_env ''/tmp/update.zip'' empty_installer = Some (r, s')"
    using m by (simp add: really_install_package_def on_phone_def on_base_def)
  have "empty_installer\<lparr>dev := set_base (ph_base (dev empty_installer)) (dev empty_installer)\<rparr> = empty_installer" by simp
  with installed_package_verified [OF sg(1) m _ i] n sg(2) i show ?thesis by simp
qed

end
