(* ===== verification/Dir_Trees.thy ===== *)
theory Dir_Trees
  imports DirUtil "HOL-Library.Sublist"
begin

text \<open>
  Walks over directory trees: \<open>dirUnlinkHierarchy\<close> and \<open>dirSetHierarchyPermissions\<close> of \<^verbatim>\<open>minzip/DirUtil.c\<close>. The
  calls on the file system are the record \<open>tree_ops\<close>; the names of a directory are those at the time it
  is opened.
\<close>

section \<open>Model\<close>

datatype kind = Directory | Symlink | Other

record 'w tree_ops =
  t_lstat :: "string \<Rightarrow> 'w \<Rightarrow> kind option"
  t_unlink :: "string \<Rightarrow> 'w \<Rightarrow> int \<times> 'w"
  t_rmdir :: "string \<Rightarrow> 'w \<Rightarrow> int \<times> 'w"
  t_opendir :: "string \<Rightarrow> 'w \<Rightarrow> string list option"
  t_closedir :: "string \<Rightarrow> 'w \<Rightarrow> int"
  t_chown :: "string \<Rightarrow> int \<Rightarrow> int \<Rightarrow> 'w \<Rightarrow> int \<times> 'w"
  t_chmod :: "string \<Rightarrow> int \<Rightarrow> 'w \<Rightarrow> int \<times> 'w"

definition dots :: "string \<Rightarrow> bool" where
  "dots d \<longleftrightarrow> d = ''..'' \<or> d = ''.''"

text \<open>\<open>snprintf\<close> into an array of \<open>PATH_MAX\<close> cuts a path that is too long.\<close>

definition child_path :: "string \<Rightarrow> string \<Rightarrow> string" where
  "child_path path d = take (PATH_MAX - 1) (path @ CHR ''/'' # d)"

text \<open>
  The function and its loop over the names of a directory: \<open>Inl\<close> is a call for a path, \<open>Inr\<close> the rest of
  the loop. \<open>errno\<close> is never negative, so an error of \<open>readdir\<close> ends the loop like the end of the directory.
\<close>

partial_function (option) unlink_walk :: "'w tree_ops \<Rightarrow> string + string \<times> string list \<Rightarrow> 'w \<Rightarrow> (int \<times> 'w) option" where
  "unlink_walk T x w =
     (case x of
        Inl path \<Rightarrow>
          (case t_lstat T path w of
             None \<Rightarrow> Some (- 1, w)
           | Some k \<Rightarrow>
               if k \<noteq> Directory then Some (t_unlink T path w)
               else case t_opendir T path w of
                 None \<Rightarrow> Some (- 1, w)
               | Some ds \<Rightarrow>
                   Option.bind (unlink_walk T (Inr (path, ds)) w) (\<lambda>(r, w).
                   if r < 0 then Some (- 1, w)
                   else if t_closedir T path w < 0 then Some (- 1, w)
                   else Some (t_rmdir T path w)))
      | Inr (path, ds) \<Rightarrow>
          (case ds of
             [] \<Rightarrow> Some (0, w)
           | d # ds \<Rightarrow>
               if dots d then unlink_walk T (Inr (path, ds)) w
               else
                 Option.bind (unlink_walk T (Inl (child_path path d)) w) (\<lambda>(r, w).
                 if r < 0 then Some (- 1, w) else unlink_walk T (Inr (path, ds)) w)))"

declare unlink_walk.simps [code]

definition dirUnlinkHierarchy :: "'w tree_ops \<Rightarrow> string \<Rightarrow> 'w \<Rightarrow> (int \<times> 'w) option" where
  "dirUnlinkHierarchy T path w = unlink_walk T (Inl path) w"

text \<open>The second walk stops at the first failure; that \<open>errno\<close> is set after a failed call is not needed.\<close>

partial_function (option) perm_walk ::
  "'w tree_ops \<Rightarrow> int \<Rightarrow> int \<Rightarrow> int \<Rightarrow> int \<Rightarrow> string + string \<times> string list \<Rightarrow> 'w \<Rightarrow> (int \<times> 'w) option" where
  "perm_walk T uid gid dirMode fileMode x w =
     (case x of
        Inl path \<Rightarrow>
          (case t_lstat T path w of
             None \<Rightarrow> Some (- 1, w)
           | Some k \<Rightarrow>
               if k = Symlink then Some (0, w)
               else case t_chown T path uid gid w of (r, w) \<Rightarrow>
                 if r \<noteq> 0 then Some (- 1, w)
                 else case t_chmod T path (if k = Directory then dirMode else fileMode) w of (r, w) \<Rightarrow>
                   if r \<noteq> 0 then Some (- 1, w)
                   else if k \<noteq> Directory then Some (0, w)
                   else case t_opendir T path w of
                     None \<Rightarrow> Some (- 1, w)
                   | Some ds \<Rightarrow>
                       Option.bind (perm_walk T uid gid dirMode fileMode (Inr (path, ds)) w) (\<lambda>(r, w).
                       Some (if r \<noteq> 0 \<or> t_closedir T path w \<noteq> 0 then - 1 else 0, w)))
      | Inr (path, ds) \<Rightarrow>
          (case ds of
             [] \<Rightarrow> Some (0, w)
           | d # ds \<Rightarrow>
               if dots d then perm_walk T uid gid dirMode fileMode (Inr (path, ds)) w
               else
                 Option.bind (perm_walk T uid gid dirMode fileMode (Inl (child_path path d)) w) (\<lambda>(r, w).
                 if r \<noteq> 0 then Some (- 1, w) else perm_walk T uid gid dirMode fileMode (Inr (path, ds)) w)))"

declare perm_walk.simps [code]

definition dirSetHierarchyPermissions :: "'w tree_ops \<Rightarrow> string \<Rightarrow> int \<Rightarrow> int \<Rightarrow> int \<Rightarrow> int \<Rightarrow> 'w \<Rightarrow> (int \<times> 'w) option" where
  "dirSetHierarchyPermissions T path uid gid dirMode fileMode w = perm_walk T uid gid dirMode fileMode (Inl path) w"

section \<open>Removing a tree\<close>

text \<open>
  The tree as a map from paths to kinds. What the calls rely on: the names of a directory are its
  children, \<open>unlink\<close> removes a file or a link, \<open>rmdir\<close> an empty directory.
\<close>

type_synonym tree = "string \<Rightarrow> kind option"

abbreviation sub :: "string \<Rightarrow> string \<Rightarrow> string" where "sub p n \<equiv> p @ CHR ''/'' # n"

definition below :: "string \<Rightarrow> string set" where
  "below p = {q. q = p \<or> (\<exists>r. q = sub p r)}"

definition tree_ok :: "tree \<Rightarrow> bool" where
  "tree_ok t \<longleftrightarrow> finite (dom t) \<and> (\<forall>p r. t (sub p r) \<noteq> None \<longrightarrow> p = [] \<or> t p = Some Directory) \<and>
     (\<forall>p n. t (sub p n) \<noteq> None \<and> CHR ''/'' \<notin> set n \<longrightarrow> n \<noteq> [] \<and> \<not> dots n) \<and> (\<forall>p. t p \<noteq> None \<longrightarrow> length p < PATH_MAX)"

definition tree_law :: "'w tree_ops \<Rightarrow> ('w \<Rightarrow> tree) \<Rightarrow> bool" where
  "tree_law T tree \<longleftrightarrow>
     (\<forall>p w. t_lstat T p w = tree w p) \<and> (\<forall>p w. t_closedir T p w = 0) \<and>
     (\<forall>p w. tree w p = Some Directory \<longrightarrow> (\<exists>ds. t_opendir T p w = Some ds \<and> distinct ds \<and>
        {n \<in> set ds. \<not> dots n} = {n. tree w (sub p n) \<noteq> None \<and> CHR ''/'' \<notin> set n})) \<and>
     (\<forall>p w. tree w p \<noteq> None \<and> tree w p \<noteq> Some Directory \<longrightarrow> (\<exists>w'. t_unlink T p w = (0, w') \<and> tree w' = (tree w)(p := None))) \<and>
     (\<forall>p w. tree w p = Some Directory \<and> (\<forall>r. tree w (sub p r) = None) \<longrightarrow>
        (\<exists>w'. t_rmdir T p w = (0, w') \<and> tree w' = (tree w)(p := None)))"

definition without :: "tree \<Rightarrow> string set \<Rightarrow> tree" where
  "without t A = (\<lambda>q. if q \<in> A then None else t q)"

lemma below_sub: "a \<in> below p \<Longrightarrow> sub a r \<in> below p"
  by (auto simp: below_def)

lemma without_without: "without (without t A) B = without t (A \<union> B)"
  by (auto simp: without_def)

lemma without_Some: "without t A q \<noteq> None \<longleftrightarrow> t q \<noteq> None \<and> q \<notin> A"
  by (simp add: without_def)

lemma tree_ok_without:
  assumes t: "tree_ok t"
  shows "tree_ok (without t (below p))"
proof -
  have "finite (dom (without t (below p)))"
    by (rule finite_subset [of _ "dom t"]) (use t in \<open>auto simp: without_def tree_ok_def split: if_splits\<close>)
  moreover have "a = [] \<or> without t (below p) a = Some Directory" if "without t (below p) (sub a r) \<noteq> None" for a r
  proof -
    have "t (sub a r) \<noteq> None" "a \<notin> below p" using that [unfolded without_Some] below_sub [of a p r] by blast+
    then show ?thesis using t unfolding tree_ok_def by (simp add: without_def) blast
  qed
  moreover have "n \<noteq> [] \<and> \<not> dots n" if "without t (below p) (sub q n) \<noteq> None" "CHR ''/'' \<notin> set n" for q n
    using t that unfolding tree_ok_def without_Some by blast
  moreover have "length q < PATH_MAX" if "without t (below p) q \<noteq> None" for q
    using t that unfolding tree_ok_def without_Some by blast
  ultimately show ?thesis unfolding tree_ok_def by blast
qed

lemma tree_lawD:
  assumes "tree_law T tree"
  shows "t_lstat T p w = tree w p" "t_closedir T p w = 0"
    "tree w p = Some Directory \<Longrightarrow> \<exists>ds. t_opendir T p w = Some ds \<and> distinct ds \<and>
        {n \<in> set ds. \<not> dots n} = {n. tree w (sub p n) \<noteq> None \<and> CHR ''/'' \<notin> set n}"
    "tree w p \<noteq> None \<Longrightarrow> tree w p \<noteq> Some Directory \<Longrightarrow> \<exists>w'. t_unlink T p w = (0, w') \<and> tree w' = (tree w)(p := None)"
    "tree w p = Some Directory \<Longrightarrow> (\<And>r. tree w (sub p r) = None) \<Longrightarrow> \<exists>w'. t_rmdir T p w = (0, w') \<and> tree w' = (tree w)(p := None)"
  using assms unfolding tree_law_def by blast+

text \<open>Every path below a directory is, or is below, one of its children.\<close>

lemma first_child:
  assumes "tree_ok t" "t (sub p r) \<noteq> None"
  shows "\<exists>n. CHR ''/'' \<notin> set n \<and> t (sub p n) \<noteq> None \<and> sub p r \<in> below (sub p n)"
proof (cases "CHR ''/'' \<in> set r")
  case False
  then show ?thesis using assms(2) by (intro exI [of _ r]) (simp add: below_def)
next
  case True
  then obtain n r' where r: "r = n @ CHR ''/'' # r'" "CHR ''/'' \<notin> set n" by (metis split_list_first)
  have "t (sub (sub p n) r') \<noteq> None" using assms(2) r(1) by simp
  then have "t (sub p n) = Some Directory" using assms(1) unfolding tree_ok_def by blast
  then show ?thesis using r by (intro exI [of _ n]) (auto simp: below_def)
qed

lemma child_path_ok: "tree_ok t \<Longrightarrow> t (sub p d) \<noteq> None \<Longrightarrow> child_path p d = sub p d"
  by (fastforce simp: tree_ok_def child_path_def)

lemma children_disjoint: "CHR ''/'' \<notin> set d' \<Longrightarrow> d \<noteq> d' \<Longrightarrow> sub p d' \<notin> below (sub p d)"
  by (auto simp: below_def)

text \<open>The loop over the children, given that each of them can be removed.\<close>

lemma unlink_loop:
  assumes law: "tree_law T tree"
    and one: "\<And>w d. tree_ok (tree w) \<Longrightarrow> dom (tree w) \<subseteq> D \<Longrightarrow> tree w (sub p d) \<noteq> None \<Longrightarrow>
      \<exists>w'. unlink_walk T (Inl (sub p d)) w = Some (0, w') \<and> tree w' = without (tree w) (below (sub p d))"
  shows "tree_ok (tree w) \<Longrightarrow> dom (tree w) \<subseteq> D \<Longrightarrow> distinct ds \<Longrightarrow>
    \<forall>d \<in> set ds. \<not> dots d \<longrightarrow> tree w (sub p d) \<noteq> None \<and> CHR ''/'' \<notin> set d \<Longrightarrow>
    \<exists>w'. unlink_walk T (Inr (p, ds)) w = Some (0, w') \<and> tree w' = without (tree w) (\<Union>d \<in> {d \<in> set ds. \<not> dots d}. below (sub p d))"
proof (induction ds arbitrary: w)
  case Nil
  then show ?case by (simp add: unlink_walk.simps [of T "Inr (p, [])"] without_def)
next
  case (Cons d ds)
  note step = unlink_walk.simps [of T "Inr (p, d # ds)" w]
  show ?case
  proof (cases "dots d")
    case True
    then have "{x \<in> set (d # ds). \<not> dots x} = {x \<in> set ds. \<not> dots x}" by auto
    with True Cons show ?thesis unfolding step by simp
  next
    case False
    then have d: "tree w (sub p d) \<noteq> None" "CHR ''/'' \<notin> set d" using Cons.prems(4) by auto
    from one [OF Cons.prems(1,2) d(1)] obtain w1 where
      w1: "unlink_walk T (Inl (sub p d)) w = Some (0, w1)" "tree w1 = without (tree w) (below (sub p d))" by blast
    have ok: "tree_ok (tree w1)" unfolding w1(2) by (rule tree_ok_without) (rule Cons.prems(1))
    have dm: "dom (tree w1) \<subseteq> D" using Cons.prems(2) by (auto simp: w1(2) without_def split: if_splits)
    have "\<forall>x \<in> set ds. \<not> dots x \<longrightarrow> tree w1 (sub p x) \<noteq> None \<and> CHR ''/'' \<notin> set x"
      using Cons.prems(3,4) children_disjoint [of _ d p] by (fastforce simp: w1(2) without_def)
    from Cons.IH [OF ok dm _ this] Cons.prems(3) obtain w' where w': "unlink_walk T (Inr (p, ds)) w1 = Some (0, w')"
      "tree w' = without (tree w1) (\<Union>d \<in> {d \<in> set ds. \<not> dots d}. below (sub p d))" by auto
    have "{x \<in> set (d # ds). \<not> dots x} = insert d {x \<in> set ds. \<not> dots x}" using False by auto
    then have "tree w' = without (tree w) (\<Union>x \<in> {x \<in> set (d # ds). \<not> dots x}. below (sub p x))"
      unfolding w'(2) w1(2) by (simp only: without_without UN_insert)
    then show ?thesis using False w1(1) w'(1) child_path_ok [OF Cons.prems(1) d(1)] unfolding step by simp
  qed
qed

lemma unlink_walk_removes:
  assumes law: "tree_law T tree"
  shows "tree_ok (tree w) \<Longrightarrow> p \<noteq> [] \<Longrightarrow> tree w p \<noteq> None \<Longrightarrow>
    \<exists>w'. unlink_walk T (Inl p) w = Some (0, w') \<and> tree w' = without (tree w) (below p)"
proof (induction "card (dom (tree w) \<inter> below p)" arbitrary: w p rule: less_induct)
  case less
  note ok = less.prems(1)
  note step = unlink_walk.simps [of T "Inl p" w, unfolded tree_lawD(1) [OF law]]
  show ?case
  proof (cases "tree w p = Some Directory")
    case False
    then have "tree w (sub p r) = None" for r using ok less.prems(2) unfolding tree_ok_def by blast
    then have "(tree w)(p := None) = without (tree w) (below p)" by (auto simp: without_def below_def fun_eq_iff)
    then show ?thesis using tree_lawD(4) [OF law less.prems(3) False] False less.prems(3) unfolding step by auto
  next
    case True
    from tree_lawD(3) [OF law True] obtain ds where ds: "t_opendir T p w = Some ds" "distinct ds"
      "{n \<in> set ds. \<not> dots n} = {n. tree w (sub p n) \<noteq> None \<and> CHR ''/'' \<notin> set n}" by blast
    have one: "\<exists>w'. unlink_walk T (Inl (sub p d)) w1 = Some (0, w') \<and> tree w' = without (tree w1) (below (sub p d))"
      if "tree_ok (tree w1)" "dom (tree w1) \<subseteq> dom (tree w)" "tree w1 (sub p d) \<noteq> None" for w1 d
    proof (rule less.hyps)
      have "p \<notin> below (sub p d)" by (auto simp: below_def)
      then have "dom (tree w1) \<inter> below (sub p d) \<subset> dom (tree w) \<inter> below p"
        using that(2) True below_sub [of "sub p d" p] by (auto simp: below_def)
      moreover have "finite (dom (tree w) \<inter> below p)" using ok by (simp add: tree_ok_def)
      ultimately show "card (dom (tree w1) \<inter> below (sub p d)) < card (dom (tree w) \<inter> below p)" by (rule psubset_card_mono [rotated])
    qed (use that in auto)
    have "\<forall>d \<in> set ds. \<not> dots d \<longrightarrow> tree w (sub p d) \<noteq> None \<and> CHR ''/'' \<notin> set d" using ds(3) by blast
    from unlink_loop [OF law one ok subset_refl ds(2) this] obtain w2 where w2: "unlink_walk T (Inr (p, ds)) w = Some (0, w2)"
      "tree w2 = without (tree w) (\<Union>d \<in> {d \<in> set ds. \<not> dots d}. below (sub p d))" by blast
    have np: "p \<notin> below (sub p d)" for d by (auto simp: below_def)
    have gone: "tree w2 (sub p r) = None" for r
      using first_child [OF ok, of p r] unfolding w2(2) without_def ds(3) by (cases "tree w (sub p r)") auto
    have "tree w2 p = Some Directory" using True np by (simp add: w2(2) without_def)
    from tree_lawD(5) [OF law this gone] obtain w3 where w3: "t_rmdir T p w2 = (0, w3)" "tree w3 = (tree w2)(p := None)" by blast
    have "tree w3 = without (tree w) (below p)"
    proof
      fix q
      consider "q = p" | r where "q = sub p r" | "q \<notin> below p" by (auto simp: below_def)
      then show "tree w3 q = without (tree w) (below p) q"
      proof cases
        case 2
        then show ?thesis using gone by (simp add: w3(2) without_def below_def)
      next
        case 3
        then have "q \<notin> below (sub p d)" "q \<noteq> p" for d by (auto simp: below_def)
        with 3 show ?thesis by (simp add: w3(2) w2(2) without_def)
      qed (simp add: w3(2) without_def below_def)
    qed
    then show ?thesis using True ds(1) w2(1) w3(1) tree_lawD(2) [OF law] unfolding step by simp
  qed
qed

text \<open>
  C25: \<open>dirUnlinkHierarchy\<close> returns, and removes exactly the path and what is below it; links are removed and
  not followed. A path that does not exist is an error and nothing is changed.
\<close>

theorem dirUnlinkHierarchy_removes:
  assumes "tree_law T tree" "tree_ok (tree w)" "path \<noteq> []"
  shows "if tree w path = None then dirUnlinkHierarchy T path w = Some (- 1, w)
    else \<exists>w'. dirUnlinkHierarchy T path w = Some (0, w') \<and> tree w' = without (tree w) (below path)"
  using unlink_walk_removes [OF assms] unlink_walk.simps [of T "Inl path" w, unfolded tree_lawD(1) [OF assms(1)]]
  by (simp add: dirUnlinkHierarchy_def)

text \<open>A file system that is a list of paths with their kinds.\<close>

definition base_name :: "string \<Rightarrow> string" where
  "base_name q = rev (takeWhile (\<lambda>c. c \<noteq> CHR ''/'') (rev q))"

definition list_tree :: "(string \<times> kind) list \<Rightarrow> tree" where
  "list_tree w q = (if dots (base_name q) then None else map_of w q)"

definition drop_path :: "string \<Rightarrow> (string \<times> kind) list \<Rightarrow> (string \<times> kind) list" where
  "drop_path p w = filter (\<lambda>x. fst x \<noteq> p) w"

definition child_names :: "string \<Rightarrow> (string \<times> kind) list \<Rightarrow> string list" where
  "child_names p w = remdups (map base_name (filter (\<lambda>q. \<not> dots (base_name q) \<and> q = sub p (base_name q)) (map fst w)))"

definition list_ops :: "(string \<times> kind) list tree_ops" where
  "list_ops = \<lparr>t_lstat = \<lambda>p w. list_tree w p, t_unlink = \<lambda>p w. (0, drop_path p w), t_rmdir = \<lambda>p w. (0, drop_path p w),
     t_opendir = \<lambda>p w. Some (''.'' # ''..'' # child_names p w), t_closedir = \<lambda>p w. 0, t_chown = \<lambda>p u g w. (0, w), t_chmod = \<lambda>p m w. (0, w)\<rparr>"

lemma base_name_sub: "CHR ''/'' \<notin> set n \<Longrightarrow> base_name (sub p n) = n"
proof -
  assume "CHR ''/'' \<notin> set n"
  then have "takeWhile (\<lambda>c. c \<noteq> CHR ''/'') (rev n @ CHR ''/'' # rev p) = rev n" by (subst takeWhile_append2) auto
  then show ?thesis by (simp add: base_name_def)
qed

lemma base_name_no_slash: "CHR ''/'' \<notin> set (base_name q)"
  by (auto simp: base_name_def dest: set_takeWhileD)

lemma list_tree_drop: "list_tree (drop_path p w) = (list_tree w)(p := None)"
proof -
  have "map_of (drop_path p w) = (map_of w)(p := None)" by (induction w) (auto simp: drop_path_def)
  then show ?thesis by (auto simp: list_tree_def)
qed

lemma child_names_iff: "n \<in> set (child_names p w) \<longleftrightarrow> \<not> dots n \<and> CHR ''/'' \<notin> set n \<and> sub p n \<in> fst ` set w"
proof
  assume "n \<in> set (child_names p w)"
  then obtain q where q: "q \<in> fst ` set w" "\<not> dots (base_name q)" "q = sub p (base_name q)" "n = base_name q"
    unfolding child_names_def by auto
  then show "\<not> dots n \<and> CHR ''/'' \<notin> set n \<and> sub p n \<in> fst ` set w" using base_name_no_slash [of q] by metis
next
  assume n: "\<not> dots n \<and> CHR ''/'' \<notin> set n \<and> sub p n \<in> fst ` set w"
  then have b: "base_name (sub p n) = n" by (simp add: base_name_sub)
  have "sub p n \<in> set (filter (\<lambda>q. \<not> dots (base_name q) \<and> q = sub p (base_name q)) (map fst w))" using n b by simp
  then have "base_name (sub p n) \<in> set (child_names p w)" unfolding child_names_def set_remdups set_map by (rule imageI)
  then show "n \<in> set (child_names p w)" using b by simp
qed

lemma list_tree_child: "list_tree w (sub p n) \<noteq> None \<and> CHR ''/'' \<notin> set n \<longleftrightarrow> n \<in> set (child_names p w)"
  unfolding child_names_iff list_tree_def
  by (cases "CHR ''/'' \<in> set n") (auto simp: base_name_sub map_of_eq_None_iff simp del: not_None_eq)

lemma opened_names:
  "distinct (''.'' # ''..'' # child_names p w)"
  "{n \<in> set (''.'' # ''..'' # child_names p w). \<not> dots n} = {n. list_tree w (sub p n) \<noteq> None \<and> CHR ''/'' \<notin> set n}"
proof -
  have d: "\<not> dots n" if "n \<in> set (child_names p w)" for n using that by (simp add: child_names_iff)
  have e: "dots ''.''" "dots ''..''" by (simp_all add: dots_def)
  have "distinct (child_names p w)" by (simp add: child_names_def)
  then show "distinct (''.'' # ''..'' # child_names p w)" using d e by auto
  show "{n \<in> set (''.'' # ''..'' # child_names p w). \<not> dots n} = {n. list_tree w (sub p n) \<noteq> None \<and> CHR ''/'' \<notin> set n}"
    unfolding list_tree_child using d e by auto
qed

lemma list_ops_law: "tree_law list_ops list_tree"
  unfolding tree_law_def list_ops_def tree_ops.simps by (intro conjI allI impI exI [of _ "drop_path _ _"] exI [of _ "''.'' # ''..'' # child_names _ _"])
    (simp_all only: opened_names list_tree_drop)

theorem dirUnlinkHierarchy_removes_witness:
  "\<exists>w'. dirUnlinkHierarchy list_ops ''/d'' [(''/d'', Directory), (''/d/f'', Other), (''/e'', Other)] = Some (0, w') \<and>
     list_tree w' ''/d/f'' = None \<and> list_tree w' ''/e'' = Some Other"
proof -
  define w where "w = [(''/d'', Directory), (''/d/f'', Other), (''/e'', Other)]"
  have ev: "list_tree w ''/d'' = Some Directory" "list_tree w ''/d/f'' = Some Other" "list_tree w ''/e'' = Some Other" unfolding w_def by code_simp+
  have dm: "list_tree w q \<noteq> None \<Longrightarrow> q \<in> {''/d'', ''/d/f'', ''/e''}" for q by (auto simp: list_tree_def w_def split: if_splits)
  have "tree_ok (list_tree w)"
  proof -
    have "finite (dom (list_tree w))" by (rule finite_subset [of _ "{''/d'', ''/d/f'', ''/e''}"]) (use dm in blast, simp)
    moreover have "p = [] \<or> list_tree w p = Some Directory" if "list_tree w (sub p r) \<noteq> None" for p r
      using dm [OF that] ev(1) by (auto simp: append_eq_Cons_conv)
    moreover have "n \<noteq> [] \<and> \<not> dots n" if "list_tree w (sub p n) \<noteq> None" "CHR ''/'' \<notin> set n" for p n
      using dm [OF that(1)] that(2) by (auto simp: append_eq_Cons_conv dots_def)
    moreover have "length p < PATH_MAX" if "list_tree w p \<noteq> None" for p
      using dm [OF that] by (auto simp: PATH_MAX_def)
    ultimately show ?thesis unfolding tree_ok_def by blast
  qed
  from dirUnlinkHierarchy_removes [OF list_ops_law this, of "''/d''"] ev obtain w' where
    "dirUnlinkHierarchy list_ops ''/d'' w = Some (0, w')" "list_tree w' = without (list_tree w) (below ''/d'')" by auto
  then show ?thesis using ev(3) unfolding w_def by (auto simp: without_def below_def)
qed

end
