(* ===== verification/Updater.thy ===== *)
theory Updater
  imports Edify Install Applypatch Dir_Trees
begin

text \<open>
  The functions that update scripts call, \<^verbatim>\<open>updater/install.c\<close>, and the program that runs a script,
  \<^verbatim>\<open>updater/updater.c\<close>. They are functions of the edify language over a state of their own: the cookie
  of the interpreter is the record \<open>updater_info\<close>. What is printed on the standard error is not modelled.
\<close>

section \<open>State and environment\<close>

text \<open>
  The static variables of the libraries, the flag of \<^verbatim>\<open>applypatch.c\<close>, and the lines written to the pipe
  that \<open>run_update_binary\<close> reads.
\<close>

record 'w updater_info =
  up :: "'w phone"
  scanned :: bool
  cmd_pipe :: "string list"

text \<open>
  The libraries and the kernel: \<open>ue_run\<close> is the status \<open>waitpid\<close> returns for a program, \<open>ue_percent_f\<close> the
  text that \<^verbatim>\<open>%f\<close> prints for the number \<open>strtod\<close> reads, \<open>ue_strerror\<close> the text of \<open>errno\<close>, \<open>ue_enoent\<close> and
  \<open>ue_eexist\<close> tell whether that is the reason of a failed \<open>unlink\<close> or \<open>mkdir\<close>.
\<close>

record ('w, 'c, 's, 'z, 'y) updater_env =
  ue_env :: "('w, 'c) env"
  ue_codecs :: "('s, 'z) codecs"
  ue_tree :: "'w tree_ops"
  ue_target :: "'w target_fs"
  ue_archive :: "'y archive_io"
  ue_zip :: zip_archive
  ue_eintr :: "'w \<Rightarrow> bool"
  ue_property :: "string \<Rightarrow> string"
  ue_run :: "string list \<Rightarrow> 'w \<Rightarrow> int \<times> 'w"
  ue_percent_f :: "string \<Rightarrow> string"
  ue_strerror :: "'w \<Rightarrow> string"
  ue_enoent :: "string \<Rightarrow> 'w \<Rightarrow> bool"
  ue_eexist :: "string \<Rightarrow> 'w \<Rightarrow> bool"

abbreviation ue_sys :: "('w, 'c, 's, 'z, 'y) updater_env \<Rightarrow> 'w os" where "ue_sys E \<equiv> os_of (ue_env E)"

type_synonym 'w ustate = "'w updater_info State"

abbreviation up_world :: "'w ustate \<Rightarrow> 'w" where "up_world st \<equiv> ph_world (up (cookie st))"

definition set_up :: "'w phone \<Rightarrow> 'w ustate \<Rightarrow> 'w ustate" where
  "set_up p st = st\<lparr>cookie := (cookie st)\<lparr>up := p\<rparr>\<rparr>"

definition set_up_world :: "'w \<Rightarrow> 'w ustate \<Rightarrow> 'w ustate" where
  "set_up_world w st = set_up (set_world w (up (cookie st))) st"

definition on_up :: "('w phone \<Rightarrow> ('a \<times> 'w phone) option) \<Rightarrow> 'w ustate \<Rightarrow> ('a \<times> 'w ustate) option" where
  "on_up f st = map_option (\<lambda>(r, p). (r, set_up p st)) (f (up (cookie st)))"

text \<open>The calls of \<^verbatim>\<open>applypatch.c\<close> share the table of partitions with the rest of the program.\<close>

definition on_prog :: "('w prog \<Rightarrow> ('a \<times> 'w prog) option) \<Rightarrow> 'w ustate \<Rightarrow> ('a \<times> 'w ustate) option" where
  "on_prog f st =
     (let u = cookie st; b = ph_base (up u) in
      map_option (\<lambda>(r, p). (r, st\<lparr>cookie := u\<lparr>up := set_base (b\<lparr>mtd := mtd_state p, machine := world p\<rparr>) (up u),
                                            scanned := mtd_partitions_scanned p\<rparr>\<rparr>))
        (f \<lparr>mtd_partitions_scanned = scanned u, mtd_state = mtd b, world = machine b\<rparr>))"

definition send :: "string \<Rightarrow> 'w ustate \<Rightarrow> 'w ustate" where
  "send line st = st\<lparr>cookie := (cookie st)\<lparr>cmd_pipe := cmd_pipe (cookie st) @ [line]\<rparr>\<rparr>"

text \<open>The two ways to return, and the reading of the arguments.\<close>

definition ret :: "string \<Rightarrow> 'w ustate \<Rightarrow> (Value option \<times> 'w ustate) option" where
  "ret s st = Some (StringValue (Some s), st)"

definition abort :: "string \<Rightarrow> 'w ustate \<Rightarrow> (Value option \<times> 'w ustate) option" where
  "abort msg st = Some (None, ErrorAbort st msg)"

definition expects :: "string \<Rightarrow> string \<Rightarrow> nat \<Rightarrow> string" where
  "expects nm what n = nm @ ''() expects '' @ what @ '', got '' @ show_int (int n)"

definition with_args ::
  "nat \<Rightarrow> 'w updater_info arg list \<Rightarrow> (string list \<Rightarrow> 'w ustate \<Rightarrow> (Value option \<times> 'w ustate) option) \<Rightarrow> 'w ustate
   \<Rightarrow> (Value option \<times> 'w ustate) option" where
  "with_args n args f st =
     then_run (ReadArgs n args st) (\<lambda>r st. case r of None \<Rightarrow> Some (None, st) | Some xs \<Rightarrow> f xs st)"

definition flag :: "bool \<Rightarrow> string" where
  "flag b = (if b then ''t'' else [])"

section \<open>Mounting and formatting\<close>

definition MountFn :: "('w, 'c, 's, 'z, 'y) updater_env \<Rightarrow> 'w updater_info Function" where
  "MountFn E nm args st =
     (if length args \<noteq> 4 then abort (expects nm ''4 args'' (length args)) st
      else with_args 4 args (\<lambda>xs st.
        let fs_type = xs ! 0; partition_type = xs ! 1; location = xs ! 2; mount_point = xs ! 3; sys = ue_sys E in
        if fs_type = [] then abort (''fs_type argument to '' @ nm @ ''() can't be empty'') st
        else if partition_type = [] then abort (''partition_type argument to '' @ nm @ ''() can't be empty'') st
        else if location = [] then abort (''location argument to '' @ nm @ ''() can't be empty'') st
        else if mount_point = [] then abort (''mount_point argument to '' @ nm @ ''() can't be empty'') st
        else
          let st = set_up_world (snd (os_mkdir sys mount_point 493 (up_world st))) st in
          if partition_type = ''MTD'' then
            then_run (on_up (on_mtd (cmd_mtd_mount_partition sys location mount_point fs_type False)) st) (\<lambda>r st.
            ret (if r \<noteq> 0 then [] else mount_point) st)
          else
            case os_mount sys location mount_point fs_type False (up_world st) of (r, w) \<Rightarrow>
              ret (if r < 0 then [] else mount_point) (set_up_world w st)) st)"

text \<open>The lookup that \<open>is_mounted\<close> and \<open>unmount\<close> share; the result of the scan is not used.\<close>

definition lookup_mounted :: "'w os \<Rightarrow> string \<Rightarrow> 'w recovery \<Rightarrow> (nat option \<times> 'w recovery) option" where
  "lookup_mounted sys mount_point s =
     Option.bind (scan_mounted_volumes sys (mounts s) (machine s)) (\<lambda>(_, st, w).
     Some (find_mounted_volume_by_mount_point st mount_point, s\<lparr>mounts := st, machine := w\<rparr>))"

definition IsMountedFn :: "('w, 'c, 's, 'z, 'y) updater_env \<Rightarrow> 'w updater_info Function" where
  "IsMountedFn E nm args st =
     (if length args \<noteq> 1 then abort (expects nm ''1 arg'' (length args)) st
      else with_args 1 args (\<lambda>xs st.
        if xs ! 0 = [] then abort ''mount_point argument to unmount() can't be empty'' st
        else then_run (on_up (on_base (lookup_mounted (ue_sys E) (xs ! 0))) st) (\<lambda>vol st.
          ret (if vol = None then [] else xs ! 0) st)) st)"

definition UnmountFn :: "('w, 'c, 's, 'z, 'y) updater_env \<Rightarrow> 'w updater_info Function" where
  "UnmountFn E nm args st =
     (if length args \<noteq> 1 then abort (expects nm ''1 arg'' (length args)) st
      else with_args 1 args (\<lambda>xs st.
        if xs ! 0 = [] then abort ''mount_point argument to unmount() can't be empty'' st
        else then_run (on_up (on_base (lookup_mounted (ue_sys E) (xs ! 0))) st) (\<lambda>vol st.
          case vol of
            None \<Rightarrow> ret [] st
          | Some mv \<Rightarrow>
              then_run (on_up (on_base (\<lambda>b. map_option (\<lambda>(r, m, w). (r, b\<lparr>mounts := m, machine := w\<rparr>))
                  (unmount_mounted_volume (ue_sys E) mv (mounts b) (machine b)))) st) (\<lambda>_ st. ret (xs ! 0) st))) st)"

text \<open>A file system that is not supported gives \<open>NULL\<close> without a message.\<close>

definition FormatFn :: "('w, 'c, 's, 'z, 'y) updater_env \<Rightarrow> 'w updater_info Function" where
  "FormatFn E nm args st =
     (if length args \<noteq> 5 then abort (expects nm ''5 args'' (length args)) st
      else with_args 5 args (\<lambda>xs st.
        let fs_type = xs ! 0; partition_type = xs ! 1; location = xs ! 2; fs_size = xs ! 3; mount_point = xs ! 4 in
        if fs_type = [] then abort (''fs_type argument to '' @ nm @ ''() can't be empty'') st
        else if partition_type = [] then abort (''partition_type argument to '' @ nm @ ''() can't be empty'') st
        else if location = [] then abort (''location argument to '' @ nm @ ''() can't be empty'') st
        else if mount_point = [] then abort (''mount_point argument to '' @ nm @ ''() can't be empty'') st
        else if partition_type = ''MTD'' then
          then_run (on_up (format_mtd (ue_sys E) (Some location)) st) (\<lambda>r st. ret (if r \<noteq> 0 then [] else location) st)
        else if fs_type = ''ext4'' then
          then_run (on_up (make_ext4 (ue_sys E) (Some location) (strtoll fs_size) mount_point) st) (\<lambda>r st.
          ret (if r \<noteq> 0 then [] else location) st)
        else Some (None, st)) st)"

section \<open>Files\<close>

text \<open>
  When an argument after the first cannot be evaluated the loop that frees the strings increments the
  wrong variable: it frees the first string again, which is undefined.
\<close>

fun eval_paths :: "nat \<Rightarrow> 'w updater_info arg list \<Rightarrow> (string list option, 'w ustate) run" where
  "eval_paths i [] st = Some (Some [], st)"
| "eval_paths i (a # as) st =
     then_run (Evaluate a st) (\<lambda>v st.
       case v of
         None \<Rightarrow> if i = 0 then Some (None, st) else None
       | Some s \<Rightarrow> then_run (eval_paths (Suc i) as st) (\<lambda>r st. Some (map_option (Cons s) r, st)))"

fun delete_paths :: "('w, 'c, 's, 'z, 'y) updater_env \<Rightarrow> bool \<Rightarrow> string list \<Rightarrow> 'w \<Rightarrow> (nat \<times> 'w) option" where
  "delete_paths E rec [] w = Some (0, w)"
| "delete_paths E rec (p # ps) w =
     Option.bind (if rec then dirUnlinkHierarchy (ue_tree E) p w else Some (os_unlink (ue_sys E) p w)) (\<lambda>(r, w).
     map_option (\<lambda>(n, w). (if r = 0 then n + 1 else n, w)) (delete_paths E rec ps w))"

definition DeleteFn :: "('w, 'c, 's, 'z, 'y) updater_env \<Rightarrow> 'w updater_info Function" where
  "DeleteFn E nm args st =
     then_run (eval_paths 0 args st) (\<lambda>paths st.
     case paths of
       None \<Rightarrow> Some (None, st)
     | Some paths \<Rightarrow>
         then_run (on_up (on_world (delete_paths E (nm = ''delete_recursive'') paths)) st) (\<lambda>success st.
         ret (show_int (int success)) st))"

definition PackageExtractDirFn :: "('w, 'c, 's, 'z, 'y) updater_env \<Rightarrow> 'w updater_info Function" where
  "PackageExtractDirFn E nm args st =
     (if length args \<noteq> 2 then abort (expects nm ''2 args'' (length args)) st
      else with_args 2 args (\<lambda>xs st.
        then_run (on_up (on_world (mzExtractRecursive (ue_target E) (ue_archive E) (fst (zip_parsed (ue_zip E)))
            (bytes_of (xs ! 0)) (bytes_of (xs ! 1)) True False True None)) st) (\<lambda>success st. ret (flag success) st)) st)"

text \<open>With one argument the result is a blob with the contents, or a blob of size \<open>-1\<close>.\<close>

definition extract_to_file :: "('w, 'c, 's, 'z, 'y) updater_env \<Rightarrow> string \<Rightarrow> string \<Rightarrow> 'w \<Rightarrow> (bool \<times> 'w) option" where
  "extract_to_file E zpath dest_path w =
     Option.bind (find_zip_entry (ue_zip E) zpath) (\<lambda>e.
     case e of
       None \<Rightarrow> Some (False, w)
     | Some entry \<Rightarrow>
         (case os_fopen (ue_sys E) dest_path True w of
            (None, w) \<Rightarrow> Some (False, w)
          | (Some f, w) \<Rightarrow>
              let A = ue_archive E in
              map_option (\<lambda>(ok, w). (ok, snd (os_fclose (ue_sys E) f w)))
                (mzExtractZipEntryToFile (ar_read A) (ar_inflate A) (ar_init A entry) (ar_off A)
                  (\<lambda>d w. case os_write (ue_sys E) f d w of (n, w) \<Rightarrow> (n, ue_eintr E w, w)) entry w)))"

definition extract_to_blob :: "('w, 'c, 's, 'z, 'y) updater_env \<Rightarrow> string \<Rightarrow> 'w \<Rightarrow> Value option" where
  "extract_to_blob E zpath w =
     (let failed = \<lparr>vtype = VAL_BLOB, vsize = - 1, vdata = []\<rparr>; A = ue_archive E in
      Option.bind (find_zip_entry (ue_zip E) zpath) (\<lambda>e.
      case e of
        None \<Rightarrow> Some failed
      | Some entry \<Rightarrow>
          (case os_malloc (ue_sys E) (uncompLen entry) w of
             None \<Rightarrow> Some failed
           | Some buffer \<Rightarrow>
               map_option (\<lambda>(ok, data). if ok then \<lparr>vtype = VAL_BLOB, vsize = uncompLen entry, vdata = text_of data\<rparr> else failed)
                 (mzExtractZipEntryToBuffer (ar_read A) (ar_inflate A) (ar_init A entry) (ar_off A) entry buffer))))"

definition PackageExtractFileFn :: "('w, 'c, 's, 'z, 'y) updater_env \<Rightarrow> 'w updater_info Function" where
  "PackageExtractFileFn E nm args st =
     (if length args \<noteq> 1 \<and> length args \<noteq> 2 then abort (expects nm ''1 or 2 args'' (length args)) st
      else if length args = 2 then
        with_args 2 args (\<lambda>xs st.
          then_run (on_up (on_world (extract_to_file E (xs ! 0) (xs ! 1))) st) (\<lambda>success st. ret (flag success) st)) st
      else
        with_args 1 args (\<lambda>xs st. map_option (\<lambda>v. (Some v, st)) (extract_to_blob E (xs ! 0) (up_world st))) st)"

text \<open>The directory of a path, if it has one besides the root.\<close>

definition parent_of :: "string \<Rightarrow> string option" where
  "parent_of p =
     (case dropWhile (\<lambda>c. c \<noteq> CHR ''/'') (rev p) of [] \<Rightarrow> None | _ # r \<Rightarrow> if r = [] then None else Some (rev r))"

lemma parent_of_shorter: "parent_of p = Some d \<Longrightarrow> length d < length p"
  using length_dropWhile_le [of "\<lambda>c. c \<noteq> CHR ''/''" "rev p"] by (auto simp: parent_of_def split: list.splits if_splits)

text \<open>
  The string is cut at the slash during the call; the second result is what it is afterwards, which is the
  whole path again unless a parent further up could not be made.
\<close>

function make_parents :: "('w, 'c, 's, 'z, 'y) updater_env \<Rightarrow> string \<Rightarrow> 'w \<Rightarrow> int \<times> string \<times> 'w" where
  "make_parents E p w =
     (case parent_of p of
        None \<Rightarrow> (0, p, w)
      | Some d \<Rightarrow>
          (case make_parents E d w of (r, d', w) \<Rightarrow>
             if r < 0 then (- 1, d', w)
             else case os_mkdir (ue_sys E) d' 448 w of (r, w') \<Rightarrow>
               if r = 0 \<or> ue_eexist E d' w then (0, p, w') else (- 1, p, w')))"
  by pat_completeness auto
termination
  by (relation "measure (\<lambda>(E, p, w). length p)") (auto dest: parent_of_shorter)

declare make_parents.simps [simp del]

fun make_links :: "('w, 'c, 's, 'z, 'y) updater_env \<Rightarrow> string \<Rightarrow> string list \<Rightarrow> 'w \<Rightarrow> nat \<times> 'w" where
  "make_links E dest [] w = (0, w)"
| "make_links E dest (src # srcs) w =
     (case os_unlink (ue_sys E) src w of (u, w1) \<Rightarrow>
      case make_parents E src w1 of (m, src', w2) \<Rightarrow>
      case os_symlink (ue_sys E) dest src' w2 of (s, w3) \<Rightarrow>
      case make_links E dest srcs w3 of (bad, w4) \<Rightarrow>
        ((if u < 0 \<and> \<not> ue_enoent E src w then 1 else 0) + (if m \<noteq> 0 then 1 else 0) + (if s < 0 then 1 else 0) + bad, w4))"

definition SymlinkFn :: "('w, 'c, 's, 'z, 'y) updater_env \<Rightarrow> 'w updater_info Function" where
  "SymlinkFn E nm args st =
     (if args = [] then abort (expects nm ''1+ args'' 0) st
      else then_run (EvaluateAt args 0 st) (\<lambda>dest st.
        case dest of
          None \<Rightarrow> Some (None, st)
        | Some dest \<Rightarrow> then_run (ReadVarArgs (tl args) st) (\<lambda>srcs st.
            case srcs of
              None \<Rightarrow> Some (None, st)
            | Some srcs \<Rightarrow>
                (case make_links E dest srcs (up_world st) of (bad, w) \<Rightarrow>
                   if bad \<noteq> 0 then abort (nm @ '': some symlinks failed'') (set_up_world w st)
                   else ret [] (set_up_world w st)))))"

text \<open>\<open>strtoul\<close> with base 0 that must read all of a string that is not empty, stored in an \<open>int\<close>.\<close>

definition strtoul0 :: "string \<Rightarrow> int \<times> string" where
  "strtoul0 s =
     (case strtol_sign (dropWhile isspace s) of (neg, r) \<Rightarrow>
        let h = strip_0x r;
            (v, rest) = (if h \<noteq> r then (hex_val (takeWhile (\<lambda>c. hex_digit c \<noteq> None) h), dropWhile (\<lambda>c. hex_digit c \<noteq> None) h)
                         else if take 1 r = ''0'' then (oct_val (takeWhile isoct r), dropWhile isoct r)
                         else if takeWhile isdigit r = [] then (0, s)
                         else (dec_val (takeWhile isdigit r), dropWhile isdigit r))
        in (if 2 ^ 32 \<le> v then 2 ^ 32 - 1 else if neg then (- v) mod 2 ^ 32 else v, rest))"

definition read_number :: "string \<Rightarrow> int option" where
  "read_number s = (let (v, rest) = strtoul0 s in if rest \<noteq> [] \<or> s = [] then None else Some (int32 v))"

fun set_perms :: "'w os \<Rightarrow> int \<Rightarrow> int \<Rightarrow> int \<Rightarrow> string list \<Rightarrow> 'w \<Rightarrow> nat \<times> 'w" where
  "set_perms sys uid gid mode [] w = (0, w)"
| "set_perms sys uid gid mode (p # ps) w =
     (case os_chown sys p uid gid w of (c, w) \<Rightarrow>
      case os_chmod sys p mode w of (m, w) \<Rightarrow>
      case set_perms sys uid gid mode ps w of (bad, w) \<Rightarrow>
        ((if c < 0 then 1 else 0) + (if m < 0 then 1 else 0) + bad, w))"

fun set_tree_perms :: "'w tree_ops \<Rightarrow> int \<Rightarrow> int \<Rightarrow> int \<Rightarrow> int \<Rightarrow> string list \<Rightarrow> 'w \<Rightarrow> 'w option" where
  "set_tree_perms T uid gid dir_mode file_mode [] w = Some w"
| "set_tree_perms T uid gid dir_mode file_mode (p # ps) w =
     Option.bind (dirSetHierarchyPermissions T p uid gid dir_mode file_mode w) (\<lambda>(_, w).
     set_tree_perms T uid gid dir_mode file_mode ps w)"

definition SetPermFn :: "('w, 'c, 's, 'z, 'y) updater_env \<Rightarrow> 'w updater_info Function" where
  "SetPermFn E nm args st =
     (let rec = (nm = ''set_perm_recursive''); min_args = (if rec then 5 else 4) in
      if length args < min_args then
        abort (expects nm (show_int (int min_args) @ ''+ args'') (length args)) st
      else then_run (ReadVarArgs args st) (\<lambda>xs st.
        case xs of
          None \<Rightarrow> Some (None, st)
        | Some xs \<Rightarrow>
            let bad = (\<lambda>i what. abort (nm @ '': '' @ [CHR 0x22] @ xs ! i @ [CHR 0x22] @ '' not a valid '' @ what) st) in
            (case read_number (xs ! 0) of None \<Rightarrow> bad 0 ''uid'' | Some uid \<Rightarrow>
            (case read_number (xs ! 1) of None \<Rightarrow> bad 1 ''gid'' | Some gid \<Rightarrow>
             if rec then
               (case read_number (xs ! 2) of None \<Rightarrow> bad 2 ''dirmode'' | Some dir_mode \<Rightarrow>
               (case read_number (xs ! 3) of None \<Rightarrow> bad 3 ''filemode'' | Some file_mode \<Rightarrow>
                  Option.bind (set_tree_perms (ue_tree E) uid gid dir_mode file_mode (drop 4 xs) (up_world st)) (\<lambda>w.
                  ret [] (set_up_world w st))))
             else
               (case read_number (xs ! 2) of None \<Rightarrow> bad 2 ''mode'' | Some mode \<Rightarrow>
                  (case set_perms (ue_sys E) uid gid mode (drop 3 xs) (up_world st) of (bad, w) \<Rightarrow>
                     if bad \<noteq> 0 then abort (nm @ '': some changes failed'') (set_up_world w st)
                     else ret [] (set_up_world w st)))))))"

section \<open>Properties\<close>

definition GetPropFn :: "('w, 'c, 's, 'z, 'y) updater_env \<Rightarrow> 'w updater_info Function" where
  "GetPropFn E nm args st =
     (if length args \<noteq> 1 then abort (expects nm ''1 arg'' (length args)) st
      else then_run (EvaluateAt args 0 st) (\<lambda>key st.
        case key of None \<Rightarrow> Some (None, st) | Some key \<Rightarrow> ret (ue_property E key) st))"

definition MAX_FILE_GETPROP_SIZE :: int where "MAX_FILE_GETPROP_SIZE = 65536"

definition trim_end :: "string \<Rightarrow> string" where
  "trim_end s = rev (dropWhile isspace (rev s))"

text \<open>
  The lines of a file of properties: \<open>Inl\<close> is a line without an equals sign, \<open>Inr None\<close> that the key is
  not defined.
\<close>

fun find_property :: "string \<Rightarrow> string list \<Rightarrow> string + string option" where
  "find_property key [] = Inr None"
| "find_property key (l # ls) =
     (let line = dropWhile isspace l in
      if line = [] \<or> hd line = CHR ''#'' then find_property key ls
      else if CHR ''='' \<notin> set line then Inl line
      else if trim_end (takeWhile (\<lambda>c. c \<noteq> CHR ''='') line) \<noteq> key then find_property key ls
      else Inr (Some (trim_end (dropWhile isspace (tl (dropWhile (\<lambda>c. c \<noteq> CHR ''='') line))))))"

text \<open>\<open>Inl\<close> is the message of a failure. A file without any line makes \<open>strtok\<close> return \<open>NULL\<close>, which is read.\<close>

definition file_property :: "('w, 'c, 's, 'z, 'y) updater_env \<Rightarrow> string \<Rightarrow> string \<Rightarrow> string \<Rightarrow> 'w \<Rightarrow> ((string + string) \<times> 'w) option" where
  "file_property E nm filename key w =
     (let sys = ue_sys E; q = (\<lambda>s. [CHR 0x22] @ s @ [CHR 0x22]) in
      case os_stat sys filename w of
        None \<Rightarrow> Some (Inl (nm @ '': failed to stat '' @ q filename @ '': '' @ ue_strerror E w), w)
      | Some fst' \<Rightarrow>
          if MAX_FILE_GETPROP_SIZE < st_size fst' then
            Some (Inl (filename @ '' too large for '' @ nm @ '' (max '' @ show_int MAX_FILE_GETPROP_SIZE @ '')''), w)
          else if os_malloc sys (st_size fst' + 1) w = None then
            Some (Inl (nm @ '': failed to alloc '' @ show_int (st_size fst' + 1) @ '' bytes''), w)
          else case os_fopen sys filename False w of
            (None, w) \<Rightarrow> Some (Inl (nm @ '': failed to open '' @ filename @ '': '' @ ue_strerror E w), w)
          | (Some f, w) \<Rightarrow>
              (case os_fread sys f (st_size fst') w of (data, w) \<Rightarrow>
                 let w = snd (os_fclose sys f w) in
                 if int (length data) \<noteq> st_size fst' then
                   Some (Inl (nm @ '': failed to read '' @ show_int (st_size fst' + 1) @ '' bytes from '' @ filename), w)
                 else
                   let ls = strtoks is_nl (C_Strings.c_string (text_of data)) in
                   if ls = [] then None
                   else case find_property key ls of
                     Inl line \<Rightarrow> Some (Inl (nm @ '': malformed line '' @ q line @ '': '' @ filename @ '' not a prop file?''), w)
                   | Inr v \<Rightarrow> Some (Inr (case v of None \<Rightarrow> [] | Some v \<Rightarrow> v), w)))"

text \<open>The number of arguments is not checked.\<close>

definition FileGetPropFn :: "('w, 'c, 's, 'z, 'y) updater_env \<Rightarrow> 'w updater_info Function" where
  "FileGetPropFn E nm args st =
     with_args 2 args (\<lambda>xs st.
       then_run (on_up (on_world (file_property E nm (xs ! 0) (xs ! 1))) st) (\<lambda>r st.
       case r of Inl msg \<Rightarrow> abort msg st | Inr v \<Rightarrow> ret v st)) st"

section \<open>Images and patches\<close>

text \<open>
  A value that the code takes for a string: the data of a blob have no terminator, so one without a zero
  byte is read past its end.
\<close>

definition as_c_string :: "Value \<Rightarrow> string option" where
  "as_c_string v = (if vtype v = VAL_STRING \<or> NUL \<in> set (vdata v) then Some (C_Strings.c_string (vdata v)) else None)"

definition WriteRawImageFn :: "('w, 'c, 's, 'z, 'y) updater_env \<Rightarrow> 'w updater_info Function" where
  "WriteRawImageFn E nm args st =
     then_run (ReadValueArgs 2 args st) (\<lambda>vs st.
     case vs of
       None \<Rightarrow> Some (None, st)
     | Some vs \<Rightarrow>
         let image = vs ! 0; part = vs ! 1 in
         if vtype part \<noteq> VAL_STRING then abort (''partition argument to '' @ nm @ '' must be string'') st
         else if vdata part = [] then abort (''partition argument to '' @ nm @ '' can't be empty'') st
         else if vtype image = VAL_STRING \<and> vdata image = [] then abort (''file argument to '' @ nm @ '' can't be empty'') st
         else
           Option.bind (as_c_string image) (\<lambda>filename.
           then_run (on_up (restore_raw_partition (ue_sys E) None (vdata part) filename) st) (\<lambda>r st.
           ret (if r = 0 then vdata part else []) st)))"

definition ApplyPatchSpaceFn :: "('w, 'c, 's, 'z, 'y) updater_env \<Rightarrow> 'w updater_info Function" where
  "ApplyPatchSpaceFn E nm args st =
     with_args 1 args (\<lambda>xs st.
       let (bytes, rest) = strtol (xs ! 0) in
       if bytes = 0 \<and> rest = xs ! 0 then
         abort (nm @ ''(): can't parse '' @ [CHR 0x22] @ xs ! 0 @ [CHR 0x22] @ '' as byte count'' @ [NL, NL]) st
       else
         case CacheSizeCheck (ue_sys E) (bytes mod 2 ^ 32) (up_world st) of (r, w) \<Rightarrow>
           ret (if r \<noteq> 0 then [] else ''t'') (set_up_world w st)) st"

text \<open>The types of the pairs of a digest and a patch: the number of the first wrong one, with its message.\<close>

fun check_patches :: "string \<Rightarrow> nat \<Rightarrow> Value list \<Rightarrow> string option" where
  "check_patches nm i (s # p # vs) =
     (if vtype s \<noteq> VAL_STRING then Some (nm @ ''(): sha-1 #'' @ show_int (int i) @ '' is not string'')
      else if vtype p \<noteq> VAL_BLOB then Some (nm @ ''(): patch #'' @ show_int (int i) @ '' is not blob'')
      else check_patches nm (Suc i) vs)"
| "check_patches nm i vs = None"

fun patch_shas :: "Value list \<Rightarrow> string list" where
  "patch_shas (s # p # vs) = vdata s # patch_shas vs"
| "patch_shas vs = []"

fun patch_values :: "Value list \<Rightarrow> patch_value option list" where
  "patch_values (s # p # vs) = Some (vtype p = VAL_BLOB, bytes_of (vdata p)) # patch_values vs"
| "patch_values vs = []"

text \<open>The list of patches is used without a check when one of them could not be evaluated.\<close>

definition ApplyPatchFn :: "('w, 'c, 's, 'z, 'y) updater_env \<Rightarrow> 'w updater_info Function" where
  "ApplyPatchFn E nm args st =
     (if length args < 6 \<or> length args mod 2 = 1 then
        abort (nm @ ''(): expected at least 6 args and an even number, got '' @ show_int (int (length args))) st
      else with_args 4 args (\<lambda>xs st.
        let (target_size, rest) = strtol (xs ! 3) in
        if target_size = 0 \<and> rest = xs ! 3 then
          abort (nm @ ''(): can't parse '' @ [CHR 0x22] @ xs ! 3 @ [CHR 0x22] @ '' as byte count'') st
        else then_run (ReadValueVarArgs (drop 4 args) st) (\<lambda>ps st.
          case ps of
            None \<Rightarrow> None
          | Some ps \<Rightarrow>
              (case check_patches nm 0 ps of
                 Some msg \<Rightarrow> abort msg st
               | None \<Rightarrow>
                   then_run (on_prog (applypatch (ue_codecs E) (ue_env E) (xs ! 0) (xs ! 1) (xs ! 2) (target_size mod 2 ^ 32)
                       (patch_shas ps) (patch_values ps) None) st) (\<lambda>r st. ret (flag (r = 0)) st)))) st)"

definition ApplyPatchCheckFn :: "('w, 'c, 's, 'z, 'y) updater_env \<Rightarrow> 'w updater_info Function" where
  "ApplyPatchCheckFn E nm args st =
     (if args = [] then abort (nm @ ''(): expected at least 1 arg, got 0'') st
      else with_args 1 args (\<lambda>xs st.
        then_run (ReadVarArgs (drop 1 args) st) (\<lambda>shas st.
        case shas of
          None \<Rightarrow> None
        | Some shas \<Rightarrow>
            then_run (on_prog (applypatch_check (ue_env E) (xs ! 0) shas) st) (\<lambda>r st. ret (flag (r = 0)) st))) st)"

definition PrintSha1 :: "byte list \<Rightarrow> string" where
  "PrintSha1 digest = concat (map (\<lambda>b. show_hex 2 (uint b)) digest)"

text \<open>The first string that reads as the digest; the result is that argument.\<close>

definition Sha1CheckFn :: "('w, 'c, 's, 'z, 'y) updater_env \<Rightarrow> 'w updater_info Function" where
  "Sha1CheckFn E nm args st =
     (if args = [] then abort (nm @ ''() expects at least 1 arg'') st
      else then_run (ReadValueVarArgs args st) (\<lambda>vs st.
        case vs of
          None \<Rightarrow> Some (None, st)
        | Some vs \<Rightarrow>
            if vsize (vs ! 0) < 0 then ret [] st
            else
              let digest = SHA (ue_env E) (take (nat (vsize (vs ! 0))) (bytes_of (vdata (vs ! 0)))) in
              if length args = 1 then ret (PrintSha1 digest) st
              else case List.find (\<lambda>v. vtype v = VAL_STRING \<and> ParseSha1 (vdata v) = Some digest) (tl vs) of
                None \<Rightarrow> ret [] st
              | Some v \<Rightarrow> Some (Some v, st)))"

definition ReadFileFn :: "('w, 'c, 's, 'z, 'y) updater_env \<Rightarrow> 'w updater_info Function" where
  "ReadFileFn E nm args st =
     (if length args \<noteq> 1 then abort (expects nm ''1 arg'' (length args)) st
      else with_args 1 args (\<lambda>xs st.
        then_run (on_prog (\<lambda>p. map_option (\<lambda>(r, fc, p). ((r, fc), p)) (LoadFileContents (ue_env E) (xs ! 0) uninit False p)) st) (\<lambda>(r, fc) st.
        if r \<noteq> 0 then
          abort (nm @ ''() loading '' @ [CHR 0x22] @ xs ! 0 @ [CHR 0x22] @ '' failed: '' @ ue_strerror E (up_world st)) st
        else case (fc_size fc, fc_data fc) of
          (Some n, Some d) \<Rightarrow> Some (Some \<lparr>vtype = VAL_BLOB, vsize = n, vdata = text_of d\<rparr>, st)
        | _ \<Rightarrow> None)) st)"

section \<open>Commands to the recovery\<close>

definition ShowProgressFn :: "('w, 'c, 's, 'z, 'y) updater_env \<Rightarrow> 'w updater_info Function" where
  "ShowProgressFn E nm args st =
     (if length args \<noteq> 2 then abort (expects nm ''2 args'' (length args)) st
      else with_args 2 args (\<lambda>xs st.
        ret (xs ! 0) (send (''progress '' @ ue_percent_f E (xs ! 0) @ '' '' @ show_int (int32 (fst (strtol (xs ! 1))))) st)) st)"

definition SetProgressFn :: "('w, 'c, 's, 'z, 'y) updater_env \<Rightarrow> 'w updater_info Function" where
  "SetProgressFn E nm args st =
     (if length args \<noteq> 1 then abort (expects nm ''1 arg'' (length args)) st
      else with_args 1 args (\<lambda>xs st. ret (xs ! 0) (send (''set_progress '' @ ue_percent_f E (xs ! 0)) st)) st)"

text \<open>The lines of a text that are not empty, each as a command.\<close>

definition send_lines :: "string \<Rightarrow> 'w ustate \<Rightarrow> 'w ustate" where
  "send_lines s st = fold (\<lambda>l. send (''ui_print '' @ l)) (strtoks is_nl s) st"

text \<open>
  The result is the buffer as \<open>strtok\<close> leaves it: the text up to the end of its first line that is not
  empty.
\<close>

definition first_line :: "string \<Rightarrow> string" where
  "first_line s = takeWhile is_nl s @ takeWhile (\<lambda>c. \<not> is_nl c) (dropWhile is_nl s)"

definition UIPrintFn :: "('w, 'c, 's, 'z, 'y) updater_env \<Rightarrow> 'w updater_info Function" where
  "UIPrintFn E nm args st =
     then_run (ReadVarArgs args st) (\<lambda>xs st.
     case xs of
       None \<Rightarrow> Some (None, st)
     | Some xs \<Rightarrow>
         ret (first_line (concat xs)) (send ''ui_print'' (send_lines (concat xs) st)))"

definition WipeCacheFn :: "('w, 'c, 's, 'z, 'y) updater_env \<Rightarrow> 'w updater_info Function" where
  "WipeCacheFn E nm args st =
     (if args \<noteq> [] then abort (expects nm ''no args'' (length args)) st
      else ret ''t'' (send ''wipe_cache'' st))"

text \<open>The result is the status as \<open>waitpid\<close> stores it, not the exit status.\<close>

definition RunProgramFn :: "('w, 'c, 's, 'z, 'y) updater_env \<Rightarrow> 'w updater_info Function" where
  "RunProgramFn E nm args st =
     (if args = [] then abort (nm @ ''() expects at least 1 arg'') st
      else then_run (ReadVarArgs args st) (\<lambda>xs st.
        case xs of
          None \<Rightarrow> Some (None, st)
        | Some xs \<Rightarrow>
            (case ue_run E xs (up_world st) of (status, w) \<Rightarrow> ret (show_int status) (set_up_world w st))))"

section \<open>The table of functions\<close>

datatype updater_fn =
    UMount | UIsMounted | UUnmount | UFormat | UShowProgress | USetProgress | UDelete | UPackageExtractDir
  | UPackageExtractFile | USymlink | USetPerm | UGetProp | UFileGetProp | UWriteRawImage | UApplyPatch
  | UApplyPatchCheck | UApplyPatchSpace | UReadFile | USha1Check | UWipeCache | UUIPrint | URunProgram

fun updater_call :: "('w, 'c, 's, 'z, 'y) updater_env \<Rightarrow> updater_fn \<Rightarrow> 'w updater_info Function" where
  "updater_call E UMount = MountFn E"
| "updater_call E UIsMounted = IsMountedFn E"
| "updater_call E UUnmount = UnmountFn E"
| "updater_call E UFormat = FormatFn E"
| "updater_call E UShowProgress = ShowProgressFn E"
| "updater_call E USetProgress = SetProgressFn E"
| "updater_call E UDelete = DeleteFn E"
| "updater_call E UPackageExtractDir = PackageExtractDirFn E"
| "updater_call E UPackageExtractFile = PackageExtractFileFn E"
| "updater_call E USymlink = SymlinkFn E"
| "updater_call E USetPerm = SetPermFn E"
| "updater_call E UGetProp = GetPropFn E"
| "updater_call E UFileGetProp = FileGetPropFn E"
| "updater_call E UWriteRawImage = WriteRawImageFn E"
| "updater_call E UApplyPatch = ApplyPatchFn E"
| "updater_call E UApplyPatchCheck = ApplyPatchCheckFn E"
| "updater_call E UApplyPatchSpace = ApplyPatchSpaceFn E"
| "updater_call E UReadFile = ReadFileFn E"
| "updater_call E USha1Check = Sha1CheckFn E"
| "updater_call E UWipeCache = WipeCacheFn E"
| "updater_call E UUIPrint = UIPrintFn E"
| "updater_call E URunProgram = RunProgramFn E"

definition install_functions :: "(string \<times> updater_fn fnptr) list" where
  "install_functions = [(''mount'', PExt UMount), (''is_mounted'', PExt UIsMounted), (''unmount'', PExt UUnmount),
     (''format'', PExt UFormat), (''show_progress'', PExt UShowProgress), (''set_progress'', PExt USetProgress),
     (''delete'', PExt UDelete), (''delete_recursive'', PExt UDelete), (''package_extract_dir'', PExt UPackageExtractDir),
     (''package_extract_file'', PExt UPackageExtractFile), (''symlink'', PExt USymlink), (''set_perm'', PExt USetPerm),
     (''set_perm_recursive'', PExt USetPerm), (''getprop'', PExt UGetProp), (''file_getprop'', PExt UFileGetProp),
     (''write_raw_image'', PExt UWriteRawImage), (''apply_patch'', PExt UApplyPatch),
     (''apply_patch_check'', PExt UApplyPatchCheck), (''apply_patch_space'', PExt UApplyPatchSpace),
     (''read_file'', PExt UReadFile), (''sha1_check'', PExt USha1Check), (''wipe_cache'', PExt UWipeCache),
     (''ui_print'', PExt UUIPrint), (''run_program'', PExt URunProgram)]"

definition RegisterInstallFunctions :: "updater_fn fnptr fn_tab \<Rightarrow> updater_fn fnptr fn_tab option" where
  "RegisterInstallFunctions t = register_all install_functions t"

section \<open>The program\<close>

definition SCRIPT_NAME :: string where
  "SCRIPT_NAME = ''META-INF/com/google/android/updater-script''"

text \<open>
  The end of \<open>main\<close>: the script is evaluated and the exit status is zero unless it aborts. The message of
  an abort is sent line by line.
\<close>

definition report_abort :: "string option \<Rightarrow> 'w ustate \<Rightarrow> 'w ustate" where
  "report_abort msg st =
     (case msg of
        None \<Rightarrow> send ''ui_print script aborted (no error message)'' st
      | Some m \<Rightarrow> send ''ui_print'' (send_lines m st))"

definition run_script ::
  "('w, 'c, 's, 'z, 'y) updater_env \<Rightarrow> updater_fn fnptr Expr \<Rightarrow> string \<Rightarrow> 'w updater_info \<Rightarrow> (int \<times> 'w updater_info) option" where
  "run_script E root text u =
     Option.bind (Evaluate (arg_of (call_fn (updater_call E)) root) \<lparr>cookie = u, script = text, errmsg = None, effects = []\<rparr>) (\<lambda>(result, st).
     case result of
       None \<Rightarrow> Some (7, cookie (report_abort (errmsg st) st))
     | Some _ \<Rightarrow> Some (0, cookie (set_up_world (if 0 \<le> zip_fd (ue_zip E) then snd (os_close (ue_sys E) (zip_fd (ue_zip E)) (up_world st))
                                                  else up_world st) st)))"

text \<open>
  \<open>main\<close> of the updater: the arguments, the script of the package, its parser, the evaluation. \<open>opened\<close> is
  whether the package could be opened as \<open>ue_zip\<close>, \<open>parse\<close> the parser with the table of functions, of which
  the device registers more, \<open>extensions\<close>.
\<close>

definition updater_main ::
  "('w, 'c, 's, 'z, 'y) updater_env \<Rightarrow> bool \<Rightarrow> (string \<times> updater_fn fnptr) list \<Rightarrow>
   (updater_fn fnptr fn_tab \<Rightarrow> string \<Rightarrow> updater_fn fnptr Expr option) \<Rightarrow> string list \<Rightarrow> 'w updater_info \<Rightarrow> (int \<times> 'w updater_info) option" where
  "updater_main E opened extensions parse args u =
     (if length args \<noteq> 4 then Some (1, u)
      else if args ! 1 \<notin> {''1'', ''2'', ''3''} then Some (2, u)
      else if \<not> opened then Some (3, u)
      else
        Option.bind (find_zip_entry (ue_zip E) SCRIPT_NAME) (\<lambda>e.
        case e of
          None \<Rightarrow> Some (4, u)
        | Some entry \<Rightarrow>
            let A = ue_archive E; w = ph_world (up u) in
            Option.bind (os_malloc (ue_sys E) (uncompLen entry + 1) w) (\<lambda>buf.
            Option.bind (mzReadZipEntry (ar_read A) (ar_inflate A) (ar_init A entry) (ar_off A) entry buf (uncompLen entry)) (\<lambda>(ok, data).
            if \<not> ok then Some (5, u)
            else
              let text = C_Strings.c_string (text_of (take (nat (uncompLen entry)) data)) in
              Option.bind (RegisterBuiltins empty_table) (\<lambda>t.
              Option.bind (RegisterInstallFunctions t) (\<lambda>t.
              Option.bind (register_all extensions t) (\<lambda>t.
              case parse (FinishRegistration t) text of
                None \<Rightarrow> Some (6, u)
              | Some root \<Rightarrow> run_script E root text u)))))))"

end
