(* ===== verification/Updater_Pipe.thy ===== *)
theory Updater_Pipe
  imports Updater
begin

text \<open>
  The two programs together: what the updater writes to the pipe, whatever the script, is what the
  recovery expects there; and \<open>file_getprop\<close> reads a file of properties.
\<close>

section \<open>The commands of the pipe\<close>

inductive command_line :: "string \<Rightarrow> bool" where
  progress: "is_token space_nl a \<Longrightarrow> is_token space_nl b \<Longrightarrow> command_line (''progress '' @ a @ CHR '' '' # b)"
| set_progress: "is_token space_nl a \<Longrightarrow> command_line (''set_progress '' @ a)"
| ui_print: "is_token is_nl s \<Longrightarrow> command_line (''ui_print '' @ s)"
| ui_print_end: "command_line ''ui_print''"
| wipe_cache: "command_line ''wipe_cache''"

definition pipe_ok :: "'w updater_info \<Rightarrow> bool" where
  "pipe_ok u \<longleftrightarrow> list_all command_line (cmd_pipe u)"

text \<open>What a computation leaves in the cookie when it returns.\<close>

definition post :: "('c \<Rightarrow> bool) \<Rightarrow> ('v \<times> 'c State) option \<Rightarrow> bool" where
  "post P m \<longleftrightarrow> (\<forall>v st. m = Some (v, st) \<longrightarrow> P (cookie st))"

definition arg_post :: "('c \<Rightarrow> bool) \<Rightarrow> 'c arg \<Rightarrow> bool" where
  "arg_post P a \<longleftrightarrow> (\<forall>st. P (cookie st) \<longrightarrow> post P (arg_eval a st))"

named_theorems post_rules

lemma post_Some [post_rules]: "P (cookie st) \<Longrightarrow> post P (Some (v, st))"
  by (simp add: post_def)

lemma post_None [post_rules]: "post P None"
  by (simp add: post_def)

lemma post_then [post_rules]: "post P m \<Longrightarrow> (\<And>v st. P (cookie st) \<Longrightarrow> post P (f v st)) \<Longrightarrow> post P (then_run m f)"
  by (auto simp: post_def then_run_def split: option.splits)

lemma post_bind [post_rules]: "(\<And>x. post P (f x)) \<Longrightarrow> post P (Option.bind m f)"
  by (auto simp: post_def bind_eq_Some_conv)

lemma post_if [post_rules]: "(c \<Longrightarrow> post P a) \<Longrightarrow> (\<not> c \<Longrightarrow> post P b) \<Longrightarrow> post P (if c then a else b)"
  by simp

lemma post_option [post_rules]: "post P a \<Longrightarrow> (\<And>x. post P (f x)) \<Longrightarrow> post P (case v of None \<Rightarrow> a | Some x \<Rightarrow> f x)"
  by (cases v) simp_all

lemma post_prod [post_rules]: "(\<And>x y. post P (f x y)) \<Longrightarrow> post P (case p of (x, y) \<Rightarrow> f x y)"
  by (cases p) simp

lemma post_sum [post_rules]: "(\<And>x. post P (f x)) \<Longrightarrow> (\<And>x. post P (g x)) \<Longrightarrow> post P (case v of Inl x \<Rightarrow> f x | Inr x \<Rightarrow> g x)"
  by (cases v) simp_all

lemma post_let [post_rules]: "post P (f x) \<Longrightarrow> post P (Let x f)"
  by simp

lemma post_map [post_rules]: "P (cookie st) \<Longrightarrow> post P (map_option (\<lambda>v. (g v, st)) m)"
  by (auto simp: post_def)

lemma post_Evaluate [post_rules]: "arg_post P a \<Longrightarrow> P (cookie st) \<Longrightarrow> post P (Evaluate a st)"
  unfolding Evaluate_def by (intro post_rules) (auto simp: arg_post_def ErrorAbort_def)

lemma post_EvaluateAt [post_rules]: "list_all (arg_post P) args \<Longrightarrow> P (cookie st) \<Longrightarrow> post P (EvaluateAt args i st)"
  unfolding EvaluateAt_def by (intro post_rules) (auto simp: list_all_length)

lemma post_EvaluateValueAt [post_rules]: "list_all (arg_post P) args \<Longrightarrow> P (cookie st) \<Longrightarrow> post P (EvaluateValueAt args i st)"
  unfolding EvaluateValueAt_def by (intro post_rules) (auto simp: list_all_length arg_post_def)

lemma post_read_loop:
  assumes "\<And>a st. arg_post P a \<Longrightarrow> P (cookie st) \<Longrightarrow> post P (ev a st)"
  shows "list_all (arg_post P) args \<Longrightarrow> P (cookie st) \<Longrightarrow> post P (read_loop ev n args st)"
  using assms
proof (induction ev n args st rule: read_loop.induct)
  case (3 ev n a as st)
  show ?case unfolding read_loop.simps by (intro post_rules "3.IH") (use 3 in auto)
qed (auto intro: post_rules)

lemma post_readers [post_rules]:
  assumes "list_all (arg_post P) args" "P (cookie st)"
  shows "post P (ReadArgs n args st)" "post P (ReadVarArgs args st)" "post P (ReadValueArgs n args st)" "post P (ReadValueVarArgs args st)"
  unfolding ReadArgs_def ReadVarArgs_def ReadValueArgs_def ReadValueVarArgs_def
  by (rule post_read_loop [OF _ assms]; simp add: post_Evaluate arg_post_def)+

lemma post_assert_loop: "list_all (arg_post P) args \<Longrightarrow> P (cookie st) \<Longrightarrow> post P (assert_loop args st)"
proof (induction args arbitrary: st)
  case (Cons a as)
  show ?case unfolding assert_loop.simps by (intro post_rules Cons.IH) (use Cons.prems in auto)
qed (auto intro: post_rules)

lemma post_stdout_loop: "list_all (arg_post P) args \<Longrightarrow> P (cookie st) \<Longrightarrow> post P (stdout_loop args st)"
proof (induction args arbitrary: st)
  case (Cons a as)
  show ?case unfolding stdout_loop.simps by (intro post_rules Cons.IH) (use Cons.prems in auto)
qed (auto intro: post_rules)

lemma post_LessThanIntFn: "list_all (arg_post P) args \<Longrightarrow> P (cookie st) \<Longrightarrow> post P (LessThanIntFn nm args st)"
  unfolding LessThanIntFn_def by (intro post_rules) (auto simp: not_an_int_def)

text \<open>The functions of the language itself do not touch the cookie.\<close>

lemma builtin_post:
  assumes ext: "\<And>x. post P (ext x nm args st)" and args: "list_all (arg_post P) args" and P: "P (cookie st)"
  shows "post P (call_fn ext f nm args st)"
proof (cases f)
  case PGreaterThanIntFn
  have "post P (LessThanIntFn nm [args ! 1, args ! 0] st)" if "length args = 2"
    by (rule post_LessThanIntFn) (use that args P in \<open>auto simp: list_all_length less_Suc_eq\<close>)
  then show ?thesis unfolding PGreaterThanIntFn call_fn.simps GreaterThanIntFn_def by (intro post_rules) (use P in auto)
next
  case PConcatFn
  show ?thesis unfolding PConcatFn call_fn.simps ConcatFn_def
    by (intro post_rules post_read_loop) (use args P in \<open>auto intro: post_rules\<close>)
qed (use args P ext in \<open>auto simp: Literal_def IfElseFn_def AbortFn_def AssertFn_def SleepFn_def StdoutFn_def LogicalAndFn_def LogicalOrFn_def
      LogicalNotFn_def SubstringFn_def EqualityFn_def InequalityFn_def SequenceFn_def
      intro!: post_rules post_assert_loop post_stdout_loop post_LessThanIntFn\<close>)

section \<open>The functions of the updater keep the pipe\<close>

lemma pipe_ok_state [simp]:
  "pipe_ok (cookie (set_up p st)) = pipe_ok (cookie st)" "pipe_ok (cookie (set_up_world w st)) = pipe_ok (cookie st)"
  "pipe_ok (cookie (ErrorAbort st msg)) = pipe_ok (cookie st)"
  by (simp_all add: pipe_ok_def set_up_def set_up_world_def ErrorAbort_def)

lemma pipe_ok_send [simp]: "pipe_ok (cookie (send l st)) \<longleftrightarrow> pipe_ok (cookie st) \<and> command_line l"
  by (auto simp: pipe_ok_def send_def)

lemma post_ret [post_rules]: "P (cookie st) \<Longrightarrow> post P (ret s st)"
  by (simp add: ret_def post_def)

lemma post_abort [post_rules]: "P (cookie st) \<Longrightarrow> post P (abort msg st)"
  by (simp add: abort_def ErrorAbort_def post_def)

lemma post_on_up [post_rules]: "pipe_ok (cookie st) \<Longrightarrow> post pipe_ok (on_up f st)"
  by (auto simp: post_def on_up_def)

lemma post_on_prog [post_rules]: "pipe_ok (cookie st) \<Longrightarrow> post pipe_ok (on_prog f st)"
  by (auto simp: post_def on_prog_def pipe_ok_def Let_def)

lemma post_with_args [post_rules]:
  "list_all (arg_post P) args \<Longrightarrow> P (cookie st) \<Longrightarrow> (\<And>xs st. P (cookie st) \<Longrightarrow> post P (f xs st)) \<Longrightarrow> post P (with_args n args f st)"
  unfolding with_args_def by (intro post_rules)

lemma post_eval_paths: "list_all (arg_post P) args \<Longrightarrow> P (cookie st) \<Longrightarrow> post P (eval_paths i args st)"
proof (induction args arbitrary: st i)
  case (Cons a as)
  show ?case unfolding eval_paths.simps by (intro post_rules Cons.IH) (use Cons.prems in auto)
qed (auto intro: post_rules)

lemma strtoks_tokens: "t \<in> set (strtoks D s) \<Longrightarrow> is_token D t"
proof (induction D s rule: strtoks.induct)
  case (1 D s)
  show ?case
  proof (cases "strtok D s")
    case None
    then show ?thesis using "1.prems" by (simp add: strtoks.simps [of D s])
  next
    case (Some x)
    obtain u r where x: "x = (u, r)" by (cases x)
    have "is_token D u"
      using Some hd_dropWhile [of D s] x by (cases "dropWhile D s") (auto simp: strtok_def Let_def is_token_def list_all_iff dest: set_takeWhileD split: if_splits)
    then show ?thesis using 1 Some x by (auto simp: strtoks.simps [of D s])
  qed
qed

lemma pipe_ok_send_lines [simp]:
  fixes st :: "'a ustate"
  shows "pipe_ok (cookie st) \<Longrightarrow> pipe_ok (cookie (send_lines s st))"
proof -
  define pre where "pre = ''ui_print ''"
  have line: "is_token is_nl l \<Longrightarrow> command_line (pre @ l)" for l
    unfolding pre_def by (rule command_line.ui_print)
  have "list_all (is_token is_nl) ls \<Longrightarrow> pipe_ok (cookie st) \<Longrightarrow> pipe_ok (cookie (fold (\<lambda>l. send (pre @ l)) ls st))" for ls and st :: "'a ustate"
    by (induction ls arbitrary: st) (simp_all add: line)
  then show "pipe_ok (cookie st) \<Longrightarrow> ?thesis"
    unfolding send_lines_def pre_def [symmetric] by (simp add: list_all_iff strtoks_tokens)
qed

lemma show_int_token: "is_token space_nl (show_int v)"
proof -
  have "\<forall>c \<in> set (show_nat n). \<not> space_nl c" for n using show_nat_digits [of n] by (auto simp: space_nl_def isdigit_def)
  then show ?thesis using show_nat_nonempty by (auto simp: is_token_def show_int_def list_all_iff space_nl_def)
qed

lemma updater_post:
  assumes pf: "\<And>s. is_token space_nl (ue_percent_f E s)"
    and args: "list_all (arg_post pipe_ok) args" and P: "pipe_ok (cookie st)"
  shows "post pipe_ok (updater_call E x nm args st)"
proof (cases x)
  case UShowProgress
  have "command_line (''progress '' @ ue_percent_f E a @ CHR '' '' # show_int b)" for a b
    by (rule command_line.progress [OF pf show_int_token])
  then show ?thesis unfolding UShowProgress updater_call.simps ShowProgressFn_def by (intro post_rules) (use args P in auto)
next
  case USetProgress
  have "command_line (''set_progress '' @ ue_percent_f E a)" for a by (rule command_line.set_progress [OF pf])
  then show ?thesis unfolding USetProgress updater_call.simps SetProgressFn_def by (intro post_rules) (use args P in auto)
next
  case UUIPrint
  show ?thesis unfolding UUIPrint updater_call.simps UIPrintFn_def
    by (intro post_rules) (use args P command_line.ui_print_end in auto)
next
  case UWipeCache
  show ?thesis unfolding UWipeCache updater_call.simps WipeCacheFn_def
    by (intro post_rules) (use args P command_line.wipe_cache in auto)
qed (simp_all only: updater_call.simps MountFn_def IsMountedFn_def UnmountFn_def FormatFn_def DeleteFn_def PackageExtractDirFn_def
    PackageExtractFileFn_def SymlinkFn_def SetPermFn_def GetPropFn_def FileGetPropFn_def WriteRawImageFn_def ApplyPatchFn_def
    ApplyPatchCheckFn_def ApplyPatchSpaceFn_def ReadFileFn_def Sha1CheckFn_def RunProgramFn_def,
  (intro post_rules post_eval_paths; use args P in \<open>auto simp: list_all_iff dest: in_set_dropD list.set_sel(2)\<close>)+)


text \<open>Every expression, by induction on it.\<close>

lemma expression_post:
  assumes "\<And>s. is_token space_nl (ue_percent_f E s)"
  shows "arg_post pipe_ok (arg_of (call_fn (updater_call E)) e)"
proof (induction e)
  case (Expr f nm args s e)
  have "post pipe_ok (EvaluateValue (call_fn (updater_call E)) (Expr f nm args s e) st)" if "pipe_ok (cookie st)" for st
    unfolding EvaluateValue.simps arg_of_def [symmetric]
    by (rule builtin_post; (rule updater_post)?) (use assms that Expr.IH in \<open>auto simp: list_all_iff\<close>)
  then show ?case by (simp add: arg_post_def arg_of_def)
qed

lemma run_script_pipe:
  assumes "\<And>s. is_token space_nl (ue_percent_f E s)" "pipe_ok u" "run_script E root text u = Some (status, u')"
  shows "pipe_ok u'"
proof -
  have "command_line (''ui_print '' @ ''script aborted (no error message)'')"
    by (rule command_line.ui_print) (simp add: is_token_def is_nl_def)
  then have "pipe_ok (cookie (report_abort msg st))" if "pipe_ok (cookie st)" for msg st
    using that command_line.ui_print_end by (simp add: report_abort_def split: option.splits)
  moreover have "post pipe_ok (Evaluate (arg_of (call_fn (updater_call E)) root) \<lparr>cookie = u, script = text, errmsg = None, effects = []\<rparr>)"
    by (intro post_rules expression_post assms(1)) (simp add: assms(2))
  ultimately show ?thesis
    using assms(3) by (auto simp: run_script_def bind_eq_Some_conv post_def split: option.splits)
qed

section \<open>What the recovery makes of the commands\<close>

text \<open>The strings that \<open>fgets\<close> with a buffer of \<open>n\<close> characters returns for a text.\<close>

definition fgets_one :: "nat \<Rightarrow> string \<Rightarrow> string" where
  "fgets_one n s =
     (let l = takeWhile (\<lambda>c. c \<noteq> NL) s in take (n - 1) (if length l < length s then l @ [NL] else l))"

lemma fgets_one_nonempty: "s \<noteq> [] \<Longrightarrow> 2 \<le> n \<Longrightarrow> fgets_one n s \<noteq> []"
  by (cases s) (auto simp: fgets_one_def Let_def)

function fgets_all :: "nat \<Rightarrow> string \<Rightarrow> string list" where
  "fgets_all n s = (if s = [] \<or> n < 2 then [] else fgets_one n s # fgets_all n (drop (length (fgets_one n s)) s))"
  by pat_completeness auto
termination
  by (relation "measure (\<lambda>(n, s). length s)") (auto simp: not_less fgets_one_nonempty)

declare fgets_all.simps [simp del]

lemma fgets_all_line:
  assumes "NL \<notin> set l" "length l < n - 1"
  shows "fgets_all n (l @ NL # r) = (l @ [NL]) # fgets_all n r"
proof -
  have "takeWhile (\<lambda>c. c \<noteq> NL) (l @ NL # r) = l" using assms(1) by (auto simp: takeWhile_tail intro: takeWhile_eq_all_conv [THEN iffD2])
  then have "fgets_one n (l @ NL # r) = l @ [NL]" using assms(2) by (simp add: fgets_one_def)
  then show ?thesis using assms(2) by (simp add: fgets_all.simps [of n "l @ NL # r"])
qed

definition pipe_text :: "string list \<Rightarrow> string" where
  "pipe_text ls = concat (map (\<lambda>l. l @ [NL]) ls)"

lemma command_line_ok:
  assumes "command_line l"
  shows "NL \<notin> set l" "child_command sys w (l @ [NL]) fw = Some fw"
proof -
  have t: "strtok space_nl (a @ CHR '' '' # r) = Some (a, r)" "strtok space_nl (a @ NL # r) = Some (a, r)" if "is_token space_nl a" for a r
    using that strtok_token [of space_nl a] by (simp_all add: space_nl_def)
  have sn: "NL \<notin> set a" if "is_token space_nl a" for a
    using that by (auto simp: is_token_def list_all_iff space_nl_def)
  note tok = is_token_def space_nl_def
  from assms show "NL \<notin> set l"
    by cases (auto simp: tok list_all_iff is_nl_def)
  from assms show "child_command sys w (l @ [NL]) fw = Some fw"
  proof cases
    case (progress a b)
    have "strtok space_nl (l @ [NL]) = Some (''progress'', a @ CHR '' '' # b @ [NL])"
      using t(1) [of "''progress''" "a @ CHR '' '' # b @ [NL]"] unfolding progress by (simp add: tok)
    then show ?thesis using t(1) [OF progress(2), of "b @ [NL]"] t(2) [OF progress(3), of "[]"] by (simp add: child_command_def)
  next
    case (set_progress a)
    have "strtok space_nl (l @ [NL]) = Some (''set_progress'', a @ [NL])"
      using t(1) [of "''set_progress''" "a @ [NL]"] unfolding set_progress by (simp add: tok)
    then show ?thesis using t(2) [OF set_progress(2), of "[]"] by (simp add: child_command_def)
  next
    case (ui_print s)
    have "strtok space_nl (l @ [NL]) = Some (''ui_print'', s @ [NL])"
      using t(1) [of "''ui_print''" "s @ [NL]"] unfolding ui_print by (simp add: tok)
    then show ?thesis by (simp add: child_command_def)
  next
    case ui_print_end
    then show ?thesis using t(2) [of "''ui_print''" "[]"] by (simp add: tok child_command_def)
  next
    case wipe_cache
    then show ?thesis using t(2) [of "''wipe_cache''" "[]"] by (simp add: tok child_command_def)
  qed
qed

lemma pipe_read:
  assumes "list_all command_line ls" "list_all (\<lambda>l. length l < 1023) ls"
  shows "child_commands sys w (fgets_all 1024 (pipe_text ls)) fw = Some fw"
  using assms
proof (induction ls)
  case (Cons l ls)
  then have "command_line l" "length l < 1024 - 1" by auto
  then show ?case using Cons
    by (simp add: pipe_text_def fgets_all_line command_line_ok)
qed (simp add: pipe_text_def fgets_all.simps [of _ "[]"])


section \<open>A run of the program\<close>

definition quiet_tree :: "'w tree_ops" where
  "quiet_tree = \<lparr>t_lstat = \<lambda>p w. None, t_unlink = \<lambda>p w. (- 1, w), t_rmdir = \<lambda>p w. (- 1, w), t_opendir = \<lambda>p w. None,
     t_closedir = \<lambda>p w. 0, t_chown = \<lambda>p u g w. (- 1, w), t_chmod = \<lambda>p m w. (- 1, w)\<rparr>"

definition quiet_target :: "'w target_fs" where
  "quiet_target = \<lparr>fs_stat = \<lambda>p w. NoEntry, fs_mkdir = \<lambda>p m w. (False, w), fs_utime = \<lambda>p w. (False, w),
     fs_creat = \<lambda>p m w. (- 1, w), fs_write = \<lambda>f d w. (- 1, False, w), fs_close = \<lambda>f w. w, fs_symlink = \<lambda>s t w. (False, w),
     fs_malloc = \<lambda>n. True\<rparr>"

definition sample_updater :: "'w os \<Rightarrow> ('w, byte list, unit, unit, unit) updater_env" where
  "sample_updater sys = \<lparr>ue_env = toy_env sys, ue_codecs = no_codecs, ue_tree = quiet_tree, ue_target = quiet_target,
     ue_archive = \<lparr>ar_read = \<lambda>o' n. (0, []), ar_inflate = \<lambda>z i n. (0, 0, [], z), ar_init = \<lambda>e. (0, ()), ar_off = 0\<rparr>,
     ue_zip = \<lparr>zip_fd = - 1, zip_parsed = ([], \<lparr>tableSize = 0, numEntries = 0, numDeadEntries = 0, pEntries = [], freeFunc = False\<rparr>)\<rparr>,
     ue_eintr = \<lambda>w. False, ue_property = \<lambda>k. [], ue_run = \<lambda>a w. (0, w), ue_percent_f = \<lambda>s. ''0.500000'', ue_strerror = \<lambda>w. ''error'',
     ue_enoent = \<lambda>p w. True, ue_eexist = \<lambda>p w. True\<rparr>"

text \<open>\<^verbatim>\<open>show_progress("0.5", "10"); ui_print("two\nlines"); wipe_cache(); abort("bye")\<close>\<close>

definition sample_script :: "updater_fn fnptr Expr" where
  "sample_script =
     (let lit = \<lambda>s. Expr PLiteral s [] 0 0; call = \<lambda>f nm as. Expr f nm as 0 0; seq = \<lambda>a b. Expr PSequenceFn ''(operator)'' [a, b] 0 0 in
      seq (call (PExt UShowProgress) ''show_progress'' [lit ''0.5'', lit ''10''])
     (seq (call (PExt UUIPrint) ''ui_print'' [lit (''two'' @ [NL] @ ''lines'')])
     (seq (call (PExt UWipeCache) ''wipe_cache'' []) (call PAbortFn ''abort'' [lit ''bye'']))))"

definition sample_info :: "unit updater_info" where
  "sample_info = \<lparr>up = empty_phone, scanned = False, cmd_pipe = []\<rparr>"

lemma sample_script_run:
  "map_option (\<lambda>(status, u). (status, cmd_pipe u)) (run_script (sample_updater null_os) sample_script [] sample_info) =
     Some (7, [''progress 0.500000 10'', ''ui_print two'', ''ui_print lines'', ''ui_print'', ''wipe_cache'', ''ui_print bye'', ''ui_print''])"
  by code_simp


section \<open>Files of properties\<close>

text \<open>A key and a value as they stand in such a file: no blanks around them, no equals sign in the key.\<close>

definition bare :: "string \<Rightarrow> bool" where
  "bare s \<longleftrightarrow> (s \<noteq> [] \<longrightarrow> \<not> isspace (hd s) \<and> \<not> isspace (last s)) \<and> NL \<notin> set s \<and> NUL \<notin> set s"

definition wf_prop :: "string \<times> string \<Rightarrow> bool" where
  "wf_prop p \<longleftrightarrow> bare (fst p) \<and> bare (snd p) \<and> fst p \<noteq> [] \<and> hd (fst p) \<noteq> CHR ''#'' \<and> CHR ''='' \<notin> set (fst p)"

definition prop_line :: "string \<times> string \<Rightarrow> string" where
  "prop_line p = fst p @ '' = '' @ snd p"

definition prop_text :: "(string \<times> string) list \<Rightarrow> string" where
  "prop_text es = concat (map (\<lambda>p. prop_line p @ [NL]) es)"

lemma dropWhile_hd: "s \<noteq> [] \<Longrightarrow> \<not> P (hd s) \<Longrightarrow> dropWhile P (s @ r) = s @ r"
  by (cases s) auto

lemma trim_bare: "bare s \<Longrightarrow> trim_end s = s" "bare s \<Longrightarrow> s \<noteq> [] \<Longrightarrow> trim_end (s @ '' '') = s"
  "bare s \<Longrightarrow> trim_end (dropWhile isspace (CHR '' '' # s)) = s"
proof -
  have b: "isspace CHR '' ''" by (simp add: isspace_def)
  have d: "dropWhile isspace (rev s) = rev s" if "bare s"
    using that dropWhile_hd [of "rev s" isspace "[]"] by (cases "s = []") (auto simp: bare_def hd_rev)
  then show t: "bare s \<Longrightarrow> trim_end s = s" by (simp add: trim_end_def)
  show "bare s \<Longrightarrow> s \<noteq> [] \<Longrightarrow> trim_end (s @ '' '') = s" using d b by (simp add: trim_end_def)
  show "bare s \<Longrightarrow> trim_end (dropWhile isspace (CHR '' '' # s)) = s"
    using t b dropWhile_hd [of s isspace "[]"] by (cases "s = []") (auto simp: bare_def)
qed

lemma find_property_line:
  assumes "wf_prop p"
  shows "find_property key (prop_line p # ls) = (if fst p = key then Inr (Some (snd p)) else find_property key ls)"
proof -
  obtain k v where p: "p = (k, v)" by fastforce
  from assms have k: "bare k" "bare v" "k \<noteq> []" "hd k \<noteq> CHR ''#''" "CHR ''='' \<notin> set k" by (auto simp: wf_prop_def p)
  define l where "l = prop_line p"
  have l: "l = (k @ '' '') @ CHR ''='' # CHR '' '' # v" by (simp add: l_def prop_line_def p)
  have ne: "\<forall>c \<in> set (k @ '' ''). c \<noteq> CHR ''=''" using k(5) by auto
  have d: "dropWhile isspace l = l" unfolding l append_assoc by (rule dropWhile_hd) (use k in \<open>auto simp: bare_def\<close>)
  have tk: "takeWhile (\<lambda>c. c \<noteq> CHR ''='') l = k @ '' ''" "dropWhile (\<lambda>c. c \<noteq> CHR ''='') l = CHR ''='' # CHR '' '' # v"
    unfolding l using ne takeWhile_append2 [of "k @ '' ''" "\<lambda>c. c \<noteq> CHR ''=''"] dropWhile_append2 [of "k @ '' ''" "\<lambda>c. c \<noteq> CHR ''=''"] by simp_all
  have h: "l \<noteq> []" "hd l \<noteq> CHR ''#''" "CHR ''='' \<in> set l" using k unfolding l by (auto simp: hd_append)
  show ?thesis unfolding l_def [symmetric] find_property.simps Let_def d tk
    using h trim_bare(2) [OF k(1,3)] trim_bare(3) [OF k(2)] by (simp add: p)
qed

lemma find_property_all: "list_all wf_prop es \<Longrightarrow> find_property key (map prop_line es) = Inr (map_of es key)"
  by (induction es) (auto simp del: find_property.simps simp add: find_property_line find_property.simps(1))

lemma prop_text_lines: "list_all wf_prop es \<Longrightarrow> strtoks is_nl (prop_text es) = map prop_line es"
  using strtoks_lines [of is_nl NL "map prop_line es"]
  by (simp add: prop_text_def is_nl_def comp_def list_all_iff is_token_def prop_line_def wf_prop_def bare_def) blast

lemma prop_text_no_NUL: "list_all wf_prop es \<Longrightarrow> NUL \<notin> set (prop_text es)"
  by (auto simp: prop_text_def prop_line_def list_all_iff wf_prop_def bare_def)

text \<open>What the function relies on to read a file: its size, the memory, and that the reads give all of it.\<close>

definition readable :: "'w os \<Rightarrow> string \<Rightarrow> byte list \<Rightarrow> 'w \<Rightarrow> bool" where
  "readable sys path d w \<longleftrightarrow>
     (\<exists>st. os_stat sys path w = Some st \<and> st_size st = int (length d)) \<and> os_malloc sys (int (length d) + 1) w \<noteq> None \<and>
     (\<exists>f w1. os_fopen sys path False w = (Some f, w1) \<and> fst (os_fread sys f (int (length d)) w1) = d)"

text \<open>
  C37: \<open>file_getprop\<close> finds what a file of properties defines: the value of the first line with the key, or the
  empty string if there is none, for every file of lines of the form \<^verbatim>\<open>key = value\<close> up to 64 KB.
\<close>

theorem file_getprop_finds:
  assumes "list_all wf_prop es" "es \<noteq> []" "length (prop_text es) \<le> 65536" "readable (ue_sys E) path (bytes_of (prop_text es)) w"
  shows "\<exists>w'. file_property E nm path key w = Some (Inr (case map_of es key of None \<Rightarrow> [] | Some v \<Rightarrow> v), w')"
proof -
  define d where "d = bytes_of (prop_text es)"
  have len: "length d = length (prop_text es)" by (simp add: d_def bytes_of_def)
  obtain st f w1 where st: "os_stat (ue_sys E) path w = Some st" "st_size st = int (length d)"
    and m: "os_malloc (ue_sys E) (int (length d) + 1) w \<noteq> None"
    and f: "os_fopen (ue_sys E) path False w = (Some f, w1)" "fst (os_fread (ue_sys E) f (int (length d)) w1) = d"
    using assms(4) unfolding readable_def d_def [symmetric] by blast
  obtain w2 where r: "os_fread (ue_sys E) f (int (length d)) w1 = (d, w2)" using f(2) by (metis prod.collapse)
  have ls: "strtoks is_nl (C_Strings.c_string (text_of d)) = map prop_line es"
    using prop_text_no_NUL [OF assms(1)] prop_text_lines [OF assms(1)] by (simp add: d_def c_string_def takeWhile_eq_all_conv)
  have sz: "\<not> MAX_FILE_GETPROP_SIZE < st_size st" using st(2) assms(3) len by (simp add: MAX_FILE_GETPROP_SIZE_def)
  show ?thesis
    using st m f r assms(2) sz unfolding file_property_def Let_def by (simp add: ls find_property_all [OF assms(1)])
qed

definition prop_os :: "string \<Rightarrow> unit os" where
  "prop_os s = null_os\<lparr>os_malloc := \<lambda>n w. Some [], os_stat := \<lambda>p w. Some \<lparr>st_mode = 0, st_uid = 0, st_gid = 0, st_size = int (length s), st_reg = True\<rparr>,
     os_fopen := \<lambda>p m w. (Some 3, w), os_fread := \<lambda>f n w. (bytes_of s, w)\<rparr>"

theorem file_getprop_finds_witness:
  "\<exists>w'. file_property (sample_updater (prop_os (prop_text [(''a.b'', ''x y''), (''c'', [])]))) ''file_getprop'' ''/p'' ''a.b'' () = Some (Inr ''x y'', w')"
proof -
  define es where "es = [(''a.b'', ''x y''), (''c'', [])]"
  have "list_all wf_prop es" "es \<noteq> []" "length (prop_text es) \<le> 65536" unfolding es_def by code_simp+
  moreover have "readable (ue_sys (sample_updater (prop_os (prop_text es)))) ''/p'' (bytes_of (prop_text es)) ()"
    by (simp add: readable_def sample_updater_def toy_env_laws prop_os_def)
  moreover have "map_of es ''a.b'' = Some ''x y''" unfolding es_def by code_simp
  ultimately show ?thesis
    using file_getprop_finds [of es "sample_updater (prop_os (prop_text es))" "''/p''" "()" "''file_getprop''" "''a.b''"] unfolding es_def by simp
qed

end
