(* ===== verification/Spec2Isabelle.thy ===== *)
theory Spec2Isabelle
  imports Edify Hash_Table Patch_Safety Install Updater_Pipe
begin

text \<open>
  The touch recovery of an Android device: a program that starts instead of the system, installs signed
  update packages, patches files and raw flash partitions, wipes and formats volumes and talks to the
  bootloader through the misc partition. This development models the parts of the sources (C, for a 32-bit
  ARM target) that decide what is written to the device, and proves what makes them correct.

  \<^bold>\<open>The program and the theories.\<close> In the order of the imports:

  \<^item> \<^verbatim>\<open>Recovery_Prelude\<close>, \<^verbatim>\<open>C_Strings\<close>, \<^verbatim>\<open>Sys_Calls\<close>: 32-bit integers, \<open>strcmp\<close>, \<open>strtol\<close>, \<open>strtok\<close>, the
    conversions of \<open>sscanf\<close> and \<open>printf\<close> the sources use, and the record \<open>os\<close> with one field per call of the
    kernel or of the standard library that does input or output.
  \<^item> \<^verbatim>\<open>Edify\<close> (\<^verbatim>\<open>edify/expr.c\<close>, \<^verbatim>\<open>expr.h\<close>): values, expressions, the builtin functions, the table of functions. The
    evaluator keeps its state and never reads outside the script or its arguments, computes the denotation of
    an expression, and \<open>FindFunction\<close> returns what was registered.
  \<^item> \<^verbatim>\<open>Byte_Codec\<close> (\<^verbatim>\<open>minzip/Bits.h\<close>, \<^verbatim>\<open>applypatch/utils.c\<close>, \<open>offtin\<close>, \<open>offtout\<close>), \<^verbatim>\<open>Hash_Table\<close> (\<^verbatim>\<open>minzip/Hash.c\<close>),
    \<^verbatim>\<open>Zip_Archive\<close>, \<^verbatim>\<open>Zip_Extract\<close>, \<^verbatim>\<open>Zip_Recursive\<close> (\<^verbatim>\<open>minzip/Zip.c\<close>), \<^verbatim>\<open>DirUtil\<close>, \<^verbatim>\<open>Dir_Trees\<close> (\<^verbatim>\<open>minzip/DirUtil.c\<close>):
    packages. The hash table refines a finite set under an invariant; parsing reads only inside the file and the
    lookup finds every entry; extraction writes the contents that were compressed; creating and removing
    directory trees does what it says and ends.
  \<^item> \<^verbatim>\<open>Verifier\<close> (\<^verbatim>\<open>verifier.c\<close>), \<^verbatim>\<open>Load_Keys\<close> and \<^verbatim>\<open>Install\<close> (\<^verbatim>\<open>install.c\<close>, \<^verbatim>\<open>firmware.c\<close>): the signature of a package
    covers all of it but the comment that holds the signature, the file of keys is read back as it was
    written, and nothing of a package runs unless its signature was accepted, the check is switched off or the
    user agreed.
  \<^item> \<^verbatim>\<open>Sinks\<close>, \<^verbatim>\<open>Bspatch\<close>, \<^verbatim>\<open>Imgpatch\<close>, \<^verbatim>\<open>Retouch\<close>, \<^verbatim>\<open>Freecache\<close>, \<^verbatim>\<open>Patch_Files\<close>, \<^verbatim>\<open>Applypatch\<close>, \<^verbatim>\<open>Patch_Safety\<close> (the directories
    \<^verbatim>\<open>applypatch\<close> and \<^verbatim>\<open>minelf\<close>): the patchers implement the meaning of a patch, a run that reports success has
    written data with the requested digest, and a run that fails at any call leaves a copy of the source.
  \<^item> \<^verbatim>\<open>Mtd_Utils\<close>, \<^verbatim>\<open>Mtd_Flash\<close>, \<^verbatim>\<open>Mtd_Table\<close> (\<^verbatim>\<open>mtdutils/mtdutils.c\<close>), \<^verbatim>\<open>Mmc_Utils\<close> (\<^verbatim>\<open>mmcutils/mmcutils.c\<close>), \<^verbatim>\<open>Flash_Utils\<close>
    (\<^verbatim>\<open>bmlutils\<close>, \<^verbatim>\<open>flashutils\<close>): raw partitions. What is written to flash is read back around bad blocks; the tables
    of partitions are read without leaving their arrays.
  \<^item> \<^verbatim>\<open>Mounts\<close> (\<^verbatim>\<open>mounts.c\<close>), \<^verbatim>\<open>Roots\<close> (\<^verbatim>\<open>roots.c\<close>), \<^verbatim>\<open>Format\<close> (\<^verbatim>\<open>eraseandformat.c\<close>, \<open>format_volume\<close>): volumes. Mounting and
    unmounting keep their contract, the table of volumes is what the file says, a wipe spares \<^verbatim>\<open>/data/media\<close>.
  \<^item> \<^verbatim>\<open>Bootloader\<close> (\<^verbatim>\<open>bootloader.c\<close>), \<^verbatim>\<open>Recovery_Boot\<close> (\<^verbatim>\<open>recovery.c\<close>): the message in the misc partition is read back
    as it was written, an interrupted run starts again with the same arguments, and a finished one does not.
  \<^item> \<^verbatim>\<open>Updater\<close>, \<^verbatim>\<open>Updater_Pipe\<close> (\<^verbatim>\<open>updater/install.c\<close>, \<^verbatim>\<open>updater/updater.c\<close>): the functions that update scripts call and
    the program that runs a script, with every part above as its library; whatever a script does, the commands
    the updater sends are ones that \<^verbatim>\<open>install.c\<close> reads without using a missing argument.

  \<^bold>\<open>How the code is modelled.\<close> A structure is a record, a tagged union a datatype, a function of the C source
  one definition under its name. A static variable is a field of the state of its file, and the states nest:
  \<open>MtdState\<close> and \<open>MountsState\<close> in \<open>recovery\<close>, that in \<open>session\<close>, \<open>phone\<close>, \<open>installer\<close> and \<open>updater_info\<close>. The rest of
  the machine is the type variable \<open>'w\<close>, which only the calls of \<open>os\<close> change. Return codes are kept as they are.
  The outer \<open>option\<close> of an operation is \<open>None\<close> exactly where the C program has undefined behaviour (a read
  past a buffer, a null pointer, a double free) or, for a loop defined by \<open>partial_function\<close>, does not return;
  so a theorem whose conclusion is \<open>Some\<close> shows memory safety and termination too. Integers are words or have
  the wrap-around written out where the source can overflow them. No definition uses fuel.

  \<^bold>\<open>What is assumed.\<close> Code outside the repository (zlib, libbz2, mincrypt, the kernel, the parser that bison
  generates, the screen and the user) is an argument. Theorems that need more of it have named hypotheses:
  laws that state the documented behaviour (\<open>files_law\<close>, \<open>fgets_law\<close>, \<open>tree_law\<close>, \<open>malloc_law\<close>, the flash device of
  \<^verbatim>\<open>Mtd_Flash\<close>, and others), each with an instance in the witness of the theorem.

  \<^bold>\<open>Interfaces.\<close> The locales are the contracts between components: \<open>codec\<close>, \<open>hash_store\<close>, \<open>byte_sink\<close>, \<open>sink_invariant\<close>
  and \<open>atomic_sink\<close>, \<open>byte_source\<close>, \<open>content_consumer\<close>, \<open>message_store\<close>, \<open>edify_functions\<close> and \<open>edify_application\<close>.
  Each is interpreted on the definitions of the model.

  \<^bold>\<open>Not modelled.\<close> The screen and its menus (\<^verbatim>\<open>ui.c\<close>, \<^verbatim>\<open>minui\<close>, the menus of \<^verbatim>\<open>extendedcommands.c\<close>, \<^verbatim>\<open>recovery.c\<close> and
  \<^verbatim>\<open>eraseandformat.c\<close>, the settings), which draw and wait for keys and change nothing that another part reads except
  through the answers, which are arguments here; the debug bridge (\<^verbatim>\<open>minadbd\<close>), copied from another
  project; the tools that run on the host to make patches; logging.
\<close>

end
